(* ===== verification/Js_Prelude.thy ===== *)
theory Js_Prelude
  imports Complex_Main "HOL-Library.AList"
begin

text \<open>
  Shared vocabulary of the development. A JavaScript \<open>Map\<close>, \<open>Set\<close> or plain object is kept
  with its insertion order, because the code iterates over all three: a keyed collection is an
  association list (\<open>jmap\<close>) updated in place by \<open>AList.update\<close> (an existing key keeps
  its position, a new key goes last), a \<open>Set\<close> is a duplicate-free list.

  Strings are lists of code units below 256. Keys of plain objects are kept in insertion order;
  the reordering of integer-like keys that JavaScript performs is not modelled.
\<close>

section \<open>Collections of facts\<close>

named_theorems jmap_simps \<open>rewriting of lookups, keys and updates of ordered maps\<close>
named_theorems jset_simps \<open>rewriting of ordered duplicate-free sets\<close>

section \<open>Ordered maps\<close>

type_synonym 'a jmap = "(string \<times> 'a) list"

definition jget :: "'a jmap \<Rightarrow> string \<Rightarrow> 'a option" where
  "jget m k = map_of m k"

definition jset :: "'a jmap \<Rightarrow> string \<Rightarrow> 'a \<Rightarrow> 'a jmap" where
  "jset m k v = AList.update k v m"

definition jkeys :: "'a jmap \<Rightarrow> string list" where
  "jkeys m = map fst m"

definition jdel :: "'a jmap \<Rightarrow> string \<Rightarrow> 'a jmap" where
  "jdel m k = filter (\<lambda>p. fst p \<noteq> k) m"

text \<open>Building a map from a list of entries: a later entry with an old key overwrites its value.\<close>

definition jmap_of_list :: "(string \<times> 'a) list \<Rightarrow> 'a jmap" where
  "jmap_of_list ps = fold (\<lambda>(k, v) m. jset m k v) ps []"

lemma jget_Nil [simp, jmap_simps]: "jget [] k = None"
  by (simp add: jget_def)

lemma jget_Cons [simp, jmap_simps]:
  "jget ((k', v) # m) k = (if k' = k then Some v else jget m k)"
  by (simp add: jget_def)

lemma jset_Nil [simp]: "jset [] k v = [(k, v)]"
  by (simp add: jset_def)

lemma jset_Cons [simp]:
  "jset ((k', w) # m) k v = (if k' = k then (k, v) # m else (k', w) # jset m k v)"
  by (simp add: jset_def)

lemma jkeys_Nil [simp]: "jkeys [] = []"
  by (simp add: jkeys_def)

lemma jkeys_Cons [simp]: "jkeys (p # m) = fst p # jkeys m"
  by (simp add: jkeys_def)

lemma jget_jset [jmap_simps]: "jget (jset m k v) k' = (if k' = k then Some v else jget m k')"
  by (induction m) auto

lemma jget_jset_same [simp]: "jget (jset m k v) k = Some v"
  by (simp add: jget_jset)

lemma jget_jset_other [simp]: "k' \<noteq> k \<Longrightarrow> jget (jset m k v) k' = jget m k'"
  by (simp add: jget_jset)

lemma set_jkeys_jset [simp, jmap_simps]: "set (jkeys (jset m k v)) = insert k (set (jkeys m))"
  by (simp add: jkeys_def jset_def dom_update)

lemma jkeys_jset_mem: "k \<in> set (jkeys m) \<Longrightarrow> jkeys (jset m k v) = jkeys m"
  by (induction m) auto

lemma jkeys_jset_new: "k \<notin> set (jkeys m) \<Longrightarrow> jkeys (jset m k v) = jkeys m @ [k]"
  by (induction m) auto

lemma distinct_jkeys_jset [simp]: "distinct (jkeys m) \<Longrightarrow> distinct (jkeys (jset m k v))"
  by (cases "k \<in> set (jkeys m)") (simp_all add: jkeys_jset_mem jkeys_jset_new)

lemma jget_None_iff: "jget m k = None \<longleftrightarrow> k \<notin> set (jkeys m)"
  by (simp add: jget_def jkeys_def map_of_eq_None_iff)

lemma jget_Some_mem: "jget m k = Some v \<Longrightarrow> (k, v) \<in> set m"
  by (simp add: jget_def map_of_SomeD)

lemma jget_Some_key: "jget m k = Some v \<Longrightarrow> k \<in> set (jkeys m)"
  using jget_None_iff [of m k] by auto

lemma jkeys_jdel [jmap_simps]: "jkeys (jdel m k) = filter (\<lambda>x. x \<noteq> k) (jkeys m)"
  by (induction m) (auto simp: jdel_def)

lemma set_jkeys_jdel [simp]: "set (jkeys (jdel m k)) = set (jkeys m) - {k}"
  by (auto simp: jkeys_jdel)

lemma distinct_jkeys_jdel [simp]: "distinct (jkeys m) \<Longrightarrow> distinct (jkeys (jdel m k))"
  by (simp add: jkeys_jdel)

lemma jget_jdel [jmap_simps]: "jget (jdel m k) k' = (if k' = k then None else jget m k')"
  by (induction m) (auto simp: jdel_def)

section \<open>Ordered sets\<close>

definition set_add :: "'a \<Rightarrow> 'a list \<Rightarrow> 'a list" where
  "set_add x xs = (if x \<in> set xs then xs else xs @ [x])"

definition js_set :: "'a list \<Rightarrow> 'a list" where
  "js_set xs = fold set_add xs []"

lemma set_set_add [simp, jset_simps]: "set (set_add x xs) = insert x (set xs)"
  by (auto simp: set_add_def)

lemma distinct_set_add [simp]: "distinct xs \<Longrightarrow> distinct (set_add x xs)"
  by (simp add: set_add_def)

lemma set_fold_set_add: "set (fold set_add xs ys) = set xs \<union> set ys"
  by (induction xs arbitrary: ys) auto

lemma distinct_fold_set_add: "distinct ys \<Longrightarrow> distinct (fold set_add xs ys)"
  by (induction xs arbitrary: ys) auto

lemma set_js_set [simp, jset_simps]: "set (js_set xs) = set xs"
  by (simp add: js_set_def set_fold_set_add)

lemma distinct_js_set [simp, jset_simps]: "distinct (js_set xs)"
  by (simp add: js_set_def distinct_fold_set_add)

lemma fold_set_add_distinct: "distinct (ys @ xs) \<Longrightarrow> fold set_add xs ys = ys @ xs"
proof (induction xs arbitrary: ys)
  case Nil
  then show ?case by simp
next
  case (Cons x xs)
  then have "x \<notin> set ys" by auto
  with Cons show ?case by (simp add: set_add_def)
qed

lemma js_set_distinct: "distinct xs \<Longrightarrow> js_set xs = xs"
  by (simp add: js_set_def fold_set_add_distinct)

section \<open>The names every plain object inherits\<close>

text \<open>
  \<open>key in obj\<close> also finds the members of \<open>Object.prototype\<close>; \<open>Object.hasOwn\<close> does
  not. The code uses both, so the two tests are kept apart.
\<close>

definition object_prototype_keys :: "string list" where
  "object_prototype_keys =
     [''constructor'', ''__defineGetter__'', ''__defineSetter__'', ''hasOwnProperty'',
      ''__lookupGetter__'', ''__lookupSetter__'', ''isPrototypeOf'',
      ''propertyIsEnumerable'', ''toString'', ''valueOf'', ''__proto__'', ''toLocaleString'']"

definition js_in :: "string \<Rightarrow> 'a jmap \<Rightarrow> bool" where
  "js_in k m \<longleftrightarrow> k \<in> set (jkeys m) \<or> k \<in> set object_prototype_keys"

definition has_own :: "'a jmap \<Rightarrow> string \<Rightarrow> bool" where
  "has_own m k \<longleftrightarrow> k \<in> set (jkeys m)"

lemma js_in_plain: "k \<notin> set object_prototype_keys \<Longrightarrow> js_in k m \<longleftrightarrow> k \<in> set (jkeys m)"
  by (simp add: js_in_def)

section \<open>Lists\<close>

lemma find_Some_mem: "find P xs = Some x \<Longrightarrow> x \<in> set xs \<and> P x"
  by (auto simp: find_Some_iff)

lemma find_map_distinct:
  "distinct (map f xs) \<Longrightarrow> x \<in> set xs \<Longrightarrow> find (\<lambda>y. f y = f x) xs = Some x"
proof (induction xs)
  case Nil
  then show ?case by simp
next
  case (Cons a xs)
  then show ?case by (cases "x = a") (auto simp: image_iff)
qed

lemma list_all_in_set_iff: "list_all P xs \<longleftrightarrow> (\<forall>x \<in> set xs. P x)"
  by (simp add: list_all_iff)

text \<open>A loop over a list whose body may fail to return a value.\<close>

fun traverse :: "('a \<Rightarrow> 'b option) \<Rightarrow> 'a list \<Rightarrow> 'b list option" where
  "traverse f [] = Some []"
| "traverse f (x # xs) =
     (case f x of None \<Rightarrow> None
      | Some y \<Rightarrow> (case traverse f xs of None \<Rightarrow> None | Some ys \<Rightarrow> Some (y # ys)))"

lemma traverse_Some_iff: "traverse f xs = Some ys \<longleftrightarrow> map f xs = map Some ys"
proof (induction xs arbitrary: ys)
  case (Cons x xs)
  show ?case
  proof (cases "traverse f xs")
    case None
    with Cons [of "tl ys"] show ?thesis by (cases ys) (auto split: option.split)
  next
    case (Some zs)
    with Cons show ?thesis by (cases ys) (auto split: option.split)
  qed
qed auto

lemma traverse_total: "\<forall>x \<in> set xs. f x \<noteq> None \<Longrightarrow> traverse f xs = Some (map (the \<circ> f) xs)"
  by (induction xs) auto

end
