(* ===== verification/Js_Number.thy ===== *)
theory Js_Number
  imports Js_Prelude
begin

text \<open>
  Numbers as the code sees them: binary64 values. A finite number is the rational it denotes
  (the two zeros are one value: the code never tells them apart), arithmetic rounds to nearest,
  ties to even, by \<open>fl64\<close>, and \<open>num_to_string\<close> is \<open>Number.prototype.toString\<close>
  (shortest decimal digits that read back as the same number).
\<close>

datatype jnum = NaN | PInf | NInf | Fin rat

definition is_finite :: "jnum \<Rightarrow> bool" where
  "is_finite x = (case x of Fin _ \<Rightarrow> True | _ \<Rightarrow> False)"

lemma is_finite_simps [simp]:
  "is_finite (Fin r)" "\<not> is_finite NaN" "\<not> is_finite PInf" "\<not> is_finite NInf"
  by (simp_all add: is_finite_def)

section \<open>Rounding\<close>

fun js_neg :: "jnum \<Rightarrow> jnum" where
  "js_neg NaN = NaN"
| "js_neg PInf = NInf"
| "js_neg NInf = PInf"
| "js_neg (Fin r) = Fin (- r)"

text \<open>\<open>ilog b n\<close> is the integer part of the logarithm of \<open>n\<close> to base \<open>b\<close>.\<close>

function ilog :: "int \<Rightarrow> int \<Rightarrow> nat" where
  "ilog b n = (if b < 2 \<or> n < b then 0 else Suc (ilog b (n div b)))"
  by pat_completeness auto
termination
proof (relation "measure (\<lambda>(b, n). nat n)")
  fix b n :: int
  assume "\<not> (b < 2 \<or> n < b)"
  then have "0 < n" and "n div b < n" by (auto intro!: int_div_less_self)
  then show "((b, n div b), (b, n)) \<in> measure (\<lambda>(b, n). nat n)" by simp
qed simp

declare ilog.simps [simp del]

definition flog :: "int \<Rightarrow> rat \<Rightarrow> int" where
  "flog b x = (case quotient_of x of (p, q) \<Rightarrow>
     if q \<le> p then int (ilog b (p div q))
     else (let k = ilog b (q div p) in
           if b ^ k * p = q then - int k else - int k - 1))"

definition pow_int :: "int \<Rightarrow> int \<Rightarrow> rat" where
  "pow_int b e = (if 0 \<le> e then of_int b ^ nat e else 1 / of_int b ^ nat (- e))"

definition round_half_even :: "rat \<Rightarrow> int" where
  "round_half_even r =
     (let f = \<lfloor>r\<rfloor>; d = r - of_int f in
      if d < 1 / 2 then f else if 1 / 2 < d then f + 1
      else if even f then f else f + 1)"

definition fl64 :: "rat \<Rightarrow> jnum" where
  "fl64 x =
     (if x = 0 then Fin 0
      else let a = \<bar>x\<bar>;
               e = max (flog 2 a - 52) (-1074);
               m = of_int (round_half_even (a / pow_int 2 e)) * pow_int 2 e in
           if pow_int 2 1024 \<le> m then (if 0 < x then PInf else NInf)
           else Fin (if 0 < x then m else - m))"

text \<open>Integers of magnitude up to \<open>2^53\<close> are represented exactly.\<close>

lemma ilog_bounds:
  "2 \<le> b \<Longrightarrow> 0 < n \<Longrightarrow> b ^ ilog b n \<le> n \<and> n < b ^ Suc (ilog b n)"
proof (induction b n rule: ilog.induct)
  case (1 b n)
  show ?case
  proof (cases "n < b")
    case True
    with 1 show ?thesis by (simp add: ilog.simps [of b n])
  next
    case False
    with 1 have "b div b \<le> n div b" by (intro zdiv_mono1) auto
    with False 1 have pos: "0 < n div b" by simp
    with False 1 have ih: "b ^ ilog b (n div b) \<le> n div b" "n div b < b ^ Suc (ilog b (n div b))"
      by auto
    have "b * b ^ ilog b (n div b) \<le> b * (n div b)" using ih(1) 1 by simp
    also have "\<dots> \<le> n" using 1 by (simp add: minus_mod_eq_mult_div [symmetric])
    finally have lo: "b ^ Suc (ilog b (n div b)) \<le> n" by simp
    have "n < b * (n div b + 1)"
      using 1 by (metis add.commute distrib_left div_mult_mod_eq mult.commute mult.right_neutral
          add_strict_left_mono pos_mod_bound less_le_trans zero_less_numeral)
    also have "\<dots> \<le> b * b ^ Suc (ilog b (n div b))" using ih(2) 1 by (intro mult_left_mono) auto
    finally show ?thesis using lo False 1 by (simp add: ilog.simps [of b n])
  qed
qed

lemma round_half_even_int [simp]: "round_half_even (of_int n) = n"
  by (simp add: round_half_even_def)

lemma flog_of_int: "0 < n \<Longrightarrow> flog b (of_int n) = int (ilog b n)"
  by (simp add: flog_def)

lemma fl64_pos_int:
  assumes "0 < n" and "n \<le> 2 ^ 53"
  shows "fl64 (of_int n) = Fin (of_int n)"
proof -
  let ?k = "ilog 2 n"
  have lo: "2 ^ ?k \<le> n" and hi: "n < 2 ^ Suc ?k" using ilog_bounds [of 2 n] assms by auto
  have "(2::int) ^ ?k \<le> 2 ^ 53" using lo assms(2) by linarith
  then have k: "?k \<le> 53" by (meson one_less_numeral_iff power_increasing_iff semiring_norm(76))
  define e where "e = max (flog 2 (of_int n) - 52) (-1074)"
  have e: "e = int ?k - 52" using k assms(1) by (simp add: e_def flog_of_int)
  have "\<exists>m. (of_int n :: rat) / pow_int 2 e = of_int m"
  proof (cases "?k = 53")
    case True
    then have "n = 2 ^ 53" using lo assms(2) by simp
    then show ?thesis using True e by (intro exI [of _ "2 ^ 52"]) (simp add: pow_int_def)
  next
    case False
    with k have "e \<le> 0" "nat (- e) = 52 - ?k" using e by auto
    then show ?thesis
      by (intro exI [of _ "n * 2 ^ (52 - ?k)"]) (simp add: pow_int_def)
  qed
  then obtain m where m: "(of_int n :: rat) / pow_int 2 e = of_int m" by blast
  have nz: "pow_int 2 e \<noteq> 0" by (simp add: pow_int_def)
  have undo: "of_int m * pow_int 2 e = (of_int n :: rat)" using m nz by (simp add: field_simps)
  have "(of_int n :: rat) \<le> of_int (2 ^ 53)" using assms(2) by (simp only: of_int_le_iff)
  also have "\<dots> < pow_int 2 1024" by (simp add: pow_int_def)
  finally have small: "\<not> pow_int 2 1024 \<le> (of_int n :: rat)" by simp
  show ?thesis
    using assms(1) m undo small by (simp add: fl64_def Let_def e_def [symmetric])
qed

lemma fl64_minus: "fl64 (- x) = js_neg (fl64 x)"
  by (cases "x = 0") (auto simp: fl64_def Let_def)

lemma fl64_int: "\<bar>n\<bar> \<le> 2 ^ 53 \<Longrightarrow> fl64 (of_int n) = Fin (of_int n)"
proof -
  assume a: "\<bar>n\<bar> \<le> 2 ^ 53"
  consider "n = 0" | "0 < n" | "n < 0" by linarith
  then show ?thesis
  proof cases
    case 1 then show ?thesis by (simp add: fl64_def)
  next
    case 2 with a show ?thesis by (simp add: fl64_pos_int)
  next
    case 3
    with a have "fl64 (of_int (- n)) = Fin (of_int (- n))" by (intro fl64_pos_int) auto
    then show ?thesis using fl64_minus [of "of_int (- n)"] by simp
  qed
qed

section \<open>Arithmetic and comparison\<close>

fun js_add :: "jnum \<Rightarrow> jnum \<Rightarrow> jnum" where
  "js_add (Fin a) (Fin b) = fl64 (a + b)"
| "js_add NaN _ = NaN"
| "js_add _ NaN = NaN"
| "js_add PInf NInf = NaN"
| "js_add NInf PInf = NaN"
| "js_add PInf _ = PInf"
| "js_add _ PInf = PInf"
| "js_add NInf _ = NInf"
| "js_add _ NInf = NInf"

definition js_sub :: "jnum \<Rightarrow> jnum \<Rightarrow> jnum" where
  "js_sub a b = js_add a (js_neg b)"

fun js_sgn :: "jnum \<Rightarrow> int" where
  "js_sgn (Fin r) = (if 0 < r then 1 else if r < 0 then -1 else 0)"
| "js_sgn PInf = 1"
| "js_sgn NInf = -1"
| "js_sgn NaN = 0"

definition inf_signed :: "int \<Rightarrow> jnum" where
  "inf_signed s = (if 0 < s then PInf else if s < 0 then NInf else NaN)"

fun js_mul :: "jnum \<Rightarrow> jnum \<Rightarrow> jnum" where
  "js_mul (Fin a) (Fin b) = fl64 (a * b)"
| "js_mul NaN _ = NaN"
| "js_mul _ NaN = NaN"
| "js_mul a b = inf_signed (js_sgn a * js_sgn b)"

text \<open>Division by a number that is not zero; the code tests for zero before it divides.\<close>

fun js_div_nz :: "jnum \<Rightarrow> jnum \<Rightarrow> jnum" where
  "js_div_nz (Fin a) (Fin b) = fl64 (a / b)"
| "js_div_nz NaN _ = NaN"
| "js_div_nz _ NaN = NaN"
| "js_div_nz (Fin _) _ = Fin 0"
| "js_div_nz a (Fin b) = inf_signed (js_sgn a * (if b < 0 then -1 else 1))"
| "js_div_nz _ _ = NaN"

fun js_lt :: "jnum \<Rightarrow> jnum \<Rightarrow> bool" where
  "js_lt (Fin a) (Fin b) = (a < b)"
| "js_lt NaN _ = False"
| "js_lt _ NaN = False"
| "js_lt NInf b = (b \<noteq> NInf)"
| "js_lt _ PInf = True"
| "js_lt _ _ = False"

fun num_eq :: "jnum \<Rightarrow> jnum \<Rightarrow> bool" where
  "num_eq NaN _ = False"
| "num_eq a b = (a = b)"

definition js_le :: "jnum \<Rightarrow> jnum \<Rightarrow> bool" where
  "js_le a b \<longleftrightarrow> js_lt a b \<or> num_eq a b"

section \<open>Number to string\<close>

text \<open>Decimal digits of a nonnegative integer.\<close>

function dec_digits :: "int \<Rightarrow> string" where
  "dec_digits n = (if n < 10 then [char_of (48 + n mod 10)]
                   else dec_digits (n div 10) @ [char_of (48 + n mod 10)])"
  by pat_completeness auto
termination
proof (relation "measure nat")
  fix n :: int
  assume "\<not> n < 10"
  then have "0 < n" and "n div 10 < n" by (auto intro!: int_div_less_self)
  then show "(n div 10, n) \<in> measure nat" by simp
qed simp

declare dec_digits.simps [simp del]

lemma dec_digits_nonempty [simp]: "dec_digits n \<noteq> []"
  by (subst dec_digits.simps) simp

definition ascii :: "string \<Rightarrow> bool" where
  "ascii s \<longleftrightarrow> (\<forall>c \<in> set s. of_char c < (128 :: nat))"

lemma ascii_simps [simp]:
  "ascii []" "ascii (c # s) \<longleftrightarrow> of_char c < (128 :: nat) \<and> ascii s"
  "ascii (s @ t) \<longleftrightarrow> ascii s \<and> ascii t"
  by (auto simp: ascii_def)

lemma ascii_replicate [simp]: "of_char c < (128 :: nat) \<Longrightarrow> ascii (replicate n c)"
  by (simp add: ascii_def)

lemma ascii_take_drop [simp]: "ascii s \<Longrightarrow> ascii (take n s)" "ascii s \<Longrightarrow> ascii (drop n s)"
  by (auto simp: ascii_def dest: in_set_takeD in_set_dropD)

lemma ascii_dec_digits [simp]: "ascii (dec_digits n)"
proof (induction n rule: dec_digits.induct)
  case (1 n)
  have "of_char (char_of (48 + n mod 10)) < (128 :: nat)"
  proof -
    have "48 + n mod 10 \<in> {48..57}" by simp
    then have "nat (48 + n mod 10) \<in> {48..57}" by auto
    moreover have "char_of (48 + n mod 10) = (char_of (nat (48 + n mod 10)) :: char)"
      by (metis \<open>48 + n mod 10 \<in> {48..57}\<close> atLeastAtMost_iff char_of_nat int_nat_eq
          order_trans zero_le_numeral)
    ultimately show ?thesis by simp
  qed
  with 1 show ?case by (subst dec_digits.simps) simp
qed

definition nat_digits :: "nat \<Rightarrow> string" where
  "nat_digits n = dec_digits (int n)"

lemma nat_digits_nonempty [simp]: "nat_digits n \<noteq> []"
  by (simp add: nat_digits_def)

text \<open>
  \<open>shortest x k\<close> tries \<open>k, k+1, \<dots>, 17\<close> significant digits and returns
  \<open>(s, k, n)\<close>: the digits as a number, how many they are, and the decimal exponent, with
  \<open>x = s * 10^(n-k)\<close> after rounding.
\<close>

definition digit_try :: "rat \<Rightarrow> nat \<Rightarrow> (int \<times> nat \<times> int) option" where
  "digit_try x k =
     (let n = flog 10 x + 1;
          y = x * pow_int 10 (int k - n);
          lo = \<lfloor>y\<rfloor>; hi = lo + 1;
          back = (\<lambda>s. fl64 (of_int s * pow_int 10 (n - int k)));
          pick = (\<lambda>s. if s = 10 ^ k then (1, 1, n + 1) else (s, k, n));
          first = (if y - of_int lo \<le> 1 / 2 then lo else hi);
          second = (if first = lo then hi else lo) in
      if back first = Fin x then Some (pick first)
      else if back second = Fin x then Some (pick second) else None)"

fun shortest :: "rat \<Rightarrow> nat \<Rightarrow> nat \<Rightarrow> int \<times> nat \<times> int" where
  "shortest x 0 k = (round_half_even (x * pow_int 10 (17 - flog 10 x - 1)), 17, flog 10 x + 1)"
| "shortest x (Suc fuel) k =
     (case digit_try x k of Some r \<Rightarrow> r | None \<Rightarrow> shortest x fuel (Suc k))"

definition pos_to_string :: "rat \<Rightarrow> string" where
  "pos_to_string x =
     (let (s, k, n) = shortest x 17 1; ds = dec_digits s in
      if int k \<le> n \<and> n \<le> 21 then ds @ replicate (nat n - k) (CHR ''0'')
      else if 0 < n \<and> n \<le> 21 then take (nat n) ds @ ''.'' @ drop (nat n) ds
      else if -6 < n \<and> n \<le> 0 then ''0.'' @ replicate (nat (- n)) (CHR ''0'') @ ds
      else (let e = n - 1;
                expo = (if 0 \<le> e then ''e+'' @ dec_digits e
                        else ''e-'' @ dec_digits (- e)) in
            (if k = 1 then ds else take 1 ds @ ''.'' @ drop 1 ds) @ expo))"

definition num_to_string :: "jnum \<Rightarrow> string" where
  "num_to_string x = (case x of
     NaN \<Rightarrow> ''NaN'' | PInf \<Rightarrow> ''Infinity'' | NInf \<Rightarrow> ''-Infinity''
   | Fin r \<Rightarrow> if r = 0 then ''0''
             else if r = of_int \<lfloor>r\<rfloor> \<and> \<bar>r\<bar> \<le> 2 ^ 53
             then (if r < 0 then ''-'' else []) @ dec_digits \<bar>\<lfloor>r\<rfloor>\<bar>
             else if r < 0 then ''-'' @ pos_to_string (- r)
             else pos_to_string r)"

lemma ascii_pos_to_string [simp]: "ascii (pos_to_string x)"
  by (simp add: pos_to_string_def Let_def split: prod.split)

lemma ascii_num_to_string [simp]: "ascii (num_to_string x)"
  by (simp add: num_to_string_def split: jnum.split)

lemma ascii_nat_digits [simp]: "ascii (nat_digits n)"
  by (simp add: nat_digits_def)

lemma dec_digits_small: "0 \<le> n \<Longrightarrow> n < 10 \<Longrightarrow> dec_digits n = [char_of (48 + n)]"
  by (subst dec_digits.simps) simp

text \<open>The digits of a natural number determine it.\<close>

definition digits_value :: "string \<Rightarrow> int" where
  "digits_value ds = foldl (\<lambda>a c. 10 * a + (of_char c - 48)) 0 ds"

lemma digits_value_dec: "0 \<le> n \<Longrightarrow> digits_value (dec_digits n) = n"
proof (induction n rule: dec_digits.induct)
  case (1 n)
  have last: "of_char (char_of (48 + n mod 10) :: char) - 48 = n mod 10"
    by (simp add: take_bit_eq_mod)
  show ?case
  proof (cases "n < 10")
    case True
    then show ?thesis using last 1(2) by (subst dec_digits.simps) (simp add: digits_value_def)
  next
    case False
    then have "digits_value (dec_digits (n div 10)) = n div 10" using 1 by simp
    then show ?thesis using last False
      by (subst dec_digits.simps) (simp add: digits_value_def)
  qed
qed

lemma nat_digits_inject [simp]: "nat_digits m = nat_digits n \<longleftrightarrow> m = n"
  unfolding nat_digits_def by (metis digits_value_dec of_nat_0_le_iff of_nat_eq_iff)

end
