(* ===== verification/Js_Value.thy ===== *)
theory Js_Value
  imports Js_Number "HOL-Library.Word"
begin

text \<open>
  The values the program moves around, dates, and \<open>JSON.stringify\<close>. A value is a tree: the
  sharing and the cycles that JavaScript objects can have are not modelled, so two objects are
  never the same object and \<open>===\<close> on objects is false.
\<close>

section \<open>Dates\<close>

text \<open>
  Proleptic Gregorian calendar: days since 1970-01-01 to year, month and day, and back.
\<close>

definition civil_of_days :: "int \<Rightarrow> int \<times> int \<times> int" where
  "civil_of_days z =
     (let z' = z + 719468; era = z' div 146097; doe = z' mod 146097;
          yoe = (doe - doe div 1460 + doe div 36524 - doe div 146096) div 365;
          doy = doe - (365 * yoe + yoe div 4 - yoe div 100);
          mp = (5 * doy + 2) div 153;
          d = doy - (153 * mp + 2) div 5 + 1;
          m = (if mp < 10 then mp + 3 else mp - 9) in
      (yoe + era * 400 + (if m \<le> 2 then 1 else 0), m, d))"

definition days_of_civil :: "int \<Rightarrow> int \<Rightarrow> int \<Rightarrow> int" where
  "days_of_civil y m d =
     (let y' = (if m \<le> 2 then y - 1 else y); era = y' div 400; yoe = y' mod 400;
          doy = (153 * (if 2 < m then m - 3 else m + 9) + 2) div 5 + d - 1;
          doe = yoe * 365 + yoe div 4 - yoe div 100 + doy in
      era * 146097 + doe - 719468)"

definition pad_digits :: "nat \<Rightarrow> int \<Rightarrow> string" where
  "pad_digits w n = (let ds = dec_digits n in replicate (w - length ds) (CHR ''0'') @ ds)"

definition iso_date :: "int \<Rightarrow> string" where
  "iso_date days = (case civil_of_days days of (y, m, d) \<Rightarrow>
     (if 0 \<le> y \<and> y \<le> 9999 then pad_digits 4 y
      else (if y < 0 then ''-'' else ''+'') @ pad_digits 6 \<bar>y\<bar>)
     @ ''-'' @ pad_digits 2 m @ ''-'' @ pad_digits 2 d)"

text \<open>\<open>Date.prototype.toISOString\<close> of a time value in milliseconds.\<close>

definition iso_of_ms :: "int \<Rightarrow> string" where
  "iso_of_ms t =
     (let r = t mod 86400000 in
      iso_date (t div 86400000) @ ''T'' @ pad_digits 2 (r div 3600000) @ '':''
      @ pad_digits 2 (r div 60000 mod 60) @ '':'' @ pad_digits 2 (r div 1000 mod 60)
      @ ''.'' @ pad_digits 3 (r mod 1000) @ ''Z'')"

section \<open>Values\<close>

datatype jv =
    JUndef
  | JNull
  | JBool bool
  | JNum jnum
  | JStr string
  | JArr "jv list"
  | JObj "(string \<times> jv) list"
  | JDate "int option"
  | JBytes "8 word list"

abbreviation JInt :: "int \<Rightarrow> jv" where
  "JInt n \<equiv> JNum (Fin (of_int n))"

fun typeof :: "jv \<Rightarrow> string" where
  "typeof JUndef = ''undefined''"
| "typeof (JBool _) = ''boolean''"
| "typeof (JNum _) = ''number''"
| "typeof (JStr _) = ''string''"
| "typeof _ = ''object''"

fun truthy :: "jv \<Rightarrow> bool" where
  "truthy JUndef = False"
| "truthy JNull = False"
| "truthy (JBool b) = b"
| "truthy (JNum n) = (n \<noteq> NaN \<and> n \<noteq> Fin 0)"
| "truthy (JStr s) = (s \<noteq> [])"
| "truthy _ = True"

text \<open>Strict equality; on two objects it is false (see above).\<close>

fun strict_eq :: "jv \<Rightarrow> jv \<Rightarrow> bool" where
  "strict_eq JUndef JUndef = True"
| "strict_eq JNull JNull = True"
| "strict_eq (JBool a) (JBool b) = (a = b)"
| "strict_eq (JNum a) (JNum b) = num_eq a b"
| "strict_eq (JStr a) (JStr b) = (a = b)"
| "strict_eq _ _ = False"

definition is_array :: "jv \<Rightarrow> bool" where
  "is_array v = (case v of JArr _ \<Rightarrow> True | _ \<Rightarrow> False)"

text \<open>Reading a property that may be missing gives \<open>undefined\<close>.\<close>

definition read_prop :: "jv jmap \<Rightarrow> string \<Rightarrow> jv" where
  "read_prop m k = (case jget m k of Some v \<Rightarrow> v | None \<Rightarrow> JUndef)"

lemma is_array_simps [simp]:
  "is_array (JArr xs)" "\<not> is_array JUndef" "\<not> is_array JNull" "\<not> is_array (JBool b)"
  "\<not> is_array (JNum n)" "\<not> is_array (JStr s)" "\<not> is_array (JObj m)"
  "\<not> is_array (JDate d)" "\<not> is_array (JBytes bs)"
  by (simp_all add: is_array_def)

lemma read_prop_simps [simp]:
  "read_prop [] k = JUndef"
  "read_prop ((k', v) # m) k = (if k' = k then v else read_prop m k)"
  by (simp_all add: read_prop_def)

section \<open>JSON text\<close>

text \<open>
  JSON text is a list of UTF-16 code units; \<open>utf8_len\<close> is the length of its UTF-8
  encoding. A lone surrogate is escaped by \<open>JSON.stringify\<close> and a pair is kept.
\<close>

definition units :: "string \<Rightarrow> nat list" where
  "units s = map of_char s"

definition hi_surrogate :: "nat \<Rightarrow> bool" where
  "hi_surrogate c \<longleftrightarrow> 55296 \<le> c \<and> c \<le> 56319"

definition lo_surrogate :: "nat \<Rightarrow> bool" where
  "lo_surrogate c \<longleftrightarrow> 56320 \<le> c \<and> c \<le> 57343"

definition surrogate :: "nat \<Rightarrow> bool" where
  "surrogate c \<longleftrightarrow> 55296 \<le> c \<and> c \<le> 57343"

definition hex_unit :: "nat \<Rightarrow> nat" where
  "hex_unit d = (if d < 10 then 48 + d else 87 + d)"

definition u_escape :: "nat \<Rightarrow> nat list" where
  "u_escape c = [92, 117, hex_unit (c div 4096 mod 16), hex_unit (c div 256 mod 16),
                 hex_unit (c div 16 mod 16), hex_unit (c mod 16)]"

definition esc_unit :: "nat \<Rightarrow> nat list" where
  "esc_unit c =
     (if c = 34 \<or> c = 92 then [92, c]
      else if c = 8 then [92, 98] else if c = 9 then [92, 116]
      else if c = 10 then [92, 110] else if c = 12 then [92, 102]
      else if c = 13 then [92, 114]
      else if c < 32 \<or> surrogate c then u_escape c else [c])"

fun esc_units :: "nat list \<Rightarrow> nat list" where
  "esc_units [] = []"
| "esc_units [c] = esc_unit c"
| "esc_units (c # d # cs) =
     (if hi_surrogate c \<and> lo_surrogate d then c # d # esc_units cs
      else esc_unit c @ esc_units (d # cs))"

definition json_quote :: "nat list \<Rightarrow> nat list" where
  "json_quote us = [34] @ esc_units us @ [34]"

fun utf8_len :: "nat list \<Rightarrow> nat" where
  "utf8_len [] = 0"
| "utf8_len [c] = (if c < 128 then 1 else if c < 2048 then 2 else 3)"
| "utf8_len (c # d # cs) =
     (if hi_surrogate c \<and> lo_surrogate d then 4 + utf8_len cs
      else (if c < 128 then 1 else if c < 2048 then 2 else 3) + utf8_len (d # cs))"

fun join_units :: "nat list \<Rightarrow> nat list list \<Rightarrow> nat list" where
  "join_units sep [] = []"
| "join_units sep [x] = x"
| "join_units sep (x # y # ys) = x @ sep @ join_units sep (y # ys)"

definition byte_members :: "8 word list \<Rightarrow> nat list list" where
  "byte_members bs = map (\<lambda>(i, b). json_quote (units (nat_digits i)) @ [58]
     @ units (nat_digits (unat b))) (enumerate 0 bs)"

text \<open>\<open>JSON.stringify\<close>: \<open>None\<close> is \<open>undefined\<close>, which an array shows as null and an
  object leaves out.\<close>

fun json_units :: "jv \<Rightarrow> nat list option" where
  "json_units JUndef = None"
| "json_units JNull = Some (units ''null'')"
| "json_units (JBool b) = Some (units (if b then ''true'' else ''false''))"
| "json_units (JNum n) = Some (units (if is_finite n then num_to_string n else ''null''))"
| "json_units (JStr s) = Some (json_quote (units s))"
| "json_units (JArr xs) = Some ([91] @ join_units [44]
     (map (\<lambda>x. case json_units x of None \<Rightarrow> units ''null'' | Some u \<Rightarrow> u) xs) @ [93])"
| "json_units (JObj m) = Some ([123] @ join_units [44]
     (concat (map (\<lambda>kv. case json_units (snd kv) of
        None \<Rightarrow> [] | Some u \<Rightarrow> [json_quote (units (fst kv)) @ [58] @ u]) m)) @ [125])"
| "json_units (JDate None) = Some (units ''null'')"
| "json_units (JDate (Some t)) = Some (json_quote (units (iso_of_ms t)))"
| "json_units (JBytes bs) = Some ([123] @ join_units [44] (byte_members bs) @ [125])"

definition json_string :: "jv \<Rightarrow> string option" where
  "json_string v = map_option (map char_of) (json_units v)"

section \<open>Case\<close>

text \<open>\<open>toLowerCase\<close> on the code units of the model.\<close>

definition lower_char :: "char \<Rightarrow> char" where
  "lower_char c = (let n = of_char c :: nat in
     if 65 \<le> n \<and> n \<le> 90 \<or> 192 \<le> n \<and> n \<le> 222 \<and> n \<noteq> 215 then char_of (n + 32) else c)"

definition js_lower :: "string \<Rightarrow> string" where
  "js_lower s = map lower_char s"


text \<open>\<open>trim\<close>: the white space and line ends among the code units of the model.\<close>

definition js_space :: "char \<Rightarrow> bool" where
  "js_space c \<longleftrightarrow> (let n = of_char c :: nat in 9 \<le> n \<and> n \<le> 13 \<or> n = 32 \<or> n = 160)"

definition js_trim :: "string \<Rightarrow> string" where
  "js_trim s = rev (dropWhile js_space (rev (dropWhile js_space s)))"

text \<open>\<open>s.includes(t)\<close>\<close>

fun js_includes :: "string \<Rightarrow> string \<Rightarrow> bool" where
  "js_includes [] t = (t = [])"
| "js_includes (c # cs) t = (take (length t) (c # cs) = t \<or> js_includes cs t)"

section \<open>Letters and digits\<close>

definition lower_letter :: "char \<Rightarrow> bool" where
  "lower_letter c \<longleftrightarrow> c \<in> set ''abcdefghijklmnopqrstuvwxyz''"

definition upper_letter :: "char \<Rightarrow> bool" where
  "upper_letter c \<longleftrightarrow> c \<in> set ''ABCDEFGHIJKLMNOPQRSTUVWXYZ''"

definition is_digit :: "char \<Rightarrow> bool" where
  "is_digit c \<longleftrightarrow> c \<in> set ''0123456789''"

definition word_char :: "char \<Rightarrow> bool" where
  "word_char c \<longleftrightarrow> lower_letter c \<or> upper_letter c \<or> is_digit c \<or> c = CHR ''_''"

end
