(* ===== verification/Flow_Types.thy ===== *)
theory Flow_Types
  imports Js_Value
begin

text \<open>
  The data model of the workflow engine: workflows as stored
  (\<open>apps/flows/packages/types/src/workflow.ts\<close>) and the run-time types of
  \<open>apps/flows/packages/runtime/src/execution-types.ts\<close>. Only the fields the engine reads
  are kept; display fields (positions, icons, documentation) are left out.
\<close>

section \<open>Workflows\<close>

text \<open>A missing \<open>value\<close> is \<open>JUndef\<close>; a missing flag is false, which is how it is read.\<close>

record parameter =
  p_name :: string
  p_type :: string
  p_value :: jv
  p_required :: bool
  p_repeated :: bool
  p_provider :: jv

record node =
  n_id :: string
  n_name :: string
  n_type :: string
  n_inputs :: "parameter list"
  n_outputs :: "parameter list"

record edge =
  e_source :: string
  e_target :: string
  e_sourceOutput :: string
  e_targetInput :: string

record workflow =
  w_id :: string
  w_name :: string
  w_trigger :: string
  w_nodes :: "node list"
  w_edges :: "edge list"

record node_type =
  nt_type :: string
  nt_usage :: "jnum option"
  nt_inputs :: "parameter list"
  nt_outputs :: "parameter list"
  nt_trigger :: bool

text \<open>The parameter of a name, as the code looks it up everywhere.\<close>

definition find_param :: "parameter list \<Rightarrow> string \<Rightarrow> parameter option" where
  "find_param ps name = find (\<lambda>p. p_name p = name) ps"

section \<open>Executions\<close>

type_synonym node_values = "jv jmap"

record execution_state =
  nodeInputs :: "node_values jmap"
  nodeOutputs :: "node_values jmap"
  executedNodes :: "string list"
  skippedNodes :: "string list"
  nodeErrors :: "string jmap"
  nodeUsage :: "jnum jmap"

datatype skip_reason = UpstreamFailure | ConditionalBranch

text \<open>
  What one node did. A skipped result always carries its reason and blockers (its only
  producer fills both in); its outputs are null and its usage is zero by type.
\<close>

datatype node_result =
    Completed (res_node: string) (res_inputs: "node_values option") node_values jnum
  | Skipped (res_node: string) skip_reason "string list"
  | Errored (res_node: string) (res_inputs: "node_values option") string "jnum option"
  | Pending (res_node: string) (res_inputs: "node_values option") string string

datatype workflow_status =
    WIdle | WSubmitted | WExecuting | WCompleted | WError | WCancelled | WPaused | WExhausted

record pending_event =
  pe_type :: string
  pe_timeout :: string

text \<open>One entry of the execution record: the status of a node and the fields that go with it.\<close>

datatype node_execution =
    NxPending string pending_event
  | NxCompleted string node_values node_values jnum
  | NxError string node_values string jnum
  | NxSkipped string skip_reason "string list"
  | NxExecuting string
  | NxIdle string

fun nx_node :: "node_execution \<Rightarrow> string" where
  "nx_node (NxPending n _) = n"
| "nx_node (NxCompleted n _ _ _) = n"
| "nx_node (NxError n _ _ _) = n"
| "nx_node (NxSkipped n _ _) = n"
| "nx_node (NxExecuting n) = n"
| "nx_node (NxIdle n) = n"

definition initial_state :: execution_state where
  "initial_state = \<lparr>nodeInputs = [], nodeOutputs = [], executedNodes = [],
     skippedNodes = [], nodeErrors = [], nodeUsage = []\<rparr>"

lemma initial_state_simps [simp]:
  "nodeInputs initial_state = []" "nodeOutputs initial_state = []"
  "executedNodes initial_state = []" "skippedNodes initial_state = []"
  "nodeErrors initial_state = []" "nodeUsage initial_state = []"
  by (simp_all add: initial_state_def)

end
