(* ===== verification/Flow_Limits.thy ===== *)
theory Flow_Limits
  imports Js_Value
begin

text \<open>
  \<open>apps/flows/packages/runtime/src/resource-limits.ts\<close>: the size of a value as serialized
  UTF-8 JSON, counted without building the text and abandoned once the budget is spent. The
  counter \<open>bytes\<close> of the code is threaded through as the last argument. The lemmas relate
  the count to the length of the text \<open>JSON.stringify\<close> would produce.
\<close>

section \<open>The estimator\<close>

definition MAX_RUNTIME_INPUT_BYTES :: nat where
  "MAX_RUNTIME_INPUT_BYTES = 2 * 1024 * 1024"

definition MAX_RUNTIME_OUTPUT_BYTES :: nat where
  "MAX_RUNTIME_OUTPUT_BYTES = 2 * 1024 * 1024"

definition MAX_EXECUTION_STATE_BYTES :: nat where
  "MAX_EXECUTION_STATE_BYTES = 4 * 1024 * 1024"

text \<open>The loop of the inner function \<open>string\<close>, over the code units of the text.\<close>

fun est_units :: "nat \<Rightarrow> nat list \<Rightarrow> nat \<Rightarrow> nat" where
  "est_units mx [] b = b"
| "est_units mx (c # cs) b =
     (if mx < b then b
      else if c = 34 \<or> c = 92 \<or> c \<in> {8, 9, 10, 12, 13} then est_units mx cs (b + 2)
      else if c < 32 then est_units mx cs (b + 6)
      else if c < 128 then est_units mx cs (b + 1)
      else if c < 2048 then est_units mx cs (b + 2)
      else (case cs of
              d # ds \<Rightarrow>
                if hi_surrogate c \<and> lo_surrogate d then est_units mx ds (b + 4)
                else if surrogate c then est_units mx cs (b + 6)
                else est_units mx cs (b + 3)
            | [] \<Rightarrow> if surrogate c then b + 6 else b + 3))"

definition est_string :: "nat \<Rightarrow> nat list \<Rightarrow> nat \<Rightarrow> nat" where
  "est_string mx us b = (if b + 2 \<le> mx then est_units mx us (b + 2) else b + 2)"

fun est_bytes :: "nat \<Rightarrow> bool \<Rightarrow> (nat \<times> 8 word) list \<Rightarrow> nat \<Rightarrow> nat" where
  "est_bytes mx first [] b = b"
| "est_bytes mx first ((i, w) # ws) b =
     (if mx < b then b
      else let b1 = (if first then b else b + 1);
               b2 = est_string mx (units (nat_digits i)) b1 + 1 in
           est_bytes mx False ws
             (if mx < b2 then b2 else b2 + length (nat_digits (unat w))))"

text \<open>The inner function \<open>visit\<close>, with the element loop and the member loop.\<close>

fun est_visit :: "nat \<Rightarrow> nat \<Rightarrow> jv \<Rightarrow> nat \<Rightarrow> nat"
and est_elems :: "nat \<Rightarrow> nat \<Rightarrow> bool \<Rightarrow> jv list \<Rightarrow> nat \<Rightarrow> nat"
and est_members :: "nat \<Rightarrow> nat \<Rightarrow> bool \<Rightarrow> (string \<times> jv) list \<Rightarrow> nat \<Rightarrow> nat" where
  "est_visit mx d v b =
     (if mx < b then b
      else case v of
        JNull \<Rightarrow> b + 4
      | JStr s \<Rightarrow> est_string mx (units s) b
      | JNum n \<Rightarrow> b + (if is_finite n then length (num_to_string n) else 4)
      | JBool t \<Rightarrow> b + (if t then 4 else 5)
      | JUndef \<Rightarrow> b + 8
      | JDate t \<Rightarrow> if 100 \<le> d then mx + 1
                  else (case t of None \<Rightarrow> b + 4 | Some ms \<Rightarrow> est_string mx (units (iso_of_ms ms)) b)
      | JArr xs \<Rightarrow> if 100 \<le> d then mx + 1 else est_elems mx (d + 1) True xs (b + 2)
      | JObj m \<Rightarrow> if 100 \<le> d then mx + 1 else est_members mx (d + 1) True m (b + 2)
      | JBytes bs \<Rightarrow> if 100 \<le> d then mx + 1 else est_bytes mx True (enumerate 0 bs) (b + 2))"
| "est_elems mx d first [] b = b"
| "est_elems mx d first (x # xs) b =
     (if mx < b then b
      else est_elems mx d False xs (est_visit mx d x (if first then b else b + 1)))"
| "est_members mx d first [] b = b"
| "est_members mx d first ((k, v) # m) b =
     (if mx < b then b
      else let b1 = (if first then b else b + 1);
               b2 = est_string mx (units k) b1 + 1 in
           est_members mx d False m (est_visit mx d v b2))"

definition estimateRuntimeJsonBytes :: "jv \<Rightarrow> nat \<Rightarrow> nat" where
  "estimateRuntimeJsonBytes v maxBytes = est_visit maxBytes 0 v 0"

definition assertRuntimeValueWithinLimit :: "jv \<Rightarrow> nat \<Rightarrow> string \<Rightarrow> string + unit" where
  "assertRuntimeValueWithinLimit v maxBytes label =
     (if maxBytes < estimateRuntimeJsonBytes v maxBytes
      then Inl (label @ '' exceeds the '' @ nat_digits maxBytes @ ''-byte limit'')
      else Inr ())"

section \<open>What is counted\<close>

text \<open>
  \<open>json_cost\<close> is the count without a budget; \<open>depth_ok d v\<close> says no container of
  \<open>v\<close> lies a hundred levels deep.
\<close>

definition unit_cost :: "nat \<Rightarrow> nat" where
  "unit_cost c = utf8_len (esc_unit c)"

definition text_cost :: "nat list \<Rightarrow> nat" where
  "text_cost us = 2 + utf8_len (esc_units us)"

definition byte_cost :: "nat \<times> 8 word \<Rightarrow> nat" where
  "byte_cost p = text_cost (units (nat_digits (fst p))) + 1 + length (nat_digits (unat (snd p)))"

fun json_cost :: "jv \<Rightarrow> nat" where
  "json_cost JUndef = 8"
| "json_cost JNull = 4"
| "json_cost (JBool t) = (if t then 4 else 5)"
| "json_cost (JNum n) = (if is_finite n then length (num_to_string n) else 4)"
| "json_cost (JStr s) = text_cost (units s)"
| "json_cost (JArr xs) = 2 + (length xs - 1) + sum_list (map json_cost xs)"
| "json_cost (JObj m) = 2 + (length m - 1)
     + sum_list (map (\<lambda>kv. text_cost (units (fst kv)) + 1 + json_cost (snd kv)) m)"
| "json_cost (JDate t) =
     (case t of None \<Rightarrow> 4 | Some ms \<Rightarrow> text_cost (units (iso_of_ms ms)))"
| "json_cost (JBytes bs) = 2 + (length bs - 1) + sum_list (map byte_cost (enumerate 0 bs))"

fun depth_ok :: "nat \<Rightarrow> jv \<Rightarrow> bool" where
  "depth_ok d (JArr xs) \<longleftrightarrow> d < 100 \<and> (\<forall>x \<in> set xs. depth_ok (Suc d) x)"
| "depth_ok d (JObj m) \<longleftrightarrow> d < 100 \<and> (\<forall>kv \<in> set m. depth_ok (Suc d) (snd kv))"
| "depth_ok d (JDate _) \<longleftrightarrow> d < 100"
| "depth_ok d (JBytes _) \<longleftrightarrow> d < 100"
| "depth_ok d _ \<longleftrightarrow> True"

text \<open>No member or element is undefined, so nothing is left out of the text.\<close>

fun undef_free :: "jv \<Rightarrow> bool" where
  "undef_free JUndef \<longleftrightarrow> False"
| "undef_free (JArr xs) \<longleftrightarrow> (\<forall>x \<in> set xs. undef_free x)"
| "undef_free (JObj m) \<longleftrightarrow> (\<forall>kv \<in> set m. undef_free (snd kv))"
| "undef_free _ \<longleftrightarrow> True"

section \<open>The count and its budget\<close>

text \<open>
  \<open>capped mx b c r\<close>: from \<open>b\<close> bytes, counting \<open>c\<close> more against the budget \<open>mx\<close> ends in
  \<open>r\<close>: the exact sum while it fits, anything above the budget otherwise.
\<close>

definition capped :: "nat \<Rightarrow> nat \<Rightarrow> nat \<Rightarrow> nat \<Rightarrow> bool" where
  "capped mx b c r \<longleftrightarrow> (if b + c \<le> mx then r = b + c else mx < r)"

lemma capped_refl [simp, intro]: "capped mx b 0 b"
  by (simp add: capped_def)

lemma capped_add [simp, intro]: "capped mx b c (b + c)"
  by (simp add: capped_def)

lemma capped_over: "mx < r \<Longrightarrow> mx < b + c \<Longrightarrow> capped mx b c r"
  by (simp add: capped_def)

lemma capped_stopped: "mx < b \<Longrightarrow> capped mx b c b"
  by (simp add: capped_def)

lemma capped_trans: "capped mx b c r \<Longrightarrow> capped mx r c' r' \<Longrightarrow> capped mx b (c + c') r'"
  by (auto simp: capped_def split: if_splits)

lemma utf8_len_append:
  "xs = [] \<or> \<not> hi_surrogate (last xs) \<Longrightarrow> utf8_len (xs @ ys) = utf8_len xs + utf8_len ys"
proof (induction xs rule: utf8_len.induct)
  case 1
  then show ?case by simp
next
  case (2 c)
  then show ?case by (cases ys) auto
next
  case (3 c d cs)
  then show ?case by (auto simp: hi_surrogate_def lo_surrogate_def split: if_splits)
qed

lemma hex_unit_small: "hex_unit (n mod 16) < 128"
proof -
  have "n mod 16 < 16" by simp
  then show ?thesis by (auto simp: hex_unit_def)
qed

lemma utf8_len_ascii: "\<forall>c \<in> set us. c < 128 \<Longrightarrow> utf8_len us = length us"
  by (induction us rule: utf8_len.induct) (auto simp: hi_surrogate_def)

lemma u_escape_ascii: "x \<in> set (u_escape c) \<Longrightarrow> x < 128"
  using hex_unit_small by (auto simp: u_escape_def)

lemma esc_unit_cases:
  "esc_unit c = [c] \<and> \<not> surrogate c \<or> (\<forall>x \<in> set (esc_unit c). x < 128)"
  by (auto simp: esc_unit_def dest: u_escape_ascii)

lemma esc_unit_nonempty [simp]: "esc_unit c \<noteq> []"
  by (simp add: esc_unit_def u_escape_def)

lemma last_esc_unit: "\<not> hi_surrogate (last (esc_unit c))"
proof -
  consider "esc_unit c = [c]" "\<not> surrogate c" | "\<forall>x \<in> set (esc_unit c). x < 128"
    using esc_unit_cases by blast
  then show ?thesis
  proof cases
    case 1
    then show ?thesis by (auto simp: hi_surrogate_def surrogate_def)
  next
    case 2
    then have "last (esc_unit c) < 128" using last_in_set [OF esc_unit_nonempty] by blast
    then show ?thesis by (simp add: hi_surrogate_def)
  qed
qed

lemma utf8_len_esc_append [simp]: "utf8_len (esc_unit c @ us) = unit_cost c + utf8_len us"
  by (simp add: unit_cost_def utf8_len_append last_esc_unit)

lemma unit_cost_eq:
  "unit_cost c =
     (if c = 34 \<or> c = 92 \<or> c \<in> {8, 9, 10, 12, 13} then 2
      else if c < 32 \<or> surrogate c then 6
      else if c < 128 then 1 else if c < 2048 then 2 else 3)"
proof -
  have "utf8_len (u_escape c) = 6"
    using utf8_len_ascii [of "u_escape c"] u_escape_ascii by (auto simp: u_escape_def)
  then show ?thesis
    by (auto simp: unit_cost_def esc_unit_def hi_surrogate_def)
qed

lemma est_units_big:
  "2048 \<le> c \<Longrightarrow> est_units mx (c # cs) b =
     (if mx < b then b
      else (case cs of
              d # ds \<Rightarrow>
                if hi_surrogate c \<and> lo_surrogate d then est_units mx ds (b + 4)
                else if surrogate c then est_units mx cs (b + 6)
                else est_units mx cs (b + 3)
            | [] \<Rightarrow> if surrogate c then b + 6 else b + 3))"
  by simp

lemma est_units_small:
  "c < 2048 \<Longrightarrow> \<not> mx < b \<Longrightarrow> est_units mx (c # cs) b = est_units mx cs (b + unit_cost c)"
  by (simp add: unit_cost_eq surrogate_def)

lemma unit_cost_big: "2048 \<le> c \<Longrightarrow> unit_cost c = (if surrogate c then 6 else 3)"
  by (simp add: unit_cost_eq)

lemmas est_units_by_size = est_units_big est_units_small unit_cost_big

declare est_units.simps(2) [simp del]

text \<open>One turn of the loop reads a surrogate pair or a single unit.\<close>

definition starts_pair :: "nat list \<Rightarrow> bool" where
  "starts_pair us = (case us of c # d # ds \<Rightarrow> hi_surrogate c \<and> lo_surrogate d | _ \<Rightarrow> False)"

lemma est_units_single:
  "\<not> starts_pair (c # cs) \<Longrightarrow> \<not> mx < b \<Longrightarrow>
   est_units mx (c # cs) b = est_units mx cs (b + unit_cost c)"
  by (cases "c < 2048") (auto simp: est_units_by_size starts_pair_def split: list.split)

lemma est_units_pair:
  "hi_surrogate c \<Longrightarrow> lo_surrogate d \<Longrightarrow> \<not> mx < b \<Longrightarrow>
   est_units mx (c # d # ds) b = est_units mx ds (b + 4)"
  by (simp add: est_units_big hi_surrogate_def)

lemma esc_units_single: "\<not> starts_pair (c # cs) \<Longrightarrow> esc_units (c # cs) = esc_unit c @ esc_units cs"
  by (cases cs) (auto simp: starts_pair_def)

lemma est_units_capped: "capped mx b (utf8_len (esc_units us)) (est_units mx us b)"
proof (induction us arbitrary: b rule: length_induct)
  case (1 us)
  show ?case
  proof (cases us)
    case Nil
    then show ?thesis by simp
  next
    case (Cons c cs)
    consider "mx < b" | "\<not> mx < b" "starts_pair us" | "\<not> mx < b" "\<not> starts_pair us" by blast
    then show ?thesis
    proof cases
      case 1
      then show ?thesis by (simp add: Cons capped_stopped est_units.simps(2))
    next
      case 2
      then obtain d ds where us: "us = c # d # ds" "hi_surrogate c" "lo_surrogate d"
        using Cons by (auto simp: starts_pair_def split: list.splits)
      then have "capped mx (b + 4) (utf8_len (esc_units ds)) (est_units mx ds (b + 4))"
        using 1 by simp
      then show ?thesis using us 2 capped_trans [OF capped_add [of mx b 4]]
        by (simp add: est_units_pair)
    next
      case 3
      then have "capped mx (b + unit_cost c) (utf8_len (esc_units cs))
          (est_units mx cs (b + unit_cost c))"
        using 1 Cons by simp
      then show ?thesis using 3 Cons capped_trans [OF capped_add]
        by (simp add: est_units_single esc_units_single)
    qed
  qed
qed

lemma est_string_capped: "capped mx b (text_cost us) (est_string mx us b)"
  using capped_trans [OF capped_add [of mx b 2] est_units_capped [of mx "b + 2" us]]
  by (auto simp: est_string_def text_cost_def capped_def)

declare est_visit.simps [simp del]

lemma est_over [simp]:
  "mx < b \<Longrightarrow> est_visit mx d v b = b"
  "mx < b \<Longrightarrow> est_elems mx d first xs b = b"
  "mx < b \<Longrightarrow> est_members mx d first m b = b"
  "mx < b \<Longrightarrow> est_bytes mx first ws b = b"
proof -
  assume b: "mx < b"
  show "est_visit mx d v b = b" using b by (simp add: est_visit.simps)
  show "est_elems mx d first xs b = b" using b by (cases xs) simp_all
  show "est_members mx d first m b = b" using b by (cases m) (auto split: prod.splits)
  show "est_bytes mx first ws b = b" using b by (cases ws) (auto split: prod.splits)
qed

definition sep :: "bool \<Rightarrow> nat" where
  "sep first = (if first then 0 else 1)"

lemma sep_simps [simp]: "sep True = 0" "sep False = 1" "(if first then b else Suc b) = b + sep first"
  "(if first then b else b + 1) = b + sep first"
  by (simp_all add: sep_def)

lemma sep_length: "length (x # xs) - (if first then 1 else 0) = sep first + length xs"
  by (simp add: sep_def)

lemma est_visit_leaf:
  "\<not> mx < b \<Longrightarrow> est_visit mx d (JArr xs) b =
     (if 100 \<le> d then mx + 1 else est_elems mx (d + 1) True xs (b + 2))"
  "\<not> mx < b \<Longrightarrow> est_visit mx d (JObj m) b =
     (if 100 \<le> d then mx + 1 else est_members mx (d + 1) True m (b + 2))"
  "\<not> mx < b \<Longrightarrow> est_visit mx d (JBytes bs) b =
     (if 100 \<le> d then mx + 1 else est_bytes mx True (enumerate 0 bs) (b + 2))"
  "\<not> mx < b \<Longrightarrow> est_visit mx d (JDate t) b =
     (if 100 \<le> d then mx + 1
      else (case t of None \<Rightarrow> b + 4 | Some ms \<Rightarrow> est_string mx (units (iso_of_ms ms)) b))"
  "\<not> mx < b \<Longrightarrow> est_visit mx d (JStr s) b = est_string mx (units s) b"
  "\<not> mx < b \<Longrightarrow> est_visit mx d JNull b = b + 4"
  "\<not> mx < b \<Longrightarrow> est_visit mx d JUndef b = b + 8"
  "\<not> mx < b \<Longrightarrow> est_visit mx d (JBool tt) b = b + (if tt then 4 else 5)"
  "\<not> mx < b \<Longrightarrow> est_visit mx d (JNum n) b =
     b + (if is_finite n then length (num_to_string n) else 4)"
  by (simp_all add: est_visit.simps)

lemma capped_prefix:
  "capped mx (b + k) c r \<Longrightarrow> capped mx b (k + c) r"
  using capped_trans [OF capped_add] .

lemma capped_text_colon:
  "capped mx b (text_cost us + 1) (est_string mx us b + 1)"
  using capped_trans [OF est_string_capped capped_add] .

lemma est_bytes_capped:
  "capped mx b ((length ws - (if first then 1 else 0)) + sum_list (map byte_cost ws))
     (est_bytes mx first ws b)"
proof (induction mx first ws b rule: est_bytes.induct)
  case (1 mx first b)
  then show ?case by simp
next
  case (2 mx first i w ws b)
  show ?case
  proof (cases "mx < b")
    case True
    then show ?thesis by (simp add: capped_stopped)
  next
    case False
    let ?b2 = "est_string mx (units (nat_digits i)) (b + sep first) + 1"
    let ?b3 = "if mx < ?b2 then ?b2 else ?b2 + length (nat_digits (unat w))"
    have "capped mx ?b3 (length ws + sum_list (map byte_cost ws)) (est_bytes mx False ws ?b3)"
      using 2 False by simp
    moreover have "capped mx ?b2 (length (nat_digits (unat w))) ?b3"
      by (simp add: capped_def)
    moreover have "capped mx b (sep first + (text_cost (units (nat_digits i)) + 1)) ?b2"
      by (rule capped_prefix [OF capped_text_colon])
    ultimately have "capped mx b (sep first + (text_cost (units (nat_digits i)) + 1)
        + length (nat_digits (unat w)) + (length ws + sum_list (map byte_cost ws)))
        (est_bytes mx False ws ?b3)"
      by (blast intro: capped_trans)
    moreover have "est_bytes mx first ((i, w) # ws) b = est_bytes mx False ws ?b3"
      using False by (simp add: Let_def)
    moreover have "byte_cost (i, w)
        = text_cost (units (nat_digits i)) + 1 + length (nat_digits (unat w))"
      by (simp add: byte_cost_def)
    ultimately show ?thesis unfolding sep_length by (simp add: ac_simps)
  qed
qed

lemma est_visit_capped:
  "depth_ok d v \<Longrightarrow> capped mx b (json_cost v) (est_visit mx d v b)"
  "\<forall>x \<in> set xs. depth_ok d x \<Longrightarrow>
     capped mx b ((length xs - (if first then 1 else 0)) + sum_list (map json_cost xs))
       (est_elems mx d first xs b)"
  "\<forall>kv \<in> set m. depth_ok d (snd kv) \<Longrightarrow>
     capped mx b ((length m - (if first then 1 else 0))
       + sum_list (map (\<lambda>kv. text_cost (units (fst kv)) + 1 + json_cost (snd kv)) m))
       (est_members mx d first m b)"
proof (induction mx d v b and mx d first xs b and mx d first m b
    rule: est_visit_est_elems_est_members.induct)
  case (1 mx d v b)
  show ?case
  proof (cases "mx < b")
    case True
    then show ?thesis by (simp add: capped_stopped)
  next
    case False
    show ?thesis
    proof (cases v)
      case (JArr xs)
      with 1 False have "capped mx (b + 2) (length xs - 1 + sum_list (map json_cost xs))
          (est_elems mx (d + 1) True xs (b + 2))"
        by simp
      from capped_prefix [OF this] show ?thesis
        using False JArr 1(3) by (simp add: est_visit_leaf add.assoc)
    next
      case (JObj m)
      with 1 False have "capped mx (b + 2) (length m - 1
          + sum_list (map (\<lambda>kv. text_cost (units (fst kv)) + 1 + json_cost (snd kv)) m))
          (est_members mx (d + 1) True m (b + 2))"
        by simp
      from capped_prefix [OF this] show ?thesis
        using False JObj 1(3) by (simp add: est_visit_leaf add.assoc)
    next
      case (JBytes bs)
      then show ?thesis
        using False 1(3) capped_prefix [OF est_bytes_capped [of mx "b + 2" "enumerate 0 bs" True]]
        by (simp add: est_visit_leaf add.assoc)
    next
      case (JDate t)
      then show ?thesis using False 1(3)
        by (simp add: est_visit_leaf est_string_capped split: option.split)
    qed (use False in \<open>simp_all add: est_visit_leaf est_string_capped\<close>)
  qed
next
  case (2 mx d first b)
  then show ?case by simp
next
  case (3 mx d first x xs b)
  show ?case
  proof (cases "mx < b")
    case True
    then show ?thesis by (simp add: capped_stopped)
  next
    case False
    let ?b1 = "est_visit mx d x (b + sep first)"
    have "capped mx ?b1 (length xs + sum_list (map json_cost xs)) (est_elems mx d False xs ?b1)"
      and "capped mx (b + sep first) (json_cost x) ?b1"
      using 3 False by simp_all
    then have "capped mx b (sep first + (json_cost x + (length xs + sum_list (map json_cost xs))))
        (est_elems mx d False xs ?b1)"
      by (blast intro: capped_trans capped_prefix)
    moreover have "est_elems mx d first (x # xs) b = est_elems mx d False xs ?b1"
      using False by simp
    ultimately show ?thesis unfolding sep_length by (simp add: ac_simps)
  qed
next
  case (4 mx d first b)
  then show ?case by simp
next
  case (5 mx d first k v m b)
  show ?case
  proof (cases "mx < b")
    case True
    then show ?thesis by (simp add: capped_stopped)
  next
    case False
    let ?b2 = "est_string mx (units k) (b + sep first) + 1"
    let ?r = "sum_list (map (\<lambda>kv. text_cost (units (fst kv)) + 1 + json_cost (snd kv)) m)"
    have "capped mx (est_visit mx d v ?b2) (length m + ?r)
        (est_members mx d False m (est_visit mx d v ?b2))"
      and "capped mx ?b2 (json_cost v) (est_visit mx d v ?b2)"
      using 5 False by simp_all
    moreover have "capped mx b (sep first + (text_cost (units k) + 1)) ?b2"
      by (rule capped_prefix [OF capped_text_colon])
    ultimately have "capped mx b (sep first + (text_cost (units k) + 1) + json_cost v + (length m + ?r))
        (est_members mx d False m (est_visit mx d v ?b2))"
      by (blast intro: capped_trans)
    moreover have "est_members mx d first ((k, v) # m) b
        = est_members mx d False m (est_visit mx d v ?b2)"
      using False by (simp add: Let_def)
    ultimately show ?thesis unfolding sep_length by (simp add: ac_simps)
  qed
qed

lemma est_visit_deep:
  "\<not> depth_ok d v \<Longrightarrow> mx < est_visit mx d v b"
  "\<exists>x \<in> set xs. \<not> depth_ok d x \<Longrightarrow> mx < est_elems mx d first xs b"
  "\<exists>kv \<in> set m. \<not> depth_ok d (snd kv) \<Longrightarrow> mx < est_members mx d first m b"
proof (induction mx d v b and mx d first xs b and mx d first m b
    rule: est_visit_est_elems_est_members.induct)
  case (1 mx d v b)
  show ?case
  proof (cases "mx < b")
    case False
    show ?thesis
    proof (cases v)
      case (JArr xs)
      with 1 False show ?thesis by (cases "100 \<le> d") (simp_all add: est_visit_leaf)
    next
      case (JObj m)
      with 1 False show ?thesis by (cases "100 \<le> d") (simp_all add: est_visit_leaf)
    qed (use 1(3) False in \<open>simp_all add: est_visit_leaf\<close>)
  qed simp
next
  case (3 mx d first x xs b)
  show ?case
  proof (cases "mx < b")
    case False
    show ?thesis
    proof (cases "depth_ok d x")
      case True
      with 3 False show ?thesis by auto
    next
      case deep: False
      with 3 False have "mx < est_visit mx d x (b + sep first)" by simp
      with False show ?thesis by simp
    qed
  qed simp
next
  case (5 mx d first k v m b)
  show ?case
  proof (cases "mx < b")
    case False
    show ?thesis
    proof (cases "depth_ok d v")
      case True
      with 5 False show ?thesis by (auto simp: Let_def)
    next
      case deep: False
      with 5 False have "mx < est_visit mx d v (est_string mx (units k) (b + sep first) + 1)"
        by simp
      with False show ?thesis by (simp add: Let_def)
    qed
  qed simp
qed simp_all

section \<open>The count is the length of the text\<close>

text \<open>A piece of JSON text is not empty and never ends inside a surrogate pair.\<close>

definition closed_text :: "nat list \<Rightarrow> bool" where
  "closed_text u \<longleftrightarrow> u \<noteq> [] \<and> \<not> hi_surrogate (last u)"

lemma utf8_len_closed [simp]: "closed_text u \<Longrightarrow> utf8_len (u @ us) = utf8_len u + utf8_len us"
  by (simp add: closed_text_def utf8_len_append)

lemma utf8_len_small_Cons [simp]: "c < 128 \<Longrightarrow> utf8_len (c # us) = Suc (utf8_len us)"
  by (cases us) (auto simp: hi_surrogate_def)

lemma hi_lo_small [simp]: "c < 2048 \<Longrightarrow> \<not> hi_surrogate c" "lo_surrogate c \<Longrightarrow> \<not> hi_surrogate c"
  by (simp_all add: hi_surrogate_def lo_surrogate_def)

lemma last_esc_units: "us \<noteq> [] \<Longrightarrow> \<not> hi_surrogate (last (esc_units us)) \<and> esc_units us \<noteq> []"
proof (induction us rule: esc_units.induct)
  case (3 c d cs)
  then show ?case by (cases "cs = []") (auto simp: last_esc_unit)
qed (simp_all add: last_esc_unit)

lemma utf8_len_quote [simp]: "utf8_len (json_quote us) = text_cost us"
proof (cases "us = []")
  case True
  then show ?thesis by (simp add: json_quote_def text_cost_def)
next
  case False
  then have "utf8_len (esc_units us @ [34]) = utf8_len (esc_units us) + 1"
    using last_esc_units [of us] by (simp add: utf8_len_append)
  then show ?thesis by (simp add: json_quote_def text_cost_def)
qed

lemma closed_quote [simp]: "closed_text (json_quote us)"
  by (simp add: closed_text_def json_quote_def hi_surrogate_def)

lemma closed_snoc: "c < 128 \<Longrightarrow> closed_text (us @ [c])"
  by (simp add: closed_text_def hi_surrogate_def)

lemma units_ascii: "ascii s \<Longrightarrow> c \<in> set (units s) \<Longrightarrow> c < 128"
  by (auto simp: units_def ascii_def)

lemma utf8_len_units_ascii [simp]: "ascii s \<Longrightarrow> utf8_len (units s) = length s"
  using utf8_len_ascii [of "units s"] units_ascii by (simp add: units_def)

lemma closed_units_ascii:
  assumes "ascii s" and "s \<noteq> []"
  shows "closed_text (units s)"
proof -
  have "last (units s) \<in> set (units s)" using assms(2) by (intro last_in_set) (simp add: units_def)
  then have "last (units s) < 128" by (rule units_ascii [OF assms(1)])
  then show ?thesis using assms(2) by (simp add: closed_text_def units_def)
qed

lemma num_to_string_nonempty [simp]: "num_to_string n \<noteq> []"
proof -
  have "pos_to_string x \<noteq> []" for x
    by (auto simp: pos_to_string_def Let_def split: prod.splits)
  then show ?thesis by (auto simp: num_to_string_def split: jnum.splits)
qed

lemma closed_snoc_Cons: "c < 128 \<Longrightarrow> closed_text (x # us @ [c])"
  using closed_snoc [of c "x # us"] by simp

lemma closed_json: "json_units v = Some u \<Longrightarrow> closed_text u"
proof (cases v)
  case (JDate t)
  then show "json_units v = Some u \<Longrightarrow> closed_text u"
    by (cases t) (auto intro!: closed_units_ascii)
qed (auto intro!: closed_units_ascii closed_snoc_Cons split: if_splits)

lemma utf8_len_join:
  "\<forall>u \<in> set xs. closed_text u \<Longrightarrow>
   utf8_len (join_units [44] xs @ [c]) = length xs - 1 + sum_list (map utf8_len xs) + utf8_len [c]"
  by (induction "[44 :: nat]" xs rule: join_units.induct) auto

lemma closed_append: "closed_text v \<Longrightarrow> closed_text (u @ v)"
  by (simp add: closed_text_def)

lemma closed_Cons: "closed_text v \<Longrightarrow> closed_text (c # v)"
  by (simp add: closed_text_def)

lemma utf8_len_framed:
  assumes "\<forall>u \<in> set us. closed_text u" and "c < 128" and "e < 128"
    and "map utf8_len us = map f xs"
  shows "utf8_len ([c] @ join_units [44] us @ [e]) = 2 + (length xs - 1) + sum_list (map f xs)"
proof -
  have "length us = length xs" using assms(4) by (rule map_eq_imp_length_eq)
  then show ?thesis using assms utf8_len_join [OF assms(1), of e] by simp
qed

lemma byte_members_cost:
  "\<forall>u \<in> set (byte_members bs). closed_text u"
  "map utf8_len (byte_members bs) = map byte_cost (enumerate 0 bs)"
  by (auto simp: byte_members_def byte_cost_def
      intro!: closed_append closed_Cons closed_units_ascii)

lemma json_cost_text: "undef_free v \<Longrightarrow> \<exists>u. json_units v = Some u \<and> utf8_len u = json_cost v"
proof (induction v)
  case (JArr xs)
  let ?f = "\<lambda>x. case json_units x of None \<Rightarrow> units ''null'' | Some u \<Rightarrow> u"
  have ih: "closed_text (?f x) \<and> utf8_len (?f x) = json_cost x" if "x \<in> set xs" for x
  proof -
    from that JArr obtain u where "json_units x = Some u" "utf8_len u = json_cost x" by fastforce
    then show ?thesis by (simp add: closed_json)
  qed
  have "\<forall>u \<in> set (map ?f xs). closed_text u" using ih by auto
  moreover have "map utf8_len (map ?f xs) = map json_cost xs" using ih by simp
  ultimately have "utf8_len ([91] @ join_units [44] (map ?f xs) @ [93])
      = 2 + (length xs - 1) + sum_list (map json_cost xs)"
    by (intro utf8_len_framed) simp_all
  then show ?case by simp
next
  case (JObj m)
  let ?g = "\<lambda>kv. case json_units (snd kv) of None \<Rightarrow> [] | Some u \<Rightarrow> [json_quote (units (fst kv)) @ [58] @ u]"
  let ?h = "\<lambda>kv. json_quote (units (fst kv)) @ [58] @ the (json_units (snd kv))"
  let ?c = "\<lambda>kv. text_cost (units (fst kv)) + 1 + json_cost (snd kv)"
  have ih: "?g kv = [?h kv] \<and> closed_text (?h kv) \<and> utf8_len (?h kv) = ?c kv"
    if "kv \<in> set m" for kv
  proof -
    obtain k v where kv: "kv = (k, v)" by fastforce
    then have mem: "(k, v) \<in> set m" using that by simp
    then have "undef_free v" using JObj.prems by auto
    then obtain u where "json_units v = Some u" "utf8_len u = json_cost v"
      using JObj.IH [OF mem, of v] by (auto simp: snds.simps)
    then show ?thesis using closed_json [of v u] kv by (simp add: closed_append closed_Cons)
  qed
  have "concat (map ?g m) = map ?h m" using ih by (induction m) auto
  moreover have "\<forall>u \<in> set (map ?h m). closed_text u" using ih by auto
  moreover have "map utf8_len (map ?h m) = map ?c m" using ih by simp
  ultimately have "utf8_len ([123] @ join_units [44] (concat (map ?g m)) @ [125])
      = 2 + (length m - 1) + sum_list (map ?c m)"
    by (intro utf8_len_framed) simp_all
  then show ?case by simp
next
  case (JBytes bs)
  have "utf8_len ([123] @ join_units [44] (byte_members bs) @ [125])
      = 2 + (length (enumerate 0 bs) - 1) + sum_list (map byte_cost (enumerate 0 bs))"
    by (rule utf8_len_framed) (use byte_members_cost [of bs] in simp_all)
  then show ?case by simp
next
  case (JDate t)
  then show ?case by (cases t) simp_all
qed auto

lemma json_units_None [simp]: "json_units v = None \<longleftrightarrow> v = JUndef"
  by (cases v) (auto split: option.splits, rename_tac d, case_tac d, simp_all)

lemma sum_list_map_le:
  fixes f g :: "'a \<Rightarrow> nat"
  shows "(\<And>x. x \<in> set xs \<Longrightarrow> f x \<le> g x) \<Longrightarrow> sum_list (map f xs) \<le> sum_list (map g xs)"
  by (induction xs) (auto intro: add_mono)

lemma sum_list_filter_le:
  fixes f :: "'a \<Rightarrow> nat"
  shows "sum_list (map f (filter P xs)) \<le> sum_list (map f xs)"
  by (induction xs) auto

text \<open>With undefined members the count is still never below the text: an undefined element is
  written as \<open>null\<close> and an undefined member not at all, and each is counted as eight bytes.\<close>

lemma json_text_le_cost: "json_units v = Some u \<Longrightarrow> utf8_len u \<le> json_cost v"
proof (induction v arbitrary: u)
  case (JArr xs)
  let ?f = "\<lambda>x. case json_units x of None \<Rightarrow> units ''null'' | Some u \<Rightarrow> u"
  have ih: "closed_text (?f x) \<and> utf8_len (?f x) \<le> json_cost x" if "x \<in> set xs" for x
    using JArr.IH [OF that] by (cases "json_units x") (auto simp: closed_json intro!: closed_units_ascii)
  then have "utf8_len ([91] @ join_units [44] (map ?f xs) @ [93])
      = 2 + (length xs - 1) + sum_list (map (\<lambda>x. utf8_len (?f x)) xs)"
    by (intro utf8_len_framed) auto
  moreover have "sum_list (map (\<lambda>x. utf8_len (?f x)) xs) \<le> sum_list (map json_cost xs)"
    using ih by (intro sum_list_map_le) blast
  ultimately have "utf8_len ([91] @ join_units [44] (map ?f xs) @ [93])
      \<le> 2 + (length xs - 1) + sum_list (map json_cost xs)" by linarith
  then show ?case using JArr.prems by (auto simp del: utf8_len_small_Cons)
next
  case (JObj m)
  let ?g = "\<lambda>kv. case json_units (snd kv) of None \<Rightarrow> [] | Some u \<Rightarrow> [json_quote (units (fst kv)) @ [58] @ u]"
  let ?h = "\<lambda>kv. json_quote (units (fst kv)) @ [58] @ the (json_units (snd kv))"
  let ?c = "\<lambda>kv. text_cost (units (fst kv)) + 1 + json_cost (snd kv)"
  define n where "n = filter (\<lambda>kv. snd kv \<noteq> JUndef) m"
  have ih: "closed_text (?h kv) \<and> utf8_len (?h kv) \<le> ?c kv" if "kv \<in> set n" for kv
  proof -
    obtain k v where kv: "kv = (k, v)" by fastforce
    with that have mem: "(k, v) \<in> set m" and "v \<noteq> JUndef" by (auto simp: n_def)
    then obtain u where "json_units v = Some u" by fastforce
    then show ?thesis using closed_json [of v u] JObj.IH [OF mem, of v u] kv
      by (auto simp: closed_append closed_Cons snds.simps)
  qed
  have "concat (map ?g m) = map ?h n" unfolding n_def by (induction m) (auto split: option.splits)
  moreover have "utf8_len ([123] @ join_units [44] (map ?h n) @ [125])
      = 2 + (length n - 1) + sum_list (map (\<lambda>kv. utf8_len (?h kv)) n)"
    using ih by (intro utf8_len_framed) auto
  moreover have "sum_list (map (\<lambda>kv. utf8_len (?h kv)) n) \<le> sum_list (map ?c n)"
    using ih by (intro sum_list_map_le) blast
  moreover have "sum_list (map ?c n) \<le> sum_list (map ?c m)" unfolding n_def by (rule sum_list_filter_le)
  moreover have "length n \<le> length m" by (simp add: n_def)
  ultimately have "utf8_len ([123] @ join_units [44] (concat (map ?g m)) @ [125])
      \<le> 2 + (length m - 1) + sum_list (map ?c m)"
    by (elim ssubst [where P = "\<lambda>ys. utf8_len ([123] @ join_units [44] ys @ [125]) \<le> _"]) linarith
  then show ?case using JObj.prems by (auto simp del: utf8_len_small_Cons)
next
  case (JBytes bs)
  then show ?case using json_cost_text [of "JBytes bs"] by simp
next
  case (JDate t)
  then show ?case using json_cost_text [of "JDate t"] by simp
qed auto

definition json_bytes :: "jv \<Rightarrow> nat" where
  "json_bytes v = utf8_len (the (json_units v))"

lemma json_bytes_cost: "undef_free v \<Longrightarrow> json_bytes v = json_cost v"
  using json_cost_text [of v] by (auto simp: json_bytes_def)

lemma estimate_within:
  "depth_ok 0 v \<Longrightarrow> json_cost v \<le> mx \<Longrightarrow> estimateRuntimeJsonBytes v mx = json_cost v"
  using est_visit_capped(1) [of 0 v mx 0] by (auto simp: capped_def estimateRuntimeJsonBytes_def)

lemma estimate_above:
  assumes "\<not> (depth_ok 0 v \<and> json_cost v \<le> mx)"
  shows "mx < estimateRuntimeJsonBytes v mx"
proof (cases "depth_ok 0 v")
  case True
  with assms show ?thesis
    using est_visit_capped(1) [of 0 v mx 0] by (auto simp: capped_def estimateRuntimeJsonBytes_def)
next
  case False
  then show ?thesis by (simp add: estimateRuntimeJsonBytes_def est_visit_deep(1))
qed

lemma assert_within_limit_iff:
  "assertRuntimeValueWithinLimit v mx l = Inr () \<longleftrightarrow> estimateRuntimeJsonBytes v mx \<le> mx"
  by (auto simp: assertRuntimeValueWithinLimit_def)

end
