(* ===== verification/Flow_Mapper.thy ===== *)
theory Flow_Mapper
  imports Flow_Types Flow_Limits
begin

text \<open>
  \<open>apps/flows/packages/runtime/src/parameter-mapper.ts\<close> (and \<open>isObjectReference\<close> of
  \<open>node-types.ts\<close>): values cross between the API format, in which binary data is a reference
  into the object store, and the native format, in which it is bytes.

  The object store, the schema service, \<open>JSON.parse\<close> and the parsing of date texts are the
  host's: a record of functions whose answers may depend on what was asked before. Every call to
  the store or the schema service is recorded, so a lemma can say which calls were made.
\<close>

section \<open>Errors and effects\<close>

datatype js_error = PlainError (err_message: string) | NonRetryableError (err_message: string)

datatype store_op =
    WriteObject "8 word list" string string "string option" jv
  | ReadObject jv
  | ResolveSchema string string

type_synonym 'a io = "store_op list \<Rightarrow> (js_error + 'a) \<times> store_op list"

definition io_return :: "'a \<Rightarrow> 'a io" where
  "io_return x = (\<lambda>ops. (Inr x, ops))"

definition io_fail :: "js_error \<Rightarrow> 'a io" where
  "io_fail e = (\<lambda>ops. (Inl e, ops))"

definition io_bind :: "'a io \<Rightarrow> ('a \<Rightarrow> 'b io) \<Rightarrow> 'b io" where
  "io_bind m f = (\<lambda>ops. case m ops of (Inl e, ops') \<Rightarrow> (Inl e, ops') | (Inr x, ops') \<Rightarrow> f x ops')"

text \<open>Recording a call and returning the host's answer to it, given the calls before it.\<close>

definition io_call :: "(store_op list \<Rightarrow> js_error + 'a) \<Rightarrow> store_op \<Rightarrow> 'a io" where
  "io_call answer op = (\<lambda>ops. (answer ops, ops @ [op]))"

record host =
  h_objectStore :: bool
  h_write :: "store_op \<Rightarrow> store_op list \<Rightarrow> js_error + jv"
  h_read :: "jv \<Rightarrow> store_op list \<Rightarrow> js_error + (8 word list \<times> string jmap option) option"
  h_schemaService :: bool
  h_schema :: "string \<Rightarrow> string \<Rightarrow> store_op list \<Rightarrow> js_error + jv option"
  h_parse :: "string \<Rightarrow> jv option"
  h_dateText :: "string \<Rightarrow> int option"

section \<open>Guards\<close>

definition isSchemaObject :: "jv \<Rightarrow> bool" where
  "isSchemaObject v = (case v of
     JObj m \<Rightarrow> js_in ''name'' m \<and> js_in ''fields'' m \<and> is_array (read_prop m ''fields'')
   | _ \<Rightarrow> False)"

text \<open>The bytes and the type of a native blob parameter.\<close>

definition native_blob :: "jv \<Rightarrow> (8 word list \<times> string) option" where
  "native_blob v = (case v of
     JObj m \<Rightarrow>
       (case (read_prop m ''data'', read_prop m ''mimeType'') of
          (JBytes bs, JStr mime) \<Rightarrow> Some (bs, mime)
        | _ \<Rightarrow> None)
   | _ \<Rightarrow> None)"

definition isNativeBlobParameter :: "jv \<Rightarrow> bool" where
  "isNativeBlobParameter v \<longleftrightarrow> native_blob v \<noteq> None"

definition isObjectReference :: "jv \<Rightarrow> bool" where
  "isObjectReference v = (case v of
     JObj m \<Rightarrow> typeof (read_prop m ''id'') = ''string'' \<and> typeof (read_prop m ''mimeType'') = ''string''
       \<and> \<not> js_in ''data'' m
   | _ \<Rightarrow> False)"

section \<open>The converters\<close>

definition typeValidating :: "string \<Rightarrow> jv \<Rightarrow> jv io" where
  "typeValidating expectedType v = io_return (if typeof v = expectedType then v else JUndef)"

definition jsonParsingApiToNode :: "host \<Rightarrow> jv \<Rightarrow> jv io" where
  "jsonParsingApiToNode h v = io_return (case v of
     JStr s \<Rightarrow> (case h_parse h s of Some p \<Rightarrow> p | None \<Rightarrow> v)
   | _ \<Rightarrow> v)"

definition blobNodeToApi :: "host \<Rightarrow> string \<Rightarrow> string option \<Rightarrow> string \<Rightarrow> jv \<Rightarrow> jv io" where
  "blobNodeToApi h organizationId executionId missing v =
     (case native_blob v of
        None \<Rightarrow> io_return JUndef
      | Some (bs, mime) \<Rightarrow>
          if \<not> h_objectStore h \<or> organizationId = []
          then io_fail (PlainError missing)
          else (let op = WriteObject bs (js_lower mime) organizationId executionId
                           (case v of JObj m \<Rightarrow> read_prop m ''filename'' | _ \<Rightarrow> JUndef) in
                io_call (h_write h op) op))"

definition assertObjectTenant :: "string jmap option \<Rightarrow> string \<Rightarrow> unit io" where
  "assertObjectTenant metadata organizationId =
     (if organizationId \<noteq> [] \<and>
         (case metadata of Some m \<Rightarrow> jget m ''organizationId'' | None \<Rightarrow> None) \<noteq> Some organizationId
      then io_fail (PlainError ''Object not found or access denied.'')
      else io_return ())"

definition with_filename :: "jv jmap \<Rightarrow> (string \<times> jv) list" where
  "with_filename m = (if truthy (read_prop m ''filename'')
     then [(''filename'', read_prop m ''filename'')] else [])"

text \<open>Reading the object behind a reference, for the tenant of the run.\<close>

definition read_blob :: "host \<Rightarrow> string \<Rightarrow> jv jmap \<Rightarrow> jv io" where
  "read_blob h organizationId m =
     io_bind (io_call (h_read h (JObj m)) (ReadObject (JObj m))) (\<lambda>found. case found of
        None \<Rightarrow> io_return JUndef
      | Some (bs, metadata) \<Rightarrow>
          io_bind (assertObjectTenant metadata organizationId) (\<lambda>_.
            io_return (JObj ([(''data'', JBytes bs), (''mimeType'', read_prop m ''mimeType'')]
              @ with_filename m))))"

definition blobApiToNode :: "host \<Rightarrow> string \<Rightarrow> jv \<Rightarrow> jv io" where
  "blobApiToNode h organizationId v =
     (case v of
        JObj m \<Rightarrow>
          if \<not> js_in ''id'' m \<or> \<not> js_in ''mimeType'' m then io_return JUndef
          else if \<not> h_objectStore h then io_fail (PlainError ''ObjectStore required for blob type'')
          else read_blob h organizationId m
      | _ \<Rightarrow> io_return JUndef)"

text \<open>
  \<open>new Date(n)\<close> of a number: the time value is the integer part, unless it is out of range.
\<close>

definition truncate_rat :: "rat \<Rightarrow> int" where
  "truncate_rat x = (if x < 0 then - floor (- x) else floor x)"

definition time_clip :: "jnum \<Rightarrow> int option" where
  "time_clip n = (case n of
     Fin x \<Rightarrow> if \<bar>x\<bar> \<le> 8640000000000000 then Some (truncate_rat x) else None
   | _ \<Rightarrow> None)"

definition iso_or_undef :: "int option \<Rightarrow> jv" where
  "iso_or_undef t = (case t of None \<Rightarrow> JUndef | Some ms \<Rightarrow> JStr (iso_of_ms ms))"

definition dateApiToNode :: "host \<Rightarrow> jv \<Rightarrow> jv io" where
  "dateApiToNode h v = io_return (case v of
     JStr s \<Rightarrow> iso_or_undef (h_dateText h s)
   | JNum n \<Rightarrow> iso_or_undef (time_clip n)
   | _ \<Rightarrow> JUndef)"

text \<open>\<open>toISOString\<close> throws on an invalid \<open>Date\<close> object.\<close>

definition dateNodeToApi :: "host \<Rightarrow> jv \<Rightarrow> jv io" where
  "dateNodeToApi h v = (case v of
     JDate None \<Rightarrow> io_fail (PlainError ''Invalid time value'')
   | JDate (Some ms) \<Rightarrow> io_return (JStr (iso_of_ms ms))
   | _ \<Rightarrow> dateApiToNode h v)"

definition schemaApiToNode :: "host \<Rightarrow> string \<Rightarrow> jv \<Rightarrow> jv io" where
  "schemaApiToNode h organizationId v =
     (if isSchemaObject v then io_return v
      else case v of
        JStr s \<Rightarrow>
          if s \<noteq> [] \<and> h_schemaService h \<and> organizationId \<noteq> []
          then io_bind (io_call (h_schema h s organizationId) (ResolveSchema s organizationId))
                 (\<lambda>schema. case schema of
                    None \<Rightarrow> io_fail (PlainError (''Schema '' @ [CHR 39] @ s @ [CHR 39] @ '' not found or access denied.''))
                  | Some x \<Rightarrow> io_return x)
          else io_return JUndef
      | _ \<Rightarrow> io_return JUndef)"

definition anyNodeToApi :: "host \<Rightarrow> string \<Rightarrow> string option \<Rightarrow> jv \<Rightarrow> jv io" where
  "anyNodeToApi h organizationId executionId v =
     (if isNativeBlobParameter v
      then blobNodeToApi h organizationId executionId
             ''ObjectStore and organizationId required for binary data'' v
      else io_return v)"

definition anyApiToNode :: "host \<Rightarrow> string \<Rightarrow> jv \<Rightarrow> jv io" where
  "anyApiToNode h organizationId v =
     (if isObjectReference v
      then (if \<not> h_objectStore h
            then io_fail (PlainError ''ObjectStore required to resolve object reference'')
            else (case v of JObj m \<Rightarrow> read_blob h organizationId m | _ \<Rightarrow> io_return JUndef))
      else jsonParsingApiToNode h v)"

section \<open>The table of converters\<close>

definition STRING_TYPES :: "string list" where
  "STRING_TYPES = [''string'', ''secret'', ''database'', ''dataset'', ''queue'', ''email'',
     ''integration'', ''telegram'', ''discord'', ''whatsapp'', ''slack'']"

definition BLOB_TYPES :: "string list" where
  "BLOB_TYPES = [''blob'', ''image'', ''document'', ''audio'', ''gltf'', ''buffergeometry'', ''video'']"

definition JSON_TYPES :: "string list" where
  "JSON_TYPES = [''json'', ''point'', ''multipoint'', ''linestring'', ''multilinestring'',
     ''polygon'', ''multipolygon'', ''geometry'', ''geometrycollection'', ''feature'',
     ''featurecollection'', ''geojson'']"

text \<open>
  A type outside the table has no converter; the names every object inherits do find something,
  which has no such method.
\<close>

definition no_converter :: "string \<Rightarrow> string \<Rightarrow> js_error" where
  "no_converter type method =
     (if type \<in> set object_prototype_keys
      then PlainError (''converter.'' @ method @ '' is not a function'')
      else PlainError (''No converter for type: '' @ type))"

definition nodeToApiParameter ::
  "host \<Rightarrow> string \<Rightarrow> string \<Rightarrow> string option \<Rightarrow> jv \<Rightarrow> jv io" where
  "nodeToApiParameter h type organizationId executionId v =
     (if type \<in> set STRING_TYPES then typeValidating ''string'' v
      else if type = ''number'' then typeValidating ''number'' v
      else if type = ''boolean'' then typeValidating ''boolean'' v
      else if type = ''date'' then dateNodeToApi h v
      else if type \<in> set BLOB_TYPES
      then blobNodeToApi h organizationId executionId
             ''ObjectStore and organizationId required for blob type'' v
      else if type \<in> set JSON_TYPES \<or> type = ''schema'' then io_return v
      else if type = ''any'' then anyNodeToApi h organizationId executionId v
      else io_fail (no_converter type ''nodeToApi''))"

definition apiToNodeParameter :: "host \<Rightarrow> string \<Rightarrow> string \<Rightarrow> jv \<Rightarrow> jv io" where
  "apiToNodeParameter h type organizationId v =
     (if type \<in> set STRING_TYPES then typeValidating ''string'' v
      else if type = ''number'' then typeValidating ''number'' v
      else if type = ''boolean'' then typeValidating ''boolean'' v
      else if type = ''date'' then dateApiToNode h v
      else if type \<in> set BLOB_TYPES then blobApiToNode h organizationId v
      else if type \<in> set JSON_TYPES then jsonParsingApiToNode h v
      else if type = ''schema'' then schemaApiToNode h organizationId v
      else if type = ''any'' then anyApiToNode h organizationId v
      else io_fail (no_converter type ''apiToNode''))"

section \<open>The limits\<close>

definition MAX_BINARY_VALUES_PER_NODE :: nat where
  "MAX_BINARY_VALUES_PER_NODE = 32"

definition MAX_BINARY_BYTES_PER_NODE :: nat where
  "MAX_BINARY_BYTES_PER_NODE = 8 * 1024 * 1024"

definition MAX_REPEATED_PARAMETER_ELEMENTS :: nat where
  "MAX_REPEATED_PARAMETER_ELEMENTS = 256"

definition BINARY_PARAMETER_TYPES :: "string list" where
  "BINARY_PARAMETER_TYPES =
     [''blob'', ''image'', ''document'', ''audio'', ''gltf'', ''video'', ''any'']"

definition assertRepeatedParameterSize :: "string \<Rightarrow> jv \<Rightarrow> bool \<Rightarrow> js_error + unit" where
  "assertRepeatedParameterSize name v repeated =
     (case v of
        JArr xs \<Rightarrow>
          if repeated \<and> MAX_REPEATED_PARAMETER_ELEMENTS < length xs
          then Inl (NonRetryableError (''Repeated parameter '' @ name @ '' exceeds the '' @
                 nat_digits MAX_REPEATED_PARAMETER_ELEMENTS @ ''-element limit''))
          else Inr ()
      | _ \<Rightarrow> Inr ())"

definition assertBinaryValueCount :: "nat \<Rightarrow> js_error + unit" where
  "assertBinaryValueCount count =
     (if MAX_BINARY_VALUES_PER_NODE < count
      then Inl (NonRetryableError (''Node exceeds the '' @ nat_digits MAX_BINARY_VALUES_PER_NODE
             @ ''-binary-value limit''))
      else Inr ())"

definition assertAggregateBinaryBytes :: "nat \<Rightarrow> js_error + unit" where
  "assertAggregateBinaryBytes bytes =
     (if MAX_BINARY_BYTES_PER_NODE < bytes
      then Inl (NonRetryableError (''Node aggregate binary data exceeds the ''
             @ nat_digits MAX_BINARY_BYTES_PER_NODE @ ''-byte limit''))
      else Inr ())"

definition isBinaryInputReference :: "string \<Rightarrow> jv \<Rightarrow> bool" where
  "isBinaryInputReference type v \<longleftrightarrow> type \<in> set BINARY_PARAMETER_TYPES \<and> isObjectReference v"

definition declared_type :: "parameter option \<Rightarrow> string" where
  "declared_type p = (case p of Some p \<Rightarrow> p_type p | None \<Rightarrow> ''string'')"

definition declared_repeated :: "parameter option \<Rightarrow> bool" where
  "declared_repeated p = (case p of Some p \<Rightarrow> p_repeated p | None \<Rightarrow> False)"

text \<open>The inner loop of the output preflight, over the values of one output.\<close>

fun count_binaries :: "jv list \<Rightarrow> nat \<Rightarrow> nat \<Rightarrow> js_error + nat \<times> nat" where
  "count_binaries [] count bytes = Inr (count, bytes)"
| "count_binaries (v # vs) count bytes =
     (case native_blob v of
        None \<Rightarrow> count_binaries vs count bytes
      | Some (bs, _) \<Rightarrow>
          (case assertBinaryValueCount (Suc count) of
             Inl e \<Rightarrow> Inl e
           | Inr _ \<Rightarrow>
             (case assertAggregateBinaryBytes (bytes + length bs) of
                Inl e \<Rightarrow> Inl e
              | Inr _ \<Rightarrow> count_binaries vs (Suc count) (bytes + length bs))))"

definition elements_of :: "bool \<Rightarrow> jv \<Rightarrow> jv list" where
  "elements_of split v = (case v of JArr xs \<Rightarrow> if split then xs else [v] | _ \<Rightarrow> [v])"

fun preflightBinaryOutputs :: "parameter list \<Rightarrow> jv jmap \<Rightarrow> nat \<Rightarrow> nat \<Rightarrow> js_error + nat \<times> nat" where
  "preflightBinaryOutputs ps [] count bytes = Inr (count, bytes)"
| "preflightBinaryOutputs ps ((name, v) # outputs) count bytes =
     (let p = find_param ps name in
      case assertRepeatedParameterSize name v (declared_repeated p) of
        Inl e \<Rightarrow> Inl e
      | Inr _ \<Rightarrow>
          if declared_type p \<notin> set BINARY_PARAMETER_TYPES
          then preflightBinaryOutputs ps outputs count bytes
          else (case count_binaries (elements_of (declared_repeated p) v) count bytes of
                  Inl e \<Rightarrow> Inl e
                | Inr (count, bytes) \<Rightarrow> preflightBinaryOutputs ps outputs count bytes))"

fun count_references :: "string \<Rightarrow> jv list \<Rightarrow> nat \<Rightarrow> js_error + nat" where
  "count_references type [] count = Inr count"
| "count_references type (v # vs) count =
     (if \<not> isBinaryInputReference type v then count_references type vs count
      else (case assertBinaryValueCount (Suc count) of
              Inl e \<Rightarrow> Inl e
            | Inr _ \<Rightarrow> count_references type vs (Suc count)))"

fun preflightBinaryInputs :: "parameter list \<Rightarrow> jv jmap \<Rightarrow> nat \<Rightarrow> js_error + nat" where
  "preflightBinaryInputs ps [] count = Inr count"
| "preflightBinaryInputs ps ((name, v) # inputs) count =
     (let p = find_param ps name in
      case assertRepeatedParameterSize name v (declared_repeated p) of
        Inl e \<Rightarrow> Inl e
      | Inr _ \<Rightarrow>
          if declared_type p \<notin> set BINARY_PARAMETER_TYPES
          then preflightBinaryInputs ps inputs count
          else (case count_references (declared_type p) (elements_of True v) count of
                  Inl e \<Rightarrow> Inl e
                | Inr count \<Rightarrow> preflightBinaryInputs ps inputs count))"

definition resolvedBinaryByteLength :: "string \<Rightarrow> jv \<Rightarrow> nat" where
  "resolvedBinaryByteLength type v =
     (if type \<notin> set BINARY_PARAMETER_TYPES then 0
      else case v of
        JObj m \<Rightarrow> (case read_prop m ''data'' of JBytes bs \<Rightarrow> length bs | _ \<Rightarrow> 0)
      | _ \<Rightarrow> 0)"

section \<open>Converting a node's values\<close>

fun io_map :: "('a \<Rightarrow> 'b io) \<Rightarrow> 'a list \<Rightarrow> 'b list io" where
  "io_map f [] = io_return []"
| "io_map f (x # xs) = io_bind (f x) (\<lambda>y. io_bind (io_map f xs) (\<lambda>ys. io_return (y # ys)))"

definition io_lift :: "js_error + 'a \<Rightarrow> 'a io" where
  "io_lift r = (\<lambda>ops. (r, ops))"

definition convert_output :: "host \<Rightarrow> parameter list \<Rightarrow> string \<Rightarrow> string option
    \<Rightarrow> string \<times> jv \<Rightarrow> (string \<times> jv) io" where
  "convert_output h ps organizationId executionId = (\<lambda>(name, v).
     (let p = find_param ps name;
          convert = nodeToApiParameter h (declared_type p) organizationId executionId in
      if declared_repeated p \<and> is_array v
      then io_bind (io_map convert (elements_of True v)) (\<lambda>xs. io_return (name, JArr xs))
      else io_bind (convert v) (\<lambda>x. io_return (name, x))))"

definition nodeOutputsToApi :: "host \<Rightarrow> node \<Rightarrow> jv jmap \<Rightarrow> string \<Rightarrow> string option \<Rightarrow> jv jmap io" where
  "nodeOutputsToApi h n outputs organizationId executionId =
     io_bind (io_lift (preflightBinaryOutputs (n_outputs n) outputs 0 0)) (\<lambda>_.
       io_map (convert_output h (n_outputs n) organizationId executionId) outputs)"

fun convert_inputs :: "(jv \<Rightarrow> jv io) \<Rightarrow> string \<Rightarrow> jv list \<Rightarrow> nat \<Rightarrow> (jv list \<times> nat) io" where
  "convert_inputs convert type [] bytes = io_return ([], bytes)"
| "convert_inputs convert type (v # vs) bytes =
     io_bind (convert v) (\<lambda>x.
       (let bytes = bytes + resolvedBinaryByteLength type x in
        io_bind (io_lift (assertAggregateBinaryBytes bytes)) (\<lambda>_.
          io_bind (convert_inputs convert type vs bytes) (\<lambda>(xs, bytes).
            io_return (x # xs, bytes)))))"

fun resolve_inputs :: "host \<Rightarrow> parameter list \<Rightarrow> string \<Rightarrow> jv jmap \<Rightarrow> nat \<Rightarrow> jv jmap io" where
  "resolve_inputs h ps organizationId [] bytes = io_return []"
| "resolve_inputs h ps organizationId ((name, v) # inputs) bytes =
     (let type = declared_type (find_param ps name) in
      io_bind (convert_inputs (apiToNodeParameter h type organizationId) type (elements_of True v) bytes)
        (\<lambda>(xs, bytes).
          io_bind (resolve_inputs h ps organizationId inputs bytes) (\<lambda>rest.
            io_return ((name, if is_array v then JArr xs else hd xs) # rest))))"

definition apiInputsToNode :: "host \<Rightarrow> node \<Rightarrow> jv jmap \<Rightarrow> string \<Rightarrow> jv jmap io" where
  "apiInputsToNode h n inputs organizationId =
     io_bind (io_lift (preflightBinaryInputs (n_inputs n) inputs 0)) (\<lambda>_.
       resolve_inputs h (n_inputs n) organizationId inputs 0)"

section \<open>Which calls are made\<close>

text \<open>
  \<open>calls_ok Q R m\<close>: \<open>m\<close> only appends calls; each of them satisfies \<open>Q\<close>, which also sees the
  calls before it, except that \<open>m\<close> may fail with an error \<open>e\<close> right after a call that satisfies
  \<open>R\<close> with \<open>e\<close>.
\<close>

definition calls_meet ::
  "(store_op list \<Rightarrow> store_op \<Rightarrow> bool) \<Rightarrow> (store_op list \<Rightarrow> store_op \<Rightarrow> js_error \<Rightarrow> bool) \<Rightarrow>
   store_op list \<Rightarrow> js_error + 'a \<Rightarrow> store_op list \<Rightarrow> bool" where
  "calls_meet Q R ops r new \<longleftrightarrow> (\<forall>k < length new. Q (ops @ take k new) (new ! k) \<or>
     (Suc k = length new \<and> (\<exists>e. r = Inl e \<and> R (ops @ take k new) (new ! k) e)))"

definition calls_ok ::
  "(store_op list \<Rightarrow> store_op \<Rightarrow> bool) \<Rightarrow> (store_op list \<Rightarrow> store_op \<Rightarrow> js_error \<Rightarrow> bool) \<Rightarrow>
   'a io \<Rightarrow> bool" where
  "calls_ok Q R m \<longleftrightarrow> (\<forall>ops r ops'. m ops = (r, ops') \<longrightarrow>
     (\<exists>new. ops' = ops @ new \<and> calls_meet Q R ops r new))"

lemma calls_meet_Nil [simp]: "calls_meet Q R ops r []"
  by (simp add: calls_meet_def)

lemma calls_return [simp]: "calls_ok Q R (io_return x)"
  by (simp add: calls_ok_def io_return_def)

lemma calls_fail [simp]: "calls_ok Q R (io_fail e)"
  by (simp add: calls_ok_def io_fail_def)

lemma calls_lift [simp]: "calls_ok Q R (io_lift r)"
  by (simp add: calls_ok_def io_lift_def)

lemma calls_okD:
  assumes "calls_ok Q R m" and "m ops = (r, ops')"
  obtains new where "ops' = ops @ new" and "calls_meet Q R ops r new"
  using assms unfolding calls_ok_def by metis

lemma calls_meet_append:
  assumes "calls_meet Q R ops (Inr x) new1" and "calls_meet Q R (ops @ new1) r new2"
  shows "calls_meet Q R ops r (new1 @ new2)"
  unfolding calls_meet_def
proof (intro allI impI)
  fix k assume k: "k < length (new1 @ new2)"
  show "Q (ops @ take k (new1 @ new2)) ((new1 @ new2) ! k) \<or>
    (Suc k = length (new1 @ new2) \<and>
      (\<exists>e. r = Inl e \<and> R (ops @ take k (new1 @ new2)) ((new1 @ new2) ! k) e))"
  proof (cases "k < length new1")
    case True
    then show ?thesis using assms(1) by (auto simp: calls_meet_def nth_append)
  next
    case False
    then obtain j where "k = length new1 + j" "j < length new2"
      using k by (metis length_append nat_add_left_cancel_less not_less le_Suc_ex)
    then show ?thesis using assms(2) by (auto simp: calls_meet_def nth_append)
  qed
qed

lemma calls_bind:
  assumes m: "calls_ok Q R m" and f: "\<And>x. calls_ok Q R (f x)"
  shows "calls_ok Q R (io_bind m f)"
  unfolding calls_ok_def
proof (intro allI impI)
  fix ops r ops'
  assume b: "io_bind m f ops = (r, ops')"
  obtain r1 ops1 where m1: "m ops = (r1, ops1)" by fastforce
  obtain new1 where new1: "ops1 = ops @ new1" "calls_meet Q R ops r1 new1"
    by (rule calls_okD [OF m m1])
  show "\<exists>new. ops' = ops @ new \<and> calls_meet Q R ops r new"
  proof (cases r1)
    case (Inl e)
    then show ?thesis using b m1 new1 by (auto simp: io_bind_def calls_meet_def)
  next
    case (Inr x)
    then have "f x ops1 = (r, ops')" using b m1 by (simp add: io_bind_def)
    then obtain new2 where "ops' = ops1 @ new2" "calls_meet Q R ops1 r new2"
      by (rule calls_okD [OF f])
    then show ?thesis using new1 Inr calls_meet_append [of Q R ops x new1 r new2]
      by (intro exI [of _ "new1 @ new2"]) simp
  qed
qed

lemma calls_call:
  assumes "\<And>x ops. answer ops = Inr x \<Longrightarrow> Q ops op"
    and "\<And>e ops. answer ops = Inl e \<Longrightarrow> Q ops op \<or> R ops op e"
  shows "calls_ok Q R (io_call answer op)"
  unfolding calls_ok_def
proof (intro allI impI)
  fix ops r ops'
  assume "io_call answer op ops = (r, ops')"
  then have "r = answer ops" "ops' = ops @ [op]" by (simp_all add: io_call_def)
  moreover from this(1) have "calls_meet Q R ops r [op]"
    using assms by (cases r) (fastforce simp: calls_meet_def)+
  ultimately show "\<exists>new. ops' = ops @ new \<and> calls_meet Q R ops r new" by blast
qed

lemma calls_map: "(\<And>x. calls_ok Q R (f x)) \<Longrightarrow> calls_ok Q R (io_map f xs)"
  by (induction xs) (auto intro!: calls_bind)

text \<open>A call followed by a step that rejects the answers it may not have.\<close>

lemma calls_checked:
  assumes "\<And>x. calls_ok Q R (f x)"
    and "\<And>ops x. answer ops = Inr x \<Longrightarrow> Q ops op \<or> (\<exists>e. f x = io_fail e \<and> R ops op e)"
    and "\<And>ops e. answer ops = Inl e \<Longrightarrow> Q ops op \<or> R ops op e"
  shows "calls_ok Q R (io_bind (io_call answer op) f)"
  unfolding calls_ok_def
proof (intro allI impI)
  fix ops r ops'
  assume b: "io_bind (io_call answer op) f ops = (r, ops')"
  show "\<exists>new. ops' = ops @ new \<and> calls_meet Q R ops r new"
  proof (cases "answer ops")
    case (Inl e)
    then show ?thesis using b assms(3) [OF Inl] by (auto simp: io_bind_def io_call_def calls_meet_def)
  next
    case (Inr x)
    then have fx: "f x (ops @ [op]) = (r, ops')" using b by (simp add: io_bind_def io_call_def)
    show ?thesis using assms(2) [OF Inr]
    proof (elim disjE exE conjE)
      fix e assume "f x = io_fail e" "R ops op e"
      then show ?thesis using fx by (auto simp: io_fail_def calls_meet_def)
    next
      assume "Q ops op"
      then have "calls_meet Q R ops (Inr x) [op]" by (simp add: calls_meet_def)
      moreover obtain new where "ops' = (ops @ [op]) @ new" "calls_meet Q R (ops @ [op]) r new"
        using fx by (rule calls_okD [OF assms(1)])
      ultimately show ?thesis using calls_meet_append [of Q R ops x "[op]" r new]
        by (intro exI [of _ "[op] @ new"]) simp
    qed
  qed
qed

section \<open>Inputs: only the tenant's own objects\<close>

definition own_object :: "string \<Rightarrow> string jmap option \<Rightarrow> bool" where
  "own_object organizationId metadata \<longleftrightarrow> organizationId = [] \<or>
     (\<exists>m. metadata = Some m \<and> jget m ''organizationId'' = Some organizationId)"

definition input_call :: "host \<Rightarrow> string \<Rightarrow> store_op list \<Rightarrow> store_op \<Rightarrow> bool" where
  "input_call h organizationId ops op = (case op of
     WriteObject _ _ _ _ _ \<Rightarrow> False
   | ReadObject r \<Rightarrow> h_read h r ops = Inr None \<or>
       (\<exists>bs metadata. h_read h r ops = Inr (Some (bs, metadata)) \<and> own_object organizationId metadata)
   | ResolveSchema s org \<Rightarrow> org = organizationId)"

text \<open>The calls that a resolution may end with: a read that the store fails, and a read of an
  object of another organization, which is then refused.\<close>

definition refused_call :: "host \<Rightarrow> string \<Rightarrow> store_op list \<Rightarrow> store_op \<Rightarrow> js_error \<Rightarrow> bool" where
  "refused_call h organizationId ops op e = (case op of
     ReadObject r \<Rightarrow> h_read h r ops = Inl e \<or>
       (\<exists>bs metadata. h_read h r ops = Inr (Some (bs, metadata)) \<and> \<not> own_object organizationId metadata \<and>
          e = PlainError ''Object not found or access denied.'')
   | _ \<Rightarrow> False)"

abbreviation inputs_ok :: "host \<Rightarrow> string \<Rightarrow> 'a io \<Rightarrow> bool" where
  "inputs_ok h org \<equiv> calls_ok (input_call h org) (refused_call h org)"

lemma assert_tenant:
  "assertObjectTenant metadata org =
     (if own_object org metadata then io_return () else io_fail (PlainError ''Object not found or access denied.''))"
  by (auto simp: assertObjectTenant_def own_object_def split: option.split)

lemma io_bind_fail [simp]: "io_bind (io_fail e) f = io_fail e"
  by (simp add: io_bind_def io_fail_def)

lemma io_fail_Inr [simp]: "io_fail e ops \<noteq> (Inr y, ops')"
  by (simp add: io_fail_def)

lemma io_bind_return [simp]: "io_bind (io_return x) f = f x"
  by (simp add: io_bind_def io_return_def)

lemma read_blob_calls: "inputs_ok h org (read_blob h org m)"
  unfolding read_blob_def
  by (rule calls_checked)
    (auto simp: input_call_def refused_call_def assert_tenant split: option.split)

lemma schema_calls: "inputs_ok h org (schemaApiToNode h org v)"
proof -
  have "inputs_ok h org (case x of None \<Rightarrow> io_fail e | Some y \<Rightarrow> io_return y)"
    for x :: "jv option" and e by (cases x) simp_all
  moreover have "inputs_ok h org (io_call (h_schema h s org) (ResolveSchema s org))" for s
    by (rule calls_call) (simp_all add: input_call_def)
  ultimately show ?thesis
    by (cases v) (auto simp: schemaApiToNode_def intro!: calls_bind)
qed

lemma any_calls: "inputs_ok h org (anyApiToNode h org v)"
  by (cases v) (auto simp: anyApiToNode_def jsonParsingApiToNode_def read_blob_calls)

lemma blob_calls: "inputs_ok h org (blobApiToNode h org v)"
  by (cases v) (auto simp: blobApiToNode_def read_blob_calls)

lemma apiToNode_calls: "inputs_ok h org (apiToNodeParameter h type org v)"
  by (simp add: apiToNodeParameter_def typeValidating_def dateApiToNode_def
      jsonParsingApiToNode_def schema_calls any_calls blob_calls)

lemma convert_inputs_calls:
  "(\<And>v. calls_ok Q R (convert v)) \<Longrightarrow> calls_ok Q R (convert_inputs convert type vs bytes)"
  by (induction vs arbitrary: bytes) (auto simp: Let_def intro!: calls_bind)

lemma resolve_inputs_calls: "inputs_ok h org (resolve_inputs h ps org inputs bytes)"
  by (induction h ps org inputs bytes rule: resolve_inputs.induct)
    (auto simp: Let_def intro!: calls_bind convert_inputs_calls apiToNode_calls)

lemma apiInputs_calls: "inputs_ok h org (apiInputsToNode h n inputs org)"
  by (auto simp: apiInputsToNode_def intro!: calls_bind resolve_inputs_calls)

section \<open>Outputs: no more is written than the preflight counted\<close>

fun written :: "store_op \<Rightarrow> nat" where
  "written (WriteObject bs _ _ _ _) = length bs"
| "written _ = 0"

fun output_call :: "string \<Rightarrow> string option \<Rightarrow> store_op \<Rightarrow> bool" where
  "output_call organizationId executionId (WriteObject _ _ org ex _) \<longleftrightarrow> org = organizationId \<and> ex = executionId"
| "output_call organizationId executionId _ \<longleftrightarrow> False"

definition writes_within :: "string \<Rightarrow> string option \<Rightarrow> nat \<Rightarrow> nat \<Rightarrow> 'a io \<Rightarrow> bool" where
  "writes_within org ex c b m \<longleftrightarrow> (\<forall>ops r ops'. m ops = (r, ops') \<longrightarrow>
     (\<exists>new. ops' = ops @ new \<and> list_all (output_call org ex) new \<and>
        length new \<le> c \<and> sum_list (map written new) \<le> b))"

lemma writes_none [simp]:
  "writes_within org ex c b (io_return x)" "writes_within org ex c b (io_fail e)"
  "writes_within org ex c b (io_lift r)"
  by (simp_all add: writes_within_def io_return_def io_fail_def io_lift_def)

lemma writes_withinD:
  assumes "writes_within org ex c b m" and "m ops = (r, ops')"
  obtains new where "ops' = ops @ new" "list_all (output_call org ex) new"
    "length new \<le> c" "sum_list (map written new) \<le> b"
  using assms unfolding writes_within_def by metis

lemma writes_bind:
  assumes m: "writes_within org ex c1 b1 m" and f: "\<And>x. writes_within org ex c2 b2 (f x)"
  shows "writes_within org ex (c1 + c2) (b1 + b2) (io_bind m f)"
  unfolding writes_within_def
proof (intro allI impI)
  fix ops r ops'
  assume b: "io_bind m f ops = (r, ops')"
  obtain r1 ops1 where m1: "m ops = (r1, ops1)" by fastforce
  obtain new1 where new1: "ops1 = ops @ new1" "list_all (output_call org ex) new1"
    "length new1 \<le> c1" "sum_list (map written new1) \<le> b1"
    by (rule writes_withinD [OF m m1])
  show "\<exists>new. ops' = ops @ new \<and> list_all (output_call org ex) new \<and>
    length new \<le> c1 + c2 \<and> sum_list (map written new) \<le> b1 + b2"
  proof (cases r1)
    case (Inl e)
    then have "ops' = ops1" using b m1 by (simp add: io_bind_def)
    then show ?thesis using new1 by (intro exI [of _ new1]) simp
  next
    case (Inr x)
    then have fx: "f x ops1 = (r, ops')" using b m1 by (simp add: io_bind_def)
    obtain new2 where "ops' = ops1 @ new2" "list_all (output_call org ex) new2"
      "length new2 \<le> c2" "sum_list (map written new2) \<le> b2"
      by (rule writes_withinD [OF f fx])
    then show ?thesis using new1 by (intro exI [of _ "new1 @ new2"]) simp
  qed
qed

definition blob_count :: "jv \<Rightarrow> nat" where
  "blob_count v = (if isNativeBlobParameter v then 1 else 0)"

definition blob_bytes :: "jv \<Rightarrow> nat" where
  "blob_bytes v = (case native_blob v of Some (bs, _) \<Rightarrow> length bs | None \<Rightarrow> 0)"

definition counted :: "string \<Rightarrow> bool" where
  "counted type \<longleftrightarrow> type \<in> set BINARY_PARAMETER_TYPES"

lemma writes_blob: "writes_within org ex (blob_count v) (blob_bytes v) (blobNodeToApi h org ex msg v)"
proof (cases "native_blob v")
  case None
  then show ?thesis by (simp add: blobNodeToApi_def)
next
  case (Some p)
  then show ?thesis
    by (cases p) (simp add: blobNodeToApi_def blob_count_def blob_bytes_def isNativeBlobParameter_def
        writes_within_def io_call_def io_fail_def Let_def)
qed

lemma counted_iff: "counted type \<longleftrightarrow> type \<in> set BLOB_TYPES - {''buffergeometry''} \<or> type = ''any''"
  by (auto simp: counted_def BINARY_PARAMETER_TYPES_def BLOB_TYPES_def)

definition binary_type :: "string \<Rightarrow> bool" where
  "binary_type type \<longleftrightarrow> counted type \<or> type = ''buffergeometry''"

lemma binary_type_iff: "binary_type type \<longleftrightarrow> type \<in> set BLOB_TYPES \<or> type = ''any''"
  by (auto simp: binary_type_def counted_iff BLOB_TYPES_def)

lemma writes_parameter:
  "writes_within org ex (if binary_type type then blob_count v else 0)
    (if binary_type type then blob_bytes v else 0) (nodeToApiParameter h type org ex v)"
  by (auto simp: binary_type_iff nodeToApiParameter_def anyNodeToApi_def writes_blob typeValidating_def
      dateNodeToApi_def dateApiToNode_def split: jv.split option.split)

definition sum_of :: "('a \<Rightarrow> nat) \<Rightarrow> 'a list \<Rightarrow> nat" where
  "sum_of f xs = sum_list (map f xs)"

lemma sum_of_simps [simp]: "sum_of f [] = 0" "sum_of f (x # xs) = f x + sum_of f xs"
  by (simp_all add: sum_of_def)

lemma writes_bind0: "writes_within org ex c b m \<Longrightarrow> (\<And>x. writes_within org ex 0 0 (f x)) \<Longrightarrow>
   writes_within org ex c b (io_bind m f)"
  using writes_bind [of org ex c b m 0 0 f] by simp

lemma writes_map:
  "(\<And>x. x \<in> set xs \<Longrightarrow> writes_within org ex (fc x) (fb x) (f x)) \<Longrightarrow>
   writes_within org ex (sum_of fc xs) (sum_of fb xs) (io_map f xs)"
proof (induction xs)
  case (Cons x xs)
  then have "writes_within org ex (sum_of fc xs) (sum_of fb xs) (io_bind (io_map f xs) (\<lambda>ys. io_return (y # ys)))" for y
    by (intro writes_bind0) simp_all
  then show ?case using Cons.prems [of x] by (auto intro: writes_bind)
qed simp

text \<open>What one output may write, what the preflight counts for it, and what it does not count:
  the values of a buffer geometry output.\<close>

definition output_values :: "(string \<Rightarrow> bool) \<Rightarrow> parameter list \<Rightarrow> string \<times> jv \<Rightarrow> jv list" where
  "output_values P ps = (\<lambda>(name, v). let p = find_param ps name in
     if P (declared_type p) then elements_of (declared_repeated p) v else [])"

definition counted_values :: "parameter list \<Rightarrow> string \<times> jv \<Rightarrow> jv list" where
  "counted_values = output_values counted"

definition geometry_values :: "parameter list \<Rightarrow> string \<times> jv \<Rightarrow> jv list" where
  "geometry_values = output_values (\<lambda>type. type = ''buffergeometry'')"

lemma binary_values:
  "sum_of f (output_values binary_type ps nv) =
     sum_of f (counted_values ps nv) + sum_of f (geometry_values ps nv)"
  by (cases nv) (auto simp: output_values_def counted_values_def geometry_values_def binary_type_def counted_iff Let_def)

lemma geometry_values_None:
  assumes "\<forall>p \<in> set ps. p_type p \<noteq> ''buffergeometry''"
  shows "geometry_values ps nv = []"
proof -
  have "declared_type (find_param ps (fst nv)) \<noteq> ''buffergeometry''"
    using assms by (auto simp: declared_type_def find_param_def dest!: find_Some_mem split: option.split)
  then show ?thesis by (cases nv) (simp add: geometry_values_def output_values_def Let_def)
qed

lemma writes_output:
  "writes_within org ex (sum_of blob_count (output_values binary_type ps nv))
    (sum_of blob_bytes (output_values binary_type ps nv)) (convert_output h ps org ex nv)"
proof -
  obtain name v where nv: "nv = (name, v)" by fastforce
  let ?p = "find_param ps name"
  let ?t = "declared_type ?p"
  have one: "writes_within org ex (if binary_type ?t then blob_count x else 0)
      (if binary_type ?t then blob_bytes x else 0) (nodeToApiParameter h ?t org ex x)" for x
    by (rule writes_parameter)
  have many: "writes_within org ex (sum_of (\<lambda>x. if binary_type ?t then blob_count x else 0) xs)
      (sum_of (\<lambda>x. if binary_type ?t then blob_bytes x else 0) xs) (io_map (nodeToApiParameter h ?t org ex) xs)" for xs
    by (rule writes_map) (rule one)
  show ?thesis
  proof (cases "declared_repeated ?p \<and> is_array v")
    case True
    then obtain xs where "v = JArr xs" by (cases v) auto
    have "writes_within org ex (sum_of (\<lambda>x. if binary_type ?t then blob_count x else 0) xs)
      (sum_of (\<lambda>x. if binary_type ?t then blob_bytes x else 0) xs)
      (io_bind (io_map (nodeToApiParameter h ?t org ex) xs) (\<lambda>xs. io_return (name, JArr xs)))"
      by (rule writes_bind0 [OF many]) simp
    then show ?thesis using True \<open>v = JArr xs\<close>
      by (cases "binary_type ?t")
        (simp_all add: nv convert_output_def output_values_def elements_of_def Let_def sum_of_def)
  next
    case False
    then have "elements_of (declared_repeated ?p) v = [v]" by (cases v) (auto simp: elements_of_def)
    moreover have "writes_within org ex (if binary_type ?t then blob_count v else 0)
      (if binary_type ?t then blob_bytes v else 0)
      (io_bind (nodeToApiParameter h ?t org ex v) (\<lambda>x. io_return (name, x)))"
      by (rule writes_bind0 [OF one]) simp
    ultimately show ?thesis using False
      by (cases "binary_type ?t") (auto simp: nv convert_output_def output_values_def Let_def)
  qed
qed

lemma blob_none: "native_blob v = None \<Longrightarrow> blob_count v = 0 \<and> blob_bytes v = 0"
  by (simp add: blob_count_def blob_bytes_def isNativeBlobParameter_def)

lemma blob_some: "native_blob v = Some (bs, mime) \<Longrightarrow> blob_count v = 1 \<and> blob_bytes v = length bs"
  by (simp add: blob_count_def blob_bytes_def isNativeBlobParameter_def)

lemma count_binaries_spec:
  "count_binaries vs c b = Inr (c', b') \<Longrightarrow>
   c' = c + sum_of blob_count vs \<and> b' = b + sum_of blob_bytes vs \<and>
   (c \<le> MAX_BINARY_VALUES_PER_NODE \<longrightarrow> c' \<le> MAX_BINARY_VALUES_PER_NODE) \<and>
   (b \<le> MAX_BINARY_BYTES_PER_NODE \<longrightarrow> b' \<le> MAX_BINARY_BYTES_PER_NODE)"
proof (induction vs c b rule: count_binaries.induct)
  case (1 c b)
  then show ?case by simp
next
  case (2 v vs c b)
  show ?case
  proof (cases "native_blob v")
    case None
    then have "count_binaries vs c b = Inr (c', b')" using 2(3) by simp
    from 2(1) [OF None this] show ?thesis using blob_none [OF None] by auto
  next
    case (Some p)
    then obtain bs mime where p: "native_blob v = Some (bs, mime)" by (cases p) simp
    then have lim: "Suc c \<le> MAX_BINARY_VALUES_PER_NODE" "b + length bs \<le> MAX_BINARY_BYTES_PER_NODE"
      and rest: "count_binaries vs (Suc c) (b + length bs) = Inr (c', b')"
      using 2(3)
      by (auto simp: assertBinaryValueCount_def assertAggregateBinaryBytes_def split: if_splits)
    have "assertBinaryValueCount (Suc c) = Inr ()" "assertAggregateBinaryBytes (b + length bs) = Inr ()"
      using lim by (simp_all add: assertBinaryValueCount_def assertAggregateBinaryBytes_def)
    then show ?thesis using 2(2) [OF p refl _ _ rest] lim blob_some [OF p] by auto
  qed
qed

lemma preflight_spec:
  "preflightBinaryOutputs ps outs c b = Inr (c', b') \<Longrightarrow>
   c' = c + sum_of (\<lambda>nv. sum_of blob_count (counted_values ps nv)) outs \<and>
   b' = b + sum_of (\<lambda>nv. sum_of blob_bytes (counted_values ps nv)) outs \<and>
   (c \<le> MAX_BINARY_VALUES_PER_NODE \<longrightarrow> c' \<le> MAX_BINARY_VALUES_PER_NODE) \<and>
   (b \<le> MAX_BINARY_BYTES_PER_NODE \<longrightarrow> b' \<le> MAX_BINARY_BYTES_PER_NODE)"
proof (induction ps outs c b rule: preflightBinaryOutputs.induct)
  case (1 ps c b)
  then show ?case by simp
next
  case (2 ps name v outs c b)
  let ?p = "find_param ps name"
  obtain a where a: "assertRepeatedParameterSize name v (declared_repeated ?p) = Inr a"
    using 2(3) by (auto simp: Let_def split: sum.splits)
  show ?case
  proof (cases "counted (declared_type ?p)")
    case False
    then have "preflightBinaryOutputs ps outs c b = Inr (c', b')"
      using 2(3) a by (simp add: Let_def counted_def)
    moreover have "counted_values ps (name, v) = []" using False by (simp add: counted_values_def output_values_def Let_def)
    ultimately show ?thesis using 2(1) [OF refl a] False by (auto simp: counted_def)
  next
    case True
    then obtain c1 b1 where m: "count_binaries (elements_of (declared_repeated ?p) v) c b = Inr (c1, b1)"
      and rest: "preflightBinaryOutputs ps outs c1 b1 = Inr (c', b')"
      using 2(3) a by (auto simp: Let_def counted_def split: sum.splits)
    moreover have "counted_values ps (name, v) = elements_of (declared_repeated ?p) v"
      using True by (simp add: counted_values_def output_values_def Let_def)
    ultimately show ?thesis using 2(2) [OF refl a _ m refl rest] True count_binaries_spec [OF m]
      by (auto simp: counted_def)
  qed
qed

lemma writes_mono:
  assumes "writes_within org ex c b m" and "c \<le> c'" and "b \<le> b'"
  shows "writes_within org ex c' b' m"
  unfolding writes_within_def
proof (intro allI impI)
  fix ops r ops'
  assume m: "m ops = (r, ops')"
  obtain new where "ops' = ops @ new" "list_all (output_call org ex) new"
    "length new \<le> c" "sum_list (map written new) \<le> b"
    by (rule writes_withinD [OF assms(1) m])
  then show "\<exists>new. ops' = ops @ new \<and> list_all (output_call org ex) new \<and>
      length new \<le> c' \<and> sum_list (map written new) \<le> b'"
    using assms(2,3) by (intro exI [of _ new]) simp
qed

lemma nodeOutputs_writes:
  "writes_within org ex
    (MAX_BINARY_VALUES_PER_NODE + sum_of (\<lambda>nv. sum_of blob_count (geometry_values (n_outputs n) nv)) outs)
    (MAX_BINARY_BYTES_PER_NODE + sum_of (\<lambda>nv. sum_of blob_bytes (geometry_values (n_outputs n) nv)) outs)
    (nodeOutputsToApi h n outs org ex)"
proof (cases "preflightBinaryOutputs (n_outputs n) outs 0 0")
  case (Inl e)
  then have "nodeOutputsToApi h n outs org ex = io_fail e"
    by (simp add: nodeOutputsToApi_def io_bind_def io_lift_def io_fail_def)
  then show ?thesis by simp
next
  case (Inr cb)
  let ?ps = "n_outputs n"
  let ?s = "\<lambda>f vs. sum_of (\<lambda>nv. sum_of f (vs ?ps nv)) outs"
  have lim: "?s blob_count counted_values \<le> MAX_BINARY_VALUES_PER_NODE"
    "?s blob_bytes counted_values \<le> MAX_BINARY_BYTES_PER_NODE"
    using preflight_spec [of ?ps outs 0 0 "fst cb" "snd cb"] Inr by simp_all
  have split: "?s f (output_values binary_type) = ?s f counted_values + ?s f geometry_values" for f
    unfolding binary_values by (induction outs) simp_all
  have "writes_within org ex (?s blob_count (output_values binary_type)) (?s blob_bytes (output_values binary_type))
      (io_map (convert_output h ?ps org ex) outs)"
    by (intro writes_map writes_output)
  moreover have "nodeOutputsToApi h n outs org ex = io_map (convert_output h ?ps org ex) outs"
    using Inr by (simp add: nodeOutputsToApi_def io_bind_def io_lift_def)
  ultimately show ?thesis using lim split by (auto intro: writes_mono)
qed

lemma nodeOutputs_preflight_first:
  "preflightBinaryOutputs (n_outputs n) outs 0 0 = Inl e \<Longrightarrow> nodeOutputsToApi h n outs org ex ops = (Inl e, ops)"
  by (simp add: nodeOutputsToApi_def io_bind_def io_lift_def)

text \<open>A buffer geometry is binary data to the converter but not to the preflight.\<close>

lemma buffergeometry_not_counted:
  assumes "\<forall>nv \<in> set outs. declared_type (find_param ps (fst nv)) = ''buffergeometry'' \<and>
      \<not> declared_repeated (find_param ps (fst nv))"
  shows "preflightBinaryOutputs ps outs c b = Inr (c, b)"
  using assms
  by (induction outs)
    (auto simp: Let_def assertRepeatedParameterSize_def BINARY_PARAMETER_TYPES_def split: jv.split)

end
