(* ===== verification/Flow_Registry.thy ===== *)
theory Flow_Registry
  imports Flow_Mapper
begin

text \<open>
  Which code runs for a node: \<open>base-node-registry.ts\<close>, \<open>outward.ts\<close>,
  \<open>rehearsal-node-registry.ts\<close> and \<open>rehearsal-fixtures.ts\<close> of
  \<open>apps/flows/packages/runtime/src\<close>. The node implementations themselves are functions of the
  context they are given. The literal texts of the curated fixtures are a parameter
  (\<open>curated\<close>): what is proved holds of every such table.
\<close>

section \<open>Nodes that can be executed\<close>

record node_context =
  nc_nodeId :: string
  nc_workflowId :: string
  nc_organizationId :: string
  nc_userId :: string
  nc_executionId :: string
  nc_asyncSupported :: bool
  nc_inputs :: "jv jmap"
  nc_trigger :: "jv jmap"
  nc_multiStep :: bool

record exec_result =
  xr_status :: string
  xr_error :: "string option"
  xr_outputs :: "jv jmap option"
  xr_usage :: "jnum option"
  xr_pendingEvent :: "(string \<times> string option) option"

text \<open>
  An instance: the \<open>nodeType\<close> its class declares (none for the rehearsal classes), whether it is
  a \<open>MultiStepNode\<close>, and its \<open>execute\<close>.
\<close>

record executable =
  x_nodeType :: "node_type option"
  x_multiStep :: bool
  x_execute :: "node_context \<Rightarrow> exec_result io"

section \<open>The base registry\<close>

record implementation =
  im_nodeType :: node_type
  im_multiStep :: bool
  im_execute :: "node \<Rightarrow> node_context \<Rightarrow> exec_result io"

definition registerImplementation ::
  "implementation \<Rightarrow> implementation jmap \<Rightarrow> string + implementation jmap" where
  "registerImplementation im impls =
     (if nt_type (im_nodeType im) = [] then Inl ''NodeType is not defined''
      else Inr (jset impls (nt_type (im_nodeType im)) im))"

definition createExecutableNode :: "implementation jmap \<Rightarrow> node \<Rightarrow> executable option" where
  "createExecutableNode impls n = (case jget impls (n_type n) of
     None \<Rightarrow> None
   | Some im \<Rightarrow> Some \<lparr>x_nodeType = Some (im_nodeType im), x_multiStep = im_multiStep im,
       x_execute = im_execute im n\<rparr>)"

definition getNodeTypes :: "implementation jmap \<Rightarrow> node_type list" where
  "getNodeTypes impls = map (\<lambda>(k, im). im_nodeType im) impls"

definition isMultiStep :: "implementation jmap \<Rightarrow> string \<Rightarrow> bool" where
  "isMultiStep impls type = (case jget impls type of None \<Rightarrow> False | Some im \<Rightarrow> im_multiStep im)"

definition getNodeType :: "implementation jmap \<Rightarrow> string \<Rightarrow> string + node_type" where
  "getNodeType impls type = (case jget impls type of
     None \<Rightarrow> Inl (''Node type not found: '' @ type)
   | Some im \<Rightarrow> Inr (im_nodeType im))"

section \<open>Outward nodes\<close>

definition READ_ONLY_TYPES :: "string list" where
  "READ_ONLY_TYPES =
     [''read-inbox-google-mail'', ''get-message-google-mail'', ''search-messages-google-mail'',
      ''check-draft-google-mail'', ''list-calendars-google-calendar'', ''list-events-google-calendar'',
      ''get-event-google-calendar'', ''search-events-google-calendar'',
      ''check-availability-google-calendar'', ''get-file-contents-github'', ''get-repository-github'',
      ''get-user-github'', ''list-organization-repositories-github'', ''list-user-repositories-github'',
      ''search-repositories-github'', ''get-post-reddit'', ''get-subreddit-reddit'', ''get-user-reddit'',
      ''list-comments-reddit'', ''list-posts-reddit'', ''list-user-comments-reddit'',
      ''list-user-posts-reddit'', ''search-reddit'', ''search-subreddits-reddit'', ''get-post-x'',
      ''get-user-x'', ''list-followers-x'', ''list-following-x'', ''list-user-mentions-x'',
      ''list-user-posts-x'', ''search-posts-x'', ''get-post-comments-linkedin'',
      ''get-post-likes-linkedin'', ''get-profile-linkedin'', ''get-post-wordpress'',
      ''get-site-wordpress'', ''list-categories-wordpress'', ''list-posts-wordpress'',
      ''search-wordpress'']"

definition OUTWARD_PLATFORM_TYPES :: "string list" where
  "OUTWARD_PLATFORM_TYPES =
     [''send-email'', ''notify-me'', ''bot-send-message-slack'', ''bot-send-message-discord'',
      ''bot-send-dm-discord'', ''send-message-discord'', ''send-dm-discord'',
      ''send-message-telegram'', ''send-photo-telegram'', ''forward-message-telegram'',
      ''send-message-whatsapp'', ''send-image-whatsapp'', ''send-template-whatsapp'']"

fun first_provider :: "parameter list \<Rightarrow> string option" where
  "first_provider [] = None"
| "first_provider (p # ps) =
     (if p_type p \<noteq> ''integration'' then first_provider ps
      else case p_provider p of JStr s \<Rightarrow> Some s | _ \<Rightarrow> first_provider ps)"

definition integrationProvider :: "node_type \<Rightarrow> string option" where
  "integrationProvider t = first_provider (nt_inputs t)"

definition isOutward :: "node_type \<Rightarrow> bool" where
  "isOutward t =
     (if nt_type t \<in> set READ_ONLY_TYPES then False
      else if nt_type t \<in> set OUTWARD_PLATFORM_TYPES then True
      else integrationProvider t \<noteq> None)"

section \<open>Synthetic outputs\<close>

definition REHEARSAL_DATE :: string where
  "REHEARSAL_DATE = ''2026-01-05T09:12:00.000Z''"

definition REHEARSAL_PNG :: "8 word list" where
  "REHEARSAL_PNG =
     [0x89, 0x50, 0x4e, 0x47, 0x0d, 0x0a, 0x1a, 0x0a, 0x00, 0x00, 0x00, 0x0d, 0x49,
      0x48, 0x44, 0x52, 0x00, 0x00, 0x00, 0x01, 0x00, 0x00, 0x00, 0x01, 0x08, 0x06,
      0x00, 0x00, 0x00, 0x1f, 0x15, 0xc4, 0x89, 0x00, 0x00, 0x00, 0x0d, 0x49, 0x44,
      0x41, 0x54, 0x78, 0x9c, 0x62, 0x00, 0x01, 0x00, 0x00, 0x05, 0x00, 0x01, 0x0d,
      0x0a, 0x2d, 0xb4, 0x00, 0x00, 0x00, 0x00, 0x49, 0x45, 0x4e, 0x44, 0xae, 0x42,
      0x60, 0x82]"

definition echoes :: "string \<Rightarrow> jv \<Rightarrow> bool" where
  "echoes declaredType v =
     (if declaredType = ''string'' then typeof v = ''string''
      else if declaredType = ''number'' then typeof v = ''number''
      else if declaredType = ''boolean'' then typeof v = ''boolean''
      else if declaredType = ''json''
      then typeof v = ''object'' \<and> v \<noteq> JNull \<and>
        \<not> (case v of JObj m \<Rightarrow> js_in ''data'' m \<and> js_in ''mimeType'' m | _ \<Rightarrow> False)
      else False)"

definition genericValue :: "parameter \<Rightarrow> jv option" where
  "genericValue p =
     (if p_type p = ''string'' \<or> p_type p = ''any'' then Some (JStr (''rehearsal-'' @ p_name p))
      else if p_type p = ''date'' then Some (JStr REHEARSAL_DATE)
      else if p_type p = ''number'' then Some (JInt 0)
      else if p_type p = ''boolean'' then Some (JBool True)
      else if p_type p = ''json''
      then Some (if p_repeated p then JArr [] else JObj [(''rehearsal'', JBool True)])
      else if p_type p = ''image''
      then Some (JObj [(''data'', JBytes REHEARSAL_PNG), (''mimeType'', JStr ''image/png'')])
      else None)"

text \<open>The value of one declared output, when it gets one.\<close>

definition synthetic_value :: "jv jmap option \<Rightarrow> jv jmap \<Rightarrow> parameter \<Rightarrow> jv option" where
  "synthetic_value fixture composedInputs p =
     (let c = (case fixture of Some m \<Rightarrow> read_prop m (p_name p) | None \<Rightarrow> JUndef);
          i = read_prop composedInputs (p_name p) in
      if c \<noteq> JUndef then Some c
      else if i \<noteq> JUndef \<and> echoes (p_type p) i then Some i
      else genericValue p)"

definition synthesizeOutputs :: "(string \<Rightarrow> jv jmap option) \<Rightarrow> node_type \<Rightarrow> jv jmap \<Rightarrow> jv jmap" where
  "synthesizeOutputs curated t composedInputs =
     foldl (\<lambda>m p. case synthetic_value (curated (nt_type t)) composedInputs p of
              Some v \<Rightarrow> jset m (p_name p) v | None \<Rightarrow> m) [] (nt_outputs t)"

section \<open>The rehearsal registry\<close>

record registry =
  r_getNodeTypes :: "node_type list"
  r_getNodeType :: "string \<Rightarrow> string + node_type"
  r_create :: "node \<Rightarrow> executable option"
  r_isMultiStep :: "string \<Rightarrow> bool"

definition base_registry :: "implementation jmap \<Rightarrow> registry" where
  "base_registry impls = \<lparr>r_getNodeTypes = getNodeTypes impls, r_getNodeType = getNodeType impls,
     r_create = createExecutableNode impls, r_isMultiStep = isMultiStep impls\<rparr>"

definition tryGetNodeType :: "registry \<Rightarrow> string \<Rightarrow> node_type option" where
  "tryGetNodeType inner type = (case r_getNodeType inner type of Inr t \<Rightarrow> Some t | Inl _ \<Rightarrow> None)"

definition requiredIntegrationInputs :: "node_type \<Rightarrow> string list" where
  "requiredIntegrationInputs t =
     map p_name (filter (\<lambda>p. p_type p = ''integration'' \<and> p_required p) (nt_inputs t))"

definition stubResult :: "(string \<Rightarrow> jv jmap option) \<Rightarrow> node_type \<Rightarrow> node_context \<Rightarrow> exec_result" where
  "stubResult curated t ctx = \<lparr>xr_status = ''completed'', xr_error = None,
     xr_outputs = Some (synthesizeOutputs curated t (nc_inputs ctx)),
     xr_usage = Some (Fin 0), xr_pendingEvent = None\<rparr>"

definition RehearsalStubNode :: "(string \<Rightarrow> jv jmap option) \<Rightarrow> node_type \<Rightarrow> executable" where
  "RehearsalStubNode curated t = \<lparr>x_nodeType = None, x_multiStep = True,
     x_execute = (\<lambda>ctx. io_return (stubResult curated t ctx))\<rparr>"

definition bound_input :: "jv jmap \<Rightarrow> string \<Rightarrow> bool" where
  "bound_input inputs name = (case read_prop inputs name of JStr s \<Rightarrow> 0 < length s | _ \<Rightarrow> False)"

definition RehearsalGateNode ::
  "(string \<Rightarrow> jv jmap option) \<Rightarrow> node_type \<Rightarrow> string list \<Rightarrow> executable \<Rightarrow> executable" where
  "RehearsalGateNode curated t integrationInputs realNode = \<lparr>x_nodeType = None, x_multiStep = True,
     x_execute = (\<lambda>ctx. if list_all (bound_input (nc_inputs ctx)) integrationInputs
       then x_execute realNode ctx else io_return (stubResult curated t ctx))\<rparr>"

definition rehearsal_create ::
  "(string \<Rightarrow> jv jmap option) \<Rightarrow> registry \<Rightarrow> node \<Rightarrow> executable option" where
  "rehearsal_create curated inner n =
     (case tryGetNodeType inner (n_type n) of
        None \<Rightarrow> r_create inner n
      | Some t \<Rightarrow>
          if isOutward t then Some (RehearsalStubNode curated t)
          else (let requiredIntegrations = requiredIntegrationInputs t in
            if 0 < length requiredIntegrations
            then (case r_create inner n of
                    None \<Rightarrow> None
                  | Some realNode \<Rightarrow> Some (RehearsalGateNode curated t requiredIntegrations realNode))
            else r_create inner n))"

definition rehearsal_isMultiStep :: "registry \<Rightarrow> string \<Rightarrow> bool" where
  "rehearsal_isMultiStep inner type =
     (case tryGetNodeType inner type of
        Some t \<Rightarrow> if isOutward t then False else r_isMultiStep inner type
      | None \<Rightarrow> r_isMultiStep inner type)"

definition rehearsal_registry :: "(string \<Rightarrow> jv jmap option) \<Rightarrow> registry \<Rightarrow> registry" where
  "rehearsal_registry curated inner = \<lparr>r_getNodeTypes = r_getNodeTypes inner,
     r_getNodeType = r_getNodeType inner, r_create = rehearsal_create curated inner,
     r_isMultiStep = rehearsal_isMultiStep inner\<rparr>"

section \<open>The interface of a registry\<close>

text \<open>
  What the executor relies on: a known type can be instantiated and an unknown one cannot, and a
  type the runtime does not wrap in a durable step is an instance that gets its own primitives.
\<close>

locale registry_ops =
  fixes get :: "'r \<Rightarrow> string \<Rightarrow> string + node_type"
    and create :: "'r \<Rightarrow> node \<Rightarrow> executable option"
    and multi :: "'r \<Rightarrow> string \<Rightarrow> bool"
    and inv :: "'r \<Rightarrow> bool"
  assumes unknown: "inv r \<Longrightarrow> get r (n_type n) = Inl e \<Longrightarrow> create r n = None"
    and known: "inv r \<Longrightarrow> get r (n_type n) = Inr t \<Longrightarrow> create r n \<noteq> None"
    and multi_primitives: "inv r \<Longrightarrow> multi r (n_type n) \<Longrightarrow> create r n = Some x \<Longrightarrow> x_multiStep x"
begin

lemma create_iff: "inv r \<Longrightarrow> create r n = None \<longleftrightarrow> (\<exists>e. get r (n_type n) = Inl e)"
  using unknown known by (metis sum.exhaust)

end

definition registry_ok :: "registry \<Rightarrow> bool" where
  "registry_ok r \<longleftrightarrow> (\<forall>n.
     (r_create r n = None \<longleftrightarrow> (\<exists>e. r_getNodeType r (n_type n) = Inl e)) \<and>
     (\<forall>x. r_isMultiStep r (n_type n) \<longrightarrow> r_create r n = Some x \<longrightarrow> x_multiStep x))"

interpretation base_reg: registry_ops getNodeType createExecutableNode isMultiStep "\<lambda>impls. True"
  by unfold_locales (auto simp: getNodeType_def createExecutableNode_def isMultiStep_def split: option.splits)

lemma base_registry_ok: "registry_ok (base_registry impls)"
  using base_reg.create_iff base_reg.multi_primitives by (auto simp: registry_ok_def base_registry_def)

lemma rehearsal_registry_ok: "registry_ok inner \<Longrightarrow> registry_ok (rehearsal_registry curated inner)"
  by (auto simp: registry_ok_def rehearsal_registry_def rehearsal_create_def rehearsal_isMultiStep_def
      tryGetNodeType_def RehearsalStubNode_def RehearsalGateNode_def Let_def
      split: option.splits sum.splits if_splits)

interpretation rehearsal_reg: registry_ops r_getNodeType r_create r_isMultiStep registry_ok
  by unfold_locales (auto simp: registry_ok_def)

section \<open>A rehearsal stays inside\<close>

lemma synthesize_keys: "set (jkeys (synthesizeOutputs curated t inputs)) \<subseteq> p_name ` set (nt_outputs t)"
proof -
  have "set (jkeys (foldl (\<lambda>m p. case f p of Some v \<Rightarrow> jset m (p_name p) v | None \<Rightarrow> m) m ps))
      \<subseteq> set (jkeys m) \<union> p_name ` set ps" for f :: "parameter \<Rightarrow> jv option" and m ps
    by (induction ps arbitrary: m) (auto split: option.splits, fastforce+)
  from this [of "synthetic_value (curated (nt_type t)) inputs" "[]" "nt_outputs t"]
  show ?thesis unfolding synthesizeOutputs_def by simp
qed

text \<open>What an execution that touches nothing looks like.\<close>

definition silent_stub :: "(string \<Rightarrow> jv jmap option) \<Rightarrow> node_type \<Rightarrow> node_context \<Rightarrow> exec_result io \<Rightarrow> bool" where
  "silent_stub curated t ctx m \<longleftrightarrow> (\<forall>ops. m ops = (Inr (stubResult curated t ctx), ops))"

lemma outward_stubbed:
  assumes "r_getNodeType inner (n_type n) = Inr t" and "isOutward t"
    and "r_create (rehearsal_registry curated inner) n = Some x"
  shows "silent_stub curated t ctx (x_execute x ctx)"
  using assms
  by (auto simp: rehearsal_registry_def rehearsal_create_def tryGetNodeType_def RehearsalStubNode_def
      silent_stub_def io_return_def)

lemma unbound_stubbed:
  assumes "r_getNodeType inner (n_type n) = Inr t"
    and "name \<in> set (requiredIntegrationInputs t)" and "\<not> bound_input (nc_inputs ctx) name"
    and "r_create (rehearsal_registry curated inner) n = Some x"
  shows "silent_stub curated t ctx (x_execute x ctx)"
proof -
  have ne: "0 < length (requiredIntegrationInputs t)" using assms(2) by (cases "requiredIntegrationInputs t") auto
  have "\<not> list_all (bound_input (nc_inputs ctx)) (requiredIntegrationInputs t)"
    using assms(2,3) by (auto simp: list_all_iff)
  then show ?thesis using assms(1,4) ne
    by (auto simp: rehearsal_registry_def rehearsal_create_def tryGetNodeType_def RehearsalStubNode_def
        RehearsalGateNode_def silent_stub_def io_return_def Let_def split: if_splits option.splits)
qed

lemma stub_shape:
  "silent_stub curated t ctx m \<Longrightarrow> \<exists>r. m ops = (Inr r, ops) \<and> xr_usage r = Some (Fin 0) \<and>
     xr_status r = ''completed'' \<and>
     (\<exists>outs. xr_outputs r = Some outs \<and> set (jkeys outs) \<subseteq> p_name ` set (nt_outputs t))"
  using synthesize_keys [of curated t "nc_inputs ctx"] by (simp add: silent_stub_def stubResult_def)

end
