(* ===== verification/Flow_Graph.thy ===== *)
theory Flow_Graph
  imports Flow_Types
begin

text \<open>
  \<open>apps/flows/packages/runtime/src/execution-graph.ts\<close>: the indexed view of a workflow and
  Kahn's algorithm. The lemmas show that \<open>build\<close> returns a topological order exactly when the
  dependency relation is acyclic and every dependency is a node. The interface the scheduler
  relies on is the locale \<open>ordered_graph\<close>, interpreted at the end on the built graphs.
\<close>

section \<open>Building the indexes\<close>

record exec_graph =
  g_workflow :: workflow
  g_nodeIds :: "string list"
  g_nodesById :: "node jmap"
  g_inbound :: "edge list jmap"
  g_deps :: "string list jmap"

definition pushInto :: "'a list jmap \<Rightarrow> string \<Rightarrow> 'a \<Rightarrow> 'a list jmap" where
  "pushInto m k v = (case jget m k of
     Some existing \<Rightarrow> jset m k (existing @ [v])
   | None \<Rightarrow> jset m k [v])"

text \<open>\<open>dependenciesByNode.get(edge.target)?.add(edge.source)\<close>: targets that are no node are ignored.\<close>

definition add_dependency :: "string list jmap \<Rightarrow> edge \<Rightarrow> string list jmap" where
  "add_dependency deps e = (case jget deps (e_target e) of
     Some ds \<Rightarrow> jset deps (e_target e) (set_add (e_source e) ds)
   | None \<Rightarrow> deps)"

definition deps_of :: "string list jmap \<Rightarrow> string \<Rightarrow> string list" where
  "deps_of m k = (case jget m k of Some ds \<Rightarrow> ds | None \<Rightarrow> [])"

definition edges_of :: "edge list jmap \<Rightarrow> string \<Rightarrow> edge list" where
  "edges_of m k = (case jget m k of Some es \<Rightarrow> es | None \<Rightarrow> [])"

definition index_deps :: "workflow \<Rightarrow> string list jmap" where
  "index_deps w = foldl add_dependency
     (foldl (\<lambda>m n. jset m (n_id n) []) [] (w_nodes w)) (w_edges w)"

definition index_inbound :: "workflow \<Rightarrow> edge list jmap" where
  "index_inbound w = foldl (\<lambda>m e. pushInto m (e_target e) e) [] (w_edges w)"

definition index_outbound :: "workflow \<Rightarrow> edge list jmap" where
  "index_outbound w = foldl (\<lambda>m e. pushInto m (e_source e) e) [] (w_edges w)"

text \<open>One turn of the inner loop: a dependency less, and the queue entry if it was the last.\<close>

definition unblock_one :: "int jmap \<times> string list \<Rightarrow> string \<Rightarrow> int jmap \<times> string list" where
  "unblock_one = (\<lambda>(rem, new) t.
     (let left = (case jget rem t of Some n \<Rightarrow> n | None \<Rightarrow> 0) - 1 in
      (jset rem t left, if left = 0 then new @ [t] else new)))"

definition unblock :: "int jmap \<Rightarrow> string list \<Rightarrow> int jmap \<times> string list" where
  "unblock rem ts = foldl unblock_one (rem, []) ts"

text \<open>How many entries are still waiting; it bounds how often the queue can grow.\<close>

definition waiting :: "int jmap \<Rightarrow> nat" where
  "waiting rem = length (filter (\<lambda>p. 0 < snd p) rem)"

lemma waiting_jset_None: "jget rem t = None \<Longrightarrow> v \<le> 0 \<Longrightarrow> waiting (jset rem t v) = waiting rem"
  by (induction rem) (auto simp: waiting_def split: if_splits)

lemma waiting_jset_Some:
  "jget rem t = Some n \<Longrightarrow>
   waiting (jset rem t v) + (if 0 < n then 1 else 0) = waiting rem + (if 0 < v then 1 else 0)"
  by (induction rem) (auto simp: waiting_def split: if_splits)

lemma waiting_unblock_one:
  "unblock_one (rem, new) t = (rem', new') \<Longrightarrow>
   waiting rem' + length new' \<le> waiting rem + length new"
proof (cases "jget rem t")
  case None
  assume "unblock_one (rem, new) t = (rem', new')"
  with None have "rem' = jset rem t (-1)" "new' = new" by (auto simp: unblock_one_def)
  then show ?thesis using None by (simp add: waiting_jset_None)
next
  case (Some n)
  assume "unblock_one (rem, new) t = (rem', new')"
  with Some have "rem' = jset rem t (n - 1)" "new' = (if n = 1 then new @ [t] else new)"
    by (auto simp: unblock_one_def Let_def)
  then show ?thesis using waiting_jset_Some [OF Some, of "n - 1"] by (auto split: if_splits)
qed

lemma waiting_foldl_unblock:
  "foldl unblock_one (rem, new) ts = (rem', new') \<Longrightarrow>
   waiting rem' + length new' \<le> waiting rem + length new"
proof (induction ts arbitrary: rem new)
  case Nil
  then show ?case by simp
next
  case (Cons t ts)
  obtain rem1 new1 where s: "unblock_one (rem, new) t = (rem1, new1)" by fastforce
  with Cons.prems have "foldl unblock_one (rem1, new1) ts = (rem', new')" by simp
  from Cons.IH [OF this] waiting_unblock_one [OF s] show ?case by simp
qed

lemma waiting_unblock:
  "unblock rem ts = (rem', new) \<Longrightarrow> waiting rem' + length new \<le> waiting rem"
  unfolding unblock_def by (drule waiting_foldl_unblock) simp

text \<open>The outer loop: \<open>queue\<close> is what lies at or after the index \<open>i\<close>.\<close>

function kahn :: "edge list jmap \<Rightarrow> int jmap \<Rightarrow> string list \<Rightarrow> string list \<Rightarrow> string list" where
  "kahn ob rem [] ordered = ordered"
| "kahn ob rem (x # queue) ordered =
     (let u = unblock rem (js_set (map e_target (edges_of ob x))) in
      kahn ob (fst u) (queue @ snd u) (ordered @ [x]))"
  by pat_completeness auto
termination
proof (relation "measure (\<lambda>(ob, rem, queue, ordered). waiting rem + length queue)", goal_cases)
  case 1
  then show ?case by simp
next
  case (2 ob rem x queue ordered u)
  then have "waiting (fst u) + length (snd u) \<le> waiting rem"
    by (simp add: waiting_unblock prod_eq_iff)
  then show ?case by simp
qed

definition initial_remaining :: "workflow \<Rightarrow> string list jmap \<Rightarrow> int jmap" where
  "initial_remaining w deps =
     foldl (\<lambda>m n. jset m (n_id n) (int (length (deps_of deps (n_id n))))) [] (w_nodes w)"

definition topologicalOrder ::
  "workflow \<Rightarrow> string list jmap \<Rightarrow> edge list jmap \<Rightarrow> string + string list" where
  "topologicalOrder w deps ob =
     (let rem = initial_remaining w deps;
          queue = filter (\<lambda>i. jget rem i = Some 0) (map n_id (w_nodes w));
          ordered = kahn ob rem queue [] in
      if length ordered \<noteq> length (w_nodes w)
      then Inl ''Unable to derive execution order. The graph may contain a cycle.''
      else Inr ordered)"

definition build :: "workflow \<Rightarrow> string + exec_graph" where
  "build w =
     (case topologicalOrder w (index_deps w) (index_outbound w) of
        Inl err \<Rightarrow> Inl err
      | Inr ids \<Rightarrow> Inr \<lparr>g_workflow = w, g_nodeIds = ids,
          g_nodesById = jmap_of_list (map (\<lambda>n. (n_id n, n)) (w_nodes w)),
          g_inbound = index_inbound w, g_deps = index_deps w\<rparr>)"

definition graph_node :: "exec_graph \<Rightarrow> string \<Rightarrow> node option" where
  "graph_node g i = jget (g_nodesById g) i"

definition inboundEdges :: "exec_graph \<Rightarrow> string \<Rightarrow> edge list" where
  "inboundEdges g i = edges_of (g_inbound g) i"

definition dependencies :: "exec_graph \<Rightarrow> string \<Rightarrow> string list" where
  "dependencies g i = deps_of (g_deps g) i"

section \<open>What the indexes hold\<close>

definition node_ids :: "workflow \<Rightarrow> string list" where
  "node_ids w = map n_id (w_nodes w)"

lemma edges_of_pushInto:
  "edges_of (pushInto m k e) k' = edges_of m k' @ (if k' = k then [e] else [])"
  by (auto simp: edges_of_def pushInto_def jget_jset split: option.split)

lemma edges_of_foldl_pushInto:
  "edges_of (foldl (\<lambda>m e. pushInto m (f e) e) m es) k = edges_of m k @ filter (\<lambda>e. f e = k) es"
  by (induction es arbitrary: m) (auto simp: edges_of_pushInto)

lemma edges_of_Nil [simp]: "edges_of [] k = []"
  by (simp add: edges_of_def)

lemma edges_of_inbound: "edges_of (index_inbound w) k = filter (\<lambda>e. e_target e = k) (w_edges w)"
  by (simp add: index_inbound_def edges_of_foldl_pushInto)

lemma edges_of_outbound: "edges_of (index_outbound w) k = filter (\<lambda>e. e_source e = k) (w_edges w)"
  by (simp add: index_outbound_def edges_of_foldl_pushInto)

lemma jget_foldl_const:
  "jget (foldl (\<lambda>m n. jset m (f n) (g n)) m ns) k =
     (case find (\<lambda>n. f n = k) (rev ns) of Some n \<Rightarrow> Some (g n) | None \<Rightarrow> jget m k)"
  by (induction ns arbitrary: m rule: rev_induct) (auto simp: jget_jset)

lemma find_rev_node: "find (\<lambda>n. f n = k) (rev ns) = None \<longleftrightarrow> k \<notin> set (map f ns)"
  by (auto simp: find_None_iff)

text \<open>Adding edges changes only the entries of their targets, and adds their sources.\<close>

lemma deps_foldl_add:
  "jget (foldl add_dependency m es) k =
     map_option (\<lambda>ds. fold set_add (map e_source (filter (\<lambda>e. e_target e = k) es)) ds) (jget m k)"
proof (induction es arbitrary: m)
  case Nil
  then show ?case by (cases "jget m k") simp_all
next
  case (Cons e es)
  show ?case unfolding foldl_Cons Cons.IH
    by (auto simp: add_dependency_def jget_jset split: option.split)
qed

definition deps_set :: "workflow \<Rightarrow> string \<Rightarrow> string set" where
  "deps_set w k = (if k \<in> set (node_ids w) then e_source ` {e \<in> set (w_edges w). e_target e = k} else {})"

lemma deps_of_index:
  "set (deps_of (index_deps w) k) = deps_set w k \<and> distinct (deps_of (index_deps w) k)"
proof (cases "k \<in> set (node_ids w)")
  case True
  then obtain n where "find (\<lambda>n. n_id n = k) (rev (w_nodes w)) = Some n"
    using find_rev_node [of n_id k "w_nodes w"] by (auto simp: node_ids_def)
  then have "deps_of (index_deps w) k = fold set_add (map e_source (filter (\<lambda>e. e_target e = k) (w_edges w))) []"
    by (simp add: deps_of_def index_deps_def deps_foldl_add jget_foldl_const)
  then show ?thesis using True
    by (simp add: set_fold_set_add distinct_fold_set_add deps_set_def)
next
  case False
  then have "find (\<lambda>n. n_id n = k) (rev (w_nodes w)) = None"
    using find_rev_node [of n_id k "w_nodes w"] by (simp add: node_ids_def)
  then show ?thesis using False
    by (simp add: deps_of_def index_deps_def deps_foldl_add jget_foldl_const deps_set_def)
qed

lemma length_deps_of: "length (deps_of (index_deps w) k) = card (deps_set w k)"
  using deps_of_index [of w k] by (metis distinct_card)

lemma finite_deps_set [simp]: "finite (deps_set w k)"
  by (simp add: deps_set_def)

section \<open>Kahn's algorithm\<close>

definition rem_val :: "int jmap \<Rightarrow> string \<Rightarrow> int" where
  "rem_val rem t = (case jget rem t of Some n \<Rightarrow> n | None \<Rightarrow> 0)"

lemma foldl_unblock:
  "distinct ts \<Longrightarrow> foldl unblock_one (rem, new) ts = (rem', new') \<Longrightarrow>
   new' = new @ filter (\<lambda>t. rem_val rem t = 1) ts \<and>
   (\<forall>k. jget rem' k = (if k \<in> set ts then Some (rem_val rem k - 1) else jget rem k))"
proof (induction ts arbitrary: rem new)
  case Nil
  then show ?case by simp
next
  case (Cons t ts)
  let ?rem = "jset rem t (rem_val rem t - 1)"
  let ?new = "if rem_val rem t = 1 then new @ [t] else new"
  have "unblock_one (rem, new) t = (?rem, ?new)"
    by (simp add: unblock_one_def rem_val_def Let_def)
  with Cons.prems have "foldl unblock_one (?rem, ?new) ts = (rem', new')" by simp
  then have ih: "new' = ?new @ filter (\<lambda>x. rem_val ?rem x = 1) ts"
      "\<forall>k. jget rem' k = (if k \<in> set ts then Some (rem_val ?rem k - 1) else jget ?rem k)"
    using Cons.IH [of ?rem ?new] Cons.prems(1) by auto
  have same: "rem_val ?rem x = rem_val rem x" if "x \<in> set ts" for x
    using that Cons.prems(1) by (cases "x = t") (auto simp: rem_val_def)
  then have "filter (\<lambda>x. rem_val ?rem x = 1) ts = filter (\<lambda>x. rem_val rem x = 1) ts"
    by (intro filter_cong) auto
  then show ?case using ih same Cons.prems(1) by (auto simp: jget_jset)
qed

lemma unblock_spec:
  assumes "distinct ts"
  shows "snd (unblock rem ts) = filter (\<lambda>t. rem_val rem t = 1) ts"
    and "jget (fst (unblock rem ts)) k =
      (if k \<in> set ts then Some (rem_val rem k - 1) else jget rem k)"
  using foldl_unblock [OF assms, of rem "[]"] by (auto simp: unblock_def prod_eq_iff)

text \<open>An order respects the dependencies when every node comes after all of its own.\<close>

fun respecting :: "(string \<Rightarrow> string set) \<Rightarrow> string set \<Rightarrow> string list \<Rightarrow> bool" where
  "respecting D seen [] \<longleftrightarrow> True"
| "respecting D seen (x # xs) \<longleftrightarrow> D x \<subseteq> seen \<and> respecting D (insert x seen) xs"

lemma respecting_append:
  "respecting D seen (xs @ ys) \<longleftrightarrow> respecting D seen xs \<and> respecting D (seen \<union> set xs) ys"
  by (induction xs arbitrary: seen) auto

lemma respecting_mono: "respecting D seen xs \<Longrightarrow> seen \<subseteq> seen' \<Longrightarrow> respecting D seen' xs"
proof (induction xs arbitrary: seen seen')
  case (Cons x xs)
  then have "respecting D (insert x seen') xs" by (metis respecting.simps(2) insert_mono)
  with Cons show ?case by auto
qed simp

text \<open>The state of the outer loop, for a workflow with distinct node ids.\<close>

definition kahn_inv :: "workflow \<Rightarrow> int jmap \<Rightarrow> string list \<Rightarrow> string list \<Rightarrow> bool" where
  "kahn_inv w rem queue ordered \<longleftrightarrow>
     distinct (ordered @ queue) \<and>
     set (ordered @ queue) = {t \<in> set (node_ids w). deps_set w t \<subseteq> set ordered} \<and>
     respecting (deps_set w) {} ordered \<and>
     (\<forall>t \<in> set (node_ids w). jget rem t = Some (int (card (deps_set w t - set ordered)))) \<and>
     (\<forall>t. t \<notin> set (node_ids w) \<longrightarrow> rem_val rem t \<le> 0)"

lemma targets_outbound:
  "t \<in> set (node_ids w) \<Longrightarrow>
   t \<in> set (js_set (map e_target (edges_of (index_outbound w) x))) \<longleftrightarrow> x \<in> deps_set w t"
  by (auto simp: edges_of_outbound deps_set_def)

lemma kahn_inv_step:
  assumes inv: "kahn_inv w rem (x # queue) ordered"
    and u: "u = unblock rem (js_set (map e_target (edges_of (index_outbound w) x)))"
  shows "kahn_inv w (fst u) (queue @ snd u) (ordered @ [x])"
proof -
  let ?T = "js_set (map e_target (edges_of (index_outbound w) x))"
  let ?N = "set (node_ids w)"
  let ?D = "deps_set w"
  have new: "snd u = filter (\<lambda>t. rem_val rem t = 1) ?T"
    and get: "\<And>k. jget (fst u) k = (if k \<in> set ?T then Some (rem_val rem k - 1) else jget rem k)"
    using unblock_spec [OF distinct_js_set] by (simp_all add: u)
  have queued: "set (ordered @ x # queue) = {t \<in> ?N. ?D t \<subseteq> set ordered}"
    and dist: "distinct (ordered @ x # queue)"
    and rem: "\<And>t. t \<in> ?N \<Longrightarrow> jget rem t = Some (int (card (?D t - set ordered)))"
    and out: "\<And>t. t \<notin> ?N \<Longrightarrow> rem_val rem t \<le> 0"
    and resp: "respecting ?D {} ordered"
    using inv by (auto simp: kahn_inv_def)
  have x: "x \<in> ?N" "?D x \<subseteq> set ordered" "x \<notin> set ordered" using queued dist by auto
  have val: "rem_val rem t = int (card (?D t - set ordered))" if "t \<in> ?N" for t
    using rem [OF that] by (simp add: rem_val_def)
  have split: "card (?D t - set ordered) = card (?D t - set (ordered @ [x])) + (if x \<in> ?D t then 1 else 0)" for t
  proof -
    have "?D t - set (ordered @ [x]) = (?D t - set ordered) - {x}" by auto
    then show ?thesis using x(3) card.remove [of "?D t - set ordered" x] by simp
  qed
  have new_set: "set (snd u) = {t \<in> ?N. x \<in> ?D t \<and> ?D t \<subseteq> set (ordered @ [x])}"
  proof -
    have "t \<in> set (snd u) \<longleftrightarrow> t \<in> ?N \<and> x \<in> ?D t \<and> ?D t \<subseteq> set (ordered @ [x])" for t
    proof (cases "t \<in> ?N")
      case True
      then have "t \<in> set (snd u) \<longleftrightarrow> x \<in> ?D t \<and> card (?D t - set ordered) = 1"
        using val [OF True] targets_outbound [OF True, of x] by (auto simp: new)
      also have "\<dots> \<longleftrightarrow> x \<in> ?D t \<and> card (?D t - set (ordered @ [x])) = 0"
        unfolding split [of t] by (cases "x \<in> ?D t") simp_all
      also have "\<dots> \<longleftrightarrow> x \<in> ?D t \<and> ?D t \<subseteq> set (ordered @ [x])"
        by (simp only: card_0_eq finite_Diff finite_deps_set Diff_eq_empty_iff)
      finally show ?thesis using True by simp
    next
      case False
      then show ?thesis using out [OF False] by (auto simp: new)
    qed
    then show ?thesis by blast
  qed
  have "distinct (snd u)" by (simp add: new)
  moreover have "set (snd u) \<inter> set (ordered @ x # queue) = {}"
    using x(3) unfolding queued new_set by auto
  ultimately have d: "distinct ((ordered @ [x]) @ queue @ snd u)" using dist by auto
  have "set ((ordered @ [x]) @ queue @ snd u) = set (ordered @ x # queue) \<union> set (snd u)" by auto
  also have "\<dots> = {t \<in> ?N. ?D t \<subseteq> set (ordered @ [x])}"
    unfolding queued new_set using x(3) by auto
  finally have q: "set ((ordered @ [x]) @ queue @ snd u) = {t \<in> ?N. ?D t \<subseteq> set (ordered @ [x])}" .
  have r: "jget (fst u) t = Some (int (card (?D t - set (ordered @ [x]))))" if "t \<in> ?N" for t
  proof (cases "x \<in> ?D t")
    case True
    then show ?thesis
      using val [OF that] split [of t] targets_outbound [OF that, of x]
      by (simp add: get del: set_append)
  next
    case False
    then show ?thesis
      using rem [OF that] split [of t] targets_outbound [OF that, of x]
      by (simp add: get del: set_append)
  qed
  have o: "rem_val (fst u) t \<le> 0" if "t \<notin> ?N" for t
    using out [OF that] by (auto simp: rem_val_def get split: option.splits)
  have "respecting ?D {} (ordered @ [x])" using resp x(2) by (simp add: respecting_append)
  then show ?thesis using d q r o unfolding kahn_inv_def by blast
qed

lemma kahn_result:
  "kahn_inv w rem queue ordered \<Longrightarrow>
   \<exists>rem'. kahn_inv w rem' [] (kahn (index_outbound w) rem queue ordered)"
proof (induction "index_outbound w" rem queue ordered rule: kahn.induct)
  case (1 rem ordered)
  then show ?case by auto
next
  case (2 rem x queue ordered)
  then show ?case using kahn_inv_step [OF "2.prems" refl] by (simp add: Let_def)
qed

lemma jget_initial_remaining:
  assumes "distinct (node_ids w)"
  shows "jget (initial_remaining w (index_deps w)) t =
    (if t \<in> set (node_ids w) then Some (int (card (deps_set w t))) else None)"
proof (cases "t \<in> set (node_ids w)")
  case True
  then obtain n where n: "find (\<lambda>n. n_id n = t) (rev (w_nodes w)) = Some n"
    using find_rev_node [of n_id t "w_nodes w"] by (auto simp: node_ids_def)
  then have "n_id n = t" using find_Some_mem by fastforce
  with n show ?thesis using True
    by (simp add: initial_remaining_def jget_foldl_const length_deps_of)
next
  case False
  then have "find (\<lambda>n. n_id n = t) (rev (w_nodes w)) = None"
    using find_rev_node [of n_id t "w_nodes w"] by (simp add: node_ids_def)
  then show ?thesis using False by (simp add: initial_remaining_def jget_foldl_const)
qed

lemma kahn_inv_init:
  assumes "distinct (node_ids w)"
  shows "kahn_inv w (initial_remaining w (index_deps w))
    (filter (\<lambda>i. jget (initial_remaining w (index_deps w)) i = Some 0) (node_ids w)) []"
  using assms by (auto simp: kahn_inv_def jget_initial_remaining rem_val_def)

text \<open>What the loop returns is a maximal set of nodes that can be ordered.\<close>

lemma kahn_order:
  assumes "distinct (node_ids w)"
  obtains ordered where
    "ordered = kahn (index_outbound w) (initial_remaining w (index_deps w))
       (filter (\<lambda>i. jget (initial_remaining w (index_deps w)) i = Some 0) (node_ids w)) []"
    and "distinct ordered" and "respecting (deps_set w) {} ordered"
    and "set ordered = {t \<in> set (node_ids w). deps_set w t \<subseteq> set ordered}"
  using kahn_result [OF kahn_inv_init [OF assms]] by (auto simp: kahn_inv_def)

section \<open>A built graph\<close>

text \<open>
  \<open>graph_ok g\<close>: \<open>g\<close> is what \<open>build\<close> returns on its own workflow, whose node ids are
  distinct (\<open>validateWorkflow\<close> reports the ones that are not).
\<close>

definition graph_ok :: "exec_graph \<Rightarrow> bool" where
  "graph_ok g \<longleftrightarrow> distinct (node_ids (g_workflow g)) \<and> build (g_workflow g) = Inr g"

definition dep_rel :: "workflow \<Rightarrow> (string \<times> string) set" where
  "dep_rel w = {(s, t). s \<in> deps_set w t}"

lemma build_workflow: "build w = Inr g \<Longrightarrow> g_workflow g = w"
  by (auto simp: build_def split: sum.splits)

lemma graph_okI: "distinct (node_ids w) \<Longrightarrow> build w = Inr g \<Longrightarrow> graph_ok g"
  by (simp add: graph_ok_def build_workflow)

lemma build_fields:
  assumes "build w = Inr g"
  shows "dependencies g n = deps_of (index_deps w) n"
    and "inboundEdges g n = filter (\<lambda>e. e_target e = n) (w_edges w)"
    and "graph_node g n = jget (jmap_of_list (map (\<lambda>n. (n_id n, n)) (w_nodes w))) n"
  using assms
  by (auto simp: build_def dependencies_def inboundEdges_def graph_node_def edges_of_inbound
      split: sum.splits)

lemma set_dependencies: "build w = Inr g \<Longrightarrow> set (dependencies g n) = deps_set w n"
  by (simp add: build_fields(1) deps_of_index)

lemma build_cases:
  assumes "distinct (node_ids w)"
  obtains (ok) g where "build w = Inr g" "set (g_nodeIds g) = set (node_ids w)"
      "distinct (g_nodeIds g)" "respecting (deps_set w) {} (g_nodeIds g)"
  | (stuck) e U where "build w = Inl e" "U \<subseteq> set (node_ids w)" "U \<noteq> {}"
      "\<And>t. t \<in> U \<Longrightarrow> \<exists>s \<in> deps_set w t. s \<in> U \<or> s \<notin> set (node_ids w)"
proof -
  obtain ordered where o:
    "ordered = kahn (index_outbound w) (initial_remaining w (index_deps w))
       (filter (\<lambda>i. jget (initial_remaining w (index_deps w)) i = Some 0) (node_ids w)) []"
    "distinct ordered" "respecting (deps_set w) {} ordered"
    "set ordered = {t \<in> set (node_ids w). deps_set w t \<subseteq> set ordered}"
    using kahn_order [OF assms] by blast
  have len: "length (w_nodes w) = card (set (node_ids w))"
    using distinct_card [OF assms] by (simp add: node_ids_def)
  show ?thesis
  proof (cases "length ordered = length (w_nodes w)")
    case True
    then have "card (set ordered) = card (set (node_ids w))"
      using distinct_card [OF o(2)] len by simp
    moreover have "set ordered \<subseteq> set (node_ids w)" using o(4) by blast
    ultimately have "set ordered = set (node_ids w)" by (simp add: card_subset_eq)
    then show ?thesis using True o(1-3) ok
      by (simp add: build_def topologicalOrder_def Let_def node_ids_def)
  next
    case False
    let ?U = "set (node_ids w) - set ordered"
    have "set ordered \<noteq> set (node_ids w)"
      using False distinct_card [OF o(2)] len by metis
    then have "?U \<noteq> {}" using o(4) by blast
    moreover have "\<exists>s \<in> deps_set w t. s \<in> ?U \<or> s \<notin> set (node_ids w)" if "t \<in> ?U" for t
      using that o(4) by blast
    moreover have "\<exists>e. build w = Inl e"
      using False o(1) by (simp add: build_def topologicalOrder_def Let_def node_ids_def)
    ultimately show ?thesis using stuck [of _ ?U] by blast
  qed
qed

lemma respecting_position:
  assumes "respecting D {} xs" and "t \<in> set xs" and "s \<in> D t"
  shows "s \<in> set (takeWhile (\<lambda>x. x \<noteq> t) xs)"
proof -
  obtain ys zs where xs: "xs = ys @ t # zs" and t: "t \<notin> set ys"
    using split_list_first [OF assms(2)] by blast
  then have "takeWhile (\<lambda>x. x \<noteq> t) xs = ys"
    by (subst xs) (subst takeWhile_append2, auto)
  then show ?thesis using assms(1,3) unfolding xs by (auto simp: respecting_append)
qed

lemma respecting_mem: "respecting D {} xs \<Longrightarrow> t \<in> set xs \<Longrightarrow> D t \<subseteq> set xs"
  using respecting_position set_takeWhileD by fast

lemma takeWhile_shorter:
  assumes "s \<in> set (takeWhile (\<lambda>x. x \<noteq> t) xs)"
  shows "length (takeWhile (\<lambda>x. x \<noteq> s) xs) < length (takeWhile (\<lambda>x. x \<noteq> t) xs)"
  using assms by (induction xs) auto

lemma respecting_acyclic:
  assumes "respecting D {} xs" and "\<And>t. D t \<noteq> {} \<Longrightarrow> t \<in> set xs"
  shows "acyclic {(s, t). s \<in> D t}"
proof (rule acyclicI_order [where f = "\<lambda>t. - int (length (takeWhile (\<lambda>x. x \<noteq> t) xs))"])
  fix s t
  assume "(s, t) \<in> {(s, t). s \<in> D t}"
  then have "s \<in> D t" "t \<in> set xs" using assms(2) by auto
  then show "- int (length (takeWhile (\<lambda>x. x \<noteq> t) xs)) < - int (length (takeWhile (\<lambda>x. x \<noteq> s) xs))"
    using takeWhile_shorter [OF respecting_position [OF assms(1)]] by simp
qed

lemma finite_dep_rel [simp]: "finite (dep_rel w)"
proof -
  have "dep_rel w \<subseteq> (\<lambda>e. (e_source e, e_target e)) ` set (w_edges w)"
    by (auto simp: dep_rel_def deps_set_def split: if_splits)
  then show ?thesis by (rule finite_subset) simp
qed

lemma build_succeeds_iff:
  assumes "distinct (node_ids w)"
  shows "(\<exists>g. build w = Inr g) \<longleftrightarrow>
    acyclic (dep_rel w) \<and> (\<forall>t. deps_set w t \<subseteq> set (node_ids w))"
  using assms
proof (cases rule: build_cases)
  case (ok g)
  have "acyclic (dep_rel w)" unfolding dep_rel_def
    by (rule respecting_acyclic [OF ok(4)]) (auto simp: ok(2) deps_set_def split: if_splits)
  moreover have "deps_set w t \<subseteq> set (node_ids w)" for t
    using respecting_mem [OF ok(4), of t] ok(2) by (cases "t \<in> set (node_ids w)") (auto simp: deps_set_def)
  ultimately show ?thesis using ok(1) by blast
next
  case (stuck e U)
  have "\<not> (acyclic (dep_rel w) \<and> (\<forall>t. deps_set w t \<subseteq> set (node_ids w)))"
  proof
    assume a: "acyclic (dep_rel w) \<and> (\<forall>t. deps_set w t \<subseteq> set (node_ids w))"
    then have "wf (dep_rel w)" by (simp add: finite_acyclic_wf)
    then obtain t where "t \<in> U" "\<And>s. (s, t) \<in> dep_rel w \<Longrightarrow> s \<notin> U"
      using stuck(3) by (metis all_not_in_conv wfE_min)
    then show False using stuck(4) a by (fastforce simp: dep_rel_def)
  qed
  then show ?thesis using stuck(1) by simp
qed

lemma graph_ok_order:
  assumes "graph_ok g"
  shows "distinct (g_nodeIds g)" and "set (g_nodeIds g) = set (node_ids (g_workflow g))"
    and "respecting (\<lambda>n. set (dependencies g n)) {} (g_nodeIds g)"
proof -
  have d: "distinct (node_ids (g_workflow g))" and b: "build (g_workflow g) = Inr g"
    using assms by (simp_all add: graph_ok_def)
  have eq: "(\<lambda>n. set (dependencies g n)) = deps_set (g_workflow g)"
    by (rule ext) (rule set_dependencies [OF b])
  from d show "distinct (g_nodeIds g)" "set (g_nodeIds g) = set (node_ids (g_workflow g))"
    "respecting (\<lambda>n. set (dependencies g n)) {} (g_nodeIds g)"
    unfolding eq by (cases rule: build_cases; use b in simp)+
qed

section \<open>The interface of the graph\<close>

text \<open>
  What the scheduler, the report and the executor rely on: the ids in an order in which every
  node follows its dependencies.
\<close>

locale ordered_graph =
  fixes ids :: "'g \<Rightarrow> string list"
    and deps :: "'g \<Rightarrow> string \<Rightarrow> string list"
    and ok :: "'g \<Rightarrow> bool"
  assumes ids_distinct: "ok g \<Longrightarrow> distinct (ids g)"
    and ids_ordered: "ok g \<Longrightarrow> respecting (\<lambda>n. set (deps g n)) {} (ids g)"
begin

lemma deps_are_nodes: "ok g \<Longrightarrow> n \<in> set (ids g) \<Longrightarrow> set (deps g n) \<subseteq> set (ids g)"
  using respecting_mem [OF ids_ordered] by blast

lemma dep_induct:
  assumes "ok g" and "n \<in> set (ids g)"
    and step: "\<And>n. n \<in> set (ids g) \<Longrightarrow> (\<And>d. d \<in> set (deps g n) \<Longrightarrow> P d) \<Longrightarrow> P n"
  shows "P n"
  using assms(2)
proof (induction "length (takeWhile (\<lambda>x. x \<noteq> n) (ids g))" arbitrary: n rule: less_induct)
  case less
  show ?case
  proof (rule step [OF less.prems])
    fix d
    assume d: "d \<in> set (deps g n)"
    then have "d \<in> set (takeWhile (\<lambda>x. x \<noteq> n) (ids g))"
      using respecting_position [OF ids_ordered [OF assms(1)] less.prems] by simp
    note shorter = takeWhile_shorter [OF this]
    show "P d"
      using less.hyps [OF shorter] deps_are_nodes [OF assms(1) less.prems] d by auto
  qed
qed

lemma ready_exists:
  assumes "ok g" and "\<not> set (ids g) \<subseteq> S"
  obtains n where "n \<in> set (ids g)" "n \<notin> S" "set (deps g n) \<subseteq> S"
proof -
  have "set (ids g) \<subseteq> S" if none: "\<not> (\<exists>n. n \<in> set (ids g) \<and> n \<notin> S \<and> set (deps g n) \<subseteq> S)"
  proof
    fix n
    assume "n \<in> set (ids g)"
    from assms(1) this show "n \<in> S"
      by (rule dep_induct) (use none in blast)
  qed
  then show thesis using assms(2) that by blast
qed

end

interpretation eg: ordered_graph g_nodeIds dependencies graph_ok
  by unfold_locales (simp_all add: graph_ok_order)

lemma inbound_sources:
  assumes "graph_ok g" and "n \<in> set (g_nodeIds g)"
  shows "e_source ` set (inboundEdges g n) = set (dependencies g n)"
proof -
  have b: "build (g_workflow g) = Inr g" using assms(1) by (simp add: graph_ok_def)
  show ?thesis
    using assms(2) graph_ok_order(2) [OF assms(1)]
    by (auto simp: build_fields(2) [OF b] set_dependencies [OF b] deps_set_def)
qed

lemma graph_node_iff:
  assumes "graph_ok g"
  shows "graph_node g i = find (\<lambda>n. n_id n = i) (w_nodes (g_workflow g))"
proof -
  have b: "build (g_workflow g) = Inr g" and d: "distinct (node_ids (g_workflow g))"
    using assms by (simp_all add: graph_ok_def)
  have "jget (fold (\<lambda>(k, v) m. jset m k v) (map (\<lambda>n. (n_id n, n)) ns) m) i =
    (case find (\<lambda>n. n_id n = i) ns of Some n \<Rightarrow> Some n | None \<Rightarrow> jget m i)"
    if "distinct (map n_id ns)" for ns :: "node list" and m
    using that
  proof (induction ns arbitrary: m)
    case (Cons n ns)
    then have "i \<notin> n_id ` set ns" if "n_id n = i" using that by auto
    then have "find (\<lambda>n. n_id n = i) ns = None" if "n_id n = i"
      using that unfolding find_None_iff by (metis imageI)
    with Cons show ?case by (auto simp: jget_jset split: option.splits)
  qed simp
  from this [OF d [unfolded node_ids_def]] show ?thesis
    by (simp add: build_fields(3) [OF b] jmap_of_list_def split: option.split)
qed

end
