(* ===== verification/Flow_State.thy ===== *)
theory Flow_State
  imports Flow_Graph Flow_Limits
begin

text \<open>
  \<open>apps/flows/packages/runtime/src/execution-state.ts\<close>: how a node result changes the state of
  a run, how the status of the run is read from it, and why a node is skipped. The code recurses
  along skipped dependencies; here the recursion carries a fuel, one more than the number of
  nodes, and \<open>analyze_total\<close> shows that this is enough on every built graph.
\<close>

section \<open>Applying a result\<close>

definition values_jv :: "node_values jmap \<Rightarrow> jv" where
  "values_jv m = JObj (map (\<lambda>(k, vs). (k, JObj vs)) m)"

definition execution_data :: "node_values jmap \<Rightarrow> node_values jmap \<Rightarrow> jv" where
  "execution_data ins outs = JObj [(''nodeInputs'', values_jv ins), (''nodeOutputs'', values_jv outs)]"

definition over_limit :: "node_values jmap \<Rightarrow> node_values jmap \<Rightarrow> bool" where
  "over_limit ins outs \<longleftrightarrow>
     MAX_EXECUTION_STATE_BYTES
       < estimateRuntimeJsonBytes (execution_data ins outs) MAX_EXECUTION_STATE_BYTES"

definition state_too_large :: string where
  "state_too_large =
     ''Execution data exceeds the 4 MiB limit; reduce outputs or use file references.''"

fun result_inputs :: "node_result \<Rightarrow> node_values option" where
  "result_inputs (Skipped _ _ _) = None"
| "result_inputs r = res_inputs r"

fun result_usage :: "node_result \<Rightarrow> jnum option" where
  "result_usage (Completed _ _ _ u) = Some u"
| "result_usage (Errored _ _ _ u) = u"
| "result_usage _ = None"

definition with_inputs :: "execution_state \<Rightarrow> string \<Rightarrow> node_values option \<Rightarrow> node_values jmap" where
  "with_inputs st n ins = (case ins of
     None \<Rightarrow> nodeInputs st | Some vs \<Rightarrow> jset (nodeInputs st) n vs)"

definition with_outputs :: "execution_state \<Rightarrow> node_result \<Rightarrow> node_values jmap" where
  "with_outputs st r = (case r of
     Completed n _ outs _ \<Rightarrow> jset (nodeOutputs st) n outs | _ \<Rightarrow> nodeOutputs st)"

text \<open>The first half of \<open>applyNodeResult\<close>: the result that is really applied.\<close>

definition bound_result :: "execution_state \<Rightarrow> node_result \<Rightarrow> node_result" where
  "bound_result st r =
     (case r of
        Skipped _ _ _ \<Rightarrow> r
      | _ \<Rightarrow>
        if over_limit (with_inputs st (res_node r) (result_inputs r)) (with_outputs st r)
        then Errored (res_node r) None state_too_large (result_usage r)
        else (case r of Errored n ins e u \<Rightarrow> Errored n ins (take 4096 e) u | _ \<Rightarrow> r))"

definition applyNodeResult :: "execution_state \<Rightarrow> node_result \<Rightarrow> execution_state \<times> node_result" where
  "applyNodeResult st r0 =
     (let r = bound_result st r0;
          st = st\<lparr>nodeInputs := with_inputs st (res_node r) (result_inputs r)\<rparr> in
      (case r of
         Completed n _ outs u \<Rightarrow>
           st\<lparr>nodeOutputs := jset (nodeOutputs st) n outs,
              executedNodes := executedNodes st @ [n],
              nodeUsage := jset (nodeUsage st) n u\<rparr>
       | Skipped n _ _ \<Rightarrow> st\<lparr>skippedNodes := skippedNodes st @ [n]\<rparr>
       | Errored n _ e u \<Rightarrow>
           (let st = st\<lparr>nodeErrors := jset (nodeErrors st) n e\<rparr> in
            case u of
              Some u \<Rightarrow> if js_lt (Fin 0) u then st\<lparr>nodeUsage := jset (nodeUsage st) n u\<rparr> else st
            | None \<Rightarrow> st)
       | Pending _ _ _ _ \<Rightarrow> st, r))"

section \<open>Why a node cannot run\<close>

record upstream_analysis =
  ua_shouldSkip :: bool
  ua_reason :: skip_reason
  ua_blockedBy :: "string list"

text \<open>The loop over the inbound edges: failure blockers, then conditional ones.\<close>

fun scan_edges :: "(string \<Rightarrow> skip_reason option) \<Rightarrow> execution_state \<Rightarrow> edge list
    \<Rightarrow> string list \<Rightarrow> string list \<Rightarrow> (string list \<times> string list) option" where
  "scan_edges why st [] failed cond = Some (failed, cond)"
| "scan_edges why st (e # es) failed cond =
     (if js_in (e_source e) (nodeErrors st)
      then scan_edges why st es (failed @ [e_source e]) cond
      else if e_source e \<in> set (skippedNodes st)
      then (case why (e_source e) of
              None \<Rightarrow> None
            | Some UpstreamFailure \<Rightarrow> scan_edges why st es (failed @ [e_source e]) cond
            | Some ConditionalBranch \<Rightarrow> scan_edges why st es failed (cond @ [e_source e]))
      else if e_source e \<in> set (executedNodes st)
      then (case jget (nodeOutputs st) (e_source e) of
              Some outs \<Rightarrow>
                if \<not> js_in (e_sourceOutput e) outs
                then scan_edges why st es failed (cond @ [e_source e])
                else scan_edges why st es failed cond
            | None \<Rightarrow> scan_edges why st es failed cond)
      else scan_edges why st es failed cond)"

definition conclude :: "edge list \<Rightarrow> string list \<Rightarrow> string list \<Rightarrow> upstream_analysis" where
  "conclude es failed cond =
     (let shouldSkip = (0 < length es \<and> length failed + length cond = length es) in
      if 0 < length cond \<and> length failed = 0
      then \<lparr>ua_shouldSkip = shouldSkip, ua_reason = ConditionalBranch, ua_blockedBy = cond\<rparr>
      else \<lparr>ua_shouldSkip = shouldSkip, ua_reason = UpstreamFailure, ua_blockedBy = failed\<rparr>)"

fun analyze :: "nat \<Rightarrow> exec_graph \<Rightarrow> execution_state \<Rightarrow> string \<Rightarrow> upstream_analysis option" where
  "analyze 0 g st n = None"
| "analyze (Suc fuel) g st n =
     (case scan_edges (\<lambda>s. map_option ua_reason (analyze fuel g st s)) st (inboundEdges g n) [] [] of
        None \<Rightarrow> None
      | Some (failed, cond) \<Rightarrow> Some (conclude (inboundEdges g n) failed cond))"

definition analyzeUpstream ::
  "exec_graph \<Rightarrow> execution_state \<Rightarrow> string \<Rightarrow> upstream_analysis option" where
  "analyzeUpstream g st n = analyze (Suc (length (g_nodeIds g))) g st n"

definition inferSkipReason ::
  "exec_graph \<Rightarrow> execution_state \<Rightarrow> string \<Rightarrow> (skip_reason \<times> string list) option" where
  "inferSkipReason g st n = map_option (\<lambda>a. (ua_reason a, ua_blockedBy a)) (analyzeUpstream g st n)"

section \<open>The status of a run\<close>

fun skip_failure :: "exec_graph \<Rightarrow> execution_state \<Rightarrow> string list \<Rightarrow> bool option" where
  "skip_failure g st [] = Some False"
| "skip_failure g st (n # ns) =
     (case inferSkipReason g st n of
        None \<Rightarrow> None
      | Some (UpstreamFailure, _) \<Rightarrow> Some True
      | Some (ConditionalBranch, _) \<Rightarrow> skip_failure g st ns)"

definition getExecutionStatus :: "exec_graph \<Rightarrow> execution_state \<Rightarrow> workflow_status option" where
  "getExecutionStatus g st =
     (let visited = js_set (executedNodes st @ skippedNodes st) in
      if \<not> list_all (\<lambda>n. n \<in> set visited \<or> js_in n (nodeErrors st)) (g_nodeIds g)
      then Some WExecuting
      else if 0 < length (nodeErrors st) then Some WError
      else map_option (\<lambda>b. if b then WError else WCompleted) (skip_failure g st (skippedNodes st)))"

section \<open>Values a node may receive\<close>

text \<open>
  \<open>getPrototypeOf(value) === Object.prototype\<close> holds of the plain objects \<open>JObj\<close>; a date and
  a byte array have neither an \<open>id\<close> nor that prototype.
\<close>

fun isRuntimeValue :: "jv \<Rightarrow> bool" where
  "isRuntimeValue JUndef = False"
| "isRuntimeValue JNull = False"
| "isRuntimeValue (JStr _) = True"
| "isRuntimeValue (JNum _) = True"
| "isRuntimeValue (JBool _) = True"
| "isRuntimeValue (JArr _) = True"
| "isRuntimeValue (JObj _) = True"
| "isRuntimeValue (JDate _) = False"
| "isRuntimeValue (JBytes _) = False"

section \<open>The analysis returns, and what it returns\<close>

lemma scan_edges_total:
  "\<forall>e \<in> set es. e_source e \<in> set (skippedNodes st) \<longrightarrow> why (e_source e) \<noteq> None \<Longrightarrow>
   scan_edges why st es failed cond \<noteq> None"
  by (induction es arbitrary: failed cond) (auto split: option.split skip_reason.split)

text \<open>What one edge contributes: nothing, or a blocker of one of the two kinds.\<close>

definition edge_block :: "(string \<Rightarrow> skip_reason option) \<Rightarrow> execution_state \<Rightarrow> edge
    \<Rightarrow> skip_reason option option" where
  "edge_block why st e =
     (if js_in (e_source e) (nodeErrors st) then Some (Some UpstreamFailure)
      else if e_source e \<in> set (skippedNodes st) then map_option Some (why (e_source e))
      else if e_source e \<in> set (executedNodes st)
      then (case jget (nodeOutputs st) (e_source e) of
              Some outs \<Rightarrow> Some (if \<not> js_in (e_sourceOutput e) outs then Some ConditionalBranch else None)
            | None \<Rightarrow> Some None)
      else Some None)"

lemma scan_edges_block:
  "scan_edges why st (e # es) failed cond =
     (case edge_block why st e of
        None \<Rightarrow> None
      | Some None \<Rightarrow> scan_edges why st es failed cond
      | Some (Some UpstreamFailure) \<Rightarrow> scan_edges why st es (failed @ [e_source e]) cond
      | Some (Some ConditionalBranch) \<Rightarrow> scan_edges why st es failed (cond @ [e_source e]))"
  by (simp add: edge_block_def split: option.split skip_reason.split)

lemma scan_edges_cong:
  "\<forall>e \<in> set es. edge_block why st e = edge_block why' st' e \<Longrightarrow>
   scan_edges why st es failed cond = scan_edges why' st' es failed cond"
proof (induction es arbitrary: failed cond)
  case Nil
  then show ?case by simp
next
  case (Cons e es)
  then have "edge_block why st e = edge_block why' st' e" by simp
  then show ?case unfolding scan_edges_block using Cons
    by (simp split: option.split skip_reason.split)
qed

lemma scan_edges_result:
  "scan_edges why st es failed cond = Some (failed', cond') \<Longrightarrow>
   failed' = failed @ map e_source (filter (\<lambda>e. edge_block why st e = Some (Some UpstreamFailure)) es) \<and>
   cond' = cond @ map e_source (filter (\<lambda>e. edge_block why st e = Some (Some ConditionalBranch)) es) \<and>
   (\<forall>e \<in> set es. edge_block why st e \<noteq> None)"
proof (induction es arbitrary: failed cond)
  case Nil
  then show ?case by simp
next
  case (Cons e es)
  consider "edge_block why st e = Some None"
    | "edge_block why st e = Some (Some UpstreamFailure)"
    | "edge_block why st e = Some (Some ConditionalBranch)"
    using Cons.prems unfolding scan_edges_block by (auto split: option.splits skip_reason.splits)
  then show ?case
    using Cons unfolding scan_edges_block by cases fastforce+
qed

lemma analyze_total:
  assumes "graph_ok g"
  shows "n \<in> set (g_nodeIds g) \<Longrightarrow> length (takeWhile (\<lambda>x. x \<noteq> n) (g_nodeIds g)) < fuel \<Longrightarrow>
    analyze fuel g st n \<noteq> None"
proof (induction fuel arbitrary: n)
  case 0
  then show ?case by simp
next
  case (Suc fuel)
  have "analyze fuel g st s \<noteq> None" if "s \<in> set (dependencies g n)" for s
  proof -
    have s: "s \<in> set (takeWhile (\<lambda>x. x \<noteq> n) (g_nodeIds g))"
      using that respecting_position [OF eg.ids_ordered [OF assms] Suc.prems(1)] by simp
    then have "s \<in> set (g_nodeIds g)" by (blast dest: set_takeWhileD)
    then show ?thesis using Suc.IH Suc.prems(2) takeWhile_shorter [OF s] by simp
  qed
  then have "scan_edges (\<lambda>s. map_option ua_reason (analyze fuel g st s)) st (inboundEdges g n) [] [] \<noteq> None"
    using inbound_sources [OF assms Suc.prems(1)] by (intro scan_edges_total) auto
  then show ?case by (auto split: option.split)
qed

lemma scan_edges_mono:
  "scan_edges why st es failed cond = Some r \<Longrightarrow> \<forall>s x. why s = Some x \<longrightarrow> why' s = Some x \<Longrightarrow>
   scan_edges why' st es failed cond = Some r"
  by (induction es arbitrary: failed cond) (auto split: option.splits skip_reason.splits if_splits)

lemma analyze_mono: "analyze fuel g st n = Some a \<Longrightarrow> fuel \<le> fuel' \<Longrightarrow> analyze fuel' g st n = Some a"
proof (induction fuel arbitrary: n a fuel')
  case 0
  then show ?case by simp
next
  case (Suc fuel)
  obtain f where f: "fuel' = Suc f" "fuel \<le> f" using Suc.prems(2) by (cases fuel') auto
  obtain failed cond where s:
    "scan_edges (\<lambda>s. map_option ua_reason (analyze fuel g st s)) st (inboundEdges g n) [] [] = Some (failed, cond)"
    "a = conclude (inboundEdges g n) failed cond"
    using Suc.prems(1) by (auto split: option.splits)
  have "scan_edges (\<lambda>s. map_option ua_reason (analyze f g st s)) st (inboundEdges g n) [] [] = Some (failed, cond)"
    by (rule scan_edges_mono [OF s(1)]) (auto dest: Suc.IH [OF _ f(2)])
  then show ?case using f(1) s(2) by simp
qed

lemma analyze_any_fuel:
  assumes "graph_ok g" and "n \<in> set (g_nodeIds g)" and "analyze fuel g st n = Some a"
  shows "analyzeUpstream g st n = Some a"
proof -
  have "length (takeWhile (\<lambda>x. x \<noteq> n) (g_nodeIds g)) < Suc (length (g_nodeIds g))"
    using length_takeWhile_le le_imp_less_Suc by blast
  then obtain b where b: "analyzeUpstream g st n = Some b"
    using analyze_total [OF assms(1,2)] unfolding analyzeUpstream_def by blast
  then have "analyze (max fuel (Suc (length (g_nodeIds g)))) g st n = Some b"
    unfolding analyzeUpstream_def by (rule analyze_mono) simp
  then show ?thesis using b analyze_mono [OF assms(3), of "max fuel (Suc (length (g_nodeIds g)))"] by simp
qed

text \<open>The recursive equation of the source, without the fuel.\<close>

definition upstream_reason :: "exec_graph \<Rightarrow> execution_state \<Rightarrow> string \<Rightarrow> skip_reason option" where
  "upstream_reason g st s = map_option ua_reason (analyzeUpstream g st s)"

lemma analyzeUpstream_returns:
  assumes "graph_ok g" and "n \<in> set (g_nodeIds g)"
  obtains failed cond where
    "scan_edges (upstream_reason g st) st (inboundEdges g n) [] [] = Some (failed, cond)"
    "analyzeUpstream g st n = Some (conclude (inboundEdges g n) failed cond)"
proof -
  let ?N = "length (g_nodeIds g)"
  have "length (takeWhile (\<lambda>x. x \<noteq> n) (g_nodeIds g)) < Suc ?N"
    using length_takeWhile_le le_imp_less_Suc by blast
  then obtain a where a: "analyze (Suc ?N) g st n = Some a"
    using analyze_total [OF assms] by blast
  then obtain failed cond where s:
    "scan_edges (\<lambda>s. map_option ua_reason (analyze ?N g st s)) st (inboundEdges g n) [] [] = Some (failed, cond)"
    "a = conclude (inboundEdges g n) failed cond"
    by (auto split: option.splits)
  have "scan_edges (upstream_reason g st) st (inboundEdges g n) [] [] = Some (failed, cond)"
  proof (rule scan_edges_mono [OF s(1)], intro allI impI)
    fix s x
    assume "map_option ua_reason (analyze ?N g st s) = Some x"
    then obtain b where "analyze ?N g st s = Some b" "x = ua_reason b" by auto
    then show "upstream_reason g st s = Some x"
      unfolding upstream_reason_def analyzeUpstream_def
      using analyze_mono [of ?N g st s b "Suc ?N"] by simp
  qed
  with a s(2) show ?thesis using that by (simp add: analyzeUpstream_def)
qed

definition block_of :: "exec_graph \<Rightarrow> execution_state \<Rightarrow> edge \<Rightarrow> skip_reason option" where
  "block_of g st e = the (edge_block (upstream_reason g st) st e)"

lemma length_two_filters:
  assumes "\<And>x. \<not> (P x \<and> Q x)"
  shows "length (filter P xs) + length (filter Q xs) \<le> length xs \<and>
    (length (filter P xs) + length (filter Q xs) = length xs \<longleftrightarrow> (\<forall>x \<in> set xs. P x \<or> Q x))"
proof (induction xs)
  case (Cons x xs)
  then show ?case using assms [of x] by (cases "P x"; cases "Q x") auto
qed simp

text \<open>The analysis in closed form: which edges are blocked, and which blockers are reported.\<close>

lemma analyzeUpstream_spec:
  assumes "graph_ok g" and "n \<in> set (g_nodeIds g)"
  obtains a where "analyzeUpstream g st n = Some a"
    and "ua_shouldSkip a \<longleftrightarrow> inboundEdges g n \<noteq> [] \<and> (\<forall>e \<in> set (inboundEdges g n). block_of g st e \<noteq> None)"
    and "ua_reason a = (if (\<exists>e \<in> set (inboundEdges g n). block_of g st e = Some ConditionalBranch) \<and>
            \<not> (\<exists>e \<in> set (inboundEdges g n). block_of g st e = Some UpstreamFailure)
          then ConditionalBranch else UpstreamFailure)"
    and "ua_blockedBy a = map e_source (filter (\<lambda>e. block_of g st e = Some (ua_reason a)) (inboundEdges g n))"
proof -
  let ?es = "inboundEdges g n"
  let ?is = "\<lambda>r e. edge_block (upstream_reason g st) st e = Some (Some r)"
  obtain failed cond where r:
    "scan_edges (upstream_reason g st) st ?es [] [] = Some (failed, cond)"
    "analyzeUpstream g st n = Some (conclude ?es failed cond)"
    using analyzeUpstream_returns [OF assms] .
  have f: "failed = map e_source (filter (?is UpstreamFailure) ?es)"
      "cond = map e_source (filter (?is ConditionalBranch) ?es)"
      "\<forall>e \<in> set ?es. edge_block (upstream_reason g st) st e \<noteq> None"
    using scan_edges_result [OF r(1)] by simp_all
  have eq: "?is r e = (block_of g st e = Some r)" if "e \<in> set ?es" for r e
    using f(3) that by (auto simp: block_of_def)
  have failed: "failed = map e_source (filter (\<lambda>e. block_of g st e = Some UpstreamFailure) ?es)"
    and cond: "cond = map e_source (filter (\<lambda>e. block_of g st e = Some ConditionalBranch) ?es)"
    unfolding f(1,2) by (auto intro!: arg_cong [where f = "map e_source"] filter_cong simp: eq)
  have two: "block_of g st e = Some UpstreamFailure \<or> block_of g st e = Some ConditionalBranch
      \<longleftrightarrow> block_of g st e \<noteq> None" for e
    using skip_reason.exhaust by (metis not_Some_eq)
  have len: "length failed + length cond = length ?es \<longleftrightarrow> (\<forall>e \<in> set ?es. block_of g st e \<noteq> None)"
    using length_two_filters [of "\<lambda>e. block_of g st e = Some UpstreamFailure"
        "\<lambda>e. block_of g st e = Some ConditionalBranch" ?es]
    unfolding failed cond two by simp
  have some: "0 < length cond \<longleftrightarrow> (\<exists>e \<in> set ?es. block_of g st e = Some ConditionalBranch)"
      "length failed = 0 \<longleftrightarrow> \<not> (\<exists>e \<in> set ?es. block_of g st e = Some UpstreamFailure)"
    by (auto simp: cond failed filter_empty_conv)
  let ?a = "conclude ?es failed cond"
  show ?thesis
  proof (rule that [OF r(2)])
    show "ua_shouldSkip ?a \<longleftrightarrow> ?es \<noteq> [] \<and> (\<forall>e \<in> set ?es. block_of g st e \<noteq> None)"
      by (simp add: conclude_def len Let_def)
    show reason: "ua_reason ?a = (if (\<exists>e \<in> set ?es. block_of g st e = Some ConditionalBranch) \<and>
        \<not> (\<exists>e \<in> set ?es. block_of g st e = Some UpstreamFailure)
      then ConditionalBranch else UpstreamFailure)"
      unfolding some [symmetric] by (simp add: conclude_def Let_def)
    show "ua_blockedBy ?a = map e_source (filter (\<lambda>e. block_of g st e = Some (ua_reason ?a)) ?es)"
      by (simp add: conclude_def Let_def failed cond)
  qed
qed

text \<open>A failure upstream: an errored dependency, at the end of a chain of skipped ones.\<close>

inductive upstream_error :: "exec_graph \<Rightarrow> execution_state \<Rightarrow> string \<Rightarrow> bool"
  for g :: exec_graph and st :: execution_state where
  direct: "e \<in> set (inboundEdges g n) \<Longrightarrow> js_in (e_source e) (nodeErrors st) \<Longrightarrow> upstream_error g st n"
| via: "e \<in> set (inboundEdges g n) \<Longrightarrow> e_source e \<in> set (skippedNodes st) \<Longrightarrow>
    upstream_error g st (e_source e) \<Longrightarrow> upstream_error g st n"

inductive_simps upstream_error_iff: "upstream_error g st n"

text \<open>Every skipped node was skipped because all its inbound edges are blocked.\<close>

definition skips_justified :: "exec_graph \<Rightarrow> execution_state \<Rightarrow> bool" where
  "skips_justified g st \<longleftrightarrow>
     (\<forall>n \<in> set (skippedNodes st). n \<in> set (g_nodeIds g) \<and>
        (\<exists>a. analyzeUpstream g st n = Some a \<and> ua_shouldSkip a))"

lemma block_of_cases:
  assumes "graph_ok g" and "n \<in> set (g_nodeIds g)" and "e \<in> set (inboundEdges g n)"
  shows "block_of g st e = Some UpstreamFailure \<longleftrightarrow>
    js_in (e_source e) (nodeErrors st) \<or>
    (e_source e \<in> set (skippedNodes st) \<and> upstream_reason g st (e_source e) = Some UpstreamFailure)"
proof -
  have "e_source e \<in> set (g_nodeIds g)"
    using assms inbound_sources eg.deps_are_nodes by fast
  then obtain a where "analyzeUpstream g st (e_source e) = Some a"
    using analyzeUpstream_spec [OF assms(1)] by metis
  then show ?thesis
    by (auto simp: block_of_def edge_block_def upstream_reason_def split: option.split)
qed

lemma reason_iff_error:
  assumes ok: "graph_ok g" and just: "skips_justified g st" and n: "n \<in> set (g_nodeIds g)"
    and "analyzeUpstream g st n = Some a" and "ua_shouldSkip a"
  shows "ua_reason a = UpstreamFailure \<longleftrightarrow> upstream_error g st n"
  using ok n assms(4,5)
proof (induction arbitrary: a rule: eg.dep_induct [consumes 2, case_names node])
  case (node n)
  have src: "e_source e \<in> set (dependencies g n)" if "e \<in> set (inboundEdges g n)" for e
    using inbound_sources [OF ok node(1)] that by blast
  have skipped: "upstream_reason g st (e_source e) = Some UpstreamFailure \<longleftrightarrow> upstream_error g st (e_source e)"
    if e: "e \<in> set (inboundEdges g n)" "e_source e \<in> set (skippedNodes st)" for e
  proof -
    obtain b where b: "analyzeUpstream g st (e_source e) = Some b" "ua_shouldSkip b"
      using just e(2) by (auto simp: skips_justified_def)
    then show ?thesis using node(2) [OF src [OF e(1)] b] by (simp add: upstream_reason_def)
  qed
  obtain b where b: "analyzeUpstream g st n = Some b"
    "ua_shouldSkip b \<longleftrightarrow> inboundEdges g n \<noteq> [] \<and> (\<forall>e \<in> set (inboundEdges g n). block_of g st e \<noteq> None)"
    "ua_reason b = (if (\<exists>e \<in> set (inboundEdges g n). block_of g st e = Some ConditionalBranch) \<and>
            \<not> (\<exists>e \<in> set (inboundEdges g n). block_of g st e = Some UpstreamFailure)
          then ConditionalBranch else UpstreamFailure)"
    by (rule analyzeUpstream_spec [OF ok node(1), of st])
  have a: "a = b" using node(3) b(1) by simp
  have "\<exists>e. e \<in> set (inboundEdges g n)" using node(4) a b(2) by (cases "inboundEdges g n") auto
  moreover have "\<forall>e \<in> set (inboundEdges g n). block_of g st e = Some UpstreamFailure \<or> block_of g st e = Some ConditionalBranch"
    using node(4) a b(2) by (metis not_Some_eq skip_reason.exhaust)
  ultimately have "ua_reason a = UpstreamFailure \<longleftrightarrow>
      (\<exists>e \<in> set (inboundEdges g n). block_of g st e = Some UpstreamFailure)"
    unfolding a b(3) by auto
  also have "\<dots> \<longleftrightarrow> upstream_error g st n"
    using block_of_cases [OF ok node(1)] skipped by (subst upstream_error_iff) blast
  finally show ?case .
qed

section \<open>What applying a result keeps\<close>

definition state_ok :: "execution_state \<Rightarrow> bool" where
  "state_ok st \<longleftrightarrow> \<not> over_limit (nodeInputs st) (nodeOutputs st) \<and>
     (\<forall>(n, e) \<in> set (nodeErrors st). length e \<le> 4096)"

lemma jset_mem: "p \<in> set (jset m k v) \<Longrightarrow> p = (k, v) \<or> p \<in> set m"
  by (induction m) (auto split: if_splits)

lemma node_result_fields [simp]:
  "res_node (bound_result st r) = res_node r"
  by (cases r) (auto simp: bound_result_def)

lemma state_too_large_length: "length state_too_large \<le> 4096"
  by (simp add: state_too_large_def)

lemma bound_result_error: "bound_result st r = Errored n ins e u \<Longrightarrow> length e \<le> 4096"
  using state_too_large_length by (cases r) (auto simp: bound_result_def split: if_splits)

lemma bound_result_skipped [simp]: "bound_result st (Skipped n r b) = Skipped n r b"
  by (simp add: bound_result_def)

lemma bound_result_Skipped_iff: "bound_result st r = Skipped n rs b \<longleftrightarrow> r = Skipped n rs b"
  by (cases r) (auto simp: bound_result_def)

lemma initial_state_ok: "state_ok initial_state"
proof -
  have "undef_free (execution_data [] [])" "depth_ok 0 (execution_data [] [])"
    by (simp_all add: execution_data_def values_jv_def)
  moreover from this have "json_bytes (execution_data [] []) = json_cost (execution_data [] [])"
    using json_cost_text [of "execution_data [] []"] by (auto simp: json_bytes_def)
  moreover have "json_cost (execution_data [] []) \<le> MAX_EXECUTION_STATE_BYTES"
    by (simp add: execution_data_def values_jv_def text_cost_def units_def unit_cost_def
        esc_unit_def surrogate_def hi_surrogate_def lo_surrogate_def MAX_EXECUTION_STATE_BYTES_def)
  ultimately have "estimateRuntimeJsonBytes (execution_data [] []) MAX_EXECUTION_STATE_BYTES
      \<le> MAX_EXECUTION_STATE_BYTES"
    using estimate_within by metis
  then show ?thesis by (simp add: state_ok_def over_limit_def)
qed

text \<open>What each kind of result, once bounded, does to the fields of the state.\<close>

lemma apply_fields:
  fixes st r
  defines "r' \<equiv> bound_result st r" and "st' \<equiv> fst (applyNodeResult st r)"
  shows apply_result: "snd (applyNodeResult st r) = r'"
    and apply_inputs: "nodeInputs st' = with_inputs st (res_node r) (result_inputs r')"
    and apply_outputs: "nodeOutputs st' = with_outputs st r'"
    and apply_executed: "executedNodes st' =
      executedNodes st @ (case r' of Completed n _ _ _ \<Rightarrow> [n] | _ \<Rightarrow> [])"
    and apply_skipped: "skippedNodes st' = skippedNodes st @ (case r' of Skipped n _ _ \<Rightarrow> [n] | _ \<Rightarrow> [])"
    and apply_errors: "nodeErrors st' =
      (case r' of Errored n _ e _ \<Rightarrow> jset (nodeErrors st) n e | _ \<Rightarrow> nodeErrors st)"
  unfolding st'_def r'_def
  by (cases "bound_result st r";
      auto simp: applyNodeResult_def Let_def with_outputs_def split: option.split
        dest: arg_cong [where f = res_node])+

lemma apply_state_ok:
  assumes "state_ok st"
  shows "state_ok (fst (applyNodeResult st r))"
proof -
  let ?r = "bound_result st r"
  have "\<not> over_limit (with_inputs st (res_node r) (result_inputs ?r)) (with_outputs st ?r)"
    using assms
    by (cases r)
      (auto simp: bound_result_def state_ok_def with_inputs_def with_outputs_def split: if_splits option.splits)
  moreover have "length e \<le> 4096" if "(n, e) \<in> set (nodeErrors (fst (applyNodeResult st r)))" for n e
    using that assms bound_result_error [of st r]
    by (auto simp: apply_errors state_ok_def split: node_result.splits dest!: jset_mem)
  ultimately show ?thesis by (auto simp: state_ok_def apply_inputs apply_outputs)
qed

definition visited :: "execution_state \<Rightarrow> string \<Rightarrow> bool" where
  "visited st n \<longleftrightarrow> n \<in> set (executedNodes st) \<or> n \<in> set (skippedNodes st) \<or> js_in n (nodeErrors st)"

lemma js_in_jset [simp]: "js_in n (jset m k v) \<longleftrightarrow> n = k \<or> js_in n m"
  by (auto simp: js_in_def)

lemma js_in_errors:
  "js_in n (nodeErrors (fst (applyNodeResult st r))) \<longleftrightarrow>
   js_in n (nodeErrors st) \<or> (\<exists>ins e u. bound_result st r = Errored n ins e u)"
  by (auto simp: apply_errors split: node_result.splits)

lemma bound_not_pending:
  "bound_result st r = Pending n ins t e \<longleftrightarrow>
   r = Pending n ins t e \<and> \<not> over_limit (with_inputs st n ins) (nodeOutputs st)"
  by (cases r) (auto simp: bound_result_def with_outputs_def split: if_splits)

text \<open>A result that is not parked makes its node visited and no other node.\<close>

lemma visited_apply:
  assumes "\<forall>n ins t e. bound_result st r \<noteq> Pending n ins t e"
  shows "visited (fst (applyNodeResult st r)) n \<longleftrightarrow> visited st n \<or> n = res_node r"
proof -
  have "res_node (bound_result st r) = res_node r" by simp
  then show ?thesis using assms
    by (cases "bound_result st r") (auto simp: visited_def apply_executed apply_skipped js_in_errors)
qed

lemma visited_apply_pending:
  "bound_result st r = Pending k ins t e \<Longrightarrow> visited (fst (applyNodeResult st r)) n \<longleftrightarrow> visited st n"
  by (simp add: visited_def apply_executed apply_skipped js_in_errors)

section \<open>The status in closed form\<close>

lemma executing_iff:
  "(\<exists>n \<in> set (g_nodeIds g). \<not> visited st n) \<Longrightarrow> getExecutionStatus g st = Some WExecuting"
  by (auto simp: getExecutionStatus_def visited_def list_all_iff Let_def)

lemma skip_failure_none:
  "\<forall>n \<in> set ns. \<exists>a. analyzeUpstream g st n = Some a \<and> ua_reason a = ConditionalBranch \<Longrightarrow>
   skip_failure g st ns = Some False"
  by (induction ns) (auto simp: inferSkipReason_def)

definition plain_ids :: "exec_graph \<Rightarrow> bool" where
  "plain_ids g \<longleftrightarrow> set (g_nodeIds g) \<inter> set object_prototype_keys = {}"

lemma upstream_error_errors:
  assumes "graph_ok g" and "plain_ids g" and "n \<in> set (g_nodeIds g)" and "upstream_error g st n"
  shows "nodeErrors st \<noteq> []"
  using assms(4,3)
proof (induction)
  case (direct e n)
  then have "e_source e \<in> set (g_nodeIds g)"
    using assms(1) inbound_sources eg.deps_are_nodes by fast
  then show ?case using direct(2) assms(2) by (auto simp: plain_ids_def js_in_def)
next
  case (via e n)
  then have "e_source e \<in> set (g_nodeIds g)"
    using assms(1) inbound_sources eg.deps_are_nodes by fast
  with via show ?case by blast
qed

text \<open>
  Where the skips are justified the scan over the skipped nodes adds nothing: a run is in error
  exactly when a node is.
\<close>

lemma status_iff:
  assumes ok: "graph_ok g" and plain: "plain_ids g" and just: "skips_justified g st"
  shows "getExecutionStatus g st = Some
    (if \<exists>n \<in> set (g_nodeIds g). \<not> visited st n then WExecuting
     else if nodeErrors st \<noteq> [] then WError else WCompleted)"
proof (cases "nodeErrors st = []")
  case False
  then show ?thesis by (auto simp: getExecutionStatus_def visited_def list_all_iff Let_def)
next
  case True
  have "\<exists>a. analyzeUpstream g st n = Some a \<and> ua_reason a = ConditionalBranch"
    if sk: "n \<in> set (skippedNodes st)" for n
  proof -
    obtain a where a: "n \<in> set (g_nodeIds g)" "analyzeUpstream g st n = Some a" "ua_shouldSkip a"
      using just sk by (auto simp: skips_justified_def)
    then have "ua_reason a \<noteq> UpstreamFailure"
      using reason_iff_error [OF ok just] upstream_error_errors [OF ok plain] True by metis
    then show ?thesis using a(2) by (cases "ua_reason a") auto
  qed
  then have "skip_failure g st (skippedNodes st) = Some False"
    using skip_failure_none by blast
  then show ?thesis using True
    by (auto simp: getExecutionStatus_def visited_def list_all_iff Let_def)
qed

end
