(* ===== verification/Flow_Report.thy ===== *)
theory Flow_Report
  imports Flow_State
begin

text \<open>
  \<open>apps/flows/packages/runtime/src/execution-report.ts\<close>: the execution record of a run, one
  entry per workflow node, rebuilt from the state. The result is an option only because
  the skip analysis carries a fuel; \<open>report_total\<close> shows that it is always there.
\<close>

definition values_of :: "node_values jmap \<Rightarrow> string \<Rightarrow> node_values" where
  "values_of m n = (case jget m n of Some vs \<Rightarrow> vs | None \<Rightarrow> [])"

definition usage_of :: "execution_state \<Rightarrow> string \<Rightarrow> jnum" where
  "usage_of st n = (case jget (nodeUsage st) n of Some u \<Rightarrow> u | None \<Rightarrow> Fin 0)"

definition error_of :: "execution_state \<Rightarrow> string \<Rightarrow> string" where
  "error_of st n = (case jget (nodeErrors st) n of Some e \<Rightarrow> e | None \<Rightarrow> [])"

definition node_entry :: "exec_graph \<Rightarrow> execution_state \<Rightarrow> bool \<Rightarrow> pending_event jmap
    \<Rightarrow> string \<Rightarrow> node_execution option" where
  "node_entry g st isStillRunning pendingNodes n =
     (case jget pendingNodes n of
        Some ev \<Rightarrow> Some (NxPending n ev)
      | None \<Rightarrow>
        if n \<in> set (executedNodes st)
        then Some (NxCompleted n (values_of (nodeInputs st) n) (values_of (nodeOutputs st) n) (usage_of st n))
        else if js_in n (nodeErrors st)
        then Some (NxError n (values_of (nodeInputs st) n) (error_of st n) (usage_of st n))
        else if n \<in> set (skippedNodes st)
        then map_option (\<lambda>(r, b). NxSkipped n r b) (inferSkipReason g st n)
        else Some (if isStillRunning then NxExecuting n else NxIdle n))"

definition buildNodeExecutions :: "exec_graph \<Rightarrow> execution_state \<Rightarrow> workflow_status option
    \<Rightarrow> pending_event jmap \<Rightarrow> node_execution list option" where
  "buildNodeExecutions g st overrideStatus pendingNodes =
     (case (case overrideStatus of Some s \<Rightarrow> Some s | None \<Rightarrow> getExecutionStatus g st) of
        None \<Rightarrow> None
      | Some s \<Rightarrow> traverse (\<lambda>n. node_entry g st (s = WExecuting) pendingNodes (n_id n))
                    (w_nodes (g_workflow g)))"

fun nx_terminal :: "node_execution \<Rightarrow> bool" where
  "nx_terminal (NxCompleted _ _ _ _) = True"
| "nx_terminal (NxError _ _ _ _) = True"
| "nx_terminal (NxSkipped _ _ _) = True"
| "nx_terminal _ = False"

lemma inferSkipReason_returns:
  "graph_ok g \<Longrightarrow> n \<in> set (g_nodeIds g) \<Longrightarrow> inferSkipReason g st n \<noteq> None"
  by (metis analyzeUpstream_spec inferSkipReason_def option.distinct(1) option.map_disc_iff)

lemma node_entry_returns:
  "graph_ok g \<Longrightarrow> n \<in> set (g_nodeIds g) \<Longrightarrow> node_entry g st b ps n \<noteq> None"
  using inferSkipReason_returns [of g n st]
  by (auto simp: node_entry_def split: option.split)

lemma node_entry_node: "node_entry g st b ps n = Some x \<Longrightarrow> nx_node x = n"
  by (auto simp: node_entry_def split: option.splits if_splits)

lemma node_entry_terminal:
  "node_entry g st b [] n = Some x \<Longrightarrow> visited st n \<longleftrightarrow> nx_terminal x"
  by (auto simp: node_entry_def visited_def split: option.splits if_splits)

lemma skip_failure_total:
  "graph_ok g \<Longrightarrow> set ns \<subseteq> set (g_nodeIds g) \<Longrightarrow> skip_failure g st ns \<noteq> None"
proof (induction ns)
  case (Cons n ns)
  then show ?case using inferSkipReason_returns [of g n st]
    by (auto split: option.split skip_reason.split)
qed simp

lemma status_total:
  "graph_ok g \<Longrightarrow> set (skippedNodes st) \<subseteq> set (g_nodeIds g) \<Longrightarrow> getExecutionStatus g st \<noteq> None"
  using skip_failure_total by (auto simp: getExecutionStatus_def Let_def)

lemma report_total:
  assumes "graph_ok g" and "set (skippedNodes st) \<subseteq> set (g_nodeIds g)"
  obtains s xs where "buildNodeExecutions g st os ps = Some xs"
    and "s = (case os of Some s \<Rightarrow> s | None \<Rightarrow> the (getExecutionStatus g st))"
    and "map (\<lambda>n. node_entry g st (s = WExecuting) ps (n_id n)) (w_nodes (g_workflow g)) = map Some xs"
proof -
  let ?s = "case os of Some s \<Rightarrow> s | None \<Rightarrow> the (getExecutionStatus g st)"
  have s: "(case os of Some s \<Rightarrow> Some s | None \<Rightarrow> getExecutionStatus g st) = Some ?s"
    using status_total [OF assms] by (auto split: option.split)
  have "n_id n \<in> set (g_nodeIds g)" if "n \<in> set (w_nodes (g_workflow g))" for n
    using that graph_ok_order(2) [OF assms(1)] by (auto simp: node_ids_def)
  then have "\<forall>n \<in> set (w_nodes (g_workflow g)). node_entry g st (?s = WExecuting) ps (n_id n) \<noteq> None"
    using node_entry_returns [OF assms(1)] by blast
  from traverse_total [OF this] obtain xs where
    xs: "traverse (\<lambda>n. node_entry g st (?s = WExecuting) ps (n_id n)) (w_nodes (g_workflow g)) = Some xs"
    by blast
  then have "buildNodeExecutions g st os ps = Some xs" by (simp add: buildNodeExecutions_def s)
  then show ?thesis using that [OF _ refl] xs by (simp add: traverse_Some_iff)
qed

lemma report_nodes:
  assumes "graph_ok g" and "set (skippedNodes st) \<subseteq> set (g_nodeIds g)"
  shows "\<exists>xs. buildNodeExecutions g st os ps = Some xs \<and> map nx_node xs = node_ids (g_workflow g)"
proof -
  obtain s xs where xs: "buildNodeExecutions g st os ps = Some xs"
    "map (\<lambda>n. node_entry g st (s = WExecuting) ps (n_id n)) (w_nodes (g_workflow g)) = map Some xs"
    using report_total [OF assms] .
  have "map nx_node xs = node_ids (g_workflow g)" unfolding node_ids_def
  proof (rule nth_equalityI)
    show "length (map nx_node xs) = length (map n_id (w_nodes (g_workflow g)))"
      using xs(2) by (metis length_map)
    fix i
    assume i: "i < length (map nx_node xs)"
    then have "node_entry g st (s = WExecuting) ps (n_id (w_nodes (g_workflow g) ! i)) = Some (xs ! i)"
      using xs(2) by (metis length_map nth_map)
    then show "map nx_node xs ! i = map n_id (w_nodes (g_workflow g)) ! i"
      using i xs(2) node_entry_node by (metis length_map nth_map)
  qed
  then show ?thesis using xs(1) by blast
qed

end
