(* ===== verification/Flow_Scheduler.thy ===== *)
theory Flow_Scheduler
  imports Flow_Report
begin

text \<open>
  \<open>apps/flows/packages/runtime/src/dataflow-scheduler.ts\<close>. \<open>executeDataflow\<close> is a loop over
  promises: each node in flight is a task of its own, and the loop wakes up for one finished task
  at a time. Its state is a record, and what happens between two awaits is one event: a task
  gets its node's result, a parked task gets its event, a task fails, the loop takes a finished
  task, the loop's own progress report ends or fails. Any enabled event may come next, so every
  interleaving of the tasks is a sequence of events.
\<close>

section \<open>The state of the loop\<close>

text \<open>A task: running, parked on an event (with its pending result), finished, or rejected.\<close>

datatype flight = Running | Parked node_result | Ready node_result | Rejected

record sched =
  sd_state :: execution_state
  sd_settled :: "string list"
  sd_started :: "string list"
  sd_inFlight :: "flight jmap"
  sd_pending :: "pending_event jmap"
  sd_reporting :: bool
  sd_failed :: bool

definition isReady :: "exec_graph \<Rightarrow> sched \<Rightarrow> string \<Rightarrow> bool" where
  "isReady g s n \<longleftrightarrow> n \<notin> set (sd_started s) \<and>
     list_all (\<lambda>upstream. upstream \<in> set (sd_settled s)) (dependencies g n)"

definition startNode :: "string \<Rightarrow> sched \<Rightarrow> sched" where
  "startNode n s = s\<lparr>sd_started := set_add n (sd_started s),
     sd_inFlight := jset (sd_inFlight s) n Running\<rparr>"

definition scheduleReady :: "exec_graph \<Rightarrow> sched \<Rightarrow> sched" where
  "scheduleReady g s = fold (\<lambda>n s. if isReady g s n then startNode n s else s) (g_nodeIds g) s"

definition sched_start :: "exec_graph \<Rightarrow> execution_state \<Rightarrow> sched" where
  "sched_start g st = scheduleReady g \<lparr>sd_state = st, sd_settled = [], sd_started = [],
     sd_inFlight = [], sd_pending = [], sd_reporting = False, sd_failed = False\<rparr>"

section \<open>The events\<close>

datatype sched_event =
    RunDone string node_result
  | ResolveDone string node_result
  | TaskFail string
  | Settle string
  | ProgressDone
  | ProgressFail

text \<open>The body of a task after \<open>runNode\<close> has returned.\<close>

definition run_done :: "string \<Rightarrow> node_result \<Rightarrow> sched \<Rightarrow> sched" where
  "run_done n initial s =
     (case initial of
        Pending _ _ eventType timeout \<Rightarrow>
          (let (st, parked) = applyNodeResult (sd_state s) initial;
               s = s\<lparr>sd_state := st\<rparr> in
           case parked of
             Pending _ _ _ _ \<Rightarrow>
               s\<lparr>sd_pending := jset (sd_pending s) n \<lparr>pe_type = eventType, pe_timeout = timeout\<rparr>,
                 sd_inFlight := jset (sd_inFlight s) n (Parked initial)\<rparr>
           | _ \<Rightarrow> s\<lparr>sd_inFlight := jset (sd_inFlight s) n (Ready parked)\<rparr>)
      | _ \<Rightarrow> s\<lparr>sd_inFlight := jset (sd_inFlight s) n (Ready initial)\<rparr>)"

definition resolve_done :: "string \<Rightarrow> node_result \<Rightarrow> sched \<Rightarrow> sched" where
  "resolve_done n r s = s\<lparr>sd_pending := jdel (sd_pending s) n,
     sd_inFlight := jset (sd_inFlight s) n (Ready r)\<rparr>"

text \<open>The body of the loop up to its report.\<close>

definition settle :: "exec_graph \<Rightarrow> string \<Rightarrow> node_result \<Rightarrow> sched \<Rightarrow> sched" where
  "settle g n r s =
     (scheduleReady g (s\<lparr>sd_inFlight := jdel (sd_inFlight s) n,
        sd_state := fst (applyNodeResult (sd_state s) r),
        sd_settled := set_add n (sd_settled s)\<rparr>))\<lparr>sd_reporting := True\<rparr>"

text \<open>\<open>None\<close>: the event cannot happen now.\<close>

fun sched_step :: "exec_graph \<Rightarrow> sched_event \<Rightarrow> sched \<Rightarrow> sched option" where
  "sched_step g (RunDone n r) s =
     (case jget (sd_inFlight s) n of Some Running \<Rightarrow> Some (run_done n r s) | _ \<Rightarrow> None)"
| "sched_step g (ResolveDone n r) s =
     (case jget (sd_inFlight s) n of Some (Parked _) \<Rightarrow> Some (resolve_done n r s) | _ \<Rightarrow> None)"
| "sched_step g (TaskFail n) s =
     (case jget (sd_inFlight s) n of
        Some Running \<Rightarrow> Some (s\<lparr>sd_inFlight := jset (sd_inFlight s) n Rejected\<rparr>)
      | Some (Parked _) \<Rightarrow> Some (s\<lparr>sd_inFlight := jset (sd_inFlight s) n Rejected\<rparr>)
      | _ \<Rightarrow> None)"
| "sched_step g (Settle n) s =
     (if sd_reporting s \<or> sd_failed s then None
      else case jget (sd_inFlight s) n of
        Some (Ready r) \<Rightarrow> Some (settle g n r s)
      | Some Rejected \<Rightarrow> Some (s\<lparr>sd_failed := True\<rparr>)
      | _ \<Rightarrow> None)"
| "sched_step g ProgressDone s =
     (if sd_reporting s then Some (s\<lparr>sd_reporting := False\<rparr>) else None)"
| "sched_step g ProgressFail s =
     (if sd_reporting s then Some (s\<lparr>sd_reporting := False, sd_failed := True\<rparr>) else None)"

fun sched_run :: "exec_graph \<Rightarrow> sched_event list \<Rightarrow> sched \<Rightarrow> sched option" where
  "sched_run g [] s = Some s"
| "sched_run g (ev # evs) s =
     (case sched_step g ev s of None \<Rightarrow> None | Some s' \<Rightarrow> sched_run g evs s')"

text \<open>\<open>executeDataflow\<close> has returned.\<close>

definition sched_finished :: "sched \<Rightarrow> bool" where
  "sched_finished s \<longleftrightarrow> sd_inFlight s = [] \<and> \<not> sd_reporting s \<and> \<not> sd_failed s"

text \<open>
  What the hooks may answer: \<open>run g st n r\<close> that \<open>runNode(n)\<close> may return \<open>r\<close> in the state
  \<open>st\<close>, \<open>res p r\<close> that \<open>resolvePending(p)\<close> may return \<open>r\<close>. \<open>sched_reach\<close>: the states of a run
  with these answers.
\<close>

fun answer_ok :: "(exec_graph \<Rightarrow> execution_state \<Rightarrow> string \<Rightarrow> node_result \<Rightarrow> bool) \<Rightarrow>
    (node_result \<Rightarrow> node_result \<Rightarrow> bool) \<Rightarrow> exec_graph \<Rightarrow> sched_event \<Rightarrow> sched \<Rightarrow> bool" where
  "answer_ok run res g (RunDone n r) s = run g (sd_state s) n r"
| "answer_ok run res g (ResolveDone n r) s =
     (case jget (sd_inFlight s) n of Some (Parked p) \<Rightarrow> res p r | _ \<Rightarrow> False)"
| "answer_ok run res g _ s = True"

inductive sched_reach :: "(exec_graph \<Rightarrow> execution_state \<Rightarrow> string \<Rightarrow> node_result \<Rightarrow> bool) \<Rightarrow>
    (node_result \<Rightarrow> node_result \<Rightarrow> bool) \<Rightarrow> exec_graph \<Rightarrow> execution_state \<Rightarrow> nat \<Rightarrow> sched \<Rightarrow> bool"
  for run res g st where
  start: "sched_reach run res g st 0 (sched_start g st)"
| step: "sched_reach run res g st k s \<Longrightarrow> answer_ok run res g ev s \<Longrightarrow>
    sched_step g ev s = Some s' \<Longrightarrow> sched_reach run res g st (Suc k) s'"

section \<open>Scheduling\<close>

definition newly :: "exec_graph \<Rightarrow> sched \<Rightarrow> string list" where
  "newly g s = filter (isReady g s) (g_nodeIds g)"

lemma isReady_startNode: "n \<noteq> m \<Longrightarrow> isReady g (startNode m s) n = isReady g s n"
  by (simp add: isReady_def startNode_def)

lemma schedule_fold:
  "distinct ns \<Longrightarrow> fold (\<lambda>n s. if isReady g s n then startNode n s else s) ns s =
     s\<lparr>sd_started := sd_started s @ filter (isReady g s) ns,
       sd_inFlight := fold (\<lambda>n m. jset m n Running) (filter (isReady g s) ns) (sd_inFlight s)\<rparr>"
proof (induction ns arbitrary: s)
  case Nil
  then show ?case by simp
next
  case (Cons n ns)
  have same: "filter (isReady g (startNode n s)) ns = filter (isReady g s) ns"
    using Cons.prems by (intro filter_cong refl isReady_startNode) auto
  show ?case
  proof (cases "isReady g s n")
    case True
    then have "n \<notin> set (sd_started s)" by (simp add: isReady_def)
    then show ?thesis using Cons True same by (simp add: startNode_def set_add_def)
  next
    case False
    then show ?thesis using Cons by simp
  qed
qed

lemma scheduleReady_eq:
  "graph_ok g \<Longrightarrow> scheduleReady g s =
     s\<lparr>sd_started := sd_started s @ newly g s,
       sd_inFlight := fold (\<lambda>n m. jset m n Running) (newly g s) (sd_inFlight s)\<rparr>"
  unfolding scheduleReady_def newly_def by (rule schedule_fold) (rule eg.ids_distinct)

lemma jget_fold_const:
  "jget (fold (\<lambda>n m. jset m n v) ns m) k = (if k \<in> set ns then Some v else jget m k)"
  by (induction ns arbitrary: m) (auto simp: jget_jset)

lemma set_jkeys_fold_const: "set (jkeys (fold (\<lambda>n m. jset m n v) ns m)) = set ns \<union> set (jkeys m)"
  by (induction ns arbitrary: m) auto

lemma distinct_jkeys_fold_const: "distinct (jkeys m) \<Longrightarrow> distinct (jkeys (fold (\<lambda>n m. jset m n v) ns m))"
  by (induction ns arbitrary: m) auto

section \<open>The structure of the loop\<close>

text \<open>
  What has started is what has settled and what is in flight; a node is started exactly when its
  dependencies have settled.
\<close>

definition sched_inv :: "exec_graph \<Rightarrow> sched \<Rightarrow> bool" where
  "sched_inv g s \<longleftrightarrow>
     distinct (sd_started s) \<and> distinct (sd_settled s) \<and> distinct (jkeys (sd_inFlight s)) \<and>
     set (sd_started s) = set (sd_settled s) \<union> set (jkeys (sd_inFlight s)) \<and>
     set (sd_settled s) \<inter> set (jkeys (sd_inFlight s)) = {} \<and>
     (\<forall>n \<in> set (g_nodeIds g). n \<in> set (sd_started s) \<longleftrightarrow> set (dependencies g n) \<subseteq> set (sd_settled s)) \<and>
     set (sd_started s) \<subseteq> set (g_nodeIds g)"

lemma sched_inv_same:
  assumes "sched_inv g s" and "jkeys (sd_inFlight s') = jkeys (sd_inFlight s)"
    and "sd_started s' = sd_started s" and "sd_settled s' = sd_settled s"
  shows "sched_inv g s'"
proof -
  have "sched_inv g s' = sched_inv g s" unfolding sched_inv_def assms(2-4) ..
  then show ?thesis using assms(1) by simp
qed

text \<open>Before the scheduling pass: nodes whose dependencies have settled may not have started.\<close>

definition pre_sched :: "exec_graph \<Rightarrow> sched \<Rightarrow> bool" where
  "pre_sched g s \<longleftrightarrow>
     distinct (sd_started s) \<and> distinct (sd_settled s) \<and> distinct (jkeys (sd_inFlight s)) \<and>
     set (sd_started s) = set (sd_settled s) \<union> set (jkeys (sd_inFlight s)) \<and>
     set (sd_settled s) \<inter> set (jkeys (sd_inFlight s)) = {} \<and>
     (\<forall>n \<in> set (sd_started s). set (dependencies g n) \<subseteq> set (sd_settled s)) \<and>
     set (sd_started s) \<subseteq> set (g_nodeIds g)"

lemma newly_set:
  "set (newly g s) = {n \<in> set (g_nodeIds g). n \<notin> set (sd_started s) \<and>
     set (dependencies g n) \<subseteq> set (sd_settled s)}"
  by (auto simp: newly_def isReady_def list_all_iff)

lemma schedule_inv:
  assumes "graph_ok g" and "pre_sched g s"
  shows "sched_inv g (scheduleReady g s)"
  using assms eg.ids_distinct [OF assms(1)] newly_set [of g s]
  unfolding sched_inv_def pre_sched_def scheduleReady_eq [OF assms(1)]
  by (auto simp: set_jkeys_fold_const distinct_jkeys_fold_const newly_def)

lemma start_inv: "graph_ok g \<Longrightarrow> sched_inv g (sched_start g st)"
  unfolding sched_start_def by (rule schedule_inv) (simp_all add: pre_sched_def)

lemma settle_inv:
  assumes "graph_ok g" and "sched_inv g s" and "jget (sd_inFlight s) n = Some f"
  shows "sched_inv g (settle g n r s)"
proof -
  let ?s = "s\<lparr>sd_inFlight := jdel (sd_inFlight s) n,
        sd_state := fst (applyNodeResult (sd_state s) r),
        sd_settled := set_add n (sd_settled s)\<rparr>"
  have "n \<in> set (jkeys (sd_inFlight s))" using assms(3) by (rule jget_Some_key)
  then have "pre_sched g ?s" using assms(2) by (auto simp: pre_sched_def sched_inv_def)
  from schedule_inv [OF assms(1) this] show ?thesis
    unfolding settle_def by (rule sched_inv_same) simp_all
qed

lemma run_done_fields [simp]:
  "sd_started (run_done n r s) = sd_started s" "sd_settled (run_done n r s) = sd_settled s"
  "sd_reporting (run_done n r s) = sd_reporting s" "sd_failed (run_done n r s) = sd_failed s"
  by (auto simp: run_done_def Let_def split: node_result.split prod.split)

lemma jkeys_run_done:
  "n \<in> set (jkeys (sd_inFlight s)) \<Longrightarrow> jkeys (sd_inFlight (run_done n r s)) = jkeys (sd_inFlight s)"
  by (auto simp: run_done_def Let_def jkeys_jset_mem split: node_result.split prod.split)

lemma step_cases:
  assumes "sched_step g ev s = Some s'"
  obtains (run) n r where "ev = RunDone n r" "jget (sd_inFlight s) n = Some Running" "s' = run_done n r s"
  | (resolve) n r p where "ev = ResolveDone n r" "jget (sd_inFlight s) n = Some (Parked p)"
      "s' = resolve_done n r s"
  | (fail) n f where "ev = TaskFail n" "jget (sd_inFlight s) n = Some f" "f = Running \<or> (\<exists>p. f = Parked p)"
      "s' = s\<lparr>sd_inFlight := jset (sd_inFlight s) n Rejected\<rparr>"
  | (settle) n r where "ev = Settle n" "\<not> sd_reporting s" "\<not> sd_failed s"
      "jget (sd_inFlight s) n = Some (Ready r)" "s' = settle g n r s"
  | (throw) n where "ev = Settle n" "\<not> sd_reporting s" "\<not> sd_failed s"
      "jget (sd_inFlight s) n = Some Rejected" "s' = s\<lparr>sd_failed := True\<rparr>"
  | (reported) "ev = ProgressDone" "sd_reporting s" "s' = s\<lparr>sd_reporting := False\<rparr>"
  | (unreported) "ev = ProgressFail" "sd_reporting s"
      "s' = s\<lparr>sd_reporting := False, sd_failed := True\<rparr>"
proof (cases ev)
  case (RunDone n r)
  then show thesis using assms by (auto split: option.splits flight.splits intro: run)
next
  case (ResolveDone n r)
  then show thesis using assms by (auto split: option.splits flight.splits intro: resolve)
next
  case (TaskFail n)
  then show thesis using assms fail by (auto split: option.splits flight.splits)
next
  case (Settle n)
  then show thesis using assms
    by (auto split: option.splits flight.splits if_splits intro: settle throw)
next
  case ProgressDone
  then show thesis using assms by (auto split: if_splits intro: reported)
next
  case ProgressFail
  then show thesis using assms by (auto split: if_splits intro: unreported)
qed

lemma sched_step_inv:
  assumes ok: "graph_ok g" and inv: "sched_inv g s" and "sched_step g ev s = Some s'"
  shows "sched_inv g s'"
  using assms(3)
proof (cases rule: step_cases)
  case (run n r)
  then show ?thesis
    by (intro sched_inv_same [OF inv]) (simp_all add: jkeys_run_done jget_Some_key)
next
  case (settle n r)
  then show ?thesis using settle_inv [OF ok inv] by simp
qed (auto intro!: sched_inv_same [OF inv] simp: resolve_done_def jkeys_jset_mem jget_Some_key)

lemma reach_inv: "sched_reach run res g st k s \<Longrightarrow> graph_ok g \<Longrightarrow> sched_inv g s"
proof (induction rule: sched_reach.induct)
  case start
  then show ?case by (rule start_inv)
next
  case (step k s ev s')
  then show ?case using sched_step_inv [OF step.prems step.IH [OF step.prems] step.hyps(3)] by blast
qed

text \<open>At the end every node has settled.\<close>

lemma finished_all_settled:
  assumes "graph_ok g" and "sched_inv g s" and "sd_inFlight s = []"
  shows "set (sd_settled s) = set (g_nodeIds g)"
proof (rule ccontr)
  assume "\<not> ?thesis"
  then have "\<not> set (g_nodeIds g) \<subseteq> set (sd_settled s)" using assms(2) by (auto simp: sched_inv_def)
  then obtain n where "n \<in> set (g_nodeIds g)" "n \<notin> set (sd_settled s)"
      "set (dependencies g n) \<subseteq> set (sd_settled s)"
    using eg.ready_exists [OF assms(1)] by blast
  then show False using assms(2,3) by (auto simp: sched_inv_def)
qed

section \<open>The loop ends\<close>

text \<open>What a task can still cause: each event of it, or of the loop taking it, costs one.\<close>

fun flight_weight :: "flight \<Rightarrow> nat" where
  "flight_weight Running = 4"
| "flight_weight (Parked _) = 3"
| "flight_weight (Ready _) = 2"
| "flight_weight Rejected = 2"

definition flights_weight :: "flight jmap \<Rightarrow> nat" where
  "flights_weight m = sum_list (map (\<lambda>p. flight_weight (snd p)) m)"

definition sched_weight :: "exec_graph \<Rightarrow> sched \<Rightarrow> nat" where
  "sched_weight g s = 4 * (length (g_nodeIds g) - length (sd_started s)) + flights_weight (sd_inFlight s)
     + (if sd_reporting s then 1 else 0) + (if sd_failed s then 0 else 1)"

lemma weight_jset:
  "jget m k = Some f \<Longrightarrow> flights_weight (jset m k f') + flight_weight f = flights_weight m + flight_weight f'"
  by (induction m) (auto simp: flights_weight_def)

lemma weight_jset_new:
  "jget m k = None \<Longrightarrow> flights_weight (jset m k f') = flights_weight m + flight_weight f'"
  by (induction m) (auto simp: flights_weight_def)

lemma jdel_absent: "k \<notin> set (jkeys m) \<Longrightarrow> jdel m k = m"
  by (induction m) (auto simp: jdel_def)

lemma weight_jdel:
  "jget m k = Some f \<Longrightarrow> distinct (jkeys m) \<Longrightarrow> flights_weight (jdel m k) + flight_weight f = flights_weight m"
proof (induction m)
  case (Cons p m)
  then show ?case
    by (cases p; cases "fst p = k") (auto simp: flights_weight_def jdel_def jdel_absent [unfolded jdel_def])
qed simp

lemma weight_fold_running:
  "distinct ns \<Longrightarrow> set ns \<inter> set (jkeys m) = {} \<Longrightarrow>
   flights_weight (fold (\<lambda>n m. jset m n Running) ns m) = flights_weight m + 4 * length ns"
  by (induction ns arbitrary: m) (auto simp: weight_jset_new jget_None_iff)

lemma weight_schedule:
  assumes "graph_ok g" and "pre_sched g s"
  shows "sched_weight g (scheduleReady g s) = sched_weight g s"
proof -
  let ?new = "newly g s"
  have new: "distinct ?new" "set ?new \<inter> set (sd_started s) = {}" "set ?new \<subseteq> set (g_nodeIds g)"
    using eg.ids_distinct [OF assms(1)] newly_set [of g s] by (auto simp: newly_def)
  have "distinct (sd_started s @ ?new)" "set (sd_started s @ ?new) \<subseteq> set (g_nodeIds g)"
    using new assms(2) by (auto simp: pre_sched_def)
  then have "length (sd_started s @ ?new) \<le> length (g_nodeIds g)"
    by (metis card_mono distinct_card List.finite_set card_length order_trans)
  moreover have "flights_weight (fold (\<lambda>n m. jset m n Running) ?new (sd_inFlight s))
      = flights_weight (sd_inFlight s) + 4 * length ?new"
    using new assms(2) by (intro weight_fold_running) (auto simp: pre_sched_def)
  ultimately show ?thesis by (simp add: scheduleReady_eq [OF assms(1)] sched_weight_def)
qed

lemma weight_start: "graph_ok g \<Longrightarrow> sched_weight g (sched_start g st) = 4 * length (g_nodeIds g) + 1"
  unfolding sched_start_def
  by (subst weight_schedule) (simp_all add: pre_sched_def sched_weight_def flights_weight_def)

lemma weight_settle:
  assumes "graph_ok g" and inv: "sched_inv g s" and "jget (sd_inFlight s) n = Some (Ready r)"
    and "\<not> sd_reporting s"
  shows "sched_weight g (settle g n r s) < sched_weight g s"
proof -
  let ?s = "s\<lparr>sd_inFlight := jdel (sd_inFlight s) n,
        sd_state := fst (applyNodeResult (sd_state s) r),
        sd_settled := set_add n (sd_settled s)\<rparr>"
  have "n \<in> set (jkeys (sd_inFlight s))" using assms(3) by (rule jget_Some_key)
  then have pre: "pre_sched g ?s" using inv by (auto simp: pre_sched_def sched_inv_def)
  have "flights_weight (jdel (sd_inFlight s) n) + 2 = flights_weight (sd_inFlight s)"
    using weight_jdel [OF assms(3)] inv by (simp add: sched_inv_def)
  moreover have "\<not> sd_reporting (scheduleReady g ?s)"
    using assms(4) by (simp add: scheduleReady_eq [OF assms(1)])
  then have "sched_weight g (settle g n r s) = Suc (sched_weight g (scheduleReady g ?s))"
    by (simp add: settle_def sched_weight_def)
  ultimately show ?thesis using weight_schedule [OF assms(1) pre] assms(4)
    by (simp add: sched_weight_def)
qed

lemma run_done_flight:
  "\<exists>f. f \<noteq> Running \<and> sd_inFlight (run_done n r s) = jset (sd_inFlight s) n f"
  by (auto simp: run_done_def Let_def split: node_result.split prod.split)

lemma weight_replace:
  assumes "jget (sd_inFlight s) n = Some f" and "flight_weight f' < flight_weight f"
    and "sd_inFlight s' = jset (sd_inFlight s) n f'" and "sd_started s' = sd_started s"
    and "sd_reporting s' = sd_reporting s" and "sd_failed s' = sd_failed s"
  shows "sched_weight g s' < sched_weight g s"
  using weight_jset [OF assms(1), of f'] assms(2-6) by (simp add: sched_weight_def)

lemma step_weight:
  assumes ok: "graph_ok g" and inv: "sched_inv g s" and "sched_step g ev s = Some s'"
  shows "sched_weight g s' < sched_weight g s"
  using assms(3)
proof (cases rule: step_cases)
  case (run n r)
  obtain f where f: "f \<noteq> Running" "sd_inFlight s' = jset (sd_inFlight s) n f"
    using run_done_flight run(3) by blast
  then have "flight_weight f < flight_weight Running" by (cases f) simp_all
  from weight_replace [OF run(2) this f(2)] show ?thesis using run(3) by simp
next
  case (resolve n r p)
  then show ?thesis by (intro weight_replace [OF resolve(2)]) (simp_all add: resolve_done_def)
next
  case (fail n f)
  then show ?thesis by (intro weight_replace [OF fail(2)]) auto
next
  case (settle n r)
  then show ?thesis using weight_settle [OF ok inv] by simp
qed (auto simp: sched_weight_def)

lemma reach_length:
  assumes "graph_ok g"
  shows "sched_reach run res g st k s \<Longrightarrow> k + sched_weight g s \<le> 4 * length (g_nodeIds g) + 1"
proof (induction rule: sched_reach.induct)
  case start
  then show ?case by (simp add: weight_start [OF assms])
next
  case (step k s ev s')
  then show ?case using step_weight [OF assms reach_inv [OF step.hyps(1) assms] step.hyps(3)] by simp
qed

text \<open>As long as it has neither returned nor thrown, something can happen.\<close>

lemma sched_progress:
  assumes "\<not> sched_finished s" and "\<not> sd_failed s"
    and "\<And>n. jget (sd_inFlight s) n = Some Running \<Longrightarrow> \<exists>r. run g (sd_state s) n r"
    and "\<And>n p. jget (sd_inFlight s) n = Some (Parked p) \<Longrightarrow> \<exists>r. res p r"
  shows "\<exists>ev s'. answer_ok run res g ev s \<and> sched_step g ev s = Some s'"
proof (cases "sd_reporting s")
  case True
  then have "sched_step g ProgressDone s \<noteq> None" by simp
  then show ?thesis by (metis answer_ok.simps(5) not_None_eq)
next
  case False
  then have "sd_inFlight s \<noteq> []" using assms(1,2) by (simp add: sched_finished_def)
  then have "jget (sd_inFlight s) (fst (hd (sd_inFlight s))) \<noteq> None"
    by (cases "sd_inFlight s") (auto simp: jget_None_iff)
  then obtain n f where f: "jget (sd_inFlight s) n = Some f" by blast
  show ?thesis
  proof (cases f)
    case Running
    then obtain r where "answer_ok run res g (RunDone n r) s" using assms(3) f by auto
    moreover have "sched_step g (RunDone n r) s = Some (run_done n r s)" using f Running by simp
    ultimately show ?thesis by blast
  next
    case (Parked p)
    then obtain r where "answer_ok run res g (ResolveDone n r) s" using assms(4) f by auto
    moreover have "sched_step g (ResolveDone n r) s = Some (resolve_done n r s)" using f Parked by simp
    ultimately show ?thesis by blast
  next
    case (Ready r)
    then have "sched_step g (Settle n) s = Some (settle g n r s)" using f False assms(2) by simp
    then show ?thesis by (metis answer_ok.simps(4))
  next
    case Rejected
    then have "sched_step g (Settle n) s = Some (s\<lparr>sd_failed := True\<rparr>)" using f False assms(2) by simp
    then show ?thesis by (metis answer_ok.simps(4))
  qed
qed

section \<open>Analyses of settled ancestors are stable\<close>

definition stable_on :: "string set \<Rightarrow> execution_state \<Rightarrow> execution_state \<Rightarrow> bool" where
  "stable_on S st st' \<longleftrightarrow> (\<forall>n \<in> S.
     js_in n (nodeErrors st') = js_in n (nodeErrors st) \<and>
     (n \<in> set (skippedNodes st')) = (n \<in> set (skippedNodes st)) \<and>
     (n \<in> set (executedNodes st')) = (n \<in> set (executedNodes st)) \<and>
     jget (nodeOutputs st') n = jget (nodeOutputs st) n)"

lemma stable_apply: "res_node r \<notin> S \<Longrightarrow> stable_on S st (fst (applyNodeResult st r))"
proof -
  assume "res_node r \<notin> S"
  moreover have "res_node (bound_result st r) = res_node r" by simp
  ultimately show ?thesis
    by (cases "bound_result st r")
      (auto simp: stable_on_def apply_executed apply_skipped apply_errors apply_outputs with_outputs_def
        jget_jset)
qed

lemma analyze_stable:
  assumes ok: "graph_ok g" and S: "\<forall>s \<in> S. set (dependencies g s) \<subseteq> S" and st: "stable_on S st st'"
    and n: "n \<in> set (g_nodeIds g)" and "set (dependencies g n) \<subseteq> S"
  shows "analyzeUpstream g st' n = analyzeUpstream g st n"
  using ok n assms(5)
proof (induction rule: eg.dep_induct [consumes 2, case_names node])
  case (node n)
  obtain failed cond where r:
    "scan_edges (upstream_reason g st) st (inboundEdges g n) [] [] = Some (failed, cond)"
    "analyzeUpstream g st n = Some (conclude (inboundEdges g n) failed cond)"
    using analyzeUpstream_returns [OF ok node(1)] .
  obtain failed' cond' where r':
    "scan_edges (upstream_reason g st') st' (inboundEdges g n) [] [] = Some (failed', cond')"
    "analyzeUpstream g st' n = Some (conclude (inboundEdges g n) failed' cond')"
    using analyzeUpstream_returns [OF ok node(1)] .
  have "edge_block (upstream_reason g st) st e = edge_block (upstream_reason g st') st' e"
    if "e \<in> set (inboundEdges g n)" for e
  proof -
    have d: "e_source e \<in> set (dependencies g n)" using that inbound_sources [OF ok node(1)] by blast
    then have "e_source e \<in> S" using node(3) by blast
    moreover from this have "upstream_reason g st (e_source e) = upstream_reason g st' (e_source e)"
      using node(2) [OF d] S by (simp add: upstream_reason_def)
    ultimately show ?thesis using st by (simp add: edge_block_def stable_on_def)
  qed
  then have "scan_edges (upstream_reason g st) st (inboundEdges g n) [] []
      = scan_edges (upstream_reason g st') st' (inboundEdges g n) [] []"
    by (intro scan_edges_cong) blast
  then show ?case using r r' by simp
qed

section \<open>The record of a run\<close>

definition recorded :: "execution_state \<Rightarrow> string list" where
  "recorded st = executedNodes st @ skippedNodes st @ jkeys (nodeErrors st)"

fun is_errored :: "node_result \<Rightarrow> bool" where
  "is_errored (Errored _ _ _ _) = True"
| "is_errored _ = False"

fun is_pending :: "node_result \<Rightarrow> bool" where
  "is_pending (Pending _ _ _ _) = True"
| "is_pending _ = False"

fun is_skipped :: "node_result \<Rightarrow> bool" where
  "is_skipped (Skipped _ _ _) = True"
| "is_skipped _ = False"

lemma bound_errored [simp]: "is_errored r \<Longrightarrow> is_errored (bound_result st r)"
  by (cases r) (auto simp: bound_result_def)

lemma bound_not_pending' [simp]: "\<not> is_pending r \<Longrightarrow> \<not> is_pending (bound_result st r)"
  by (cases r) (auto simp: bound_result_def)

lemma recorded_apply:
  "set (recorded (fst (applyNodeResult st r))) =
   (if is_pending (bound_result st r) then set (recorded st) else insert (res_node r) (set (recorded st)))"
proof -
  have "res_node (bound_result st r) = res_node r" by simp
  then show ?thesis
    by (cases "bound_result st r") (auto simp: recorded_def apply_executed apply_skipped apply_errors)
qed

lemma distinct_recorded_apply:
  assumes "distinct (recorded st)"
    and "res_node r \<notin> set (recorded st) \<or>
      (res_node r \<in> set (jkeys (nodeErrors st)) \<and> is_errored (bound_result st r))"
  shows "distinct (recorded (fst (applyNodeResult st r)))"
proof -
  have "res_node (bound_result st r) = res_node r" by simp
  then show ?thesis using assms
    by (cases "bound_result st r")
      (auto simp: recorded_def apply_executed apply_skipped apply_errors jkeys_jset_mem jkeys_jset_new)
qed

text \<open>
  \<open>rec_inv\<close>: each node is recorded at most once and in one way; the recorded nodes are the
  settled ones, and possibly a parked one whose inputs broke the size limit (it is recorded as
  an error when it parks, and again when it settles); every skip is justified by the state.
\<close>

definition skip_ok :: "exec_graph \<Rightarrow> execution_state \<Rightarrow> string \<Rightarrow> bool" where
  "skip_ok g st n \<longleftrightarrow> (\<exists>a. analyzeUpstream g st n = Some a \<and> ua_shouldSkip a)"

definition flight_ok :: "exec_graph \<Rightarrow> execution_state \<Rightarrow> string \<Rightarrow> flight \<Rightarrow> bool" where
  "flight_ok g st n f \<longleftrightarrow> (case f of
     Ready r \<Rightarrow> res_node r = n \<and> \<not> is_pending r \<and> (is_skipped r \<longrightarrow> skip_ok g st n) \<and>
       (n \<in> set (recorded st) \<longrightarrow> n \<in> set (jkeys (nodeErrors st)) \<and> is_errored r)
   | Parked p \<Rightarrow> res_node p = n \<and> is_pending p \<and> n \<notin> set (recorded st)
   | _ \<Rightarrow> n \<notin> set (recorded st))"

lemma flight_ok_simps:
  "flight_ok g st n (Ready r) \<longleftrightarrow> res_node r = n \<and> \<not> is_pending r \<and> (is_skipped r \<longrightarrow> skip_ok g st n) \<and>
     (n \<in> set (recorded st) \<longrightarrow> n \<in> set (jkeys (nodeErrors st)) \<and> is_errored r)"
  "flight_ok g st n (Parked p) \<longleftrightarrow> res_node p = n \<and> is_pending p \<and> n \<notin> set (recorded st)"
  "flight_ok g st n Running \<longleftrightarrow> n \<notin> set (recorded st)"
  "flight_ok g st n Rejected \<longleftrightarrow> n \<notin> set (recorded st)"
  by (simp_all add: flight_ok_def)

definition rec_inv :: "exec_graph \<Rightarrow> sched \<Rightarrow> bool" where
  "rec_inv g s \<longleftrightarrow>
     distinct (recorded (sd_state s)) \<and>
     set (sd_settled s) \<subseteq> set (recorded (sd_state s)) \<and>
     set (recorded (sd_state s)) \<subseteq> set (sd_started s) \<and>
     (\<forall>n f. jget (sd_inFlight s) n = Some f \<longrightarrow> flight_ok g (sd_state s) n f) \<and>
     (\<forall>n \<in> set (skippedNodes (sd_state s)). skip_ok g (sd_state s) n) \<and>
     state_ok (sd_state s)"

lemma started_closed:
  assumes "sched_inv g s" and "n \<in> set (sd_started s)"
  shows "n \<in> set (g_nodeIds g)" and "set (dependencies g n) \<subseteq> set (sd_settled s)"
  using assms by (auto simp: sched_inv_def)

lemma skip_ok_apply:
  assumes ok: "graph_ok g" and inv: "sched_inv g s" and n: "res_node r \<notin> set (sd_settled s)"
    and m: "m \<in> set (sd_started s)"
  shows "skip_ok g (fst (applyNodeResult (sd_state s) r)) m = skip_ok g (sd_state s) m"
proof -
  have "\<forall>k \<in> set (sd_settled s). set (dependencies g k) \<subseteq> set (sd_settled s)"
    using inv started_closed(2) [OF inv] by (auto simp: sched_inv_def)
  from analyze_stable [OF ok this stable_apply [OF n] started_closed [OF inv m]]
  show ?thesis by (simp add: skip_ok_def)
qed

lemma is_skipped_bound: "is_skipped (bound_result st r) = is_skipped r"
  by (cases r) (auto simp: bound_result_def)

lemma skipped_apply:
  "set (skippedNodes (fst (applyNodeResult st r))) =
     set (skippedNodes st) \<union> (if is_skipped r then {res_node r} else {})"
proof -
  have "res_node (bound_result st r) = res_node r" by simp
  then show ?thesis using is_skipped_bound [of st r]
    by (cases "bound_result st r") (auto simp: apply_skipped)
qed

text \<open>The other flights do not see the result of node \<open>n\<close>.\<close>

lemma flight_ok_apply:
  assumes ok: "graph_ok g" and inv: "sched_inv g s" and n: "res_node r \<notin> set (sd_settled s)"
    and m: "m \<in> set (sd_started s)" "m \<noteq> res_node r" and f: "flight_ok g (sd_state s) m f"
  shows "flight_ok g (fst (applyNodeResult (sd_state s) r)) m f"
proof -
  have "m \<in> set (recorded (fst (applyNodeResult (sd_state s) r))) \<longleftrightarrow> m \<in> set (recorded (sd_state s))"
    using m(2) by (simp add: recorded_apply)
  moreover have "m \<in> set (jkeys (nodeErrors (fst (applyNodeResult (sd_state s) r))))
      \<longleftrightarrow> m \<in> set (jkeys (nodeErrors (sd_state s)))"
  proof -
    have "res_node (bound_result (sd_state s) r) = res_node r" by simp
    then show ?thesis using m(2)
      by (cases "bound_result (sd_state s) r") (auto simp: apply_errors)
  qed
  ultimately show ?thesis using f skip_ok_apply [OF ok inv n m(1)]
    by (cases f) (simp_all add: flight_ok_simps)
qed

lemma rec_flight: "rec_inv g s \<Longrightarrow> jget (sd_inFlight s) n = Some f \<Longrightarrow> flight_ok g (sd_state s) n f"
  by (simp add: rec_inv_def)

lemma flight_started:
  "sched_inv g s \<Longrightarrow> jget (sd_inFlight s) n = Some f \<Longrightarrow> n \<in> set (sd_started s) \<and> n \<notin> set (sd_settled s)"
  by (drule jget_Some_key) (auto simp: sched_inv_def)

lemma rec_inv_flight:
  assumes "rec_inv g s" and "flight_ok g (sd_state s) n f"
    and "sd_inFlight s' = jset (sd_inFlight s) n f" and "sd_state s' = sd_state s"
    and "sd_started s' = sd_started s" and "sd_settled s' = sd_settled s"
  shows "rec_inv g s'"
  using assms by (auto simp: rec_inv_def jget_jset)

lemma rec_inv_apply:
  fixes g s r
  defines "st' \<equiv> fst (applyNodeResult (sd_state s) r)"
  assumes ok: "graph_ok g" and inv: "sched_inv g s" and rec: "rec_inv g s"
    and flight: "jget (sd_inFlight s) (res_node r) = Some f"
    and fresh: "res_node r \<notin> set (recorded (sd_state s)) \<or>
      (res_node r \<in> set (jkeys (nodeErrors (sd_state s))) \<and> is_errored (bound_result (sd_state s) r))"
    and skip: "is_skipped r \<Longrightarrow> skip_ok g (sd_state s) (res_node r)"
  shows "distinct (recorded st')" and "set (recorded st') \<subseteq> set (sd_started s)"
    and "\<forall>m \<in> set (skippedNodes st'). skip_ok g st' m" and "state_ok st'"
    and "\<And>m f. m \<noteq> res_node r \<Longrightarrow> jget (sd_inFlight s) m = Some f \<Longrightarrow> flight_ok g st' m f"
proof -
  note n = flight_started [OF inv flight]
  show "distinct (recorded st')"
    unfolding st'_def using rec fresh by (intro distinct_recorded_apply) (simp_all add: rec_inv_def)
  show "set (recorded st') \<subseteq> set (sd_started s)"
    using rec n by (auto simp: st'_def recorded_apply rec_inv_def)
  show "state_ok st'" unfolding st'_def using rec by (intro apply_state_ok) (simp add: rec_inv_def)
  show "\<forall>m \<in> set (skippedNodes st'). skip_ok g st' m"
  proof
    fix m
    assume "m \<in> set (skippedNodes st')"
    then have "m \<in> set (skippedNodes (sd_state s)) \<or> (m = res_node r \<and> is_skipped r)"
      by (auto simp: st'_def skipped_apply split: if_splits)
    then have "skip_ok g (sd_state s) m" "m \<in> set (sd_started s)"
      using rec skip n by (auto simp: rec_inv_def recorded_def)
    then show "skip_ok g st' m" unfolding st'_def using skip_ok_apply [OF ok inv] n by blast
  qed
  fix m f
  assume m: "m \<noteq> res_node r" "jget (sd_inFlight s) m = Some f"
  then have "flight_ok g (sd_state s) m f" using rec by (simp add: rec_inv_def)
  then show "flight_ok g st' m f"
    unfolding st'_def using flight_ok_apply [OF ok inv] n m flight_started [OF inv m(2)] by blast
qed

lemma rec_inv_settle:
  assumes ok: "graph_ok g" and inv: "sched_inv g s" and rec: "rec_inv g s"
    and flight: "jget (sd_inFlight s) n = Some (Ready r)"
  shows "rec_inv g (settle g n r s)"
proof -
  let ?st = "fst (applyNodeResult (sd_state s) r)"
  let ?s = "s\<lparr>sd_inFlight := jdel (sd_inFlight s) n, sd_state := ?st,
        sd_settled := set_add n (sd_settled s)\<rparr>"
  have f: "res_node r = n" "\<not> is_pending r" "is_skipped r \<Longrightarrow> skip_ok g (sd_state s) n"
    "n \<in> set (recorded (sd_state s)) \<Longrightarrow> n \<in> set (jkeys (nodeErrors (sd_state s))) \<and> is_errored r"
    using rec_flight [OF rec flight] by (auto simp: flight_ok_simps)
  have fresh: "res_node r \<notin> set (recorded (sd_state s)) \<or>
      (res_node r \<in> set (jkeys (nodeErrors (sd_state s))) \<and> is_errored (bound_result (sd_state s) r))"
    using f(1,4) by auto
  note core = rec_inv_apply [OF ok inv rec flight [folded f(1)] fresh f(3) [folded f(1)]]
  have settled: "set (set_add n (sd_settled s)) \<subseteq> set (recorded ?st)"
    using rec f(1,2) by (auto simp: recorded_apply rec_inv_def)
  have new: "m \<notin> set (recorded ?st)" if "m \<in> set (newly g ?s)" for m
    using that core(2) by (auto simp: newly_set)
  have "flight_ok g ?st m h"
    if "jget (sd_inFlight (settle g n r s)) m = Some h" for m h
  proof (cases "m \<in> set (newly g ?s)")
    case True
    then have "h = Running" using that
      by (simp add: settle_def scheduleReady_eq [OF ok] jget_fold_const)
    then show ?thesis using new [OF True] by (simp add: flight_ok_simps)
  next
    case False
    then have "m \<noteq> n" "jget (sd_inFlight s) m = Some h" using that
      by (auto simp: settle_def scheduleReady_eq [OF ok] jget_fold_const jget_jdel split: if_splits)
    then show ?thesis using core(5) f(1) by simp
  qed
  then show ?thesis using core(1-4) settled
    by (auto simp: rec_inv_def settle_def scheduleReady_eq [OF ok])
qed

lemma rec_inv_start:
  assumes "graph_ok g"
  shows "rec_inv g (sched_start g initial_state)"
  using initial_state_ok
  by (auto simp: rec_inv_def sched_start_def scheduleReady_eq [OF assms] jget_fold_const recorded_def
      flight_ok_simps split: if_splits)

section \<open>The interface of the hooks\<close>

text \<open>
  What the scheduler relies on: the results of a node are about that node; a node that has not been
  recorded is skipped only when all its inbound edges are blocked; a parked node resolves to a completed or failed one.
\<close>

locale node_hooks =
  fixes run :: "exec_graph \<Rightarrow> execution_state \<Rightarrow> string \<Rightarrow> node_result \<Rightarrow> bool"
    and res :: "node_result \<Rightarrow> node_result \<Rightarrow> bool"
  assumes run_node: "graph_ok g \<Longrightarrow> n \<in> set (g_nodeIds g) \<Longrightarrow> run g st n r \<Longrightarrow> res_node r = n"
    and run_skip: "graph_ok g \<Longrightarrow> plain_ids g \<Longrightarrow> n \<in> set (g_nodeIds g) \<Longrightarrow>
      n \<notin> set (recorded st) \<Longrightarrow> run g st n r \<Longrightarrow> is_skipped r \<Longrightarrow> skip_ok g st n"
    and res_node: "res p r \<Longrightarrow> res_node r = res_node p"
    and res_final: "res p r \<Longrightarrow> \<not> is_pending r \<and> \<not> is_skipped r"
begin

lemma run_done_rec:
  assumes ok: "graph_ok g" and plain: "plain_ids g" and inv: "sched_inv g s" and rec: "rec_inv g s"
    and flight: "jget (sd_inFlight s) n = Some Running" and r: "run g (sd_state s) n r"
  shows "rec_inv g (run_done n r s)"
proof -
  have id: "n \<in> set (g_nodeIds g)" using flight_started [OF inv flight] started_closed(1) [OF inv] by blast
  have n: "res_node r = n" "n \<notin> set (recorded (sd_state s))"
    using run_node [OF ok id r] rec_flight [OF rec flight] by (auto simp: flight_ok_simps)
  show ?thesis
  proof (cases "is_pending r")
    case False
    then have "sd_inFlight (run_done n r s) = jset (sd_inFlight s) n (Ready r)"
        "sd_state (run_done n r s) = sd_state s"
      by (cases r; simp add: run_done_def)+
    then show ?thesis using run_skip [OF ok plain id n(2) r] n False
      by (intro rec_inv_flight [OF rec, of n "Ready r"]) (auto simp: flight_ok_simps)
  next
    case True
    let ?st = "fst (applyNodeResult (sd_state s) r)"
    let ?f = "if is_pending (bound_result (sd_state s) r) then Parked r
      else Ready (bound_result (sd_state s) r)"
    have eq: "sd_state (run_done n r s) = ?st" "sd_inFlight (run_done n r s) = jset (sd_inFlight s) n ?f"
      using True apply_result [of "sd_state s" r]
      by (cases r; cases "bound_result (sd_state s) r"; auto simp: run_done_def Let_def split: prod.split)+
    have notskip: "\<not> is_skipped r" using True by (cases r) auto
    note core = rec_inv_apply [OF ok inv rec flight [folded n(1)] disjI1 [OF n(2) [folded n(1)]]]
    have "flight_ok g ?st n ?f"
    proof (cases "is_pending (bound_result (sd_state s) r)")
      case True
      then show ?thesis using n \<open>is_pending r\<close> by (simp add: flight_ok_simps recorded_apply)
    next
      case False
      then obtain e u where b: "bound_result (sd_state s) r = Errored n None e u"
        using True n(1) by (cases r) (auto simp: bound_result_def split: if_splits)
      then show ?thesis by (simp add: flight_ok_simps apply_errors)
    qed
    moreover have "set (sd_settled s) \<subseteq> set (recorded ?st)"
      using rec by (auto simp: recorded_apply rec_inv_def)
    ultimately show ?thesis using core n(1) notskip
      by (auto simp: rec_inv_def eq jget_jset)
  qed
qed

lemma step_rec:
  assumes ok: "graph_ok g" and plain: "plain_ids g" and inv: "sched_inv g s" and rec: "rec_inv g s"
    and ans: "answer_ok run res g ev s" and "sched_step g ev s = Some s'"
  shows "rec_inv g s'"
  using assms(6)
proof (cases rule: step_cases)
  case (run n r)
  then show ?thesis using run_done_rec [OF ok plain inv rec] ans by simp
next
  case (resolve n r p)
  then have r: "res p r" using ans by simp
  have p: "res_node p = n" "n \<notin> set (recorded (sd_state s))"
    using rec_flight [OF rec resolve(2)] by (auto simp: flight_ok_simps)
  show ?thesis unfolding resolve(3)
    by (rule rec_inv_flight [OF rec, of n "Ready r"])
      (use res_node [OF r] res_final [OF r] p in \<open>auto simp: flight_ok_simps resolve_done_def\<close>)
next
  case (fail n f)
  then have "n \<notin> set (recorded (sd_state s))"
    using rec_flight [OF rec fail(2)] by (auto simp: flight_ok_simps)
  then show ?thesis unfolding fail(4)
    by (intro rec_inv_flight [OF rec, of n Rejected]) (simp_all add: flight_ok_simps)
next
  case (settle n r)
  then show ?thesis using rec_inv_settle [OF ok inv rec] by simp
qed (use rec in \<open>auto simp: rec_inv_def\<close>)

lemma reach_rec:
  assumes ok: "graph_ok g" and plain: "plain_ids g"
  shows "sched_reach run res g initial_state k s \<Longrightarrow> rec_inv g s"
proof (induction rule: sched_reach.induct)
  case start
  then show ?case by (rule rec_inv_start [OF ok])
next
  case (step k s ev s')
  then show ?case using step_rec [OF ok plain reach_inv [OF step.hyps(1) ok]] by blast
qed

text \<open>What holds when the loop has returned.\<close>

lemma finished_record:
  assumes ok: "graph_ok g" and plain: "plain_ids g"
    and "sched_reach run res g initial_state k s" and "sched_finished s"
  shows "distinct (recorded (sd_state s))" and "set (recorded (sd_state s)) = set (g_nodeIds g)"
    and "skips_justified g (sd_state s)" and "state_ok (sd_state s)"
proof -
  note inv = reach_inv [OF assms(3) ok] and rec = reach_rec [OF ok plain assms(3)]
  have settled: "set (sd_settled s) = set (g_nodeIds g)"
    using finished_all_settled [OF ok inv] assms(4) by (simp add: sched_finished_def)
  show "distinct (recorded (sd_state s))" "state_ok (sd_state s)" using rec by (simp_all add: rec_inv_def)
  show eq: "set (recorded (sd_state s)) = set (g_nodeIds g)"
    using rec settled inv by (auto simp: rec_inv_def sched_inv_def)
  show "skips_justified g (sd_state s)"
    using rec eq by (auto simp: skips_justified_def rec_inv_def skip_ok_def recorded_def)
qed

lemma finished_status:
  assumes "graph_ok g" and "plain_ids g" and "sched_reach run res g initial_state k s"
    and "sched_finished s"
  shows "getExecutionStatus g (sd_state s) =
    Some (if nodeErrors (sd_state s) \<noteq> [] then WError else WCompleted)"
proof -
  have "visited (sd_state s) n" if "n \<in> set (g_nodeIds g)" for n
    using that finished_record(2) [OF assms]
    by (auto simp: visited_def recorded_def js_in_def)
  then show ?thesis
    using status_iff [OF assms(1,2) finished_record(3) [OF assms]] by auto
qed

end

end
