(* ===== verification/Flow_Executor.thy ===== *)
theory Flow_Executor
  imports Flow_Registry Flow_Scheduler
begin

text \<open>
  \<open>apps/flows/packages/runtime/src/node-executor.ts\<close> with \<open>execution-errors.ts\<close>: from "the
  scheduler picked this node" to "here is what happened". The result is an option because the
  skip analysis carries a fuel; \<open>execute_returns\<close> shows that it is always there.
\<close>

section \<open>The run\<close>

record run_context =
  rc_workflowId :: string
  rc_organizationId :: string
  rc_userId :: string
  rc_executionId :: string
  rc_trigger :: "jv jmap"
  rc_inputOverrides :: "jv jmap jmap option"

record executor =
  ex_registry :: registry
  ex_host :: host
  ex_asyncSupported :: bool

section \<open>Error messages\<close>

definition nodeNotFoundMessage :: "string \<Rightarrow> string" where
  "nodeNotFoundMessage n = ''Node not found: '' @ n"

definition nodeTypeNotImplementedMessage :: "string \<Rightarrow> string \<Rightarrow> string" where
  "nodeTypeNotImplementedMessage n type =
     ''Node type not implemented: '' @ type @ '' (node '' @ n @ '')''"

section \<open>Whether the node runs at all\<close>

definition checkSkipCondition ::
  "exec_graph \<Rightarrow> execution_state \<Rightarrow> string \<Rightarrow> node_result option option" where
  "checkSkipCondition g st n =
     (let alreadySettled = (n \<in> set (skippedNodes st) \<or> js_in n (nodeErrors st)) in
      case analyzeUpstream g st n of
        None \<Rightarrow> None
      | Some a \<Rightarrow> Some (if alreadySettled \<or> ua_shouldSkip a
                       then Some (Skipped n (ua_reason a) (ua_blockedBy a)) else None))"

definition resolveExecutable :: "registry \<Rightarrow> node \<Rightarrow> node_result + executable \<times> node_type" where
  "resolveExecutable r n =
     (case r_getNodeType r (n_type n) of
        Inl _ \<Rightarrow> Inl (Errored (n_id n) None (nodeTypeNotImplementedMessage (n_id n) (n_type n)) None)
      | Inr nodeType \<Rightarrow>
          (case r_create r n of
             None \<Rightarrow> Inl (Errored (n_id n) None (nodeTypeNotImplementedMessage (n_id n) (n_type n)) None)
           | Some x \<Rightarrow> Inr (x, nodeType)))"

section \<open>Collecting the inputs\<close>

definition groupByTargetInput :: "edge list \<Rightarrow> edge list jmap" where
  "groupByTargetInput es = foldl (\<lambda>m e. pushInto m (e_targetInput e) e) [] es"

definition default_inputs :: "parameter list \<Rightarrow> node_values" where
  "default_inputs ps = foldl (\<lambda>m p. if p_value p \<noteq> JUndef \<and> isRuntimeValue (p_value p)
     then jset m (p_name p) (p_value p) else m) [] ps"

definition apply_overrides :: "parameter list \<Rightarrow> jv jmap option \<Rightarrow> node_values \<Rightarrow> node_values" where
  "apply_overrides ps overrides inputs = (case overrides of
     None \<Rightarrow> inputs
   | Some o' \<Rightarrow> foldl (\<lambda>m p. let v = read_prop o' (p_name p) in
       if v \<noteq> JUndef \<and> isRuntimeValue v then jset m (p_name p) v else m) inputs ps)"

definition accepts_multiple :: "executable \<Rightarrow> string \<Rightarrow> bool" where
  "accepts_multiple x inputName = (case x_nodeType x of
     None \<Rightarrow> False
   | Some t \<Rightarrow> declared_repeated (find_param (nt_inputs t) inputName))"

definition edge_value :: "execution_state \<Rightarrow> edge \<Rightarrow> jv" where
  "edge_value st e = (case jget (nodeOutputs st) (e_source e) of
     None \<Rightarrow> JUndef | Some outs \<Rightarrow> read_prop outs (e_sourceOutput e))"

definition values_from :: "bool \<Rightarrow> jv \<Rightarrow> jv list" where
  "values_from acceptsMultiple v =
     (if v = JUndef then []
      else if acceptsMultiple \<and> is_array v
      then filter isRuntimeValue (case v of JArr xs \<Rightarrow> xs | _ \<Rightarrow> [])
      else if isRuntimeValue v then [v] else [])"

definition gather :: "executable \<Rightarrow> execution_state \<Rightarrow> node_values \<Rightarrow> string \<times> edge list \<Rightarrow> node_values" where
  "gather x st inputs = (\<lambda>(inputName, es).
     (let acceptsMultiple = accepts_multiple x inputName;
          vs = concat (map (\<lambda>e. values_from acceptsMultiple (edge_value st e)) es) in
      if 0 < length vs then jset inputs inputName (if acceptsMultiple then JArr vs else last vs)
      else inputs))"

definition collected :: "node \<Rightarrow> execution_state \<Rightarrow> executable \<Rightarrow> edge list \<Rightarrow> jv jmap option \<Rightarrow> node_values" where
  "collected n st x inbound overrides =
     foldl (gather x st) (apply_overrides (n_inputs n) overrides (default_inputs (n_inputs n)))
       (groupByTargetInput inbound)"

definition within_limit :: "jv \<Rightarrow> nat \<Rightarrow> string \<Rightarrow> js_error + unit" where
  "within_limit v maxBytes label = (case assertRuntimeValueWithinLimit v maxBytes label of
     Inl msg \<Rightarrow> Inl (NonRetryableError msg) | Inr u \<Rightarrow> Inr u)"

definition collectInputs :: "executor \<Rightarrow> node \<Rightarrow> execution_state \<Rightarrow> executable \<Rightarrow> edge list
    \<Rightarrow> string \<Rightarrow> jv jmap option \<Rightarrow> (node_values \<times> jv jmap) io" where
  "collectInputs ex n st x inbound organizationId overrides =
     (let inputs = collected n st x inbound overrides in
      io_bind (io_lift (within_limit (JObj inputs) MAX_RUNTIME_INPUT_BYTES (''Inputs for node '' @ n_id n)))
        (\<lambda>_. io_bind (apiInputsToNode (ex_host ex) n inputs organizationId) (\<lambda>resolvedInputs.
          io_return (inputs, resolvedInputs))))"

section \<open>Calling the node\<close>

definition buildNodeContext :: "executor \<Rightarrow> executable \<Rightarrow> node \<Rightarrow> run_context \<Rightarrow> jv jmap \<Rightarrow> node_context" where
  "buildNodeContext ex x n ctx resolvedInputs = \<lparr>nc_nodeId = n_id n,
     nc_workflowId = rc_workflowId ctx, nc_organizationId = rc_organizationId ctx,
     nc_userId = rc_userId ctx, nc_executionId = rc_executionId ctx,
     nc_asyncSupported = ex_asyncSupported ex, nc_inputs = resolvedInputs,
     nc_trigger = rc_trigger ctx, nc_multiStep = x_multiStep x\<rparr>"

definition completed_result :: "executor \<Rightarrow> node_type \<Rightarrow> node \<Rightarrow> run_context \<Rightarrow> exec_result \<Rightarrow> node_result io" where
  "completed_result ex nodeType n ctx r =
     io_bind (nodeOutputsToApi (ex_host ex) n (case xr_outputs r of Some m \<Rightarrow> m | None \<Rightarrow> [])
                (rc_organizationId ctx) (Some (rc_executionId ctx)))
       (\<lambda>outputs. io_bind (io_lift (within_limit (JObj outputs) MAX_RUNTIME_OUTPUT_BYTES
                                    (''Outputs for node '' @ n_id n)))
         (\<lambda>_. io_return (Completed (n_id n) None outputs
            (case xr_usage r of Some u \<Rightarrow> u
             | None \<Rightarrow> (case nt_usage nodeType of Some u \<Rightarrow> u | None \<Rightarrow> Fin 1)))))"

definition normalize :: "executor \<Rightarrow> node_type \<Rightarrow> node \<Rightarrow> run_context \<Rightarrow> exec_result \<Rightarrow> node_result io" where
  "normalize ex nodeType n ctx r =
     (case (xr_status r = ''pending'', xr_pendingEvent r) of
        (True, Some (type, timeout)) \<Rightarrow>
          io_return (Pending (n_id n) None type (case timeout of Some t \<Rightarrow> t | None \<Rightarrow> ''30 minutes''))
      | _ \<Rightarrow>
          if xr_status r = ''completed'' then completed_result ex nodeType n ctx r
          else io_return (Errored (n_id n) None
                 (case xr_error r of Some e \<Rightarrow> e | None \<Rightarrow> ''Unknown error'') (xr_usage r)))"

text \<open>\<open>try ... catch\<close>: an error becomes a result; the calls made before it stay made.\<close>

definition io_catch :: "'a io \<Rightarrow> (js_error \<Rightarrow> 'a) \<Rightarrow> 'a io" where
  "io_catch m handler = (\<lambda>ops. case m ops of
     (Inl e, ops') \<Rightarrow> (Inr (handler e), ops') | (Inr x, ops') \<Rightarrow> (Inr x, ops'))"

definition invoke :: "executor \<Rightarrow> executable \<Rightarrow> node_type \<Rightarrow> node \<Rightarrow> run_context \<Rightarrow> jv jmap \<Rightarrow> node_result io" where
  "invoke ex x nodeType n ctx resolvedInputs =
     io_catch (io_bind (x_execute x (buildNodeContext ex x n ctx resolvedInputs))
                 (normalize ex nodeType n ctx))
       (\<lambda>e. Errored (n_id n) None (err_message e) None)"

fun with_result_inputs :: "node_values \<Rightarrow> node_result \<Rightarrow> node_result" where
  "with_result_inputs ins (Completed n _ outs u) = Completed n (Some ins) outs u"
| "with_result_inputs ins (Errored n _ e u) = Errored n (Some ins) e u"
| "with_result_inputs ins (Pending n _ e t) = Pending n (Some ins) e t"
| "with_result_inputs ins (Skipped n r b) = Skipped n r b"

definition execute :: "executor \<Rightarrow> run_context \<Rightarrow> exec_graph \<Rightarrow> execution_state \<Rightarrow> string
    \<Rightarrow> node_result io option" where
  "execute ex ctx g st nodeId =
     (case checkSkipCondition g st nodeId of
        None \<Rightarrow> None
      | Some (Some skipResult) \<Rightarrow> Some (io_return skipResult)
      | Some None \<Rightarrow> Some (
          case graph_node g nodeId of
            None \<Rightarrow> io_return (Errored nodeId None (nodeNotFoundMessage nodeId) None)
          | Some n \<Rightarrow>
            (case resolveExecutable (ex_registry ex) n of
               Inl result \<Rightarrow> io_return result
             | Inr (x, nodeType) \<Rightarrow>
                 io_bind (collectInputs ex n st x (inboundEdges g nodeId) (rc_organizationId ctx)
                            (case rc_inputOverrides ctx of None \<Rightarrow> None | Some o' \<Rightarrow> jget o' nodeId))
                   (\<lambda>(inputs, resolvedInputs).
                     io_bind (invoke ex x nodeType n ctx resolvedInputs) (\<lambda>result.
                       io_return (with_result_inputs inputs result))))))"

section \<open>Step names\<close>

definition sleep_step_name :: "string \<Rightarrow> nat \<Rightarrow> string" where
  "sleep_step_name n k = n @ ''-sleep-'' @ nat_digits k"

definition sub_step_name :: "string \<Rightarrow> nat \<Rightarrow> string" where
  "sub_step_name n k = n @ ''-step-'' @ nat_digits k"

definition tool_step_name :: "string \<Rightarrow> nat \<Rightarrow> string" where
  "tool_step_name executionId sequence = ''tool-'' @ executionId @ ''-'' @ nat_digits sequence"

text \<open>
  The names of the tool calls of one execution, given how many each node makes: the counter
  belongs to the context of a node and starts at zero in each.
\<close>

definition tool_steps :: "string \<Rightarrow> nat list \<Rightarrow> string list" where
  "tool_steps executionId calls = concat (map (\<lambda>k. map (tool_step_name executionId) [0..<k]) calls)"

section \<open>What comes out\<close>

lemma checkSkip_cases:
  assumes "graph_ok g" and "n \<in> set (g_nodeIds g)"
  obtains a where "analyzeUpstream g st n = Some a"
    and "checkSkipCondition g st n = Some (if n \<in> set (skippedNodes st) \<or> js_in n (nodeErrors st) \<or> ua_shouldSkip a
      then Some (Skipped n (ua_reason a) (ua_blockedBy a)) else None)"
proof -
  obtain a where a: "analyzeUpstream g st n = Some a"
    using analyzeUpstream_spec [OF assms] by metis
  show ?thesis by (rule that [OF a]) (auto simp: checkSkipCondition_def a)
qed

lemma execute_returns:
  "graph_ok g \<Longrightarrow> n \<in> set (g_nodeIds g) \<Longrightarrow> \<exists>m. execute ex ctx g st n = Some m"
  by (erule (1) checkSkip_cases [where st = st]) (simp add: execute_def split: option.split)

lemma io_bind_Inr:
  "io_bind m f ops = (Inr y, ops') \<longleftrightarrow> (\<exists>x ops1. m ops = (Inr x, ops1) \<and> f x ops1 = (Inr y, ops'))"
  by (auto simp: io_bind_def split: prod.splits sum.splits)

lemma io_return_Inr [simp]: "io_return x ops = (Inr y, ops') \<longleftrightarrow> y = x \<and> ops' = ops"
  by (auto simp: io_return_def)

lemma io_lift_Inr [simp]: "io_lift r ops = (Inr y, ops') \<longleftrightarrow> r = Inr y \<and> ops' = ops"
  by (auto simp: io_lift_def)

lemma normalize_node: "normalize ex t n ctx r ops = (Inr y, ops') \<Longrightarrow> res_node y = n_id n \<and> \<not> is_skipped y"
  by (auto simp: normalize_def completed_result_def io_bind_Inr split: option.splits if_splits bool.splits)

lemma invoke_node: "invoke ex x t n ctx i ops = (Inr y, ops') \<Longrightarrow> res_node y = n_id n \<and> \<not> is_skipped y"
  by (auto simp: invoke_def io_catch_def io_bind_Inr dest!: normalize_node split: prod.splits sum.splits)

lemma with_inputs_node [simp]:
  "res_node (with_result_inputs i r) = res_node r" "is_skipped (with_result_inputs i r) = is_skipped r"
  by (cases r; simp)+

lemma graph_node_id: "graph_ok g \<Longrightarrow> graph_node g i = Some n \<Longrightarrow> n_id n = i"
  by (auto simp: graph_node_iff dest: find_Some_mem)

lemma resolve_node: "resolveExecutable r n = Inl y \<Longrightarrow> res_node y = n_id n \<and> \<not> is_skipped y"
  by (auto simp: resolveExecutable_def split: sum.splits option.splits)

text \<open>A result is about the node it was asked for, and says skipped only for the reasons checked.\<close>

lemma execute_node:
  assumes ok: "graph_ok g" and n: "n \<in> set (g_nodeIds g)"
    and m: "execute ex ctx g st n = Some m" and r: "m ops = (Inr r, ops')"
  shows "res_node r = n"
    and "is_skipped r \<Longrightarrow> n \<in> set (skippedNodes st) \<or> js_in n (nodeErrors st) \<or> skip_ok g st n"
proof -
  obtain a where a: "analyzeUpstream g st n = Some a"
    "checkSkipCondition g st n = Some (if n \<in> set (skippedNodes st) \<or> js_in n (nodeErrors st) \<or> ua_shouldSkip a
      then Some (Skipped n (ua_reason a) (ua_blockedBy a)) else None)"
    by (rule checkSkip_cases [OF ok n])
  have "res_node r = n \<and> (is_skipped r \<longrightarrow> n \<in> set (skippedNodes st) \<or> js_in n (nodeErrors st) \<or> skip_ok g st n)"
  proof (cases "n \<in> set (skippedNodes st) \<or> js_in n (nodeErrors st) \<or> ua_shouldSkip a")
    case True
    then have "m = io_return (Skipped n (ua_reason a) (ua_blockedBy a))"
      using m a(2) by (simp add: execute_def)
    then show ?thesis using r True a(1) by (auto simp: skip_ok_def)
  next
    case False
    show ?thesis
    proof (cases "graph_node g n")
      case None
      then show ?thesis using m a(2) False r by (auto simp: execute_def)
    next
      case (Some nd)
      then show ?thesis
        using m a(2) False r graph_node_id [OF ok Some]
        by (auto simp: execute_def io_bind_Inr split: sum.splits dest!: invoke_node resolve_node)
    qed
  qed
  then show "res_node r = n"
    and "is_skipped r \<Longrightarrow> n \<in> set (skippedNodes st) \<or> js_in n (nodeErrors st) \<or> skip_ok g st n"
    by blast+
qed

section \<open>Where an input comes from\<close>

lemma jget_foldl_if:
  "jget (foldl (\<lambda>m p. if P p then jset m (f p) (v p) else m) m ps) k =
     (case find (\<lambda>p. P p \<and> f p = k) (rev ps) of Some p \<Rightarrow> Some (v p) | None \<Rightarrow> jget m k)"
  by (induction ps arbitrary: m rule: rev_induct) (auto simp: jget_jset)

definition default_of :: "parameter list \<Rightarrow> string \<Rightarrow> jv option" where
  "default_of ps k = map_option p_value
     (find (\<lambda>p. (p_value p \<noteq> JUndef \<and> isRuntimeValue (p_value p)) \<and> p_name p = k) (rev ps))"

definition override_of :: "parameter list \<Rightarrow> jv jmap option \<Rightarrow> string \<Rightarrow> jv option" where
  "override_of ps overrides k = (case overrides of
     None \<Rightarrow> None
   | Some m \<Rightarrow> if k \<in> set (map p_name ps) \<and> isRuntimeValue (read_prop m k) then Some (read_prop m k) else None)"

lemma jget_defaults: "jget (default_inputs ps) k = default_of ps k"
  by (simp add: default_inputs_def jget_foldl_if default_of_def split: option.split)

lemma jget_overrides:
  "jget (apply_overrides ps overrides m) k =
     (case override_of ps overrides k of Some v \<Rightarrow> Some v | None \<Rightarrow> jget m k)"
proof (cases overrides)
  case None
  then show ?thesis by (simp add: apply_overrides_def override_of_def)
next
  case (Some ov)
  let ?P = "\<lambda>p. read_prop ov (p_name p) \<noteq> JUndef \<and> isRuntimeValue (read_prop ov (p_name p))"
  have "jget (apply_overrides ps overrides m) k =
    (case find (\<lambda>p. ?P p \<and> p_name p = k) (rev ps) of Some p \<Rightarrow> Some (read_prop ov (p_name p)) | None \<Rightarrow> jget m k)"
    by (simp add: apply_overrides_def Some Let_def jget_foldl_if)
  moreover have "find (\<lambda>p. ?P p \<and> p_name p = k) (rev ps) = None \<longleftrightarrow> override_of ps overrides k = None"
    by (auto simp: find_None_iff override_of_def Some)
  moreover have "override_of ps overrides k = Some (read_prop ov (p_name p))"
    if "find (\<lambda>p. ?P p \<and> p_name p = k) (rev ps) = Some p" for p
    using find_Some_mem [OF that] by (auto simp: override_of_def Some)
  ultimately show ?thesis by (auto split: option.split)
qed

definition edge_values :: "execution_state \<Rightarrow> executable \<Rightarrow> edge list \<Rightarrow> string \<Rightarrow> jv list" where
  "edge_values st x inbound k = concat (map (\<lambda>e. values_from (accepts_multiple x k) (edge_value st e))
     (filter (\<lambda>e. e_targetInput e = k) inbound))"

lemma distinct_keys_pushInto: "distinct (jkeys m) \<Longrightarrow> distinct (jkeys (pushInto m k v))"
  by (simp add: pushInto_def split: option.split)

lemma distinct_keys_group: "distinct (jkeys (groupByTargetInput es))"
proof -
  have "distinct (jkeys m) \<Longrightarrow> distinct (jkeys (foldl (\<lambda>m e. pushInto m (f e) e) m es))"
    for m and f :: "edge \<Rightarrow> string"
    by (induction es arbitrary: m) (auto simp: distinct_keys_pushInto)
  then show ?thesis by (simp add: groupByTargetInput_def)
qed

lemma jget_foldl_gather:
  "distinct (jkeys gs) \<Longrightarrow> jget (foldl (gather x st) m gs) k =
     (let vs = concat (map (\<lambda>e. values_from (accepts_multiple x k) (edge_value st e)) (edges_of gs k)) in
      if vs \<noteq> [] then Some (if accepts_multiple x k then JArr vs else last vs) else jget m k)"
proof (induction gs arbitrary: m)
  case Nil
  then show ?case by (simp add: edges_of_def)
next
  case (Cons g gs)
  obtain name es where g: "g = (name, es)" by fastforce
  show ?case
  proof (cases "name = k")
    case True
    then have "edges_of gs k = []"
      using Cons.prems g by (auto simp: edges_of_def jget_None_iff split: option.split dest: jget_Some_key)
    then show ?thesis using Cons True g
      by (simp add: gather_def edges_of_def Let_def)
  next
    case False
    then have "edges_of (g # gs) k = edges_of gs k" by (simp add: edges_of_def g)
    moreover have "jget (gather x st m g) k = jget m k"
      using False by (simp add: gather_def g Let_def)
    ultimately show ?thesis using Cons by (simp add: Let_def)
  qed
qed

text \<open>An edge wins over an override, and an override over the value set on the node.\<close>

lemma collected_spec:
  "jget (collected n st x inbound overrides) k =
     (if edge_values st x inbound k \<noteq> []
      then Some (if accepts_multiple x k then JArr (edge_values st x inbound k)
                 else last (edge_values st x inbound k))
      else case override_of (n_inputs n) overrides k of
        Some v \<Rightarrow> Some v
      | None \<Rightarrow> default_of (n_inputs n) k)"
proof -
  have "edges_of (groupByTargetInput inbound) k = filter (\<lambda>e. e_targetInput e = k) inbound"
    by (simp add: groupByTargetInput_def edges_of_foldl_pushInto)
  then show ?thesis
    by (simp add: collected_def jget_foldl_gather [OF distinct_keys_group] edge_values_def Let_def
        jget_overrides jget_defaults del: concat_eq_Nil_conv split: option.split)
qed

section \<open>The calls an execution makes\<close>

lemma collectInputs_calls:
  "inputs_ok (ex_host ex) org (collectInputs ex n st x inbound org overrides)"
  by (auto simp: collectInputs_def Let_def intro!: calls_bind apiInputs_calls)

lemma execute_skipped_silent:
  assumes "checkSkipCondition g st n = Some (Some r)"
  shows "execute ex ctx g st n = Some (io_return r)"
  using assms by (simp add: execute_def)

text \<open>A completed result is within the output limit.\<close>

lemma within_limit_Inr: "within_limit v mx l = Inr u \<longleftrightarrow> estimateRuntimeJsonBytes v mx \<le> mx"
  using assert_within_limit_iff [of v mx l] by (auto simp: within_limit_def split: sum.splits)

lemma completed_result_limit:
  "completed_result ex t n ctx r ops = (Inr (Completed k ins outs u), ops') \<Longrightarrow>
   estimateRuntimeJsonBytes (JObj outs) MAX_RUNTIME_OUTPUT_BYTES \<le> MAX_RUNTIME_OUTPUT_BYTES"
  by (auto simp: completed_result_def io_bind_Inr within_limit_Inr)

lemma normalize_completed:
  "normalize ex t n ctx r ops = (Inr (Completed k ins outs u), ops') \<Longrightarrow>
   xr_status r = ''completed'' \<and>
   estimateRuntimeJsonBytes (JObj outs) MAX_RUNTIME_OUTPUT_BYTES \<le> MAX_RUNTIME_OUTPUT_BYTES"
  by (auto simp: normalize_def completed_result_limit split: option.splits if_splits bool.splits)

lemma invoke_completed:
  assumes "invoke ex x t n ctx i ops = (Inr (Completed k ins outs u), ops')"
  shows "estimateRuntimeJsonBytes (JObj outs) MAX_RUNTIME_OUTPUT_BYTES \<le> MAX_RUNTIME_OUTPUT_BYTES"
  using assms by (auto simp: invoke_def io_catch_def io_bind_Inr dest!: normalize_completed split: prod.splits sum.splits)

lemma with_inputs_completed:
  "with_result_inputs i r = Completed k ins outs u \<longleftrightarrow>
     ins = Some i \<and> (\<exists>ins'. r = Completed k ins' outs u)"
  "Completed k ins outs u = with_result_inputs i r \<longleftrightarrow>
     ins = Some i \<and> (\<exists>ins'. r = Completed k ins' outs u)"
  by (cases r; auto)+

lemma checkSkip_skipped: "checkSkipCondition g st n = Some (Some r) \<Longrightarrow> \<exists>reason by. r = Skipped n reason by"
  by (auto simp: checkSkipCondition_def Let_def split: option.splits if_splits)

lemma collectInputs_limit:
  assumes "collectInputs ex n st x inbound org overrides ops = (Inr (vs, resolved), ops')"
  shows "estimateRuntimeJsonBytes (JObj vs) MAX_RUNTIME_INPUT_BYTES \<le> MAX_RUNTIME_INPUT_BYTES"
  using assms by (auto simp: collectInputs_def Let_def io_bind_Inr within_limit_Inr)

lemma execute_completed:
  assumes "execute ex ctx g st nodeId = Some m" and "m ops = (Inr (Completed i ins outs u), ops')"
  shows "\<exists>vs. ins = Some vs \<and> estimateRuntimeJsonBytes (JObj vs) MAX_RUNTIME_INPUT_BYTES \<le> MAX_RUNTIME_INPUT_BYTES \<and>
    estimateRuntimeJsonBytes (JObj outs) MAX_RUNTIME_OUTPUT_BYTES \<le> MAX_RUNTIME_OUTPUT_BYTES"
  using assms
  by (auto simp: execute_def resolveExecutable_def io_bind_Inr with_inputs_completed
      dest!: invoke_completed collectInputs_limit checkSkip_skipped split: option.splits sum.splits prod.splits)

section \<open>The names of durable steps\<close>

text \<open>The counter of a node starts at zero, so a second node that calls a tool reuses the first name.\<close>

lemma tool_step_name_inject [simp]: "tool_step_name e i = tool_step_name e j \<longleftrightarrow> i = j"
  by (simp add: tool_step_name_def)

lemma tool_steps_simps [simp]:
  "tool_steps e [] = []"
  "tool_steps e (k # ks) = map (tool_step_name e) [0..<k] @ tool_steps e ks"
  by (simp_all add: tool_steps_def)

lemma tool_steps_first: "tool_step_name e 0 \<in> set (tool_steps e ks) \<longleftrightarrow> (\<exists>k \<in> set ks. 0 < k)"
  by (induction ks) (auto simp: image_iff)

lemma tool_steps_empty: "tool_steps e ks = [] \<longleftrightarrow> \<not> (\<exists>k \<in> set ks. 0 < k)"
  by (induction ks) auto

lemma tool_steps_distinct:
  "distinct (tool_steps e calls) \<longleftrightarrow> length (filter ((<) 0) calls) \<le> 1"
proof (induction calls)
  case Nil
  then show ?case by simp
next
  case (Cons k ks)
  show ?case
  proof (cases "k = 0")
    case True
    then show ?thesis using Cons by simp
  next
    case False
    have own: "distinct (map (tool_step_name e) [0..<k])" by (simp add: distinct_map inj_on_def)
    have first: "tool_step_name e 0 \<in> set (map (tool_step_name e) [0..<k])" using False by simp
    show ?thesis
    proof (cases "\<exists>j \<in> set ks. 0 < j")
      case True
      then have "\<not> distinct (tool_steps e (k # ks))"
        using first tool_steps_first [of e ks] by auto
      moreover have "filter ((<) 0) ks \<noteq> []" using True by (auto simp: filter_empty_conv)
      ultimately show ?thesis using False by (cases "filter ((<) 0) ks") auto
    next
      case none: False
      then have "tool_steps e ks = []" "filter ((<) 0) ks = []"
        by (simp_all add: tool_steps_empty filter_empty_conv)
      then show ?thesis using own False by simp
    qed
  qed
qed

end
