(* ===== verification/Flow_Validate.thy ===== *)
theory Flow_Validate
  imports Flow_Graph
begin

text \<open>
  \<open>apps/flows/packages/runtime/src/validate-workflow.ts\<close> and
  \<open>apps/flows/packages/utils/src/parameter-compatibility.ts\<close>. The depth-first search of
  \<open>detectCycles\<close> carries its two sets (\<open>visited\<close>, \<open>recursionStack\<close>) as lists and a
  fuel that bounds the depth of the recursion; \<open>None\<close> would mean that the fuel ran out, and
  \<open>detectCycles_terminates\<close> shows that it never does.
\<close>

section \<open>Parameter types\<close>

definition BLOB_COMPATIBLE_TYPES :: "string list" where
  "BLOB_COMPATIBLE_TYPES =
     [''image'', ''audio'', ''video'', ''document'', ''buffergeometry'', ''gltf'']"

definition areTypesCompatible :: "string \<Rightarrow> string \<Rightarrow> bool" where
  "areTypesCompatible sourceType targetType =
     (if sourceType = targetType then True
      else if sourceType = ''any'' \<or> targetType = ''any'' then True
      else if sourceType = ''blob'' \<and> targetType \<in> set BLOB_COMPATIBLE_TYPES then True
      else if targetType = ''blob'' \<and> sourceType \<in> set BLOB_COMPATIBLE_TYPES then True
      else False)"

section \<open>Errors\<close>

datatype error_kind =
    CYCLE_DETECTED | TYPE_MISMATCH | INVALID_CONNECTION | DUPLICATE_CONNECTION
  | DUPLICATE_NODE_ID | DUPLICATE_TRIGGER | EMPTY_WORKFLOW

record validation_error =
  ve_type :: error_kind
  ve_message :: string
  ve_nodeId :: "string option"
  ve_source :: "string option"
  ve_target :: "string option"

definition node_error :: "error_kind \<Rightarrow> string \<Rightarrow> string \<Rightarrow> validation_error" where
  "node_error k msg i = \<lparr>ve_type = k, ve_message = msg, ve_nodeId = Some i,
     ve_source = None, ve_target = None\<rparr>"

definition edge_error :: "error_kind \<Rightarrow> string \<Rightarrow> edge \<Rightarrow> validation_error" where
  "edge_error k msg e = \<lparr>ve_type = k, ve_message = msg, ve_nodeId = None,
     ve_source = Some (e_source e), ve_target = Some (e_target e)\<rparr>"

section \<open>Cycles\<close>

function dfs :: "nat \<Rightarrow> edge list \<Rightarrow> string \<Rightarrow> string list \<Rightarrow> string list
    \<Rightarrow> (bool \<times> string list \<times> string list) option"
and dfs_targets :: "nat \<Rightarrow> edge list \<Rightarrow> edge list \<Rightarrow> string list \<Rightarrow> string list
    \<Rightarrow> (bool \<times> string list \<times> string list) option" where
  "dfs 0 es x visited stack = None"
| "dfs (Suc fuel) es x visited stack =
     (case dfs_targets fuel es (filter (\<lambda>e. e_source e = x) es)
             (set_add x visited) (set_add x stack) of
        None \<Rightarrow> None
      | Some (True, v, s) \<Rightarrow> Some (True, v, s)
      | Some (False, v, s) \<Rightarrow> Some (False, v, filter (\<lambda>y. y \<noteq> x) s))"
| "dfs_targets fuel es [] visited stack = Some (False, visited, stack)"
| "dfs_targets fuel es (c # cs) visited stack =
     (if e_target c \<notin> set visited
      then (case dfs fuel es (e_target c) visited stack of
              None \<Rightarrow> None
            | Some (True, v, s) \<Rightarrow> Some (True, v, s)
            | Some (False, v, s) \<Rightarrow> dfs_targets fuel es cs v s)
      else if e_target c \<in> set stack then Some (True, visited, stack)
      else dfs_targets fuel es cs visited stack)"
  by pat_completeness auto
termination
  by (relation "measures [\<lambda>x. case x of Inl (f, _) \<Rightarrow> f | Inr (f, _) \<Rightarrow> f,
        \<lambda>x. case x of Inl _ \<Rightarrow> 0 | Inr (_, _, cs, _) \<Rightarrow> Suc (length cs)]") auto

fun cycle_scan :: "nat \<Rightarrow> edge list \<Rightarrow> node list \<Rightarrow> string list \<Rightarrow> string list
    \<Rightarrow> validation_error option option" where
  "cycle_scan fuel es [] visited stack = Some None"
| "cycle_scan fuel es (n # ns) visited stack =
     (if n_id n \<notin> set visited
      then (case dfs fuel es (n_id n) visited stack of
              None \<Rightarrow> None
            | Some (True, v, s) \<Rightarrow>
                Some (Some (node_error CYCLE_DETECTED ''Cycle detected in workflow'' (n_id n)))
            | Some (False, v, s) \<Rightarrow> cycle_scan fuel es ns v s)
      else cycle_scan fuel es ns visited stack)"

definition detectCycles :: "workflow \<Rightarrow> validation_error option option" where
  "detectCycles w =
     cycle_scan (length (w_nodes w) + length (w_edges w)) (w_edges w) (w_nodes w) [] []"

section \<open>Connections\<close>

text \<open>\<open>replace\<close> of the first occurrence of a literal pattern.\<close>

fun remove_first :: "string \<Rightarrow> string \<Rightarrow> string" where
  "remove_first pat [] = []"
| "remove_first pat (c # cs) =
     (if take (length pat) (c # cs) = pat then drop (length pat) (c # cs)
      else c # remove_first pat cs)"

definition short_type :: "string \<Rightarrow> string" where
  "short_type t = remove_first ''value'' (js_lower t)"

definition find_node :: "workflow \<Rightarrow> string \<Rightarrow> node option" where
  "find_node w i = find (\<lambda>n. n_id n = i) (w_nodes w)"

definition check_connection :: "workflow \<Rightarrow> edge \<Rightarrow> validation_error list" where
  "check_connection w c =
     (case (find_node w (e_source c), find_node w (e_target c)) of
        (Some sourceNode, Some targetNode) \<Rightarrow>
          (case (find_param (n_outputs sourceNode) (e_sourceOutput c),
                 find_param (n_inputs targetNode) (e_targetInput c)) of
             (Some sp, Some tp) \<Rightarrow>
               if \<not> areTypesCompatible (p_type sp) (p_type tp)
               then [edge_error TYPE_MISMATCH (''Type mismatch: '' @ short_type (p_type sp)
                       @ '' -> '' @ short_type (p_type tp)) c]
               else []
           | _ \<Rightarrow> [edge_error INVALID_CONNECTION ''Invalid parameter reference in connection'' c])
      | _ \<Rightarrow> [edge_error INVALID_CONNECTION ''Invalid node reference in connection'' c])"

definition validateTypeCompatibility :: "workflow \<Rightarrow> validation_error list" where
  "validateTypeCompatibility w = concat (map (check_connection w) (w_edges w))"

section \<open>The whole workflow\<close>

fun repeated_ids :: "string list \<Rightarrow> string list \<Rightarrow> string list" where
  "repeated_ids seen [] = []"
| "repeated_ids seen (i # ids) =
     (if i \<in> set seen then i # repeated_ids seen ids else repeated_ids (set_add i seen) ids)"

fun join_str :: "string \<Rightarrow> string list \<Rightarrow> string" where
  "join_str sep [] = []"
| "join_str sep [x] = x"
| "join_str sep (x # y # ys) = x @ sep @ join_str sep (y # ys)"

definition connection_key :: "edge \<Rightarrow> string" where
  "connection_key c = e_source c @ '':'' @ e_sourceOutput c @ ''->'' @ e_target c @ '':'' @ e_targetInput c"

fun duplicate_connections :: "string list \<Rightarrow> edge list \<Rightarrow> validation_error list" where
  "duplicate_connections seen [] = []"
| "duplicate_connections seen (c # cs) =
     (if connection_key c \<in> set seen
      then [edge_error DUPLICATE_CONNECTION ''Duplicate connection detected'' c] else [])
     @ duplicate_connections (set_add (connection_key c) seen) cs"

definition check_triggers :: "workflow \<Rightarrow> node_type list \<Rightarrow> validation_error list" where
  "check_triggers w nodeTypes =
     (let triggerTypes = js_set (map nt_type (filter nt_trigger nodeTypes));
          triggerNodes = filter (\<lambda>n. n_type n \<in> set triggerTypes) (w_nodes w) in
      if 1 < length triggerNodes
      then [node_error DUPLICATE_TRIGGER ''Only one trigger node is allowed per workflow''
              (n_id (triggerNodes ! 1))]
      else [])"

definition check_ids :: "workflow \<Rightarrow> validation_error list" where
  "check_ids w =
     (let duplicates = repeated_ids [] (map n_id (w_nodes w)) in
      if duplicates \<noteq> []
      then [\<lparr>ve_type = DUPLICATE_NODE_ID,
              ve_message = ''Duplicate node IDs found: '' @ join_str '', '' (js_set duplicates),
              ve_nodeId = None, ve_source = None, ve_target = None\<rparr>]
      else [])"

definition validateWorkflow :: "workflow \<Rightarrow> node_type list option \<Rightarrow> validation_error list option" where
  "validateWorkflow w nodeTypes =
     (case detectCycles w of
        None \<Rightarrow> None
      | Some cycleError \<Rightarrow> Some (
          (case nodeTypes of None \<Rightarrow> [] | Some ts \<Rightarrow> check_triggers w ts)
          @ check_ids w
          @ (case cycleError of None \<Rightarrow> [] | Some e \<Rightarrow> [e])
          @ validateTypeCompatibility w
          @ duplicate_connections [] (w_edges w)))"

section \<open>The search terminates\<close>

definition edge_rel :: "edge list \<Rightarrow> (string \<times> string) set" where
  "edge_rel es = {(e_source e, e_target e) | e. e \<in> set es}"

lemma card_diff_insert: "finite U \<Longrightarrow> x \<in> U \<Longrightarrow> x \<notin> V \<Longrightarrow> card (U - V) \<le> Suc n \<Longrightarrow> card (U - insert x V) \<le> n"
  by (metis Diff_insert Diff_iff card_Diff_singleton diff_le_mono diff_Suc_1)

lemma card_diff_shrink: "finite U \<Longrightarrow> V \<subseteq> W \<Longrightarrow> card (U - V) \<le> n \<Longrightarrow> card (U - W) \<le> n"
  by (meson Diff_mono card_mono finite_Diff order_trans subset_refl)

lemma dfs_returns:
  assumes U: "finite U" "e_target ` set es \<subseteq> U"
  shows "x \<in> U \<Longrightarrow> x \<notin> set visited \<Longrightarrow> card (U - set visited) \<le> fuel \<Longrightarrow>
      \<exists>b v s. dfs fuel es x visited stack = Some (b, v, s) \<and> set visited \<subseteq> set v"
    and "e_target ` set cs \<subseteq> U \<Longrightarrow> card (U - set visited) \<le> fuel \<Longrightarrow>
      \<exists>b v s. dfs_targets fuel es cs visited stack = Some (b, v, s) \<and> set visited \<subseteq> set v"
  using U(2)
proof (induction fuel es x visited stack and fuel es cs visited stack rule: dfs_dfs_targets.induct)
  case (1 es x visited stack)
  then have "U - set visited \<noteq> {}" by blast
  then have "card (U - set visited) \<noteq> 0" using U(1) by simp
  then show ?case using 1 by simp
next
  case (2 fuel es x visited stack)
  have "card (U - set (set_add x visited)) \<le> fuel"
    using card_diff_insert [OF U(1)] 2(2-4) by simp
  moreover have "e_target ` set (filter (\<lambda>e. e_source e = x) es) \<subseteq> U" using 2(5) by auto
  ultimately obtain b v s where
    "dfs_targets fuel es (filter (\<lambda>e. e_source e = x) es) (set_add x visited) (set_add x stack)
       = Some (b, v, s)" "set (set_add x visited) \<subseteq> set v"
    using 2(1,5) by blast
  then show ?case by (cases b) auto
next
  case (3 fuel es visited stack)
  show ?case by (simp add: exI [of _ False])
next
  case (4 fuel es c cs visited stack)
  show ?case
  proof (cases "e_target c \<in> set visited")
    case True
    then show ?thesis using 4(3-6) by auto
  next
    case False
    then obtain b v s where d: "dfs fuel es (e_target c) visited stack = Some (b, v, s)"
        and v: "set visited \<subseteq> set v"
      using 4(1,4,5,6) by auto
    then have "card (U - set v) \<le> fuel"
      using 4(5) card_diff_shrink [OF U(1)] by blast
    then have "\<exists>b' v' s'. dfs_targets fuel es cs v s = Some (b', v', s') \<and> set v \<subseteq> set v'"
      if "\<not> b"
      using 4(4,6) that by (intro 4(2) [OF False d]) auto
    then show ?thesis using False d v by (cases b) auto
  qed
qed

lemma cycle_scan_returns:
  assumes "finite U" "e_target ` set es \<subseteq> U"
  shows "n_id ` set ns \<subseteq> U \<Longrightarrow> card (U - set visited) \<le> fuel \<Longrightarrow>
    cycle_scan fuel es ns visited stack \<noteq> None"
proof (induction ns arbitrary: visited stack)
  case Nil
  then show ?case by simp
next
  case (Cons n ns)
  show ?case
  proof (cases "n_id n \<in> set visited")
    case True
    then show ?thesis using Cons by simp
  next
    case False
    moreover have "n_id n \<in> U" using Cons.prems(1) by simp
    ultimately obtain b v s where d: "dfs fuel es (n_id n) visited stack = Some (b, v, s)"
        and v: "set visited \<subseteq> set v"
      using dfs_returns(1) [OF assms, of "n_id n" visited fuel stack] Cons.prems(2) by blast
    then have "card (U - set v) \<le> fuel"
      using Cons.prems(2) card_diff_shrink [OF assms(1)] by blast
    then have "cycle_scan fuel es ns v s \<noteq> None" using Cons.IH [of v s] Cons.prems(1) by simp
    then show ?thesis using False d by (cases b) auto
  qed
qed

lemma detectCycles_returns: "detectCycles w \<noteq> None"
proof -
  let ?U = "n_id ` set (w_nodes w) \<union> e_target ` set (w_edges w)"
  have "card ?U \<le> card (n_id ` set (w_nodes w)) + card (e_target ` set (w_edges w))"
    by (rule card_Un_le)
  also have "\<dots> \<le> length (w_nodes w) + length (w_edges w)"
    by (intro add_mono) (metis card_length card_image_le List.finite_set order_trans)+
  finally show ?thesis
    unfolding detectCycles_def by (intro cycle_scan_returns [of ?U]) auto
qed

section \<open>The search is right\<close>

text \<open>
  Nodes that left the recursion stack are finished: they lie on no cycle and lead only to
  finished nodes. The search answers true only inside a cycle of nodes it could reach.
\<close>

definition finished_ok :: "(string \<times> string) set \<Rightarrow> string set \<Rightarrow> bool" where
  "finished_ok E F \<longleftrightarrow> (\<forall>y \<in> F. (y, y) \<notin> E\<^sup>+ \<and> E `` {y} \<subseteq> F)"

lemma finished_reach: "finished_ok E F \<Longrightarrow> (y, z) \<in> E\<^sup>* \<Longrightarrow> y \<in> F \<Longrightarrow> z \<in> F"
  by (rotate_tac, induction rule: rtrancl_induct) (auto simp: finished_ok_def)

lemma finished_insert:
  assumes "finished_ok E F" and "E `` {x} \<subseteq> F" and "x \<notin> F"
  shows "finished_ok E (insert x F)"
proof -
  have "(x, x) \<notin> E\<^sup>+"
  proof
    assume "(x, x) \<in> E\<^sup>+"
    then obtain z where "(x, z) \<in> E" "(z, x) \<in> E\<^sup>*" by (meson tranclD)
    then show False using finished_reach [OF assms(1)] assms(2,3) by blast
  qed
  then show ?thesis using assms by (auto simp: finished_ok_def)
qed

definition dfs_post :: "(string \<times> string) set \<Rightarrow> string set \<Rightarrow> string set \<Rightarrow> string set
    \<Rightarrow> bool \<Rightarrow> string set \<Rightarrow> string set \<Rightarrow> bool" where
  "dfs_post E R S V b V' S' \<longleftrightarrow>
     (b \<longrightarrow> (\<exists>y \<in> R. (y, y) \<in> E\<^sup>+)) \<and>
     (\<not> b \<longrightarrow> S' = S \<and> V \<subseteq> V' \<and> finished_ok E (V' - S))"

text \<open>\<open>R\<close>: what is reachable; \<open>S\<close>: the stack, from each of whose nodes the current one is.\<close>

definition dfs_pre :: "(string \<times> string) set \<Rightarrow> string set \<Rightarrow> string set \<Rightarrow> string set \<Rightarrow> bool" where
  "dfs_pre E R S V \<longleftrightarrow> E `` R \<subseteq> R \<and> S \<subseteq> V \<and> S \<subseteq> R \<and> finished_ok E (V - S)"

lemma dfs_spec:
  "edge_rel es = E \<Longrightarrow> dfs fuel es x visited stack = Some (b, v, s) \<Longrightarrow>
   dfs_pre E R (set stack) (set visited) \<Longrightarrow> x \<in> R \<Longrightarrow> x \<notin> set visited \<Longrightarrow>
   \<forall>y \<in> set stack. (y, x) \<in> E\<^sup>* \<Longrightarrow>
   dfs_post E R (set stack) (set visited) b (set v) (set s) \<and> (\<not> b \<longrightarrow> x \<in> set v)"
  and dfs_targets_spec:
  "edge_rel es = E \<Longrightarrow> dfs_targets fuel es cs visited stack = Some (b, v, s) \<Longrightarrow>
   dfs_pre E R (set stack) (set visited) \<Longrightarrow> src \<in> R \<Longrightarrow> \<forall>c \<in> set cs. c \<in> set es \<and> e_source c = src \<Longrightarrow>
   \<forall>y \<in> set stack. (y, src) \<in> E\<^sup>* \<Longrightarrow>
   dfs_post E R (set stack) (set visited) b (set v) (set s) \<and>
   (\<not> b \<longrightarrow> e_target ` set cs \<subseteq> set v - set stack)"
proof (induction fuel es x visited stack and fuel es cs visited stack
    arbitrary: b v s and b v s src rule: dfs_dfs_targets.induct)
  case (1 es x visited stack)
  then show ?case by simp
next
  case (2 fuel es x visited stack)
  let ?cs = "filter (\<lambda>e. e_source e = x) es"
  let ?S = "insert x (set stack)"
  obtain b' v' s' where d:
    "dfs_targets fuel es ?cs (set_add x visited) (set_add x stack) = Some (b', v', s')"
    using 2(3) by (auto split: option.splits bool.splits)
  have xs: "x \<notin> set stack" using 2(4,6) by (auto simp: dfs_pre_def)
  have "insert x (set visited) - ?S = set visited - set stack" using 2(6) xs by auto
  then have pre: "dfs_pre E R ?S (insert x (set visited))" using 2(4,5) by (auto simp: dfs_pre_def)
  have post: "dfs_post E R ?S (insert x (set visited)) b' (set v') (set s') \<and>
      (\<not> b' \<longrightarrow> e_target ` set ?cs \<subseteq> set v' - ?S)"
    using 2(1) [OF 2(2) d, of x] pre 2(5,7) by simp
  show ?case
  proof (cases b')
    case True
    then show ?thesis using 2(3) d post by (auto simp: dfs_post_def)
  next
    case False
    then have out: "b = False" "v = v'" "set s = set s' - {x}" using 2(3) d by auto
    have "set v' - set stack = insert x (set v' - ?S)"
      using post False xs by (auto simp: dfs_post_def)
    moreover have "E `` {x} \<subseteq> set v' - ?S"
      using post False 2(2) by (auto simp: edge_rel_def)
    moreover have "finished_ok E (set v' - ?S)" using post False by (simp add: dfs_post_def)
    ultimately have "finished_ok E (set v' - set stack)" by (simp add: finished_insert)
    then show ?thesis using post False out xs by (auto simp: dfs_post_def)
  qed
next
  case (3 fuel es visited stack)
  then show ?case by (auto simp: dfs_post_def dfs_pre_def)
next
  case (4 fuel es c cs visited stack)
  have e: "(src, e_target c) \<in> E" using 4(4,8) by (force simp: edge_rel_def)
  then have tR: "e_target c \<in> R" using 4(6,7) by (auto simp: dfs_pre_def)
  consider (new) "e_target c \<notin> set visited"
    | (loop) "e_target c \<in> set visited" "e_target c \<in> set stack"
    | (seen) "e_target c \<in> set visited" "e_target c \<notin> set stack" by blast
  then show ?case
  proof cases
    case new
    obtain b' v' s' where d: "dfs fuel es (e_target c) visited stack = Some (b', v', s')"
      using 4(5) new by (auto split: option.splits)
    have reach: "\<forall>y \<in> set stack. (y, e_target c) \<in> E\<^sup>*"
      using 4(9) e by (meson rtrancl.rtrancl_into_rtrancl)
    note p = 4(1) [OF new 4(4) d 4(6) tR new reach]
    show ?thesis
    proof (cases b')
      case True
      then show ?thesis using 4(5) new d p by (auto simp: dfs_post_def)
    next
      case False
      then have rest: "dfs_targets fuel es cs v' s' = Some (b, v, s)" using 4(5) new d by simp
      have s: "set s' = set stack" and vv: "set visited \<subseteq> set v'" using p False by (auto simp: dfs_post_def)
      have "dfs_pre E R (set s') (set v')"
        using p False 4(6) by (auto simp: dfs_post_def dfs_pre_def)
      then have "dfs_post E R (set s') (set v') b (set v) (set s) \<and>
          (\<not> b \<longrightarrow> e_target ` set cs \<subseteq> set v - set s')"
        using False rest 4(4,7,8,9) s by (intro 4(2) [OF new d, where src = src]) auto
      moreover have "e_target c \<notin> set stack" using new 4(6) by (auto simp: dfs_pre_def)
      ultimately show ?thesis using p False s vv by (auto simp: dfs_post_def)
    qed
  next
    case loop
    then have "(e_target c, e_target c) \<in> E\<^sup>+" using 4(9) e by (meson rtrancl_into_trancl1)
    then show ?thesis using 4(5) loop tR by (auto simp: dfs_post_def)
  next
    case seen
    then have "dfs_post E R (set stack) (set visited) b (set v) (set s) \<and>
        (\<not> b \<longrightarrow> e_target ` set cs \<subseteq> set v - set stack)"
      using 4(3) [where src = src] 4(4-9) by simp
    then show ?thesis using seen by (auto simp: dfs_post_def)
  qed
qed

lemma cycle_scan_spec:
  "cycle_scan fuel es ns visited [] = Some r \<Longrightarrow> edge_rel es `` R \<subseteq> R \<Longrightarrow> n_id ` set ns \<subseteq> R \<Longrightarrow>
   finished_ok (edge_rel es) (set visited) \<Longrightarrow>
   (case r of
      None \<Rightarrow> \<exists>F. finished_ok (edge_rel es) F \<and> set visited \<subseteq> F \<and> n_id ` set ns \<subseteq> F
    | Some err \<Rightarrow> ve_type err = CYCLE_DETECTED \<and> (\<exists>y \<in> R. (y, y) \<in> (edge_rel es)\<^sup>+))"
proof (induction ns arbitrary: visited)
  case Nil
  then show ?case by auto
next
  case (Cons n ns)
  show ?case
  proof (cases "n_id n \<in> set visited")
    case True
    then have "case r of
        None \<Rightarrow> \<exists>F. finished_ok (edge_rel es) F \<and> set visited \<subseteq> F \<and> n_id ` set ns \<subseteq> F
      | Some err \<Rightarrow> ve_type err = CYCLE_DETECTED \<and> (\<exists>y \<in> R. (y, y) \<in> (edge_rel es)\<^sup>+)"
      using Cons by simp
    then show ?thesis using True by (cases r) auto
  next
    case False
    obtain b v s where d: "dfs fuel es (n_id n) visited [] = Some (b, v, s)"
      using Cons.prems(1) False by (auto split: option.splits)
    have pre: "dfs_pre (edge_rel es) R (set []) (set visited)"
      using Cons.prems(2,4) by (simp add: dfs_pre_def)
    have nR: "n_id n \<in> R" using Cons.prems(3) by simp
    have post: "dfs_post (edge_rel es) R {} (set visited) b (set v) (set s) \<and>
        (\<not> b \<longrightarrow> n_id n \<in> set v)"
      using dfs_spec [OF refl d pre nR False] by simp
    show ?thesis
    proof (cases b)
      case True
      then have "r = Some (node_error CYCLE_DETECTED ''Cycle detected in workflow'' (n_id n))"
        using Cons.prems(1) False d by simp
      then show ?thesis using post True by (simp add: dfs_post_def node_error_def)
    next
      case b: False
      then have "cycle_scan fuel es ns v [] = Some r" "finished_ok (edge_rel es) (set v)"
        using Cons.prems(1) False d post by (auto simp: dfs_post_def)
      then have "case r of
          None \<Rightarrow> \<exists>F. finished_ok (edge_rel es) F \<and> set v \<subseteq> F \<and> n_id ` set ns \<subseteq> F
        | Some err \<Rightarrow> ve_type err = CYCLE_DETECTED \<and> (\<exists>y \<in> R. (y, y) \<in> (edge_rel es)\<^sup>+)"
        using Cons.IH Cons.prems(2,3) by simp
      then show ?thesis using post b by (cases r) (auto simp: dfs_post_def)
    qed
  qed
qed

text \<open>No error is found exactly when no node of the workflow leads into a cycle.\<close>

lemma detectCycles_iff:
  "detectCycles w = Some None \<longleftrightarrow>
   (\<forall>n \<in> set (node_ids w). \<forall>y. (n, y) \<in> (edge_rel (w_edges w))\<^sup>* \<longrightarrow> (y, y) \<notin> (edge_rel (w_edges w))\<^sup>+)"
proof -
  let ?E = "edge_rel (w_edges w)"
  let ?R = "?E\<^sup>* `` set (node_ids w)"
  obtain r where r: "detectCycles w = Some r" using detectCycles_returns [of w] by auto
  have "?E `` ?R \<subseteq> ?R" by (auto intro: rtrancl_into_rtrancl)
  moreover have "n_id ` set (w_nodes w) \<subseteq> ?R" by (auto simp: node_ids_def)
  ultimately have post: "case r of
      None \<Rightarrow> \<exists>F. finished_ok ?E F \<and> set [] \<subseteq> F \<and> n_id ` set (w_nodes w) \<subseteq> F
    | Some err \<Rightarrow> ve_type err = CYCLE_DETECTED \<and> (\<exists>y \<in> ?R. (y, y) \<in> ?E\<^sup>+)"
    using r unfolding detectCycles_def by (intro cycle_scan_spec) (auto simp: finished_ok_def)
  show ?thesis
  proof (cases r)
    case None
    then obtain F where F: "finished_ok ?E F" "set (node_ids w) \<subseteq> F"
      using post by (auto simp: node_ids_def)
    then have "(y, y) \<notin> ?E\<^sup>+" if "n \<in> set (node_ids w)" "(n, y) \<in> ?E\<^sup>*" for n y
      using finished_reach [OF F(1) that(2)] that(1) by (auto simp: finished_ok_def)
    then show ?thesis using r None by blast
  next
    case (Some e)
    then show ?thesis using r post by auto
  qed
qed

lemma repeated_ids_Nil: "repeated_ids seen xs = [] \<longleftrightarrow> distinct xs \<and> set xs \<inter> set seen = {}"
  by (induction xs arbitrary: seen) auto

lemma check_ids_Nil: "check_ids w = [] \<longleftrightarrow> distinct (node_ids w)"
  by (simp add: check_ids_def repeated_ids_Nil node_ids_def Let_def)

lemma find_node_Some: "find_node w i = Some n \<Longrightarrow> i \<in> set (node_ids w)"
  by (auto simp: find_node_def node_ids_def dest!: find_Some_mem)

lemma check_connection_Nil:
  "check_connection w c = [] \<Longrightarrow>
   \<exists>s t sp tp. find_node w (e_source c) = Some s \<and> find_node w (e_target c) = Some t \<and>
     find_param (n_outputs s) (e_sourceOutput c) = Some sp \<and>
     find_param (n_inputs t) (e_targetInput c) = Some tp \<and>
     areTypesCompatible (p_type sp) (p_type tp)"
  by (auto simp: check_connection_def split: option.splits if_splits)

lemma duplicate_connections_Nil:
  "duplicate_connections seen cs = [] \<longleftrightarrow>
   distinct (map connection_key cs) \<and> set (map connection_key cs) \<inter> set seen = {}"
  by (induction cs arbitrary: seen) auto

lemma validateWorkflow_Nil:
  "validateWorkflow w ts = Some [] \<longleftrightarrow>
   (case ts of None \<Rightarrow> True | Some ts \<Rightarrow> check_triggers w ts = []) \<and> check_ids w = [] \<and>
   detectCycles w = Some None \<and> (\<forall>c \<in> set (w_edges w). check_connection w c = []) \<and>
   distinct (map connection_key (w_edges w))"
  by (auto simp: validateWorkflow_def validateTypeCompatibility_def duplicate_connections_Nil
      split: option.splits)

lemma dep_rel_edges: "dep_rel w \<subseteq> edge_rel (w_edges w)"
  by (auto simp: dep_rel_def deps_set_def edge_rel_def split: if_splits)

lemma valid_builds:
  assumes "validateWorkflow w ts = Some []"
  shows "\<exists>g. build w = Inr g \<and> graph_ok g"
proof -
  have ids: "distinct (node_ids w)" and cyc: "detectCycles w = Some None"
    and con: "\<forall>c \<in> set (w_edges w). check_connection w c = []"
    using assms by (simp_all add: validateWorkflow_Nil check_ids_Nil)
  have src: "e_source c \<in> set (node_ids w)" if "c \<in> set (w_edges w)" for c
    using con that check_connection_Nil find_node_Some by metis
  have "acyclic (dep_rel w)"
  proof (rule acyclicI, rule allI, rule notI)
    fix y
    assume "(y, y) \<in> (dep_rel w)\<^sup>+"
    then have y: "(y, y) \<in> (edge_rel (w_edges w))\<^sup>+" using trancl_mono dep_rel_edges by metis
    then have "y \<in> set (node_ids w)" using src by (auto simp: edge_rel_def dest: tranclD)
    then show False using cyc y by (auto simp: detectCycles_iff)
  qed
  moreover have "deps_set w t \<subseteq> set (node_ids w)" for t using src by (auto simp: deps_set_def)
  ultimately obtain g where "build w = Inr g" using build_succeeds_iff [OF ids] by auto
  then show ?thesis using graph_okI [OF ids] by blast
qed

end
