(* ===== verification/Flow_Runtime.thy ===== *)
theory Flow_Runtime
  imports Flow_Executor Flow_Validate
begin

text \<open>
  The life of one run: \<open>base-runtime.ts\<close>, \<open>worker-runtime.ts\<close>, \<open>workflow-runtime.ts\<close>,
  \<open>trigger.ts\<close> and \<open>credit-service.ts\<close> of \<open>apps/flows/packages/runtime/src\<close>. What the host
  answers (policy, credits, credentials, store, clock) is a record; what the scheduler did with
  the graph is a \<open>dataflow\<close> outcome. \<open>run\<close> returns its result and the list of the calls it
  made, in order.
\<close>

section \<open>Credits\<close>

record billing =
  b_computeCredits :: jnum
  b_subscriptionStatus :: "string option"
  b_overageLimit :: "jnum option"
  b_unlimitedUsage :: bool

definition isUsageExhausted :: "jnum \<Rightarrow> billing \<Rightarrow> bool" where
  "isUsageExhausted usage b =
     (if b_unlimitedUsage b then False
      else if b_subscriptionStatus b = Some ''active''
      then (case b_overageLimit b of
              None \<Rightarrow> False
            | Some limit \<Rightarrow> js_le (js_add (b_computeCredits b) limit) usage)
      else js_le (b_computeCredits b) usage)"

section \<open>The trigger\<close>

definition TRIGGER_FIELDS :: "string list" where
  "TRIGGER_FIELDS = [''saviaCollectionEvent'', ''saviaCollectionEvents'', ''httpRequest'',
     ''formSubmission'', ''emailMessage'', ''queueMessage'', ''scheduledTrigger'',
     ''discordInteraction'', ''discordBotToken'', ''telegramMessage'', ''telegramBotToken'',
     ''whatsappMessage'', ''whatsappAccessToken'', ''whatsappPhoneNumberId'', ''slackMessage'',
     ''slackBotToken'']"

definition extractTrigger :: "jv jmap \<Rightarrow> jv jmap" where
  "extractTrigger source = map (\<lambda>f. (f, read_prop source f)) TRIGGER_FIELDS"

section \<open>The parameters, the host and the record of a run\<close>

text \<open>
  \<open>pr_source\<close> is the parameter object as JSON, whose trigger fields are picked out; \<open>pr_json\<close>
  is the workflow as JSON, which is what the size check measures.
\<close>

record run_params =
  pr_workflow :: workflow
  pr_json :: jv
  pr_source :: "jv jmap"
  pr_userId :: string
  pr_organizationId :: string
  pr_billing :: billing
  pr_inputOverrides :: "jv jmap jmap option"
  pr_rehearsal :: bool

record admission =
  ad_allowed :: bool
  ad_reason :: "string option"
  ad_alreadyActive :: bool

record wf_record =
  wr_id :: string
  wr_workflowId :: string
  wr_status :: workflow_status
  wr_nodeExecutions :: "node_execution list"
  wr_startedAt :: int
  wr_endedAt :: "int option"
  wr_rehearsal :: bool
  wr_error :: "string option"

record saved_record =
  sv_id :: string
  sv_workflowId :: string
  sv_workflowName :: string
  sv_userId :: string
  sv_organizationId :: string
  sv_status :: workflow_status
  sv_nodeExecutions :: "node_execution list"
  sv_error :: "string option"
  sv_startedAt :: int
  sv_endedAt :: "int option"
  sv_definition :: workflow
  sv_definitionHash :: string
  sv_rehearsal :: bool

text \<open>\<open>rh_policy\<close>: whether the host has an execution policy. The other fields are answers.\<close>

record run_host =
  rh_policy :: bool
  rh_admit :: "js_error + admission"
  rh_hash :: "js_error + string"
  rh_initialise :: "js_error + unit"
  rh_hasCredits :: "js_error + bool"
  rh_preload :: "js_error + unit"
  rh_recordUsage :: "js_error + unit"
  rh_settle :: "js_error + unit"
  rh_save :: "saved_record \<Rightarrow> js_error + wf_record"
  rh_release :: "js_error + unit"
  rh_started :: int
  rh_ended :: int

datatype run_event =
    EvNotify workflow_status
  | EvAdmit
  | EvCredits
  | EvPreload
  | EvDataflow
  | EvRecordUsage jnum
  | EvSettle
  | EvSave saved_record
  | EvRelease

text \<open>What \<open>executeDataflow\<close> did: the error it threw, if it did, and the state it left.\<close>

record dataflow =
  df_error :: "js_error option"
  df_state :: execution_state

section \<open>Preparing\<close>

text \<open>The status and the report of a state; the fuel of the analysis never runs out (\<open>status_total\<close>).\<close>

definition status_of :: "exec_graph \<Rightarrow> execution_state \<Rightarrow> workflow_status" where
  "status_of g st = (case getExecutionStatus g st of Some s \<Rightarrow> s | None \<Rightarrow> WError)"

definition report_of :: "exec_graph \<Rightarrow> execution_state \<Rightarrow> workflow_status option \<Rightarrow> node_execution list" where
  "report_of g st s = (case buildNodeExecutions g st s [] of Some xs \<Rightarrow> xs | None \<Rightarrow> [])"

definition prepare :: "run_host \<Rightarrow> run_params \<Rightarrow> js_error + exec_graph \<times> execution_state" where
  "prepare h p =
     (case rh_initialise h of
        Inl e \<Rightarrow> Inl e
      | Inr _ \<Rightarrow>
        (case validateWorkflow (pr_workflow p) None of
           None \<Rightarrow> Inl (PlainError [])
         | Some errors \<Rightarrow>
             if 0 < length errors
             then Inl (NonRetryableError (''Workflow validation failed: ''
                    @ join_str '', '' (map ve_message errors)))
             else (case build (pr_workflow p) of
                     Inl e \<Rightarrow> Inl (PlainError e)
                   | Inr g \<Rightarrow> Inr (g, initial_state))))"

definition executeGraph :: "exec_graph \<Rightarrow> dataflow \<Rightarrow> wf_record \<Rightarrow> js_error + wf_record" where
  "executeGraph g df rec =
     (case df_error df of
        Some e \<Rightarrow> Inl e
      | None \<Rightarrow> Inr (if g_nodeIds g = [] then rec
          else rec\<lparr>wr_status := status_of g (df_state df),
                  wr_nodeExecutions := report_of g (df_state df) None\<rparr>))"

section \<open>Settling\<close>

definition total_usage :: "execution_state \<Rightarrow> jnum" where
  "total_usage st = foldl (\<lambda>sum usage. if is_finite usage then js_add sum usage else sum) (Fin 0)
     (map snd (nodeUsage st))"

text \<open>Neither call may fail the run, so their answers do not matter.\<close>

definition settleUsage :: "execution_state \<Rightarrow> bool \<Rightarrow> run_event list" where
  "settleUsage st isExhausted =
     (if \<not> isExhausted \<and> js_lt (Fin 0) (total_usage st) then [EvRecordUsage (total_usage st)] else [])
     @ [EvSettle]"

definition saved_of :: "run_params \<Rightarrow> string \<Rightarrow> string \<Rightarrow> exec_graph \<Rightarrow> execution_state \<Rightarrow> wf_record
    \<Rightarrow> workflow_status \<Rightarrow> saved_record" where
  "saved_of p instanceId definitionHash g st rec finalStatus =
     \<lparr>sv_id = instanceId, sv_workflowId = w_id (pr_workflow p), sv_workflowName = w_name (pr_workflow p),
      sv_userId = pr_userId p, sv_organizationId = pr_organizationId p, sv_status = finalStatus,
      sv_nodeExecutions = report_of g st (Some finalStatus),
      sv_error = (if 0 < length (nodeErrors st) then Some ''Workflow execution failed'' else wr_error rec),
      sv_startedAt = wr_startedAt rec, sv_endedAt = wr_endedAt rec,
      sv_definition = pr_workflow p, sv_definitionHash = definitionHash, sv_rehearsal = pr_rehearsal p\<rparr>"

section \<open>The run\<close>

text \<open>What the body of \<open>try\<close> leaves for \<open>finally\<close>, its error turned into the record by \<open>catch\<close>.\<close>

record run_body =
  bo_record :: wf_record
  bo_prepared :: "(exec_graph \<times> execution_state) option"
  bo_isExhausted :: bool
  bo_caughtError :: bool
  bo_policyReserved :: bool
  bo_events :: "run_event list"

definition caught :: "js_error \<Rightarrow> wf_record \<Rightarrow> (exec_graph \<times> execution_state) option \<Rightarrow> bool
    \<Rightarrow> run_event list \<Rightarrow> run_body" where
  "caught e rec prepared reserved evs = \<lparr>bo_record = rec\<lparr>wr_status := WError, wr_error := Some (err_message e)\<rparr>,
     bo_prepared = prepared, bo_isExhausted = False, bo_caughtError = True,
     bo_policyReserved = reserved, bo_events = evs @ [EvNotify WError]\<rparr>"

definition run_credited :: "run_host \<Rightarrow> (exec_graph \<Rightarrow> dataflow) \<Rightarrow> exec_graph \<Rightarrow> wf_record \<Rightarrow> bool
    \<Rightarrow> run_event list \<Rightarrow> run_body" where
  "run_credited h flow g rec reserved evs =
     (case rh_preload h of
        Inl e \<Rightarrow> caught e rec (Some (g, initial_state)) reserved (evs @ [EvPreload])
      | Inr _ \<Rightarrow>
        (let rec = rec\<lparr>wr_status := status_of g initial_state\<rparr>;
             evs = evs @ [EvPreload, EvNotify (wr_status rec), EvDataflow];
             df = flow g in
         case executeGraph g df rec of
           Inl e \<Rightarrow> caught e rec (Some (g, df_state df)) reserved evs
         | Inr rec \<Rightarrow> \<lparr>bo_record = rec, bo_prepared = Some (g, df_state df), bo_isExhausted = False,
             bo_caughtError = False, bo_policyReserved = reserved, bo_events = evs\<rparr>))"

definition run_admitted :: "run_host \<Rightarrow> (exec_graph \<Rightarrow> dataflow) \<Rightarrow> run_params \<Rightarrow> wf_record \<Rightarrow> bool
    \<Rightarrow> run_event list \<Rightarrow> run_body" where
  "run_admitted h flow p rec reserved evs =
     (case prepare h p of
        Inl e \<Rightarrow> caught e rec None reserved evs
      | Inr (g, st) \<Rightarrow>
        (case rh_hasCredits h of
           Inl e \<Rightarrow> caught e rec (Some (g, st)) reserved (evs @ [EvCredits])
         | Inr True \<Rightarrow> run_credited h flow g rec reserved (evs @ [EvCredits])
         | Inr False \<Rightarrow> \<lparr>bo_record = rec\<lparr>wr_status := WExhausted, wr_error := Some ''Insufficient compute credits''\<rparr>,
             bo_prepared = Some (g, st), bo_isExhausted = True, bo_caughtError = False,
             bo_policyReserved = reserved, bo_events = evs @ [EvCredits, EvNotify WExhausted]\<rparr>))"

definition run_try :: "run_host \<Rightarrow> (exec_graph \<Rightarrow> dataflow) \<Rightarrow> run_params \<Rightarrow> wf_record \<Rightarrow> bool
    \<Rightarrow> run_event list \<Rightarrow> run_body" where
  "run_try h flow p rec policyPreAdmitted evs =
     (if rh_policy h \<and> \<not> policyPreAdmitted
      then (case rh_admit h of
              Inl e \<Rightarrow> caught e rec None False (evs @ [EvAdmit])
            | Inr a \<Rightarrow>
                if \<not> ad_allowed a
                then caught (NonRetryableError (case ad_reason a of Some r \<Rightarrow> r
                       | None \<Rightarrow> ''Workflow execution was rejected by policy'')) rec None False (evs @ [EvAdmit])
                else run_admitted h flow p rec True (evs @ [EvAdmit]))
      else run_admitted h flow p rec policyPreAdmitted evs)"

text \<open>The \<open>finally\<close> block; its inner \<open>finally\<close> releases the reservation and swallows a failure.\<close>

definition run_finally :: "run_host \<Rightarrow> run_params \<Rightarrow> string \<Rightarrow> string \<Rightarrow> run_body
    \<Rightarrow> (js_error + wf_record) \<times> run_event list" where
  "run_finally h p instanceId definitionHash b =
     (let rec = (bo_record b)\<lparr>wr_endedAt := Some (rh_ended h)\<rparr>;
          release = (if bo_policyReserved b \<and> rh_policy h then [EvRelease] else []) in
      case bo_prepared b of
        None \<Rightarrow> (Inr rec, bo_events b @ [EvNotify (wr_status rec)] @ release)
      | Some (g, st) \<Rightarrow>
          (let finalStatus = (if bo_isExhausted b then WExhausted
                              else if bo_caughtError b then WError else status_of g st);
               saved = saved_of p instanceId definitionHash g st rec finalStatus;
               evs = bo_events b @ settleUsage st (bo_isExhausted b) @ [EvSave saved] in
           case rh_save h saved of
             Inl e \<Rightarrow> (Inl e, evs @ release)
           | Inr rec \<Rightarrow> (Inr rec, evs @ [EvNotify (wr_status rec)] @ release)))"

definition overrides_json :: "jv jmap jmap option \<Rightarrow> jv" where
  "overrides_json o' = (case o' of None \<Rightarrow> JUndef | Some m \<Rightarrow> JObj (map (\<lambda>(k, vs). (k, JObj vs)) m))"

definition run :: "run_host \<Rightarrow> (exec_graph \<Rightarrow> dataflow) \<Rightarrow> run_params \<Rightarrow> string \<Rightarrow> bool
    \<Rightarrow> (js_error + wf_record) \<times> run_event list" where
  "run h flow p instanceId policyPreAdmitted =
     (if 500 < length (w_nodes (pr_workflow p))
      then (Inl (NonRetryableError ''Workflow exceeds the runtime safety limit of 500 nodes''), [])
      else case within_limit (JObj [(''workflow'', pr_json p),
                 (''inputOverrides'', overrides_json (pr_inputOverrides p)),
                 (''trigger'', JObj (extractTrigger (pr_source p)))])
               MAX_RUNTIME_INPUT_BYTES ''Workflow execution input'' of
        Inl e \<Rightarrow> (Inl e, [])
      | Inr _ \<Rightarrow>
        (let rec = \<lparr>wr_id = instanceId, wr_workflowId = w_id (pr_workflow p), wr_status = WSubmitted,
               wr_nodeExecutions = [], wr_startedAt = rh_started h, wr_endedAt = None,
               wr_rehearsal = pr_rehearsal p, wr_error = None\<rparr> in
         case rh_hash h of
           Inl e \<Rightarrow> (Inl e, [EvNotify WSubmitted])
         | Inr definitionHash \<Rightarrow>
             run_finally h p instanceId definitionHash
               (run_try h flow p rec policyPreAdmitted [EvNotify WSubmitted])))"

section \<open>The two runtimes\<close>

definition failed_record :: "run_host \<Rightarrow> run_params \<Rightarrow> string \<Rightarrow> string \<Rightarrow> wf_record" where
  "failed_record h p executionId message = \<lparr>wr_id = executionId,
     wr_workflowId = w_id (pr_workflow p), wr_status = WError, wr_nodeExecutions = [],
     wr_startedAt = rh_started h, wr_endedAt = Some (rh_ended h), wr_rehearsal = False,
     wr_error = Some message\<rparr>"

definition worker_execute :: "run_host \<Rightarrow> (exec_graph \<Rightarrow> dataflow) \<Rightarrow> run_params \<Rightarrow> string
    \<Rightarrow> (js_error + wf_record) \<times> run_event list" where
  "worker_execute h flow p executionId =
     (if \<not> rh_policy h then run h flow p executionId False
      else case rh_admit h of
        Inl e \<Rightarrow> (Inr (failed_record h p executionId (err_message e)), [EvAdmit])
      | Inr a \<Rightarrow>
          if \<not> ad_allowed a \<or> ad_alreadyActive a
          then (Inr (failed_record h p executionId (case ad_reason a of Some r \<Rightarrow> r
                  | None \<Rightarrow> ''Workflow execution is already active'')), [EvAdmit])
          else (case run h flow p executionId True of
                  (Inr rec, evs) \<Rightarrow> (Inr rec, EvAdmit # evs)
                | (Inl e, evs) \<Rightarrow> (Inr (failed_record h p executionId (err_message e)),
                    EvAdmit # evs @ [EvRelease])))"

definition workflow_executeWithStep :: "run_host \<Rightarrow> (exec_graph \<Rightarrow> dataflow) \<Rightarrow> run_params \<Rightarrow> string
    \<Rightarrow> (js_error + wf_record) \<times> run_event list" where
  "workflow_executeWithStep h flow p instanceId =
     (if \<not> rh_policy h then run h flow p instanceId False
      else case rh_admit h of
        Inl e \<Rightarrow> (Inl e, [EvAdmit])
      | Inr a \<Rightarrow>
          if \<not> ad_allowed a
          then (Inl (NonRetryableError (case ad_reason a of Some r \<Rightarrow> r
                  | None \<Rightarrow> ''Workflow execution was rejected by policy'')), [EvAdmit])
          else (case run h flow p instanceId True of (r, evs) \<Rightarrow> (r, EvAdmit # evs)))"

section \<open>Steps\<close>

fun contains_sub :: "string \<Rightarrow> string \<Rightarrow> bool" where
  "contains_sub pat [] = (pat = [])"
| "contains_sub pat (c # cs) = (take (length pat) (c # cs) = pat \<or> contains_sub pat cs)"

definition quota_message :: "string \<Rightarrow> bool" where
  "quota_message m = (let m = js_lower m in
     contains_sub ''limit reached'' m \<or> contains_sub ''quota exceeded'' m)"

text \<open>\<open>answer\<close>: what the policy's \<open>consumeStep\<close> does. A used-up quota is not retried.\<close>

definition consumePolicyStep :: "bool \<Rightarrow> (js_error + unit) \<Rightarrow> string option \<Rightarrow> js_error + unit" where
  "consumePolicyStep policy answer executionId =
     (case executionId of
        None \<Rightarrow> Inr ()
      | Some i \<Rightarrow>
          if i = [] \<or> \<not> policy then Inr ()
          else (case answer of
                  Inr _ \<Rightarrow> Inr ()
                | Inl e \<Rightarrow> if quota_message (err_message e)
                          then Inl (NonRetryableError (err_message e)) else Inl e))"

definition worker_executeStep :: "bool \<Rightarrow> (js_error + unit) \<Rightarrow> string option \<Rightarrow> 'a io \<Rightarrow> 'a io" where
  "worker_executeStep policy answer executionId fn =
     io_bind (io_lift (consumePolicyStep policy answer executionId)) (\<lambda>_. fn)"

definition workflow_sleep_seconds :: "rat \<Rightarrow> int" where
  "workflow_sleep_seconds durationMs = max 1 (ceiling (durationMs / 1000))"

section \<open>Parked nodes\<close>

text \<open>
  The payload of the event: \<open>ev_usage\<close> is read whatever its type, an empty \<open>error\<close> is no
  error. An \<open>error\<close> that is no text is not modelled.
\<close>

record node_event =
  ev_outputs :: "jv jmap option"
  ev_usage :: jv
  ev_error :: string

definition event_usage :: "jv \<Rightarrow> jnum" where
  "event_usage v = (case v of JNum n \<Rightarrow> if is_finite n then n else Fin 0 | _ \<Rightarrow> Fin 0)"

definition resolve_event :: "host \<Rightarrow> run_context \<Rightarrow> exec_graph \<Rightarrow> string \<Rightarrow> node_values option
    \<Rightarrow> node_event \<Rightarrow> node_result io" where
  "resolve_event h ctx g nodeId inputs ev =
     (let usage = event_usage (ev_usage ev) in
      if ev_error ev \<noteq> [] then io_return (Errored nodeId inputs (ev_error ev) (Some usage))
      else case graph_node g nodeId of
        None \<Rightarrow> io_return (Errored nodeId inputs (''Node '' @ nodeId @ '' not found in workflow'') None)
      | Some n \<Rightarrow>
          io_bind (nodeOutputsToApi h n (case ev_outputs ev of Some m \<Rightarrow> m | None \<Rightarrow> [])
                     (rc_organizationId ctx) (Some (rc_executionId ctx)))
            (\<lambda>outputs. io_bind (io_lift (within_limit (JObj outputs) MAX_RUNTIME_OUTPUT_BYTES
                                         (''Outputs for node '' @ nodeId)))
              (\<lambda>_. io_return (Completed nodeId inputs outputs usage))))"

definition resolveAsyncNode :: "host \<Rightarrow> run_context \<Rightarrow> exec_graph \<Rightarrow> node_result
    \<Rightarrow> (js_error + node_event) \<Rightarrow> node_result io" where
  "resolveAsyncNode h ctx g pending event =
     io_catch (io_bind (io_lift event) (resolve_event h ctx g (res_node pending) (result_inputs pending)))
       (\<lambda>e. Errored (res_node pending) (result_inputs pending) (err_message e) None)"

end
