(* ===== verification/Execution_Policy.thy ===== *)
theory Execution_Policy
  imports Flow_Runtime
begin

text \<open>
  \<open>apps/flows/api/src/services/execution-policy.ts\<close>: the quota ledger that admits runs, counts
  their steps and takes their slots back, and the switch that pauses all of them. The tables are
  a record; every SQL statement is one function on it, atomic as in the database. The functions
  of the service run one statement after another and other workers may run theirs between any
  two: \<open>itf k\<close> is what they did before the statement number \<open>k\<close>.
\<close>

section \<open>Settings\<close>

text \<open>The environment: every variable is a text or missing.\<close>

record policy_env =
  pe_cloudflareEnv :: "string option"
  pe_maintenance :: "string option"
  pe_localOnly :: "string option"
  pe_generation :: "string option"
  pe_executionEnabled :: "string option"
  pe_quotasEnabled :: "string option"
  pe_maxDaily :: "string option"
  pe_maxMonthly :: "string option"
  pe_maxConcurrent :: "string option"
  pe_maxNodes :: "string option"
  pe_maxSteps :: "string option"

text \<open>
  \<open>/^[1-9]\d*$/\<close> and a safe integer: digits beyond \<open>2^53 - 1\<close> round to a number that is not safe.
\<close>

definition digit_char :: "char \<Rightarrow> bool" where
  "digit_char c \<longleftrightarrow> c \<in> set ''0123456789''"

definition parsePositiveInteger :: "string option \<Rightarrow> int option" where
  "parsePositiveInteger value = (case value of
     None \<Rightarrow> None
   | Some [] \<Rightarrow> None
   | Some (c # cs) \<Rightarrow>
       if digit_char c \<and> c \<noteq> CHR ''0'' \<and> list_all digit_char cs \<and> digits_value (c # cs) \<le> 2 ^ 53 - 1
       then Some (digits_value (c # cs)) else None)"

definition parsePolicyGeneration :: "string option \<Rightarrow> bool \<Rightarrow> int option" where
  "parsePolicyGeneration value local =
     (if local \<and> value = Some ''0'' then Some 0 else parsePositiveInteger value)"

definition configuredQuotaValues :: "policy_env \<Rightarrow> string option list" where
  "configuredQuotaValues env =
     [pe_maxDaily env, pe_maxMonthly env, pe_maxConcurrent env, pe_maxNodes env, pe_maxSteps env]"

record policy_settings =
  ps_valid :: bool
  ps_executionsEnabled :: bool
  ps_quotasEnabled :: bool
  ps_generation :: "int option"

definition boolean_flag :: "string option \<Rightarrow> bool" where
  "boolean_flag v \<longleftrightarrow> v = Some ''true'' \<or> v = Some ''false''"

definition is_local :: "policy_env \<Rightarrow> bool" where
  "is_local env \<longleftrightarrow> pe_cloudflareEnv env = Some ''development'' \<or>
     (pe_cloudflareEnv env = None \<and> pe_localOnly env = Some ''true'')"

definition policySettings :: "policy_env \<Rightarrow> policy_settings" where
  "policySettings env =
     (let local = is_local env;
          generation = (if pe_generation env = None \<and> local then Some 0
                        else parsePolicyGeneration (pe_generation env) local);
          invalid = \<lparr>ps_valid = False, ps_executionsEnabled = False, ps_quotasEnabled = False,
                     ps_generation = generation\<rparr> in
      if generation = None then invalid
      else if local \<and> pe_executionEnabled env = None \<and> pe_quotasEnabled env = None
      then \<lparr>ps_valid = True, ps_executionsEnabled = pe_maintenance env \<noteq> Some ''true'',
             ps_quotasEnabled = False, ps_generation = generation\<rparr>
      else if \<not> boolean_flag (pe_executionEnabled env) \<or> \<not> boolean_flag (pe_quotasEnabled env) then invalid
      else (let executionsEnabled = (pe_executionEnabled env = Some ''true'' \<and> pe_maintenance env \<noteq> Some ''true'');
                quotasEnabled = (pe_quotasEnabled env = Some ''true'') in
        if executionsEnabled \<and> \<not> (local \<and> \<not> quotasEnabled) \<and>
           (\<not> quotasEnabled \<or> \<not> list_all (\<lambda>v. parsePositiveInteger v \<noteq> None) (configuredQuotaValues env))
        then invalid
        else \<lparr>ps_valid = True, ps_executionsEnabled = executionsEnabled,
               ps_quotasEnabled = quotasEnabled, ps_generation = generation\<rparr>))"

record quota_limits =
  ql_maxDailyRuns :: int
  ql_maxMonthlyRuns :: int
  ql_maxConcurrentRuns :: int
  ql_maxNodesPerRun :: int
  ql_maxStepsPerRun :: int

definition limits_of :: "policy_env \<Rightarrow> quota_limits option" where
  "limits_of env = (case map parsePositiveInteger (configuredQuotaValues env) of
     [Some d, Some m, Some c, Some n, Some s] \<Rightarrow>
       Some \<lparr>ql_maxDailyRuns = d, ql_maxMonthlyRuns = m, ql_maxConcurrentRuns = c,
              ql_maxNodesPerRun = n, ql_maxStepsPerRun = s\<rparr>
   | _ \<Rightarrow> None)"

section \<open>The tables\<close>

record policy_row =
  pw_organization :: string
  pw_workflow :: string
  pw_createdAt :: int
  pw_completed :: bool
  pw_active :: bool
  pw_steps :: int
  pw_maxSteps :: int
  pw_leaseUntil :: int

record policy_control =
  pc_paused :: bool
  pc_updatedAt :: int
  pc_generation :: int

text \<open>A table that does not exist yet reads as an empty one.\<close>

record ledger =
  lg_control :: "policy_control option"
  lg_rows :: "policy_row jmap"

definition EXECUTION_LEASE_MS :: int where
  "EXECUTION_LEASE_MS = 20 * 60 * 1000"

definition live_row :: "int \<Rightarrow> policy_row \<Rightarrow> bool" where
  "live_row t r \<longleftrightarrow> pw_active r \<and> \<not> pw_completed r \<and> t < pw_leaseUntil r"

definition count_rows :: "(policy_row \<Rightarrow> bool) \<Rightarrow> ledger \<Rightarrow> int" where
  "count_rows P lg = int (length (filter (\<lambda>(i, r). P r) (lg_rows lg)))"

definition live_count :: "int \<Rightarrow> ledger \<Rightarrow> int" where
  "live_count t lg = count_rows (live_row t) lg"

definition created_since :: "int \<Rightarrow> ledger \<Rightarrow> int" where
  "created_since t lg = count_rows (\<lambda>r. t \<le> pw_createdAt r) lg"

text \<open>\<open>COALESCE((SELECT paused ...), 0) = 0\<close>\<close>

definition not_paused :: "ledger \<Rightarrow> bool" where
  "not_paused lg = (case lg_control lg of None \<Rightarrow> True | Some c \<Rightarrow> \<not> pc_paused c)"

definition set_row :: "string \<Rightarrow> policy_row \<Rightarrow> ledger \<Rightarrow> ledger" where
  "set_row i r lg = lg\<lparr>lg_rows := jset (lg_rows lg) i r\<rparr>"

section \<open>The statements\<close>

text \<open>Each returns whether it changed a row.\<close>

definition stmt_insert :: "quota_limits \<Rightarrow> int \<Rightarrow> int \<Rightarrow> int \<Rightarrow> string \<Rightarrow> string \<Rightarrow> string
    \<Rightarrow> ledger \<Rightarrow> bool \<times> ledger" where
  "stmt_insert q timestamp startOfDay startOfMonth i organizationId workflowId lg =
     (if jget (lg_rows lg) i = None \<and> not_paused lg
         \<and> created_since startOfDay lg < ql_maxDailyRuns q
         \<and> created_since startOfMonth lg < ql_maxMonthlyRuns q
         \<and> live_count timestamp lg < ql_maxConcurrentRuns q
      then (True, set_row i \<lparr>pw_organization = organizationId, pw_workflow = workflowId,
              pw_createdAt = timestamp, pw_completed = False, pw_active = True, pw_steps = 0,
              pw_maxSteps = ql_maxStepsPerRun q, pw_leaseUntil = timestamp + EXECUTION_LEASE_MS\<rparr> lg)
      else (False, lg))"

definition stmt_reacquire :: "quota_limits \<Rightarrow> int \<Rightarrow> string \<Rightarrow> ledger \<Rightarrow> bool \<times> ledger" where
  "stmt_reacquire q timestamp i lg = (case jget (lg_rows lg) i of
     None \<Rightarrow> (False, lg)
   | Some r \<Rightarrow>
       if \<not> pw_completed r \<and> \<not> pw_active r \<and> not_paused lg \<and> live_count timestamp lg < ql_maxConcurrentRuns q
       then (True, set_row i (r\<lparr>pw_active := True, pw_leaseUntil := timestamp + EXECUTION_LEASE_MS\<rparr>) lg)
       else (False, lg))"

definition stmt_reclaim :: "quota_limits \<Rightarrow> int \<Rightarrow> string \<Rightarrow> ledger \<Rightarrow> bool \<times> ledger" where
  "stmt_reclaim q timestamp i lg = (case jget (lg_rows lg) i of
     None \<Rightarrow> (False, lg)
   | Some r \<Rightarrow>
       if \<not> pw_completed r \<and> pw_active r \<and> pw_leaseUntil r \<le> timestamp \<and> not_paused lg
          \<and> live_count timestamp lg < ql_maxConcurrentRuns q
       then (True, set_row i (r\<lparr>pw_leaseUntil := timestamp + EXECUTION_LEASE_MS\<rparr>) lg)
       else (False, lg))"

definition stmt_consume :: "quota_limits \<Rightarrow> int \<Rightarrow> string \<Rightarrow> ledger \<Rightarrow> bool \<times> ledger" where
  "stmt_consume q timestamp i lg = (case jget (lg_rows lg) i of
     None \<Rightarrow> (False, lg)
   | Some r \<Rightarrow>
       if \<not> pw_completed r \<and> pw_steps r < ql_maxStepsPerRun q \<and> not_paused lg \<and>
          (pw_active r \<and> timestamp < pw_leaseUntil r \<or>
           (\<not> pw_active r \<or> pw_leaseUntil r \<le> timestamp) \<and> live_count timestamp lg < ql_maxConcurrentRuns q)
       then (True, set_row i (r\<lparr>pw_steps := pw_steps r + 1, pw_active := True,
               pw_leaseUntil := timestamp + EXECUTION_LEASE_MS\<rparr>) lg)
       else (False, lg))"

definition stmt_release :: "string \<Rightarrow> bool \<Rightarrow> ledger \<Rightarrow> ledger" where
  "stmt_release i terminal lg = (case jget (lg_rows lg) i of
     None \<Rightarrow> lg
   | Some r \<Rightarrow> set_row i (r\<lparr>pw_active := False, pw_completed := terminal, pw_leaseUntil := 0\<rparr>) lg)"

definition stmt_pause :: "bool \<Rightarrow> int \<Rightarrow> int \<Rightarrow> ledger \<Rightarrow> ledger" where
  "stmt_pause paused timestamp generation lg =
     (let new = \<lparr>pc_paused = paused, pc_updatedAt = timestamp, pc_generation = generation\<rparr> in
      case lg_control lg of
        None \<Rightarrow> lg\<lparr>lg_control := Some new\<rparr>
      | Some c \<Rightarrow>
          if pc_generation c < generation \<or> (generation = pc_generation c \<and> (pc_paused c \<longrightarrow> paused))
          then lg\<lparr>lg_control := Some new\<rparr> else lg)"

section \<open>The service\<close>

text \<open>The interference: what other workers did to the tables before a statement.\<close>

type_synonym interference = "nat \<Rightarrow> ledger \<Rightarrow> ledger"

definition syncExecutionPolicyPause :: "policy_env \<Rightarrow> int \<Rightarrow> interference \<Rightarrow> ledger \<Rightarrow> ledger" where
  "syncExecutionPolicyPause env timestamp itf lg =
     (let settings = policySettings env;
          paused = (\<not> ps_valid settings \<or> \<not> ps_executionsEnabled settings) in
      case ps_generation settings of
        Some generation \<Rightarrow> stmt_pause paused timestamp generation (itf 0 lg)
      | None \<Rightarrow>
          (let lg = itf 0 lg;
               generation = (case lg_control lg of Some c \<Rightarrow> pc_generation c | None \<Rightarrow> 0) in
           stmt_pause paused timestamp generation (itf 1 lg)))"

definition persistedPause :: "policy_settings \<Rightarrow> ledger \<Rightarrow> bool" where
  "persistedPause settings lg = (case lg_control lg of
     Some c \<Rightarrow> pc_paused c
   | None \<Rightarrow> \<not> ps_valid settings \<or> \<not> ps_executionsEnabled settings)"

text \<open>The day and the month of a time, in UTC.\<close>

definition start_of_day :: "int \<Rightarrow> int" where
  "start_of_day t = 86400000 * (t div 86400000)"

definition start_of_month :: "int \<Rightarrow> int" where
  "start_of_month t = (case civil_of_days (t div 86400000) of
     (y, m, d) \<Rightarrow> 86400000 * (t div 86400000 - (d - 1)))"

record admission_input =
  ai_executionId :: string
  ai_organizationId :: string
  ai_workflowId :: string
  ai_nodeCount :: jnum

definition allow :: "bool \<Rightarrow> js_error + admission" where
  "allow alreadyActive = Inr \<lparr>ad_allowed = True, ad_reason = None, ad_alreadyActive = alreadyActive\<rparr>"

definition reject :: "string \<Rightarrow> js_error + admission" where
  "reject reason = Inr \<lparr>ad_allowed = False, ad_reason = Some reason, ad_alreadyActive = False\<rparr>"

text \<open>A row that exists: a live one is the same run again, one without its slot tries to get it back.\<close>

definition admit_existing :: "quota_limits \<Rightarrow> int \<Rightarrow> string \<Rightarrow> policy_row \<Rightarrow> interference \<Rightarrow> ledger
    \<Rightarrow> (js_error + admission) \<times> ledger" where
  "admit_existing q timestamp i existing itf lg =
     (if pw_completed existing then (reject ''Execution has already finished'', lg)
      else if pw_active existing \<and> timestamp < pw_leaseUntil existing then (allow True, lg)
      else (case stmt_reacquire q timestamp i (itf 2 lg) of
              (True, lg) \<Rightarrow> (allow False, lg)
            | (False, lg) \<Rightarrow>
                if pw_active existing
                then (case stmt_reclaim q timestamp i (itf 3 lg) of
                        (True, lg) \<Rightarrow> (allow False, lg)
                      | (False, lg) \<Rightarrow> (reject ''Concurrent execution limit reached'', lg))
                else (reject ''Concurrent execution limit reached'', lg)))"

definition admit_new :: "quota_limits \<Rightarrow> int \<Rightarrow> admission_input \<Rightarrow> interference \<Rightarrow> ledger
    \<Rightarrow> (js_error + admission) \<times> ledger" where
  "admit_new q timestamp input itf lg =
     (case stmt_insert q timestamp (start_of_day timestamp) (start_of_month timestamp)
             (ai_executionId input) (ai_organizationId input) (ai_workflowId input) (itf 2 lg) of
        (True, lg) \<Rightarrow> (allow False, lg)
      | (False, lg) \<Rightarrow>
          (let lg = itf 3 lg in
           if (case jget (lg_rows lg) (ai_executionId input) of
                 Some raced \<Rightarrow> \<not> pw_completed raced \<and> pw_active raced | None \<Rightarrow> False)
           then (allow True, lg)
           else (let lg = itf 4 lg in
             if ql_maxConcurrentRuns q \<le> live_count timestamp lg
             then (reject ''Concurrent execution limit reached'', lg)
             else if ql_maxDailyRuns q \<le> created_since (start_of_day timestamp) lg
             then (reject ''Daily execution limit reached'', lg)
             else (reject ''Monthly execution limit reached'', lg))))"

definition is_integer_num :: "jnum \<Rightarrow> bool" where
  "is_integer_num n = (case n of Fin r \<Rightarrow> r = of_int \<lfloor>r\<rfloor> | _ \<Rightarrow> False)"

definition quota_invalid :: js_error where
  "quota_invalid = PlainError ''Execution quota configuration is invalid; all SAVIA_FLOWS_MAX_* values must be positive integers''"

definition admit :: "policy_env \<Rightarrow> int \<Rightarrow> admission_input \<Rightarrow> interference \<Rightarrow> ledger
    \<Rightarrow> (js_error + admission) \<times> ledger" where
  "admit env timestamp input itf lg =
     (let settings = policySettings env in
      if \<not> ps_valid settings then (reject ''Execution policy configuration is invalid'', lg)
      else if \<not> ps_executionsEnabled settings then (reject ''Workflow executions are paused'', lg)
      else (let lg = itf 0 lg in
        if persistedPause settings lg then (reject ''Workflow executions are paused'', lg)
        else if \<not> ps_quotasEnabled settings then (allow False, lg)
        else case limits_of env of
          None \<Rightarrow> (Inl quota_invalid, lg)
        | Some q \<Rightarrow>
            if \<not> is_integer_num (ai_nodeCount input) \<or> js_lt (ai_nodeCount input) (Fin 0)
            then (Inl (PlainError ''Execution node count is invalid''), lg)
            else if js_lt (Fin (of_int (ql_maxNodesPerRun q))) (ai_nodeCount input)
            then (reject ''Workflow exceeds the node limit'', lg)
            else (let lg = itf 1 lg in
              case jget (lg_rows lg) (ai_executionId input) of
                Some existing \<Rightarrow> admit_existing q timestamp (ai_executionId input) existing itf lg
              | None \<Rightarrow> admit_new q timestamp input itf lg)))"

definition paused_error :: js_error where
  "paused_error = PlainError ''Workflow executions are paused''"

definition consume_failure :: "quota_limits \<Rightarrow> policy_settings \<Rightarrow> string \<Rightarrow> interference \<Rightarrow> ledger
    \<Rightarrow> (js_error + unit) \<times> ledger" where
  "consume_failure q settings i itf lg =
     (let lg = itf 2 lg in
      if persistedPause settings lg then (Inl paused_error, lg)
      else (let lg = itf 3 lg in
        case jget (lg_rows lg) i of
          Some r \<Rightarrow>
            if \<not> pw_completed r \<and> ql_maxStepsPerRun q \<le> pw_steps r
            then (Inl (PlainError ''Workflow execution step limit reached''), lg)
            else if \<not> pw_completed r then (Inl (PlainError ''Concurrent execution limit reached''), lg)
            else (Inl (PlainError ''Workflow execution reservation is not active''), lg)
        | None \<Rightarrow> (Inl (PlainError ''Workflow execution reservation is not active''), lg)))"

definition consumeStep :: "policy_env \<Rightarrow> int \<Rightarrow> string \<Rightarrow> interference \<Rightarrow> ledger
    \<Rightarrow> (js_error + unit) \<times> ledger" where
  "consumeStep env timestamp i itf lg =
     (let settings = policySettings env in
      if \<not> ps_valid settings then (Inl (PlainError ''Execution policy configuration is invalid''), lg)
      else if \<not> ps_executionsEnabled settings then (Inl paused_error, lg)
      else (let lg = itf 0 lg in
        if persistedPause settings lg then (Inl paused_error, lg)
        else if \<not> ps_quotasEnabled settings then (Inr (), lg)
        else case limits_of env of
          None \<Rightarrow> (Inl quota_invalid, lg)
        | Some q \<Rightarrow>
            (case stmt_consume q timestamp i (itf 1 lg) of
               (True, lg) \<Rightarrow> (Inr (), lg)
             | (False, lg) \<Rightarrow> consume_failure q settings i itf lg)))"

definition policy_release :: "policy_env \<Rightarrow> string \<Rightarrow> bool \<Rightarrow> ledger \<Rightarrow> ledger" where
  "policy_release env i terminal lg =
     (if pe_quotasEnabled env \<noteq> Some ''true'' then lg else stmt_release i terminal lg)"

record policy_status =
  st_executionsEnabled :: bool
  st_quotasEnabled :: bool
  st_activeRuns :: int

definition policyStatus :: "policy_env \<Rightarrow> int \<Rightarrow> interference \<Rightarrow> ledger \<Rightarrow> policy_status" where
  "policyStatus env timestamp itf lg =
     (let settings = policySettings env; lg = itf 0 lg;
          globallyPaused = (case lg_control lg of Some c \<Rightarrow> pc_paused c
            | None \<Rightarrow> \<not> ps_valid settings \<or> \<not> ps_executionsEnabled settings) in
      \<lparr>st_executionsEnabled = ps_valid settings \<and> ps_executionsEnabled settings \<and> \<not> globallyPaused,
       st_quotasEnabled = ps_valid settings \<and> ps_quotasEnabled settings,
       st_activeRuns = live_count timestamp (itf 1 lg)\<rparr>)"

end
