(* ===== verification/Policy_Ledger.thy ===== *)
theory Policy_Ledger
  imports Execution_Policy
begin

text \<open>
  What the quota ledger promises, for every interleaving of the statements of any number of
  workers: the bounds on running and on counted runs and on steps, and the finality of a
  terminal release.
\<close>

section \<open>Counting rows\<close>

lemma filter_jset_new:
  "jget m i = None \<Longrightarrow> length (filter Q (jset m i r)) = length (filter Q m) + (if Q (i, r) then 1 else 0)"
  by (induction m) (auto split: if_splits)

lemma filter_jset_old:
  "jget m i = Some r0 \<Longrightarrow>
   length (filter Q (jset m i r)) + (if Q (i, r0) then 1 else 0) =
   length (filter Q m) + (if Q (i, r) then 1 else 0)"
  by (induction m) (auto split: if_splits)

lemma lg_rows_set_row [simp]: "lg_rows (set_row i r lg) = jset (lg_rows lg) i r"
  "lg_control (set_row i r lg) = lg_control lg"
  by (simp_all add: set_row_def)

text \<open>The rows other than \<open>i\<close>.\<close>

definition others :: "(policy_row \<Rightarrow> bool) \<Rightarrow> string \<Rightarrow> ledger \<Rightarrow> int" where
  "others P i lg = count_rows P lg -
     (case jget (lg_rows lg) i of Some r \<Rightarrow> (if P r then 1 else 0) | None \<Rightarrow> 0)"

lemma count_set_row: "count_rows P (set_row i r lg) = others P i lg + (if P r then 1 else 0)"
proof (cases "jget (lg_rows lg) i")
  case None
  then show ?thesis by (simp add: count_rows_def others_def filter_jset_new)
next
  case (Some r0)
  then show ?thesis
    using filter_jset_old [OF Some, of "\<lambda>(i, r). P r" r]
    by (simp add: count_rows_def others_def split: if_splits)
qed

lemma filter_length_mono: "(\<And>r. P r \<Longrightarrow> Q r) \<Longrightarrow>
    length (filter (\<lambda>(i, r). P r) m) \<le> length (filter (\<lambda>(i, r). Q r) m)"
  by (induction m) (auto simp: le_SucI)

lemma count_mono: "(\<And>r. P r \<Longrightarrow> Q r) \<Longrightarrow> count_rows P lg \<le> count_rows Q lg"
  using filter_length_mono [of P Q "lg_rows lg"] by (simp add: count_rows_def)

definition own :: "(policy_row \<Rightarrow> bool) \<Rightarrow> string \<Rightarrow> policy_row jmap \<Rightarrow> int" where
  "own P i m = (case jget m i of Some r \<Rightarrow> (if P r then 1 else 0) | None \<Rightarrow> 0)"

lemma others_own: "others P i lg = count_rows P lg - own P i (lg_rows lg)"
  by (simp add: others_def own_def)

lemma others_mono:
  assumes "\<And>r. P r \<Longrightarrow> Q r"
  shows "others P i lg \<le> others Q i lg"
proof -
  have "int (length (filter (\<lambda>(i, r). P r) m)) - own P i m
      \<le> int (length (filter (\<lambda>(i, r). Q r) m)) - own Q i m" for m
  proof (induction m)
    case Nil
    then show ?case by (simp add: own_def)
  next
    case (Cons kr m)
    obtain k r where kr: "kr = (k, r)" by fastforce
    show ?case
    proof (cases "k = i")
      case True
      then show ?thesis using filter_length_mono [of P Q m] assms by (simp add: kr own_def)
    next
      case False
      then have "own P i (kr # m) = own P i m" "own Q i (kr # m) = own Q i m"
        by (simp_all add: kr own_def)
      then show ?thesis using Cons assms by (auto simp: kr)
    qed
  qed
  then show ?thesis by (simp add: others_own count_rows_def)
qed

lemma others_le: "others P i lg \<le> count_rows P lg"
  by (simp add: others_def split: option.split)

lemma live_row_mono: "t \<le> t' \<Longrightarrow> live_row t' r \<Longrightarrow> live_row t r"
  by (auto simp: live_row_def)

lemma live_count_mono: "t \<le> t' \<Longrightarrow> live_count t' lg \<le> live_count t lg"
  unfolding live_count_def by (rule count_mono) (rule live_row_mono)

text \<open>Giving one row a slot, when the others leave one free at some time before.\<close>

lemma live_grow:
  assumes "others (live_row u) i lg < b" and "u \<le> t"
  shows "live_count t (set_row i r lg) \<le> b"
  using others_mono [of "live_row t" "live_row u" i lg] live_row_mono [OF assms(2)] assms(1)
  by (force simp: live_count_def count_set_row)

lemma live_shrink: "\<not> live_row t r \<Longrightarrow> live_count t (set_row i r lg) \<le> live_count t lg"
  using others_le [of "live_row t" i lg] by (simp add: live_count_def count_set_row)

section \<open>Days and months\<close>

lemma day_of_month_pos: "civil_of_days z = (y, m, d) \<Longrightarrow> 1 \<le> d"
proof -
  assume c: "civil_of_days z = (y, m, d)"
  obtain doy where "d = doy - (153 * ((5 * doy + 2) div 153) + 2) div 5 + 1"
    using c unfolding civil_of_days_def Let_def prod.inject by blast
  moreover have "(153 * ((5 * doy + 2) div 153) + 2) div 5 \<le> doy"
  proof -
    have "153 * ((5 * doy + 2) div 153) \<le> 5 * doy + 2" by simp
    then have "153 * ((5 * doy + 2) div 153) + 2 < (doy + 1) * 5" by simp
    then show ?thesis by linarith
  qed
  ultimately show ?thesis by simp
qed

lemma start_of_day_le: "start_of_day t \<le> t"
  unfolding start_of_day_def by simp

lemma start_of_month_le: "start_of_month t \<le> t"
proof -
  obtain y m d where c: "civil_of_days (t div 86400000) = (y, m, d)" by (metis prod.exhaust)
  have "86400000 * (t div 86400000 - (d - 1)) \<le> 86400000 * (t div 86400000)"
    using day_of_month_pos [OF c] by simp
  also have "\<dots> \<le> t" by simp
  finally show ?thesis by (simp add: start_of_month_def c)
qed

section \<open>Statements as steps\<close>

datatype policy_op =
    OpInsert int string string string
  | OpReacquire int string
  | OpReclaim int string
  | OpConsume int string
  | OpRelease string bool
  | OpPause bool int int

fun apply_op :: "quota_limits \<Rightarrow> policy_op \<Rightarrow> ledger \<Rightarrow> ledger" where
  "apply_op q (OpInsert t i org w) lg = snd (stmt_insert q t (start_of_day t) (start_of_month t) i org w lg)"
| "apply_op q (OpReacquire t i) lg = snd (stmt_reacquire q t i lg)"
| "apply_op q (OpReclaim t i) lg = snd (stmt_reclaim q t i lg)"
| "apply_op q (OpConsume t i) lg = snd (stmt_consume q t i lg)"
| "apply_op q (OpRelease i terminal) lg = stmt_release i terminal lg"
| "apply_op q (OpPause paused t generation) lg = stmt_pause paused t generation lg"

text \<open>The time the clock of the worker showed, and whether a renewal is no older than \<open>T\<close>.\<close>

fun op_time :: "policy_op \<Rightarrow> int option" where
  "op_time (OpInsert t _ _ _) = Some t"
| "op_time (OpReacquire t _) = Some t"
| "op_time (OpReclaim t _) = Some t"
| "op_time (OpConsume t _) = Some t"
| "op_time _ = None"

fun timely :: "int \<Rightarrow> policy_op \<Rightarrow> bool" where
  "timely T (OpConsume t _) = (T \<le> t)"
| "timely T _ = True"

definition later :: "int \<Rightarrow> policy_op \<Rightarrow> int" where
  "later T op = (case op_time op of Some t \<Rightarrow> max T t | None \<Rightarrow> T)"

text \<open>The tables that the statements of any number of workers can lead to; \<open>T\<close>: the latest time used.\<close>

inductive ledger_reach :: "quota_limits \<Rightarrow> int \<Rightarrow> ledger \<Rightarrow> bool" for q where
  empty: "ledger_reach q T \<lparr>lg_control = None, lg_rows = []\<rparr>"
| step: "ledger_reach q T lg \<Longrightarrow> timely T op \<Longrightarrow> ledger_reach q (later T op) (apply_op q op lg)"

section \<open>The bounds\<close>

definition live_bounded :: "quota_limits \<Rightarrow> int \<Rightarrow> ledger \<Rightarrow> bool" where
  "live_bounded q T lg \<longleftrightarrow> (\<forall>t \<ge> T. live_count t lg \<le> ql_maxConcurrentRuns q)"

lemma live_boundedI: "(\<And>t. T \<le> t \<Longrightarrow> live_count t lg \<le> ql_maxConcurrentRuns q) \<Longrightarrow> live_bounded q T lg"
  by (simp add: live_bounded_def)

lemma live_bounded_mono: "live_bounded q T lg \<Longrightarrow> T \<le> T' \<Longrightarrow> live_bounded q T' lg"
  by (auto simp: live_bounded_def)

text \<open>A statement that gives a row a slot after it counted a free one.\<close>

lemma live_bounded_grow:
  assumes "live_count u lg < ql_maxConcurrentRuns q"
  shows "live_bounded q (max T u) (set_row i r lg)"
proof (rule live_boundedI)
  fix t
  assume "max T u \<le> t"
  then show "live_count t (set_row i r lg) \<le> ql_maxConcurrentRuns q"
    using live_grow [of u i lg "ql_maxConcurrentRuns q" t r] others_le [of "live_row u" i lg] assms
    by (simp add: live_count_def)
qed

lemma live_bounded_renew:
  assumes "live_bounded q T lg" and "jget (lg_rows lg) i = Some r" and "live_row u r" and "T \<le> u"
  shows "live_bounded q (max T u) (set_row i r' lg)"
proof (rule live_boundedI)
  fix t
  assume t: "max T u \<le> t"
  have "live_count u lg \<le> ql_maxConcurrentRuns q" using assms by (simp add: live_bounded_def)
  then have "others (live_row u) i lg < ql_maxConcurrentRuns q"
    using assms(2,3) by (simp add: others_def live_count_def)
  then show "live_count t (set_row i r' lg) \<le> ql_maxConcurrentRuns q"
    by (rule live_grow) (use t in simp)
qed

lemma apply_live_bounded:
  assumes "live_bounded q T lg" and "timely T op"
  shows "live_bounded q (later T op) (apply_op q op lg)"
proof (cases op)
  case (OpInsert t i org w)
  then show ?thesis
    using live_bounded_mono [OF assms(1)] live_bounded_grow
    by (auto simp: later_def stmt_insert_def)
next
  case (OpReacquire t i)
  then show ?thesis
    using live_bounded_mono [OF assms(1)] live_bounded_grow
    by (auto simp: later_def stmt_reacquire_def split: option.split)
next
  case (OpReclaim t i)
  then show ?thesis
    using live_bounded_mono [OF assms(1)] live_bounded_grow
    by (auto simp: later_def stmt_reclaim_def split: option.split)
next
  case (OpConsume t i)
  then show ?thesis
    using live_bounded_mono [OF assms(1)] live_bounded_grow [of t lg q t] live_bounded_renew [OF assms(1)] assms(2)
    by (auto simp: later_def stmt_consume_def live_row_def split: option.split)
next
  case (OpRelease i terminal)
  have "live_count t (set_row i (r\<lparr>pw_active := False, pw_completed := terminal, pw_leaseUntil := 0\<rparr>) lg)
      \<le> live_count t lg" for t r
    by (rule live_shrink) (simp add: live_row_def)
  then show ?thesis using assms(1) OpRelease
    by (fastforce simp: later_def stmt_release_def live_bounded_def split: option.split intro: order_trans)
next
  case (OpPause paused t generation)
  have "live_count u (stmt_pause paused t generation lg) = live_count u lg" for u
    by (simp add: stmt_pause_def Let_def live_count_def count_rows_def split: option.split)
  then show ?thesis using assms(1) OpPause by (simp add: later_def live_bounded_def)
qed

text \<open>How many runs the window of a time holds; \<open>f\<close>: the start of its day or of its month.\<close>

definition window_count :: "(int \<Rightarrow> int) \<Rightarrow> int \<Rightarrow> ledger \<Rightarrow> int" where
  "window_count f w lg = count_rows (\<lambda>r. f (pw_createdAt r) = w) lg"

definition steps_bounded :: "quota_limits \<Rightarrow> ledger \<Rightarrow> bool" where
  "steps_bounded q lg \<longleftrightarrow> (\<forall>i r. jget (lg_rows lg) i = Some r \<longrightarrow> 0 \<le> pw_steps r \<and> pw_steps r \<le> ql_maxStepsPerRun q)"

lemma window_set_row:
  "jget (lg_rows lg) i = Some r0 \<Longrightarrow> pw_createdAt r = pw_createdAt r0 \<Longrightarrow>
   window_count f w (set_row i r lg) = window_count f w lg"
  by (simp add: window_count_def count_set_row others_def)

lemma window_new:
  assumes "jget (lg_rows lg) i = None" and "\<And>t. f t \<le> t" and "created_since (f (pw_createdAt r)) lg < b"
    and "window_count f w lg \<le> b"
  shows "window_count f w (set_row i r lg) \<le> b"
proof (cases "f (pw_createdAt r) = w")
  case True
  have "window_count f w lg \<le> created_since w lg"
    unfolding window_count_def created_since_def by (rule count_mono) (use assms(2) in auto)
  then show ?thesis using True assms(1,3)
    by (simp add: window_count_def count_set_row others_def)
next
  case False
  then show ?thesis using assms(1,4) by (simp add: window_count_def count_set_row others_def)
qed

lemma apply_window:
  assumes "window_count start_of_day w lg \<le> ql_maxDailyRuns q"
  shows "window_count start_of_day w (apply_op q op lg) \<le> ql_maxDailyRuns q"
  using assms window_new [OF _ start_of_day_le, of lg] window_set_row
  by (cases op) (auto simp: stmt_insert_def stmt_reacquire_def stmt_reclaim_def stmt_consume_def
      stmt_release_def stmt_pause_def window_count_def count_rows_def Let_def split: option.split)

lemma apply_window_month:
  assumes "window_count start_of_month w lg \<le> ql_maxMonthlyRuns q"
  shows "window_count start_of_month w (apply_op q op lg) \<le> ql_maxMonthlyRuns q"
  using assms window_new [OF _ start_of_month_le, of lg] window_set_row
  by (cases op) (auto simp: stmt_insert_def stmt_reacquire_def stmt_reclaim_def stmt_consume_def
      stmt_release_def stmt_pause_def window_count_def count_rows_def Let_def split: option.split)

lemma apply_steps:
  assumes "steps_bounded q lg" and "0 \<le> ql_maxStepsPerRun q"
  shows "steps_bounded q (apply_op q op lg)"
  using assms
  by (cases op) (auto simp: steps_bounded_def stmt_insert_def stmt_reacquire_def stmt_reclaim_def
      stmt_consume_def stmt_release_def stmt_pause_def Let_def jget_jset split: option.split if_splits)

definition quota_ok :: "quota_limits \<Rightarrow> bool" where
  "quota_ok q \<longleftrightarrow> 0 < ql_maxDailyRuns q \<and> 0 < ql_maxMonthlyRuns q \<and> 0 < ql_maxConcurrentRuns q \<and>
     0 < ql_maxNodesPerRun q \<and> 0 < ql_maxStepsPerRun q"

lemma reach_bounds:
  assumes "ledger_reach q T lg" and "quota_ok q"
  shows "live_bounded q T lg" and "window_count start_of_day w lg \<le> ql_maxDailyRuns q"
    and "window_count start_of_month w lg \<le> ql_maxMonthlyRuns q" and "steps_bounded q lg"
  using assms(1)
proof (induction rule: ledger_reach.induct)
  case (empty T)
  { case 1 then show ?case using assms(2) by (simp add: live_bounded_def live_count_def count_rows_def quota_ok_def) }
  { case 2 then show ?case using assms(2) by (simp add: window_count_def count_rows_def quota_ok_def) }
  { case 3 then show ?case using assms(2) by (simp add: window_count_def count_rows_def quota_ok_def) }
  { case 4 then show ?case by (simp add: steps_bounded_def) }
next
  case (step T lg op)
  { case 1 then show ?case using step apply_live_bounded by blast }
  { case 2 then show ?case using step apply_window by blast }
  { case 3 then show ?case using step apply_window_month by blast }
  { case 4 then show ?case using step apply_steps assms(2) by (simp add: quota_ok_def) }
qed

section \<open>The configured limits\<close>

lemma digits_value_append: "digits_value (ds @ [c]) = 10 * digits_value ds + (of_char c - 48)"
  by (simp add: digits_value_def)

lemma digit_char_range: "digit_char c \<Longrightarrow> 48 \<le> (of_char c :: int) \<and> (of_char c :: int) \<le> 57"
  by (auto simp: digit_char_def)

lemma digits_value_nonneg: "list_all digit_char ds \<Longrightarrow> 0 \<le> digits_value ds"
  by (induction ds rule: rev_induct)
    (simp_all add: digits_value_append, simp add: digits_value_def, force dest: digit_char_range)

lemma digits_value_pos: "list_all digit_char cs \<Longrightarrow> digit_char c \<Longrightarrow> c \<noteq> CHR ''0'' \<Longrightarrow> 0 < digits_value (c # cs)"
proof (induction cs rule: rev_induct)
  case Nil
  then show ?case by (auto simp: digits_value_def digit_char_def)
next
  case (snoc d ds)
  then show ?case
    using digits_value_append [of "c # ds" d] digit_char_range [of d] by simp
qed

lemma parse_positive: "parsePositiveInteger v = Some n \<Longrightarrow> 0 < n \<and> n \<le> 2 ^ 53 - 1"
  by (auto simp: parsePositiveInteger_def digits_value_pos split: option.splits list.splits if_splits)

lemma limits_ok: "limits_of env = Some q \<Longrightarrow> quota_ok q"
  by (auto simp: limits_of_def configuredQuotaValues_def quota_ok_def dest!: parse_positive
      split: list.splits option.splits)

lemma limits_exist:
  assumes "ps_executionsEnabled (policySettings env)" and "ps_quotasEnabled (policySettings env)"
  shows "\<exists>q. limits_of env = Some q"
proof -
  have "list_all (\<lambda>v. parsePositiveInteger v \<noteq> None) (configuredQuotaValues env)"
    using assms by (auto simp: policySettings_def Let_def split: if_splits)
  then show ?thesis by (auto simp: limits_of_def configuredQuotaValues_def)
qed

section \<open>The service makes such steps\<close>

definition reachable :: "quota_limits \<Rightarrow> ledger \<Rightarrow> bool" where
  "reachable q lg \<longleftrightarrow> (\<exists>T. ledger_reach q T lg)"

lemma reachable_op: "reachable q lg \<Longrightarrow> (\<And>t i. op \<noteq> OpConsume t i) \<Longrightarrow> reachable q (apply_op q op lg)"
  unfolding reachable_def by (cases op) (metis ledger_reach.step timely.simps)+

lemma reachable_insert:
  "stmt_insert q t (start_of_day t) (start_of_month t) i org w lg = (b, lg') \<Longrightarrow> reachable q lg \<Longrightarrow> reachable q lg'"
  using reachable_op [of q lg "OpInsert t i org w"] by simp

lemma reachable_reacquire: "stmt_reacquire q t i lg = (b, lg') \<Longrightarrow> reachable q lg \<Longrightarrow> reachable q lg'"
  using reachable_op [of q lg "OpReacquire t i"] by simp

lemma reachable_reclaim: "stmt_reclaim q t i lg = (b, lg') \<Longrightarrow> reachable q lg \<Longrightarrow> reachable q lg'"
  using reachable_op [of q lg "OpReclaim t i"] by simp

text \<open>Other workers that only run statements of this service.\<close>

definition itf_ok :: "quota_limits \<Rightarrow> interference \<Rightarrow> bool" where
  "itf_ok q itf \<longleftrightarrow> (\<forall>k lg. reachable q lg \<longrightarrow> reachable q (itf k lg))"

lemma itf_reach: "itf_ok q itf \<Longrightarrow> reachable q lg \<Longrightarrow> reachable q (itf k lg)"
  by (simp add: itf_ok_def)

lemma admit_existing_reach:
  assumes "itf_ok q itf" and "reachable q lg"
  shows "reachable q (snd (admit_existing q t i r itf lg))"
proof -
  obtain b1 lg1 where s1: "stmt_reacquire q t i (itf 2 lg) = (b1, lg1)" by fastforce
  obtain b2 lg2 where s2: "stmt_reclaim q t i (itf 3 lg1) = (b2, lg2)" by fastforce
  have "reachable q lg1" by (rule reachable_reacquire [OF s1]) (intro itf_reach [OF assms(1)] assms(2))
  moreover from this have "reachable q lg2"
    by (intro reachable_reclaim [OF s2] itf_reach [OF assms(1)])
  ultimately show ?thesis using assms(2) by (cases b1; cases b2) (simp_all add: admit_existing_def s1 s2)
qed

lemma admit_new_reach:
  assumes "itf_ok q itf" and "reachable q lg"
  shows "reachable q (snd (admit_new q t input itf lg))"
proof -
  obtain b1 lg1 where s1: "stmt_insert q t (start_of_day t) (start_of_month t) (ai_executionId input)
      (ai_organizationId input) (ai_workflowId input) (itf 2 lg) = (b1, lg1)" by fastforce
  have "reachable q lg1" by (rule reachable_insert [OF s1]) (intro itf_reach [OF assms(1)] assms(2))
  then have r3: "reachable q (itf 3 lg1)" by (rule itf_reach [OF assms(1)])
  moreover have "reachable q (itf 4 (itf 3 lg1))" by (rule itf_reach [OF assms(1) r3])
  ultimately show ?thesis using \<open>reachable q lg1\<close>
    by (cases b1) (simp_all add: admit_new_def s1 Let_def split: option.split)
qed

lemma admit_reach:
  assumes "limits_of env = Some q" and "itf_ok q itf" and "reachable q lg"
  shows "reachable q (snd (admit env t input itf lg))"
  using assms by (simp add: admit_def Let_def itf_reach admit_existing_reach admit_new_reach split: option.split)

text \<open>A renewal is sound when the others used no later time before it ran.\<close>

definition itf_before :: "quota_limits \<Rightarrow> int \<Rightarrow> interference \<Rightarrow> bool" where
  "itf_before q t itf \<longleftrightarrow> (\<forall>k T lg. ledger_reach q T lg \<longrightarrow> T \<le> t \<longrightarrow> (\<exists>T' \<le> t. ledger_reach q T' (itf k lg)))"

lemma consume_failure_state:
  "snd (consume_failure q settings i itf lg) \<in> {itf 2 lg, itf 3 (itf 2 lg)}"
  by (simp add: consume_failure_def Let_def split: option.split)

lemma consume_reach:
  assumes "limits_of env = Some q" and "itf_before q t itf" and "ledger_reach q T lg" and "T \<le> t"
  shows "\<exists>T' \<le> t. ledger_reach q T' (snd (consumeStep env t i itf lg))"
proof -
  have itf: "\<exists>T' \<le> t. ledger_reach q T' (itf k lg)" if "\<exists>T' \<le> t. ledger_reach q T' lg" for k lg
    using assms(2) that unfolding itf_before_def by blast
  have stmt: "\<exists>T' \<le> t. ledger_reach q T' lg'"
    if r: "\<exists>T' \<le> t. ledger_reach q T' lg" and s: "stmt_consume q t i lg = (b, lg')" for b lg lg'
  proof -
    obtain T' where T': "T' \<le> t" "ledger_reach q T' lg" using r by blast
    then have "ledger_reach q (later T' (OpConsume t i)) (apply_op q (OpConsume t i) lg)"
      by (intro ledger_reach.step) simp_all
    then show ?thesis using T'(1) s by (auto simp: later_def max_def)
  qed
  have fail: "\<exists>T' \<le> t. ledger_reach q T' (snd (consume_failure q settings i itf lg))"
    if "\<exists>T' \<le> t. ledger_reach q T' lg" for settings lg
    using consume_failure_state [of q settings i itf lg] itf [OF that] itf [OF itf [OF that]] by auto
  have "\<exists>T' \<le> t. ledger_reach q T' lg" using assms(3,4) by blast
  then have r0: "\<exists>T' \<le> t. ledger_reach q T' (itf 0 lg)" by (rule itf)
  obtain b lg1 where s: "stmt_consume q t i (itf 1 (itf 0 lg)) = (b, lg1)" by fastforce
  have "\<exists>T' \<le> t. ledger_reach q T' lg1" by (rule stmt [OF itf [OF r0] s])
  then show ?thesis
    using r0 fail [of lg1] assms by (cases b) (auto simp: consumeStep_def Let_def s simp del: One_nat_def)
qed

section \<open>What one call of the service does\<close>

text \<open>
  \<open>service_run q itf ops lg lg'\<close>: the tables \<open>lg'\<close> come from \<open>lg\<close> by the statements \<open>ops\<close>, in
  this order, with the interference \<open>itf\<close> any number of times before, between and after them.
\<close>

inductive service_run :: "quota_limits \<Rightarrow> interference \<Rightarrow> policy_op list \<Rightarrow> ledger \<Rightarrow> ledger \<Rightarrow> bool"
  for q itf where
  start: "service_run q itf [] lg lg"
| other: "service_run q itf ops lg lg' \<Longrightarrow> service_run q itf ops lg (itf k lg')"
| own: "service_run q itf ops lg lg' \<Longrightarrow> service_run q itf (ops @ [op]) lg (apply_op q op lg')"

lemmas service_runs [simp, intro] = service_run.start service_run.other

lemma service_run_own: "service_run q itf ops lg lg' \<Longrightarrow> lg'' = apply_op q op lg' \<Longrightarrow> ops' = ops @ [op] \<Longrightarrow>
    service_run q itf ops' lg lg''"
  using service_run.own by blast

definition admission_ops :: "int \<Rightarrow> admission_input \<Rightarrow> policy_op list set" where
  "admission_ops t input = (let i = ai_executionId input in
     {[], [OpInsert t i (ai_organizationId input) (ai_workflowId input)], [OpReacquire t i],
      [OpReacquire t i, OpReclaim t i]})"

definition fresh_admission :: "js_error + admission \<Rightarrow> bool" where
  "fresh_admission r \<longleftrightarrow> (\<exists>a. r = Inr a \<and> ad_allowed a \<and> \<not> ad_alreadyActive a)"

lemma fresh_simps [simp]:
  "\<not> fresh_admission (Inl e)" "\<not> fresh_admission (reject m)" "fresh_admission (allow b) \<longleftrightarrow> \<not> b"
  by (simp_all add: fresh_admission_def reject_def allow_def)

lemma admit_existing_run:
  assumes "service_run q itf [] l lg"
  shows "\<exists>ops \<in> admission_ops t input.
    service_run q itf ops l (snd (admit_existing q t (ai_executionId input) r itf lg)) \<and>
    (fresh_admission (fst (admit_existing q t (ai_executionId input) r itf lg)) \<longrightarrow> ops \<noteq> [])"
proof -
  define i where "i = ai_executionId input"
  obtain b1 lg1 where s1: "stmt_reacquire q t i (itf 2 lg) = (b1, lg1)" by fastforce
  obtain b2 lg2 where s2: "stmt_reclaim q t i (itf 3 lg1) = (b2, lg2)" by fastforce
  have r1: "service_run q itf [OpReacquire t i] l lg1"
    by (rule service_run_own [OF service_run.other [OF assms(1)], where k1 = 2 and op = "OpReacquire t i"])
      (simp_all add: s1)
  have r2: "service_run q itf [OpReacquire t i, OpReclaim t i] l lg2"
    by (rule service_run_own [OF service_run.other [OF r1], where k1 = 3 and op = "OpReclaim t i"])
      (simp_all add: s2)
  have "\<exists>ops \<in> {[], [OpReacquire t i], [OpReacquire t i, OpReclaim t i]}.
      service_run q itf ops l (snd (admit_existing q t i r itf lg)) \<and>
      (fresh_admission (fst (admit_existing q t i r itf lg)) \<longrightarrow> ops \<noteq> [])"
    using assms r1 r2 by (cases b1; cases b2) (simp_all add: admit_existing_def s1 s2)
  then show ?thesis by (auto simp: admission_ops_def Let_def i_def)
qed

lemma admit_new_run:
  assumes "service_run q itf [] l lg"
  shows "\<exists>ops \<in> admission_ops t input. service_run q itf ops l (snd (admit_new q t input itf lg)) \<and>
    (fresh_admission (fst (admit_new q t input itf lg)) \<longrightarrow> ops \<noteq> [])"
proof -
  let ?op = "OpInsert t (ai_executionId input) (ai_organizationId input) (ai_workflowId input)"
  obtain b1 lg1 where s1: "stmt_insert q t (start_of_day t) (start_of_month t) (ai_executionId input)
      (ai_organizationId input) (ai_workflowId input) (itf 2 lg) = (b1, lg1)" by fastforce
  have r1: "service_run q itf [?op] l lg1"
    by (rule service_run_own [OF service_run.other [OF assms], where k1 = 2 and op = ?op])
      (simp_all add: s1)
  then have "service_run q itf [?op] l (snd (admit_new q t input itf lg))"
    by (cases b1) (auto simp: admit_new_def s1 Let_def split: option.split)
  then show ?thesis by (auto simp: admission_ops_def Let_def)
qed

lemma admit_run:
  assumes "limits_of env = Some q"
  shows "\<exists>ops \<in> admission_ops t input. service_run q itf ops lg (snd (admit env t input itf lg)) \<and>
    (fresh_admission (fst (admit env t input itf lg)) \<longrightarrow> ps_quotasEnabled (policySettings env) \<longrightarrow> ops \<noteq> [])"
proof -
  have none: "[] \<in> admission_ops t input" by (simp add: admission_ops_def Let_def)
  have r: "service_run q itf [] lg (itf 1 (itf 0 lg))" by (intro service_runs)
  show ?thesis using none admit_existing_run [OF r, of t input] admit_new_run [OF r, of t input] assms
    by (force simp: admit_def Let_def split: option.split)
qed

lemma release_run:
  "service_run q itf (if pe_quotasEnabled env = Some ''true'' then [OpRelease i terminal] else []) lg
     (policy_release env i terminal lg)"
  using service_run.own [OF service_run.start, of q itf "OpRelease i terminal" lg] by (auto simp: policy_release_def)

lemma consume_run:
  assumes "limits_of env = Some q"
  shows "\<exists>ops. ops \<in> {[], [OpConsume t i]} \<and> service_run q itf ops lg (snd (consumeStep env t i itf lg)) \<and>
    (fst (consumeStep env t i itf lg) = Inr () \<longrightarrow> ps_quotasEnabled (policySettings env) \<longrightarrow>
       ops = [OpConsume t i])"
proof -
  obtain b lg1 where s: "stmt_consume q t i (itf 1 (itf 0 lg)) = (b, lg1)" by fastforce
  have r1: "service_run q itf [OpConsume t i] lg lg1"
    by (rule service_run_own [OF service_run.other [OF service_run.other [OF service_run.start]],
          where k1 = 1 and k2 = 0 and op = "OpConsume t i"])
      (simp_all add: s del: One_nat_def)
  then have "service_run q itf [OpConsume t i] lg (snd (consume_failure q settings i itf lg1))" for settings
    using consume_failure_state [of q settings i itf lg1] by auto
  then show ?thesis using r1 assms
    by (cases b) (auto simp: consumeStep_def Let_def s simp del: One_nat_def)
qed

lemma sync_run:
  "\<exists>g. service_run q itf [OpPause (\<not> ps_valid (policySettings env) \<or> \<not> ps_executionsEnabled (policySettings env)) t g]
     lg (syncExecutionPolicyPause env t itf lg)"
proof -
  have pause: "service_run q itf [OpPause p t g] lg (stmt_pause p t g l)" if "service_run q itf [] lg l" for p g l
    by (rule service_run_own [OF that, where op = "OpPause p t g"]) simp_all
  have run: "service_run q itf [] lg (itf 0 lg)" "service_run q itf [] lg (itf 1 (itf 0 lg))"
    by (intro service_runs)+
  show ?thesis
  proof (cases "ps_generation (policySettings env)")
    case (Some g)
    show ?thesis
      by (rule exI [of _ g], simp only: syncExecutionPolicyPause_def Let_def Some option.case, rule pause [OF run(1)])
  next
    case None
    show ?thesis
      by (rule exI, simp only: syncExecutionPolicyPause_def Let_def None option.case, rule pause [OF run(2)])
  qed
qed

text \<open>What the steps keep, a call of the service keeps under interference that keeps it.\<close>

lemma service_run_keeps:
  assumes "service_run q itf ops lg lg'" and "P lg"
    and "\<And>k l. P l \<Longrightarrow> P (itf k l)" and "\<And>op l. op \<in> set ops \<Longrightarrow> P l \<Longrightarrow> P (apply_op q op l)"
  shows "P lg'"
  using assms by (induction rule: service_run.induct) simp_all

end
