(* ===== verification/Flow_Run.thy ===== *)
theory Flow_Run
  imports Flow_Runtime
begin

text \<open>
  The run put together: the hooks that \<open>base-runtime.ts\<close> hands to the scheduler are the
  executor and the resolution of parked nodes, so what the scheduler guarantees holds of every
  run; and the lifecycle around it settles, persists and releases as it should.
\<close>

section \<open>The hooks of the runtime\<close>

definition may_run :: "executor \<Rightarrow> run_context \<Rightarrow> exec_graph \<Rightarrow> execution_state \<Rightarrow> string
    \<Rightarrow> node_result \<Rightarrow> bool" where
  "may_run ex ctx g st n r \<longleftrightarrow>
     (\<exists>m ops ops'. execute ex ctx g st n = Some m \<and> m ops = (Inr r, ops'))"

definition may_resolve :: "executor \<Rightarrow> run_context \<Rightarrow> exec_graph \<Rightarrow> node_result \<Rightarrow> node_result \<Rightarrow> bool" where
  "may_resolve ex ctx g p r \<longleftrightarrow>
     (\<exists>ev ops ops'. resolveAsyncNode (ex_host ex) ctx g p ev ops = (Inr r, ops'))"

lemma resolve_event_node:
  "resolve_event h ctx g n ins ev ops = (Inr r, ops') \<Longrightarrow> res_node r = n \<and> \<not> is_pending r \<and> \<not> is_skipped r"
  by (auto simp: resolve_event_def Let_def io_bind_Inr split: if_splits option.splits)

lemma resolve_async_node:
  "resolveAsyncNode h ctx g p ev ops = (Inr r, ops') \<Longrightarrow>
   res_node r = res_node p \<and> \<not> is_pending r \<and> \<not> is_skipped r"
  by (auto simp: resolveAsyncNode_def io_catch_def io_bind_Inr split: prod.splits sum.splits
      dest!: resolve_event_node)

lemma recorded_not_settled:
  "n \<notin> set (recorded st) \<Longrightarrow> n \<notin> set object_prototype_keys \<Longrightarrow>
   n \<notin> set (skippedNodes st) \<and> \<not> js_in n (nodeErrors st)"
  by (simp add: recorded_def js_in_def)

interpretation hooks: node_hooks "may_run ex ctx" "may_resolve ex ctx g0" for ex ctx g0
proof unfold_locales
  fix g n st r
  assume "graph_ok g" "n \<in> set (g_nodeIds g)" "may_run ex ctx g st n r"
  then show "res_node r = n" using execute_node(1) unfolding may_run_def by blast
next
  fix g n st r
  assume a: "graph_ok g" "plain_ids g" "n \<in> set (g_nodeIds g)" "n \<notin> set (recorded st)"
    "may_run ex ctx g st n r" "is_skipped r"
  then have "n \<notin> set object_prototype_keys" by (auto simp: plain_ids_def)
  with a(4) have "n \<notin> set (skippedNodes st) \<and> \<not> js_in n (nodeErrors st)" by (rule recorded_not_settled)
  then show "skip_ok g st n" using a execute_node(2) unfolding may_run_def by blast
next
  fix p r
  assume "may_resolve ex ctx g0 p r"
  then show "res_node r = res_node p" and "\<not> is_pending r \<and> \<not> is_skipped r"
    unfolding may_resolve_def using resolve_async_node by blast+
qed

section \<open>Runs of the scheduler with these hooks\<close>

definition run_reach :: "executor \<Rightarrow> run_context \<Rightarrow> exec_graph \<Rightarrow> nat \<Rightarrow> sched \<Rightarrow> bool" where
  "run_reach ex ctx g k s \<longleftrightarrow>
     sched_reach (may_run ex ctx) (may_resolve ex ctx g) g initial_state k s"

text \<open>What \<open>executeDataflow\<close> may leave: a finished loop, or one that threw.\<close>

definition dataflow_of :: "executor \<Rightarrow> run_context \<Rightarrow> exec_graph \<Rightarrow> dataflow \<Rightarrow> bool" where
  "dataflow_of ex ctx g df \<longleftrightarrow> (\<exists>k s. run_reach ex ctx g k s \<and> df_state df = sd_state s \<and>
     (if df_error df = None then sched_finished s else sd_failed s))"

lemma run_progress:
  assumes "\<not> sched_finished s" and "\<not> sd_failed s"
  shows "\<exists>ev s'. answer_ok rn rs g ev s \<and> sched_step g ev s = Some s'"
proof (cases "sd_reporting s")
  case True
  then have "sched_step g ProgressDone s \<noteq> None" by simp
  then show ?thesis by (metis answer_ok.simps(5) not_None_eq)
next
  case False
  then have "sd_inFlight s \<noteq> []" using assms by (simp add: sched_finished_def)
  then have "jget (sd_inFlight s) (fst (hd (sd_inFlight s))) \<noteq> None"
    by (cases "sd_inFlight s") (auto simp: jget_None_iff)
  then obtain n f where f: "jget (sd_inFlight s) n = Some f" by blast
  have "sched_step g (TaskFail n) s \<noteq> None \<or> sched_step g (Settle n) s \<noteq> None"
    using f False assms(2) by (cases f) auto
  then show ?thesis by (metis answer_ok.simps(3,4) not_None_eq)
qed

lemma dataflow_skipped_nodes:
  assumes "graph_ok g" and "plain_ids g" and "dataflow_of ex ctx g df"
  shows "set (skippedNodes (df_state df)) \<subseteq> set (g_nodeIds g)" and "state_ok (df_state df)"
proof -
  obtain k s where s: "sched_reach (may_run ex ctx) (may_resolve ex ctx g) g initial_state k s"
    "df_state df = sd_state s"
    using assms(3) by (auto simp: dataflow_of_def run_reach_def)
  have "rec_inv g s" using hooks.reach_rec [OF assms(1,2) s(1)] .
  moreover have "sched_inv g s" using reach_inv [OF s(1) assms(1)] .
  ultimately show "set (skippedNodes (df_state df)) \<subseteq> set (g_nodeIds g)" "state_ok (df_state df)"
    unfolding s(2) by (auto simp: rec_inv_def sched_inv_def recorded_def)
qed

lemma dataflow_status:
  assumes "graph_ok g" and "plain_ids g" and "dataflow_of ex ctx g df" and "df_error df = None"
  shows "status_of g (df_state df) = (if nodeErrors (df_state df) \<noteq> [] then WError else WCompleted)"
proof -
  obtain k s where s: "sched_reach (may_run ex ctx) (may_resolve ex ctx g) g initial_state k s"
    "df_state df = sd_state s" "sched_finished s"
    using assms(3,4) by (auto simp: dataflow_of_def run_reach_def)
  show ?thesis
    using hooks.finished_status [OF assms(1,2) s(1,3)] by (simp add: status_of_def s(2))
qed

section \<open>The lifecycle\<close>

fun is_save :: "run_event \<Rightarrow> bool" where
  "is_save (EvSave _) = True"
| "is_save _ = False"

fun in_body :: "run_event \<Rightarrow> bool" where
  "in_body (EvNotify _) = True"
| "in_body EvAdmit = True"
| "in_body EvCredits = True"
| "in_body EvPreload = True"
| "in_body EvDataflow = True"
| "in_body _ = False"

definition admitted :: "run_host \<Rightarrow> bool" where
  "admitted h \<longleftrightarrow> (case rh_admit h of Inr a \<Rightarrow> ad_allowed a | Inl _ \<Rightarrow> False)"

text \<open>The ways the body can go, with what it leaves for \<open>finally\<close>.\<close>

definition reserves :: "run_host \<Rightarrow> bool \<Rightarrow> bool" where
  "reserves h pre \<longleftrightarrow> pre \<or> (rh_policy h \<and> admitted h)"

lemma credited_cases:
  obtains (preload) e where "run_credited h flow g rec r evs = caught e rec (Some (g, initial_state)) r (evs @ [EvPreload])"
  | (thrown) e rec' s where "wr_error rec' = wr_error rec" "df_error (flow g) = Some e"
      "run_credited h flow g rec r evs = caught e rec' (Some (g, df_state (flow g))) r
         (evs @ [EvPreload, EvNotify s, EvDataflow])"
  | (through) rec' s where "wr_error rec' = wr_error rec" "df_error (flow g) = None"
      "run_credited h flow g rec r evs = \<lparr>bo_record = rec', bo_prepared = Some (g, df_state (flow g)),
         bo_isExhausted = False, bo_caughtError = False, bo_policyReserved = r,
         bo_events = evs @ [EvPreload, EvNotify s, EvDataflow]\<rparr>"
proof (cases "rh_preload h")
  case (Inl e)
  then show ?thesis using preload by (simp add: run_credited_def)
next
  case (Inr u)
  let ?rec = "rec\<lparr>wr_status := status_of g initial_state\<rparr>"
  show ?thesis
  proof (cases "df_error (flow g)")
    case None
    then show ?thesis
      by (intro through [where s = "status_of g initial_state" and rec' = "if g_nodeIds g = [] then ?rec
            else ?rec\<lparr>wr_status := status_of g (df_state (flow g)),
              wr_nodeExecutions := report_of g (df_state (flow g)) None\<rparr>"])
        (simp_all add: run_credited_def executeGraph_def Let_def Inr)
  next
    case (Some e)
    then show ?thesis
      by (intro thrown [where s = "status_of g initial_state" and rec' = ?rec and e = e])
        (simp_all add: run_credited_def executeGraph_def Let_def Inr)
  qed
qed

lemma admitted_cases:
  obtains (unprepared) e where "prepare h p = Inl e" "run_admitted h flow p rec r evs = caught e rec None r evs"
  | (uncredited) e g where "prepare h p = Inr (g, initial_state)"
      "run_admitted h flow p rec r evs = caught e rec (Some (g, initial_state)) r (evs @ [EvCredits])"
  | (exhausted) g rec' where "prepare h p = Inr (g, initial_state)"
      "run_admitted h flow p rec r evs = \<lparr>bo_record = rec', bo_prepared = Some (g, initial_state),
         bo_isExhausted = True, bo_caughtError = False, bo_policyReserved = r,
         bo_events = evs @ [EvCredits, EvNotify WExhausted]\<rparr>"
  | (credited) g where "prepare h p = Inr (g, initial_state)"
      "run_admitted h flow p rec r evs = run_credited h flow g rec r (evs @ [EvCredits])"
proof (cases "prepare h p")
  case (Inl e)
  then show ?thesis using unprepared by (simp add: run_admitted_def)
next
  case (Inr gs)
  then obtain g where g: "prepare h p = Inr (g, initial_state)"
    by (auto simp: prepare_def split: sum.splits option.splits if_splits)
  show ?thesis
  proof (cases "rh_hasCredits h")
    case (Inl e)
    then show ?thesis using g uncredited by (simp add: run_admitted_def)
  next
    case (Inr c)
    then show ?thesis using g credited exhausted by (cases c) (simp_all add: run_admitted_def)
  qed
qed

lemma try_cases:
  obtains (rejected) e where "\<not> reserves h pre" "rh_policy h" "run_try h flow p rec pre evs = caught e rec None False (evs @ [EvAdmit])"
  | (entered) evs' where "evs' = evs \<or> evs' = evs @ [EvAdmit]" "reserves h pre \<or> \<not> rh_policy h"
      "run_try h flow p rec pre evs = run_admitted h flow p rec (reserves h pre) evs'"
proof (cases "rh_policy h \<and> \<not> pre")
  case False
  then have "reserves h pre = pre" by (auto simp: reserves_def)
  then show ?thesis using False entered [of evs] by (auto simp: run_try_def)
next
  case True
  then show ?thesis using rejected entered [of "evs @ [EvAdmit]"]
    by (cases "rh_admit h") (auto simp: run_try_def reserves_def admitted_def split: if_splits)
qed

lemma caught_simps [simp]:
  "bo_prepared (caught e rec pr r evs) = pr" "bo_policyReserved (caught e rec pr r evs) = r"
  "bo_caughtError (caught e rec pr r evs)" "\<not> bo_isExhausted (caught e rec pr r evs)"
  "bo_events (caught e rec pr r evs) = evs @ [EvNotify WError]"
  by (simp_all add: caught_def)

lemma admitted_events:
  "list_all in_body evs \<Longrightarrow> list_all in_body (bo_events (run_admitted h flow p rec r evs))"
proof (cases rule: admitted_cases [of h p flow rec r evs])
  case (credited g)
  assume "list_all in_body evs"
  then show ?thesis unfolding credited(2)
    by (cases rule: credited_cases [of h flow g rec r "evs @ [EvCredits]"]) simp_all
qed simp_all

lemma body_events:
  "list_all in_body evs \<Longrightarrow> list_all in_body (bo_events (run_try h flow p rec pre evs))"
proof (cases rule: try_cases [of h pre flow p rec evs])
  case (entered evs')
  assume "list_all in_body evs"
  then have "list_all in_body evs'" using entered(1) by auto
  then show ?thesis unfolding entered(3) by (rule admitted_events)
qed simp_all

lemma credited_reserved [simp]: "bo_policyReserved (run_credited h flow g rec r evs) = r"
  by (cases rule: credited_cases [of h flow g rec r evs]) simp_all

lemma body_reserved: "bo_policyReserved (run_try h flow p rec pre evs) \<longleftrightarrow> reserves h pre"
proof (cases rule: try_cases [of h pre flow p rec evs])
  case (entered evs')
  then show ?thesis
    by (cases rule: admitted_cases [of h p flow rec "reserves h pre" evs']) simp_all
qed simp

text \<open>What is prepared, and what is in the state that is left.\<close>

lemma admitted_prepared:
  assumes "bo_prepared (run_admitted h flow p rec r evs) = Some (g, st)"
  shows "prepare h p = Inr (g, initial_state)"
    and "st = initial_state \<or> (st = df_state (flow g) \<and>
      EvDataflow \<in> set (bo_events (run_admitted h flow p rec r evs)))"
    and "\<not> bo_isExhausted (run_admitted h flow p rec r evs) \<Longrightarrow> \<not> bo_caughtError (run_admitted h flow p rec r evs) \<Longrightarrow>
      st = df_state (flow g) \<and> df_error (flow g) = None \<and>
      wr_error (bo_record (run_admitted h flow p rec r evs)) = wr_error rec"
proof -
  have "prepare h p = Inr (g, initial_state) \<and> (st = initial_state \<or> (st = df_state (flow g) \<and>
      EvDataflow \<in> set (bo_events (run_admitted h flow p rec r evs)))) \<and>
    (\<not> bo_isExhausted (run_admitted h flow p rec r evs) \<longrightarrow> \<not> bo_caughtError (run_admitted h flow p rec r evs) \<longrightarrow>
      st = df_state (flow g) \<and> df_error (flow g) = None \<and>
      wr_error (bo_record (run_admitted h flow p rec r evs)) = wr_error rec)"
    using assms
  proof (cases rule: admitted_cases [of h p flow rec r evs])
    case (credited g')
    with assms show ?thesis
      by (cases rule: credited_cases [of h flow g' rec r "evs @ [EvCredits]"]) auto
  qed auto
  then show "prepare h p = Inr (g, initial_state)"
    "st = initial_state \<or> (st = df_state (flow g) \<and>
      EvDataflow \<in> set (bo_events (run_admitted h flow p rec r evs)))"
    "\<not> bo_isExhausted (run_admitted h flow p rec r evs) \<Longrightarrow> \<not> bo_caughtError (run_admitted h flow p rec r evs) \<Longrightarrow>
      st = df_state (flow g) \<and> df_error (flow g) = None \<and>
      wr_error (bo_record (run_admitted h flow p rec r evs)) = wr_error rec"
    by blast+
qed

lemma body_prepared:
  assumes "bo_prepared (run_try h flow p rec pre evs) = Some (g, st)"
  shows body_prepared_Some: "prepare h p = Inr (g, initial_state)"
    and body_state: "st = initial_state \<or> (st = df_state (flow g) \<and>
      EvDataflow \<in> set (bo_events (run_try h flow p rec pre evs)))"
    and body_completed: "\<not> bo_isExhausted (run_try h flow p rec pre evs) \<Longrightarrow>
      \<not> bo_caughtError (run_try h flow p rec pre evs) \<Longrightarrow>
      st = df_state (flow g) \<and> df_error (flow g) = None \<and>
      wr_error (bo_record (run_try h flow p rec pre evs)) = wr_error rec"
  using assms admitted_prepared
  by (cases rule: try_cases [of h pre flow p rec evs]; simp)+

lemma body_prepared_iff:
  "bo_prepared (run_try h flow p rec pre evs) \<noteq> None \<longleftrightarrow>
   (reserves h pre \<or> \<not> rh_policy h) \<and> (\<exists>gs. prepare h p = Inr gs)"
proof (cases rule: try_cases [of h pre flow p rec evs])
  case (entered evs')
  then show ?thesis
  proof (cases rule: admitted_cases [of h p flow rec "reserves h pre" evs'])
    case (credited g)
    then show ?thesis using entered
      by (cases rule: credited_cases [of h flow g rec "reserves h pre" "evs' @ [EvCredits]"]) auto
  qed auto
qed auto

lemma prepare_graph: "prepare h p = Inr (g, st) \<Longrightarrow> graph_ok g \<and> g_workflow g = pr_workflow p \<and> st = initial_state"
  using valid_builds [of "pr_workflow p" None]
  by (auto simp: prepare_def graph_ok_def build_workflow split: sum.splits option.splits if_splits)

lemma not_body_release: "list_all in_body evs \<Longrightarrow> count_list evs EvRelease = 0 \<and> \<not> list_ex is_save evs"
  by (induction evs) (auto, (case_tac a; simp)+)

lemma settle_events: "count_list (settleUsage st b) EvRelease = 0 \<and> \<not> list_ex is_save (settleUsage st b)"
  by (simp add: settleUsage_def)

definition run_starts :: "run_host \<Rightarrow> run_params \<Rightarrow> bool" where
  "run_starts h p \<longleftrightarrow> length (w_nodes (pr_workflow p)) \<le> 500 \<and>
     estimateRuntimeJsonBytes (JObj [(''workflow'', pr_json p),
        (''inputOverrides'', overrides_json (pr_inputOverrides p)),
        (''trigger'', JObj (extractTrigger (pr_source p)))]) MAX_RUNTIME_INPUT_BYTES \<le> MAX_RUNTIME_INPUT_BYTES \<and>
     (\<exists>d. rh_hash h = Inr d)"

definition first_record :: "run_host \<Rightarrow> run_params \<Rightarrow> string \<Rightarrow> wf_record" where
  "first_record h p i = \<lparr>wr_id = i, wr_workflowId = w_id (pr_workflow p), wr_status = WSubmitted,
     wr_nodeExecutions = [], wr_startedAt = rh_started h, wr_endedAt = None,
     wr_rehearsal = pr_rehearsal p, wr_error = None\<rparr>"

lemma within_limit_cases:
  "within_limit v mx l = (if estimateRuntimeJsonBytes v mx \<le> mx then Inr ()
     else Inl (NonRetryableError (l @ '' exceeds the '' @ nat_digits mx @ ''-byte limit'')))"
  by (auto simp: within_limit_def assertRuntimeValueWithinLimit_def)

lemma run_starts_eq:
  assumes "run_starts h p" and "rh_hash h = Inr d"
  shows "run h flow p i pre = run_finally h p i d
    (run_try h flow p (first_record h p i) pre [EvNotify WSubmitted])"
  using assms by (simp add: run_def run_starts_def within_limit_cases first_record_def Let_def)

lemma run_not_started:
  assumes "\<not> run_starts h p"
  shows "\<exists>e. fst (run h flow p i pre) = Inl e" and "EvRelease \<notin> set (snd (run h flow p i pre))"
  using assms
  by (auto simp: run_def run_starts_def within_limit_cases Let_def split: sum.split)

lemma finally_release:
  assumes "list_all in_body (bo_events b)"
  shows "count_list (snd (run_finally h p i d b)) EvRelease = (if bo_policyReserved b \<and> rh_policy h then 1 else 0)"
  using not_body_release [OF assms] settle_events
  by (auto simp: run_finally_def Let_def split: option.split sum.split)

lemma run_release_count:
  assumes "run_starts h p"
  shows "count_list (snd (run h flow p i pre)) EvRelease = (if rh_policy h \<and> (pre \<or> admitted h) then 1 else 0)"
proof -
  obtain d where "rh_hash h = Inr d" using assms by (auto simp: run_starts_def)
  moreover have "list_all in_body (bo_events (run_try h flow p (first_record h p i) pre [EvNotify WSubmitted]))"
    by (rule body_events) simp
  ultimately show ?thesis
    by (auto simp: run_starts_eq [OF assms] finally_release body_reserved reserves_def)
qed

lemma filter_save_body: "list_all in_body evs \<Longrightarrow> filter is_save evs = []"
  using not_body_release [of evs] by (auto simp: filter_empty_conv list_ex_iff)

lemma filter_save_settle: "filter is_save (settleUsage st b) = []"
  using settle_events [of st b] by (auto simp: filter_empty_conv list_ex_iff)

lemma finally_save:
  assumes "list_all in_body (bo_events b)"
  shows "filter is_save (snd (run_finally h p i d b)) = (case bo_prepared b of
     None \<Rightarrow> []
   | Some (g, st) \<Rightarrow> [EvSave (saved_of p i d g st ((bo_record b)\<lparr>wr_endedAt := Some (rh_ended h)\<rparr>)
       (if bo_isExhausted b then WExhausted else if bo_caughtError b then WError else status_of g st))])"
  by (auto simp: run_finally_def Let_def filter_save_body [OF assms] filter_save_settle
      split: option.split sum.split)

lemma report_of_nodes:
  assumes "graph_ok g" and "set (skippedNodes st) \<subseteq> set (g_nodeIds g)"
  shows "map nx_node (report_of g st s) = node_ids (g_workflow g)"
  using report_nodes [OF assms, of s "[]"] by (auto simp: report_of_def)

definition nx_good :: "node_execution \<Rightarrow> bool" where
  "nx_good x \<longleftrightarrow> (case x of NxCompleted _ _ _ _ \<Rightarrow> True | NxSkipped _ r _ \<Rightarrow> r = ConditionalBranch | _ \<Rightarrow> False)"

text \<open>In a completed run every node completed or was skipped by a branch.\<close>

lemma report_completed:
  assumes ok: "graph_ok g" and "plain_ids g" and just: "skips_justified g st"
    and vis: "\<forall>n \<in> set (g_nodeIds g). visited st n" and none: "nodeErrors st = []"
    and plain: "plain_ids g"
  shows "list_all nx_good (report_of g st s)"
proof -
  have sk: "set (skippedNodes st) \<subseteq> set (g_nodeIds g)" using just by (auto simp: skips_justified_def)
  obtain s' xs where xs: "buildNodeExecutions g st s [] = Some xs"
    "map (\<lambda>n. node_entry g st (s' = WExecuting) [] (n_id n)) (w_nodes (g_workflow g)) = map Some xs"
    by (rule report_total [OF ok sk])
  have "nx_good x" if "x \<in> set xs" for x
  proof -
    have "Some x \<in> set (map Some xs)" using that by simp
    then obtain n where n: "n \<in> set (w_nodes (g_workflow g))"
        "node_entry g st (s' = WExecuting) [] (n_id n) = Some x"
      unfolding xs(2) [symmetric] by auto
    then have id: "n_id n \<in> set (g_nodeIds g)" using graph_ok_order(2) [OF ok] by (auto simp: node_ids_def)
    then have noerr: "\<not> js_in (n_id n) (nodeErrors st)"
      using plain none by (auto simp: plain_ids_def js_in_def)
    show ?thesis
    proof (cases "n_id n \<in> set (executedNodes st)")
      case True
      then show ?thesis using n(2) by (auto simp: node_entry_def nx_good_def)
    next
      case False
      then have skn: "n_id n \<in> set (skippedNodes st)" using vis id noerr by (auto simp: visited_def)
      obtain a where a: "analyzeUpstream g st (n_id n) = Some a" "ua_shouldSkip a"
        using just skn by (auto simp: skips_justified_def)
      have "ua_reason a \<noteq> UpstreamFailure"
        using reason_iff_error [OF ok just id a] upstream_error_errors [OF ok plain id] none by blast
      then have "ua_reason a = ConditionalBranch" by (cases "ua_reason a") auto
      then show ?thesis using n(2) False noerr skn a(1)
        by (auto simp: node_entry_def nx_good_def inferSkipReason_def)
    qed
  qed
  then show ?thesis using xs(1) by (simp add: report_of_def list_all_iff)
qed

definition flow_honest :: "executor \<Rightarrow> run_context \<Rightarrow> run_params \<Rightarrow> (exec_graph \<Rightarrow> dataflow) \<Rightarrow> bool" where
  "flow_honest ex ctx p flow \<longleftrightarrow> (\<forall>g. graph_ok g \<longrightarrow> g_workflow g = pr_workflow p \<longrightarrow>
     plain_ids g \<and> dataflow_of ex ctx g (flow g))"

lemma initial_dataflow_skips: "set (skippedNodes initial_state) \<subseteq> A" by simp

lemma saved_spec:
  assumes starts: "run_starts h p" and honest: "flow_honest ex ctx p flow"
    and sv: "EvSave sv \<in> set (snd (run h flow p i pre))"
  shows "map nx_node (sv_nodeExecutions sv) = node_ids (pr_workflow p)"
    and "sv_status sv \<in> {WExhausted, WError, WCompleted}"
    and "sv_status sv = WCompleted \<Longrightarrow> list_all nx_good (sv_nodeExecutions sv) \<and> sv_error sv = None"
proof -
  obtain d where d: "rh_hash h = Inr d" using starts by (auto simp: run_starts_def)
  define b where "b = run_try h flow p (first_record h p i) pre [EvNotify WSubmitted]"
  have body: "list_all in_body (bo_events b)" unfolding b_def by (rule body_events) simp
  have "EvSave sv \<in> set (filter is_save (snd (run_finally h p i d b)))"
    using sv by (simp add: run_starts_eq [OF starts d] b_def)
  then obtain g st where prep: "bo_prepared b = Some (g, st)" and svd:
    "sv = saved_of p i d g st ((bo_record b)\<lparr>wr_endedAt := Some (rh_ended h)\<rparr>)
       (if bo_isExhausted b then WExhausted else if bo_caughtError b then WError else status_of g st)"
    unfolding finally_save [OF body] by (cases "bo_prepared b") auto
  have g: "graph_ok g" "g_workflow g = pr_workflow p" "st = initial_state \<or> st = df_state (flow g)"
    using body_prepared_Some [OF prep [unfolded b_def]] body_state [OF prep [unfolded b_def]]
      prepare_graph by blast+
  have hon: "plain_ids g" "dataflow_of ex ctx g (flow g)" using honest g(1,2) by (auto simp: flow_honest_def)
  have sk: "set (skippedNodes st) \<subseteq> set (g_nodeIds g)"
    using g(3) dataflow_skipped_nodes(1) [OF g(1) hon] initial_dataflow_skips by auto
  show "map nx_node (sv_nodeExecutions sv) = node_ids (pr_workflow p)"
    using report_of_nodes [OF g(1) sk] g(2) by (simp add: svd saved_of_def)
  have reached: "st = df_state (flow g) \<and> df_error (flow g) = None"
    if "\<not> bo_isExhausted b" "\<not> bo_caughtError b"
    using that body_completed [OF prep [unfolded b_def]] by (simp add: b_def)
  show "sv_status sv \<in> {WExhausted, WError, WCompleted}"
    using reached dataflow_status [OF g(1) hon] by (auto simp: svd saved_of_def)
  assume c: "sv_status sv = WCompleted"
  then have nb: "\<not> bo_isExhausted b" "\<not> bo_caughtError b" "status_of g st = WCompleted"
    by (auto simp: svd saved_of_def split: if_splits)
  then have st: "st = df_state (flow g)" "df_error (flow g) = None" using reached by auto
  then have none: "nodeErrors st = []"
    using dataflow_status [OF g(1) hon] nb(3) by (auto split: if_splits)
  obtain k s where s: "sched_reach (may_run ex ctx) (may_resolve ex ctx g) g initial_state k s"
    "st = sd_state s" "sched_finished s"
    using hon(2) st by (auto simp: dataflow_of_def run_reach_def)
  note fin = hooks.finished_record [OF g(1) hon(1) s(1,3)]
  have "\<forall>n \<in> set (g_nodeIds g). visited st n"
    using fin(2) none by (auto simp: s(2) visited_def recorded_def js_in_def)
  then have "list_all nx_good (report_of g st (Some WCompleted))"
    using report_completed [OF g(1) hon(1) _ _ none hon(1)] fin(3) by (simp add: s(2))
  moreover have "wr_error (bo_record b) = None"
    using body_completed [OF prep [unfolded b_def]] nb by (simp add: b_def first_record_def)
  ultimately show "list_all nx_good (sv_nodeExecutions sv) \<and> sv_error sv = None"
    using nb none by (simp add: svd saved_of_def)
qed

text \<open>Usage is recorded only for a graph that was executed, and only what it used.\<close>

lemma total_usage_initial [simp]: "total_usage initial_state = Fin 0"
  by (simp add: total_usage_def)

lemma body_no_usage: "list_all in_body evs \<Longrightarrow> EvRecordUsage u \<notin> set evs"
  by (auto simp: list_all_iff)

lemma run_usage:
  assumes u: "EvRecordUsage u \<in> set (snd (run h flow p i pre))"
  shows "EvDataflow \<in> set (snd (run h flow p i pre))"
    and "\<exists>g. build (pr_workflow p) = Inr g \<and> u = total_usage (df_state (flow g)) \<and> js_lt (Fin 0) u"
proof -
  have starts: "run_starts h p"
  proof (rule ccontr)
    assume "\<not> run_starts h p"
    then show False using u
      by (auto simp: run_def run_starts_def within_limit_cases Let_def split: sum.splits if_splits)
  qed
  then obtain d where d: "rh_hash h = Inr d" by (auto simp: run_starts_def)
  define b where "b = run_try h flow p (first_record h p i) pre [EvNotify WSubmitted]"
  have body: "list_all in_body (bo_events b)" unfolding b_def by (rule body_events) simp
  have r: "run h flow p i pre = run_finally h p i d b" by (simp add: run_starts_eq [OF starts d] b_def)
  obtain g st where prep: "bo_prepared b = Some (g, st)"
    and us: "EvRecordUsage u \<in> set (settleUsage st (bo_isExhausted b))"
    using u body_no_usage [OF body, of u]
    by (cases "bo_prepared b") (auto simp: r run_finally_def Let_def split: sum.splits if_splits)
  then have t: "u = total_usage st" "js_lt (Fin 0) u" by (auto simp: settleUsage_def split: if_splits)
  then have "st \<noteq> initial_state" by auto
  then have df: "EvDataflow \<in> set (bo_events (run_try h flow p (first_record h p i) pre [EvNotify WSubmitted]))"
      "st = df_state (flow g)"
    using body_state [OF prep [unfolded b_def]] by blast+
  have g: "build (pr_workflow p) = Inr g"
    using prepare_graph body_prepared_Some [OF prep [unfolded b_def]] by (metis graph_ok_def)
  then show "\<exists>g. build (pr_workflow p) = Inr g \<and> u = total_usage (df_state (flow g)) \<and> js_lt (Fin 0) u"
    using t df by auto
  show "EvDataflow \<in> set (snd (run h flow p i pre))"
    using df prep by (auto simp: r run_finally_def Let_def b_def split: sum.split)
qed

section \<open>The two runtimes\<close>

lemma worker_never_throws: "rh_policy h \<Longrightarrow> \<exists>rec. fst (worker_execute h flow p i) = Inr rec"
  by (auto simp: worker_execute_def split: sum.split prod.split)

lemma worker_releases:
  assumes "rh_policy h" and "rh_admit h = Inr a" and "ad_allowed a" and "\<not> ad_alreadyActive a"
  shows "EvRelease \<in> set (snd (worker_execute h flow p i))"
proof (cases "run_starts h p")
  case True
  then have "count_list (snd (run h flow p i True)) EvRelease = 1"
    using run_release_count [OF True, of flow i True] assms(1) by simp
  then have "EvRelease \<in> set (snd (run h flow p i True))"
    by (metis count_notin zero_neq_one)
  then show ?thesis using assms by (auto simp: worker_execute_def split: sum.split prod.split)
next
  case False
  then obtain e where "fst (run h flow p i True) = Inl e" using run_not_started(1) by blast
  then show ?thesis using assms by (auto simp: worker_execute_def split: sum.split prod.split)
qed

lemma workflow_release:
  assumes "rh_policy h" and "rh_admit h = Inr a" and "ad_allowed a"
  shows "count_list (snd (workflow_executeWithStep h flow p i)) EvRelease = (if run_starts h p then 1 else 0)"
  using assms run_release_count [of h p flow i True] run_not_started(2) [of h p flow i True]
  by (auto simp: workflow_executeWithStep_def split: prod.splits)

end
