(* ===== verification/Policy_Run.thy ===== *)
theory Policy_Run
  imports Policy_Ledger Flow_Run
begin

text \<open>
  The contract between the runtime and the policy it is given: what an admission takes, what a
  release gives back, and for how long a switch thrown once holds. The ledger satisfies it, and
  through it a worker run leaves no slot behind.
\<close>

section \<open>A finished run stays finished\<close>

definition finished :: "string \<Rightarrow> ledger \<Rightarrow> bool" where
  "finished i lg \<longleftrightarrow> (\<exists>r. jget (lg_rows lg) i = Some r \<and> pw_completed r)"

lemma finished_set_row: "finished i (set_row j r lg) \<longleftrightarrow> (if i = j then pw_completed r else finished i lg)"
  by (simp add: finished_def jget_jset)

lemma finished_at: "finished i lg \<Longrightarrow> jget (lg_rows lg) i = Some r \<Longrightarrow> pw_completed r"
  by (simp add: finished_def)

lemma finished_known: "finished i lg \<Longrightarrow> jget (lg_rows lg) i \<noteq> None"
  by (auto simp: finished_def)

lemma finished_pause: "finished i (stmt_pause p t g lg) = finished i lg"
  by (simp add: finished_def stmt_pause_def Let_def split: option.split)

lemma finished_op:
  assumes "finished i lg" and "op \<noteq> OpRelease i False"
  shows "finished i (apply_op q op lg)"
proof (cases op)
  case (OpInsert t j org w)
  then show ?thesis using assms(1) finished_known by (auto simp: stmt_insert_def finished_set_row)
next
  case (OpReacquire t j)
  then show ?thesis using assms(1) finished_at
    by (auto simp: stmt_reacquire_def finished_set_row split: option.split)
next
  case (OpReclaim t j)
  then show ?thesis using assms(1) finished_at
    by (auto simp: stmt_reclaim_def finished_set_row split: option.split)
next
  case (OpConsume t j)
  then show ?thesis using assms(1) finished_at
    by (auto simp: stmt_consume_def finished_set_row split: option.split)
next
  case (OpRelease j terminal)
  then show ?thesis using assms
    by (cases terminal) (auto simp: stmt_release_def finished_set_row split: option.split)
next
  case (OpPause p t g)
  then show ?thesis using assms(1) by (simp add: finished_pause)
qed

lemma finished_ops:
  "finished i lg \<Longrightarrow> OpRelease i False \<notin> set ops \<Longrightarrow> finished i (fold (apply_op q) ops lg)"
proof (induction ops arbitrary: lg)
  case (Cons op ops)
  then have "op \<noteq> OpRelease i False" by auto
  then have "finished i (apply_op q op lg)" by (rule finished_op [OF Cons.prems(1)])
  then show ?case using Cons.IH [of "apply_op q op lg"] Cons.prems(2) by simp
qed simp

lemma finished_not_admitted:
  assumes "ps_quotasEnabled (policySettings env)" and "finished (ai_executionId input) lg"
    and "\<And>k lg. finished (ai_executionId input) lg \<Longrightarrow> finished (ai_executionId input) (itf k lg)"
    and "fst (admit env t input itf lg) = Inr a"
  shows "\<not> ad_allowed a"
proof -
  obtain r where "jget (lg_rows (itf 1 (itf 0 lg))) (ai_executionId input) = Some r" "pw_completed r"
    using assms(2,3) unfolding finished_def by meson
  then show ?thesis using assms(1,4)
    by (auto simp: admit_def admit_existing_def reject_def Let_def split: if_splits option.splits)
qed

lemma finished_no_step:
  assumes "ps_quotasEnabled (policySettings env)" and "finished i lg"
    and "\<And>k lg. finished i lg \<Longrightarrow> finished i (itf k lg)"
  shows "fst (consumeStep env t i itf lg) \<noteq> Inr ()"
proof -
  obtain r where r: "jget (lg_rows (itf 1 (itf 0 lg))) i = Some r" "pw_completed r"
    using assms(2,3) unfolding finished_def by meson
  have "fst (consume_failure q s i itf lg') \<noteq> Inr ()" for q s lg'
    by (simp add: consume_failure_def Let_def split: option.split)
  then show ?thesis using assms(1) r
    by (auto simp: consumeStep_def stmt_consume_def Let_def paused_error_def split: option.splits)
qed

lemma quotas_flag: "ps_quotasEnabled (policySettings env) \<Longrightarrow> pe_quotasEnabled env = Some ''true''"
  by (auto simp: policySettings_def Let_def split: if_splits)

lemma release_finishes:
  "ps_quotasEnabled (policySettings env) \<Longrightarrow> jget (lg_rows lg) i = Some r \<Longrightarrow> finished i (policy_release env i True lg)"
  by (simp add: policy_release_def quotas_flag stmt_release_def finished_def)

section \<open>What an admission takes\<close>

definition holds_slot :: "ledger \<Rightarrow> string \<Rightarrow> bool" where
  "holds_slot lg i \<longleftrightarrow> (\<exists>r. jget (lg_rows lg) i = Some r \<and> pw_active r \<and> \<not> pw_completed r)"

text \<open>A fresh admission under quotas holds a slot for the length of the lease.\<close>

lemma fresh_takes_slot:
  assumes "ps_quotasEnabled (policySettings env)" and "admit env t input itf lg = (Inr a, lg')"
    and "ad_allowed a" and "\<not> ad_alreadyActive a"
  shows "\<exists>r. jget (lg_rows lg') (ai_executionId input) = Some r \<and> pw_active r \<and> \<not> pw_completed r \<and>
    pw_leaseUntil r = t + EXECUTION_LEASE_MS" and "not_paused lg'"
proof -
  have pn: "not_paused (set_row i r lg) = not_paused lg" for i r lg by (simp add: not_paused_def)
  have "(\<exists>r. jget (lg_rows lg') (ai_executionId input) = Some r \<and> pw_active r \<and> \<not> pw_completed r \<and>
    pw_leaseUntil r = t + EXECUTION_LEASE_MS) \<and> not_paused lg'"
    using assms
    by (auto simp: admit_def admit_existing_def admit_new_def allow_def reject_def Let_def pn
        stmt_insert_def stmt_reacquire_def stmt_reclaim_def split: if_splits option.splits)
  then show "\<exists>r. jget (lg_rows lg') (ai_executionId input) = Some r \<and> pw_active r \<and> \<not> pw_completed r \<and>
      pw_leaseUntil r = t + EXECUTION_LEASE_MS" "not_paused lg'" by blast+
qed

text \<open>Delivering the same run again within the lease changes nothing.\<close>

lemma readmitted:
  assumes "ps_valid (policySettings env)" and "ps_executionsEnabled (policySettings env)"
    and "ps_quotasEnabled (policySettings env)" and "limits_of env = Some q"
    and "is_integer_num (ai_nodeCount input)" and "\<not> js_lt (ai_nodeCount input) (Fin 0)"
    and "\<not> js_lt (Fin (of_int (ql_maxNodesPerRun q))) (ai_nodeCount input)"
    and "not_paused lg" and "jget (lg_rows lg) (ai_executionId input) = Some r"
    and "pw_active r" and "\<not> pw_completed r" and "t < pw_leaseUntil r"
  shows "admit env t input (\<lambda>k. id) lg = (allow True, lg)"
proof -
  have "\<not> persistedPause (policySettings env) lg"
    using assms(1,2,8) by (auto simp: persistedPause_def not_paused_def split: option.splits)
  then show ?thesis using assms by (simp add: admit_def Let_def admit_existing_def)
qed

lemma fresh_conditions:
  assumes "ps_quotasEnabled (policySettings env)" and "admit env t input itf lg = (Inr a, lg')" and "ad_allowed a"
  shows "ps_valid (policySettings env)" and "ps_executionsEnabled (policySettings env)"
    and "\<exists>q. limits_of env = Some q \<and> is_integer_num (ai_nodeCount input) \<and>
      \<not> js_lt (ai_nodeCount input) (Fin 0) \<and> \<not> js_lt (Fin (of_int (ql_maxNodesPerRun q))) (ai_nodeCount input)"
  using assms by (auto simp: admit_def reject_def Let_def split: if_splits option.splits)

lemma fresh_readmitted:
  assumes "ps_quotasEnabled (policySettings env)" and "admit env t input itf lg = (Inr a, lg')"
    and "ad_allowed a" and "\<not> ad_alreadyActive a" and "u < t + EXECUTION_LEASE_MS"
  shows "admit env u input (\<lambda>k. id) lg' = (allow True, lg')"
proof -
  obtain r where "jget (lg_rows lg') (ai_executionId input) = Some r" "pw_active r" "\<not> pw_completed r"
      "pw_leaseUntil r = t + EXECUTION_LEASE_MS"
    using fresh_takes_slot(1) [OF assms(1-4)] by blast
  moreover note fresh_takes_slot(2) [OF assms(1-4)] fresh_conditions [OF assms(1-3)]
  ultimately show ?thesis using assms(1,5) by (metis readmitted)
qed

section \<open>The switch\<close>

definition paused_at :: "int \<Rightarrow> ledger \<Rightarrow> bool" where
  "paused_at g lg \<longleftrightarrow> (\<exists>c. lg_control lg = Some c \<and> pc_paused c \<and> g \<le> pc_generation c)"

text \<open>What a worker of generation at most \<open>g\<close> can do.\<close>

fun op_upto :: "int \<Rightarrow> policy_op \<Rightarrow> bool" where
  "op_upto g (OpPause paused t generation) = (paused \<or> generation \<le> g)"
| "op_upto g _ = True"

lemma paused_not: "paused_at g lg \<Longrightarrow> \<not> not_paused lg"
  by (auto simp: paused_at_def not_paused_def)

lemma paused_step:
  assumes "paused_at g lg" and "op_upto g op"
  shows "paused_at g (apply_op q op lg) \<and> live_count t (apply_op q op lg) \<le> live_count t lg \<and>
    length (lg_rows (apply_op q op lg)) = length (lg_rows lg)"
proof (cases op)
  case (OpPause paused u generation)
  have "lg_rows (stmt_pause paused u generation lg) = lg_rows lg"
    by (simp add: stmt_pause_def Let_def split: option.split)
  moreover have "paused_at g (stmt_pause paused u generation lg)"
    using assms OpPause by (auto simp: paused_at_def stmt_pause_def Let_def)
  ultimately show ?thesis using OpPause by (simp add: live_count_def count_rows_def)
next
  case (OpRelease i terminal)
  show ?thesis
  proof (cases "jget (lg_rows lg) i")
    case None
    then show ?thesis using OpRelease assms(1) by (simp add: stmt_release_def)
  next
    case (Some r)
    have "length (jset (lg_rows lg) i x) = length (lg_rows lg)" for x
      using filter_jset_old [OF Some, of "\<lambda>_. True" x] by simp
    moreover have "live_count t (set_row i (r\<lparr>pw_active := False, pw_completed := terminal, pw_leaseUntil := 0\<rparr>) lg)
        \<le> live_count t lg"
      by (rule live_shrink) (simp add: live_row_def)
    ultimately show ?thesis using OpRelease assms(1) Some by (simp add: stmt_release_def paused_at_def)
  qed
qed (use assms(1) paused_not in \<open>auto simp: stmt_insert_def stmt_reacquire_def stmt_reclaim_def stmt_consume_def split: option.split\<close>)

lemma paused_ops:
  assumes "paused_at g lg" and "list_all (op_upto g) ops"
  shows "paused_at g (fold (apply_op q) ops lg) \<and> live_count t (fold (apply_op q) ops lg) \<le> live_count t lg \<and>
    length (lg_rows (fold (apply_op q) ops lg)) = length (lg_rows lg)"
  using assms
proof (induction ops arbitrary: lg)
  case (Cons op ops)
  then have step: "paused_at g (apply_op q op lg)" "live_count t (apply_op q op lg) \<le> live_count t lg"
      "length (lg_rows (apply_op q op lg)) = length (lg_rows lg)"
    using paused_step [of g lg op q t] by simp_all
  then show ?case using Cons.IH [OF step(1)] Cons.prems(2) by fastforce
qed simp

lemma paused_no_admission:
  assumes "paused_at g (itf 0 lg)" and "fst (admit env t input itf lg) = Inr a"
  shows "\<not> ad_allowed a"
proof -
  have "persistedPause s (itf 0 lg)" for s
    using assms(1) by (auto simp: paused_at_def persistedPause_def)
  then show ?thesis using assms(2) by (auto simp: admit_def reject_def Let_def split: if_splits)
qed

lemma paused_no_step:
  assumes "paused_at g (itf 0 lg)"
  shows "fst (consumeStep env t i itf lg) \<noteq> Inr ()"
proof -
  have "persistedPause s (itf 0 lg)" for s
    using assms by (auto simp: paused_at_def persistedPause_def)
  then show ?thesis by (simp add: consumeStep_def Let_def paused_error_def)
qed

lemma sync_pauses:
  assumes "ps_generation (policySettings env) = Some g"
    and "\<not> ps_valid (policySettings env) \<or> \<not> ps_executionsEnabled (policySettings env)"
    and "\<And>c. lg_control (itf 0 lg) = Some c \<Longrightarrow> pc_generation c \<le> g"
  shows "paused_at g (syncExecutionPolicyPause env t itf lg)"
  using assms by (auto simp: syncExecutionPolicyPause_def stmt_pause_def paused_at_def Let_def split: option.split)

section \<open>The contract with the runtime\<close>

text \<open>The tables after the calls a run made: it releases its own reservation, as terminal.\<close>

definition after_calls :: "('p \<Rightarrow> string \<Rightarrow> 'p) \<Rightarrow> string \<Rightarrow> run_event list \<Rightarrow> 'p \<Rightarrow> 'p" where
  "after_calls give i evs p = foldl (\<lambda>p ev. if ev = EvRelease then give p i else p) p evs"

text \<open>
  What the runtime relies on: when the policy is metered, a fresh admission takes a slot and a
  release gives it back.
\<close>

locale run_policy =
  fixes metered :: bool
    and take_slot :: "'p \<Rightarrow> string \<Rightarrow> (js_error + admission) \<times> 'p"
    and give_slot :: "'p \<Rightarrow> string \<Rightarrow> 'p"
    and has_slot :: "'p \<Rightarrow> string \<Rightarrow> bool"
  assumes taken: "metered \<Longrightarrow> take_slot p i = (Inr a, p') \<Longrightarrow> ad_allowed a \<Longrightarrow> \<not> ad_alreadyActive a \<Longrightarrow> has_slot p' i"
    and given: "metered \<Longrightarrow> \<not> has_slot (give_slot p i) i"
begin

lemma after_release: "metered \<Longrightarrow> EvRelease \<in> set evs \<Longrightarrow> \<not> has_slot (after_calls give_slot i evs p) i"
  by (induction evs rule: rev_induct) (auto simp: after_calls_def given)

lemma after_none: "EvRelease \<notin> set evs \<Longrightarrow> after_calls give_slot i evs p = p"
  by (induction evs rule: rev_induct) (auto simp: after_calls_def)

lemma worker_keeps_none:
  assumes "metered" and "rh_policy h" and "rh_admit h = fst (take_slot p i)"
    and "fst (take_slot p i) = Inr a" and "ad_allowed a" and "\<not> ad_alreadyActive a"
  shows "has_slot (snd (take_slot p i)) i"
    and "\<not> has_slot (after_calls give_slot i (snd (worker_execute h flow params i)) (snd (take_slot p i))) i"
  using taken [OF assms(1), of p i a "snd (take_slot p i)"] assms
    after_release [OF assms(1)] worker_releases [of h a flow params i]
  by (auto simp: prod_eq_iff)

lemma durable_keeps:
  assumes "metered" and "rh_policy h" and "rh_admit h = fst (take_slot p i)"
    and "fst (take_slot p i) = Inr a" and "ad_allowed a" and "\<not> ad_alreadyActive a"
  shows "has_slot (after_calls give_slot i (snd (workflow_executeWithStep h flow params i)) (snd (take_slot p i))) i
    \<longleftrightarrow> \<not> run_starts h params"
proof -
  have c: "count_list (snd (workflow_executeWithStep h flow params i)) EvRelease = (if run_starts h params then 1 else 0)"
    by (rule workflow_release [OF assms(2) _ assms(5)]) (simp add: assms(3,4))
  have slot: "has_slot (snd (take_slot p i)) i"
    using taken [OF assms(1), of p i a "snd (take_slot p i)"] assms(4-6) by (simp add: prod_eq_iff)
  show ?thesis
  proof (cases "run_starts h params")
    case True
    then have "EvRelease \<in> set (snd (workflow_executeWithStep h flow params i))"
      using c by (metis count_notin zero_neq_one)
    then show ?thesis using True after_release [OF assms(1)] by blast
  next
    case False
    then have "EvRelease \<notin> set (snd (workflow_executeWithStep h flow params i))"
      using c by (simp add: count_list_0_iff)
    then show ?thesis using False slot by (simp add: after_none)
  qed
qed

end

definition run_admission :: "run_params \<Rightarrow> string \<Rightarrow> admission_input" where
  "run_admission p executionId = \<lparr>ai_executionId = executionId, ai_organizationId = pr_organizationId p,
     ai_workflowId = w_id (pr_workflow p), ai_nodeCount = Fin (of_nat (length (w_nodes (pr_workflow p))))\<rparr>"

interpretation ledger_policy: run_policy "ps_quotasEnabled (policySettings env)"
    "\<lambda>lg i. admit env t (run_admission pr i) itf lg" "\<lambda>lg i. policy_release env i True lg" holds_slot
  for env t pr itf
proof unfold_locales
  fix p i a p'
  assume "ps_quotasEnabled (policySettings env)" "admit env t (run_admission pr i) itf p = (Inr a, p')"
    "ad_allowed a" "\<not> ad_alreadyActive a"
  then show "holds_slot p' i"
    using fresh_takes_slot(1) [of env t "run_admission pr i" itf p a p'] by (auto simp: holds_slot_def run_admission_def)
next
  fix p i
  assume "ps_quotasEnabled (policySettings env)"
  then show "\<not> holds_slot (policy_release env i True p) i"
    by (auto simp: policy_release_def quotas_flag stmt_release_def holds_slot_def jget_jset split: option.splits)
qed

end
