(* ===== verification/Flow_Samples.thy ===== *)
theory Flow_Samples
  imports Flow_Run
begin

text \<open>
  Concrete inputs for the properties of the engine: a workflow of two connected nodes whose types
  are not registered, so that the first fails and the second is skipped, and the run of the
  scheduler on it, event by event.
\<close>

section \<open>Two connected nodes\<close>

definition text_param :: "string \<Rightarrow> parameter" where
  "text_param name = \<lparr>p_name = name, p_type = ''string'', p_value = JUndef, p_required = False,
     p_repeated = False, p_provider = JUndef\<rparr>"

definition node_a :: node where
  "node_a = \<lparr>n_id = ''a'', n_name = ''A'', n_type = ''text'', n_inputs = [], n_outputs = [text_param ''x'']\<rparr>"

definition node_b :: node where
  "node_b = \<lparr>n_id = ''b'', n_name = ''B'', n_type = ''show'', n_inputs = [text_param ''y''], n_outputs = []\<rparr>"

definition edge_ab :: edge where
  "edge_ab = \<lparr>e_source = ''a'', e_target = ''b'', e_sourceOutput = ''x'', e_targetInput = ''y''\<rparr>"

definition sample_wf :: workflow where
  "sample_wf = \<lparr>w_id = ''w'', w_name = ''Sample'', w_trigger = ''manual'',
     w_nodes = [node_a, node_b], w_edges = [edge_ab]\<rparr>"

definition sample_graph :: exec_graph where
  "sample_graph = \<lparr>g_workflow = sample_wf, g_nodeIds = [''a'', ''b''],
     g_nodesById = [(''a'', node_a), (''b'', node_b)], g_inbound = [(''b'', [edge_ab])],
     g_deps = [(''a'', []), (''b'', [''a''])]\<rparr>"

lemmas sample_defs = sample_wf_def node_a_def node_b_def edge_ab_def text_param_def

lemma sample_builds: "build sample_wf = Inr sample_graph"
  by (simp add: sample_graph_def sample_defs build_def topologicalOrder_def Let_def index_deps_def
      index_inbound_def index_outbound_def add_dependency_def set_add_def pushInto_def
      initial_remaining_def deps_of_def unblock_def unblock_one_def js_set_def edges_of_def
      jmap_of_list_def)

lemma sample_valid: "validateWorkflow sample_wf None = Some []"
  by (simp add: validateWorkflow_def detectCycles_def check_ids_def sample_defs set_add_def
      validateTypeCompatibility_def check_connection_def find_node_def find_param_def
      areTypesCompatible_def connection_key_def Let_def numeral_2_eq_2 numeral_3_eq_3)

lemma sample_graph_ok: "graph_ok sample_graph"
  by (rule graph_okI [OF _ sample_builds]) (simp add: node_ids_def sample_defs)

lemma sample_plain: "plain_ids sample_graph"
  by (simp add: plain_ids_def sample_graph_def object_prototype_keys_def)

lemma sample_graph_simps [simp]:
  "g_nodeIds sample_graph = [''a'', ''b'']" "g_workflow sample_graph = sample_wf"
  "inboundEdges sample_graph ''a'' = []" "inboundEdges sample_graph ''b'' = [edge_ab]"
  "dependencies sample_graph ''a'' = []" "dependencies sample_graph ''b'' = [''a'']"
  "graph_node sample_graph ''a'' = Some node_a" "graph_node sample_graph ''b'' = Some node_b"
  by (simp_all add: sample_graph_def inboundEdges_def dependencies_def deps_of_def edges_of_def graph_node_def)

section \<open>An executor without node types\<close>

definition sample_host :: host where
  "sample_host = \<lparr>h_objectStore = False, h_write = (\<lambda>op ops. Inr JUndef), h_read = (\<lambda>r ops. Inr None),
     h_schemaService = False, h_schema = (\<lambda>s org ops. Inr None), h_parse = (\<lambda>s. None),
     h_dateText = (\<lambda>s. None)\<rparr>"

definition sample_executor :: executor where
  "sample_executor = \<lparr>ex_registry = base_registry [], ex_host = sample_host, ex_asyncSupported = False\<rparr>"

definition sample_context :: run_context where
  "sample_context = \<lparr>rc_workflowId = ''w'', rc_organizationId = ''org'', rc_userId = ''u'',
     rc_executionId = ''e'', rc_trigger = [], rc_inputOverrides = None\<rparr>"

definition result_a :: node_result where
  "result_a = Errored ''a'' None (nodeTypeNotImplementedMessage ''a'' ''text'') None"

definition result_b :: node_result where
  "result_b = Skipped ''b'' UpstreamFailure [''a'']"

definition state_a :: execution_state where
  "state_a = initial_state\<lparr>nodeErrors := [(''a'', nodeTypeNotImplementedMessage ''a'' ''text'')]\<rparr>"

definition state_ab :: execution_state where
  "state_ab = state_a\<lparr>skippedNodes := [''b'']\<rparr>"

lemma bound_result_a: "bound_result initial_state result_a = result_a"
  using initial_state_ok
  by (simp add: result_a_def bound_result_def with_inputs_def with_outputs_def state_ok_def
      nodeTypeNotImplementedMessage_def)

lemma apply_a: "applyNodeResult initial_state result_a = (state_a, result_a)"
  by (simp add: applyNodeResult_def bound_result_a Let_def)
    (simp add: result_a_def state_a_def with_inputs_def initial_state_def)

lemma apply_b: "applyNodeResult state_a result_b = (state_ab, result_b)"
  by (simp add: applyNodeResult_def result_b_def Let_def state_ab_def with_inputs_def)
    (simp add: state_a_def initial_state_def)

lemma run_a: "may_run sample_executor sample_context sample_graph initial_state ''a'' result_a"
  unfolding may_run_def
  by (rule exI [of _ "io_return result_a"])
    (simp add: execute_def checkSkipCondition_def analyzeUpstream_def conclude_def js_in_def
      object_prototype_keys_def resolveExecutable_def sample_executor_def base_registry_def
      getNodeType_def result_a_def node_a_def Let_def io_return_def)

lemma analyze_b: "analyzeUpstream sample_graph state_a ''b'' =
    Some \<lparr>ua_shouldSkip = True, ua_reason = UpstreamFailure, ua_blockedBy = [''a'']\<rparr>"
  by (simp add: analyzeUpstream_def conclude_def js_in_def state_a_def edge_ab_def Let_def)

lemma run_b: "may_run sample_executor sample_context sample_graph state_a ''b'' result_b"
  unfolding may_run_def
  by (rule exI [of _ "io_return result_b"])
    (simp add: execute_def checkSkipCondition_def analyze_b result_b_def io_return_def)

section \<open>The run\<close>

text \<open>The state after each of the six events.\<close>

definition sample_sched :: "execution_state \<Rightarrow> string list \<Rightarrow> string list \<Rightarrow> flight jmap \<Rightarrow> bool \<Rightarrow> sched" where
  "sample_sched st settled started flights reporting = \<lparr>sd_state = st, sd_settled = settled,
     sd_started = started, sd_inFlight = flights, sd_pending = [], sd_reporting = reporting,
     sd_failed = False\<rparr>"

lemma sample_start: "sched_start sample_graph initial_state =
    sample_sched initial_state [] [''a''] [(''a'', Running)] False"
  by (simp add: sched_start_def scheduleReady_def isReady_def startNode_def set_add_def sample_sched_def)

lemma sample_step1: "sched_step sample_graph (RunDone ''a'' result_a)
    (sample_sched initial_state [] [''a''] [(''a'', Running)] False) =
    Some (sample_sched initial_state [] [''a''] [(''a'', Ready result_a)] False)"
  by (simp add: sample_sched_def run_done_def result_a_def)

lemma sample_step2: "sched_step sample_graph (Settle ''a'')
    (sample_sched initial_state [] [''a''] [(''a'', Ready result_a)] False) =
    Some (sample_sched state_a [''a''] [''a'', ''b''] [(''b'', Running)] True)"
  by (simp add: sample_sched_def settle_def apply_a scheduleReady_def isReady_def startNode_def
      set_add_def jdel_def)

lemma sample_step3: "sched_step sample_graph ProgressDone
    (sample_sched state_a [''a''] [''a'', ''b''] [(''b'', Running)] True) =
    Some (sample_sched state_a [''a''] [''a'', ''b''] [(''b'', Running)] False)"
  by (simp add: sample_sched_def)

lemma sample_step4: "sched_step sample_graph (RunDone ''b'' result_b)
    (sample_sched state_a [''a''] [''a'', ''b''] [(''b'', Running)] False) =
    Some (sample_sched state_a [''a''] [''a'', ''b''] [(''b'', Ready result_b)] False)"
  by (simp add: sample_sched_def run_done_def result_b_def)

lemma sample_step5: "sched_step sample_graph (Settle ''b'')
    (sample_sched state_a [''a''] [''a'', ''b''] [(''b'', Ready result_b)] False) =
    Some (sample_sched state_ab [''a'', ''b''] [''a'', ''b''] [] True)"
  by (simp add: sample_sched_def settle_def apply_b scheduleReady_def isReady_def startNode_def
      set_add_def jdel_def)

lemma sample_step6: "sched_step sample_graph ProgressDone
    (sample_sched state_ab [''a'', ''b''] [''a'', ''b''] [] True) =
    Some (sample_sched state_ab [''a'', ''b''] [''a'', ''b''] [] False)"
  by (simp add: sample_sched_def)

definition sample_end :: sched where
  "sample_end = sample_sched state_ab [''a'', ''b''] [''a'', ''b''] [] False"

lemma sample_reach1: "run_reach sample_executor sample_context sample_graph 1
    (sample_sched initial_state [] [''a''] [(''a'', Ready result_a)] False)"
proof -
  have "sched_reach (may_run sample_executor sample_context) (may_resolve sample_executor sample_context sample_graph)
      sample_graph initial_state 0 (sample_sched initial_state [] [''a''] [(''a'', Running)] False)"
    using sched_reach.start [of _ _ sample_graph initial_state] by (simp add: sample_start)
  then show ?thesis unfolding run_reach_def One_nat_def
    by (rule sched_reach.step [OF _ _ sample_step1]) (simp add: sample_sched_def run_a)
qed

lemma run_reach_step:
  "run_reach ex ctx g k s \<Longrightarrow> sched_step g ev s = Some s' \<Longrightarrow>
   answer_ok (may_run ex ctx) (may_resolve ex ctx g) g ev s \<Longrightarrow> run_reach ex ctx g (Suc k) s'"
  unfolding run_reach_def by (rule sched_reach.step)

lemma sample_reach4: "run_reach sample_executor sample_context sample_graph (Suc (Suc (Suc 1)))
    (sample_sched state_a [''a''] [''a'', ''b''] [(''b'', Ready result_b)] False)"
  by (rule run_reach_step [OF run_reach_step [OF run_reach_step [OF sample_reach1 sample_step2]
        sample_step3] sample_step4]) (simp_all add: sample_sched_def run_b)

lemma sample_reach: "run_reach sample_executor sample_context sample_graph 6 sample_end"
proof -
  have "run_reach sample_executor sample_context sample_graph (Suc (Suc (Suc (Suc (Suc 1))))) sample_end"
    unfolding sample_end_def
    by (rule run_reach_step [OF run_reach_step [OF sample_reach4 sample_step5] sample_step6]) simp_all
  then show ?thesis by (simp add: eval_nat_numeral)
qed

lemma sample_finished: "sched_finished sample_end"
  by (simp add: sched_finished_def sample_end_def sample_sched_def)

end
