(* ===== verification/Flow_Properties.thy ===== *)
theory Flow_Properties
  imports Flow_Samples
begin

text \<open>
  The properties of the workflow engine, each with a witness: first the scheduler and its state,
  then the graph and its validation, the limits, the values that cross the boundary of a node,
  the registries, and the lifecycle of a run.
\<close>

section \<open>The scheduler\<close>

text \<open>C1: when the scheduler of a run has finished, every node of the graph is recorded exactly
  once, as executed, skipped or failed, whatever the order in which the tasks ended.\<close>

lemma scheduler_records_once:
  assumes "graph_ok g" and "plain_ids g" and "run_reach ex ctx g k s" and "sched_finished s"
  shows "distinct (recorded (sd_state s)) \<and> set (recorded (sd_state s)) = set (g_nodeIds g)"
  using hooks.finished_record(1,2) [OF assms(1,2) assms(3) [unfolded run_reach_def] assms(4)] by blast

lemma scheduler_records_once_witness:
  "sched_finished sample_end \<and> distinct (recorded (sd_state sample_end)) \<and>
   set (recorded (sd_state sample_end)) = {''a'', ''b''}"
  using scheduler_records_once [OF sample_graph_ok sample_plain sample_reach sample_finished]
  by (simp add: sample_finished)

text \<open>C2: the status of a finished run is error exactly when some node failed; a node skipped because
  of an upstream failure cannot occur without that failure.\<close>

lemma run_status:
  assumes "graph_ok g" and "plain_ids g" and "run_reach ex ctx g k s" and "sched_finished s"
  shows "getExecutionStatus g (sd_state s) =
    Some (if nodeErrors (sd_state s) \<noteq> [] then WError else WCompleted)"
  by (rule hooks.finished_status [OF assms(1,2) assms(3) [unfolded run_reach_def] assms(4)])

lemma run_status_witness: "getExecutionStatus sample_graph state_ab = Some WError"
  using run_status [OF sample_graph_ok sample_plain sample_reach sample_finished]
  by (simp add: sample_end_def sample_sched_def state_ab_def state_a_def)

text \<open>C3: the scheduler takes at most four events per node, plus one, before it returns or throws.\<close>

lemma scheduler_bounded:
  assumes "graph_ok g" and "run_reach ex ctx g k s"
  shows "k \<le> 4 * length (g_nodeIds g) + 1"
  using reach_length [OF assms(1) assms(2) [unfolded run_reach_def]] by simp

lemma scheduler_bounded_witness:
  "run_reach sample_executor sample_context sample_graph 6 sample_end \<and>
   6 \<le> 4 * length (g_nodeIds sample_graph) + 1"
  using scheduler_bounded [OF sample_graph_ok sample_reach] sample_reach by blast

text \<open>C4: while the scheduler has neither returned nor thrown, another event can happen, so it never
  waits for a node that cannot end.\<close>

lemma scheduler_progress:
  assumes "run_reach ex ctx g k s" and "\<not> sched_finished s" and "\<not> sd_failed s"
  shows "\<exists>ev s'. sched_step g ev s = Some s' \<and> run_reach ex ctx g (Suc k) s'"
  using run_progress [OF assms(2,3)] run_reach_step [OF assms(1)] by blast

lemma scheduler_progress_witness:
  "\<exists>ev s'. sched_step sample_graph ev
     (sample_sched initial_state [] [''a''] [(''a'', Ready result_a)] False) = Some s' \<and>
     run_reach sample_executor sample_context sample_graph (Suc 1) s'"
  by (rule scheduler_progress [OF sample_reach1]) (simp_all add: sched_finished_def sample_sched_def)

text \<open>C5: at every moment of a run, a node has started exactly when all its upstream nodes have
  settled, and no node starts twice.\<close>

lemma starts_when_ready:
  assumes "graph_ok g" and "run_reach ex ctx g k s" and "n \<in> set (g_nodeIds g)"
  shows "(n \<in> set (sd_started s) \<longleftrightarrow> set (dependencies g n) \<subseteq> set (sd_settled s)) \<and>
    distinct (sd_started s)"
  using reach_inv [OF assms(2) [unfolded run_reach_def] assms(1)] assms(3)
  unfolding sched_inv_def by blast

lemma starts_when_ready_witness:
  "''b'' \<in> set (sd_started sample_end) \<and> set (dependencies sample_graph ''b'') \<subseteq> set (sd_settled sample_end)"
  using starts_when_ready [OF sample_graph_ok sample_reach, of "''b''"]
  by (simp add: sample_end_def sample_sched_def)

text \<open>C6: at every moment of a run, the recorded inputs and outputs together are within the 4 MiB
  estimate and no recorded error is longer than 4096 characters.\<close>

lemma state_stays_bounded:
  assumes "graph_ok g" and "plain_ids g" and "run_reach ex ctx g k s"
  shows "\<not> over_limit (nodeInputs (sd_state s)) (nodeOutputs (sd_state s)) \<and>
    list_all (\<lambda>(n, e). length e \<le> 4096) (nodeErrors (sd_state s))"
  using hooks.reach_rec [OF assms(1,2) assms(3) [unfolded run_reach_def]]
  by (auto simp: rec_inv_def state_ok_def list_all_iff)

lemma state_stays_bounded_witness:
  "\<not> over_limit (nodeInputs state_ab) (nodeOutputs state_ab) \<and>
   list_all (\<lambda>(n, e). length e \<le> 4096) (nodeErrors state_ab)"
  using state_stays_bounded [OF sample_graph_ok sample_plain sample_reach]
  by (simp add: sample_end_def sample_sched_def)

text \<open>C7: the reason reported for a skipped node of a finished run is an upstream failure exactly when
  a chain of skipped nodes leads from it up to a failed one.\<close>

lemma skip_reason_traced:
  assumes "graph_ok g" and "plain_ids g" and "run_reach ex ctx g k s" and "sched_finished s"
    and "n \<in> set (skippedNodes (sd_state s))"
  shows "\<exists>r b. inferSkipReason g (sd_state s) n = Some (r, b) \<and>
    (r = UpstreamFailure \<longleftrightarrow> upstream_error g (sd_state s) n)"
proof -
  have just: "skips_justified g (sd_state s)"
    by (rule hooks.finished_record(3) [OF assms(1,2) assms(3) [unfolded run_reach_def] assms(4)])
  then obtain a where "n \<in> set (g_nodeIds g)" "analyzeUpstream g (sd_state s) n = Some a" "ua_shouldSkip a"
    using assms(5) by (auto simp: skips_justified_def)
  then show ?thesis using reason_iff_error [OF assms(1) just] by (auto simp: inferSkipReason_def)
qed

lemma skip_reason_traced_witness:
  "\<exists>r b. inferSkipReason sample_graph state_ab ''b'' = Some (r, b) \<and>
     (r = UpstreamFailure \<longleftrightarrow> upstream_error sample_graph state_ab ''b'')"
  using skip_reason_traced [OF sample_graph_ok sample_plain sample_reach sample_finished, of "''b''"]
  by (simp add: sample_end_def sample_sched_def state_ab_def)

text \<open>the execution record has exactly one entry per node of the workflow, in the order of the
  workflow, for every reachable state and whatever status is imposed.\<close>

lemma report_one_entry_per_node:
  assumes "graph_ok g" and "plain_ids g" and "run_reach ex ctx g k s"
  shows "\<exists>xs. buildNodeExecutions g (sd_state s) os ps = Some xs \<and>
    map nx_node xs = map n_id (w_nodes (g_workflow g))"
proof -
  have "rec_inv g s" by (rule hooks.reach_rec [OF assms(1,2) assms(3) [unfolded run_reach_def]])
  moreover have "sched_inv g s" by (rule reach_inv [OF assms(3) [unfolded run_reach_def] assms(1)])
  ultimately have "set (skippedNodes (sd_state s)) \<subseteq> set (g_nodeIds g)"
    by (auto simp: rec_inv_def sched_inv_def recorded_def)
  then show ?thesis using report_nodes [OF assms(1)] by (simp add: node_ids_def)
qed

lemma report_one_entry_per_node_witness:
  "\<exists>xs. buildNodeExecutions sample_graph state_ab None [] = Some xs \<and> map nx_node xs = [''a'', ''b'']"
  using report_one_entry_per_node [OF sample_graph_ok sample_plain sample_reach, of None "[]"]
  by (simp add: sample_end_def sample_sched_def sample_defs)

section \<open>The graph and its validation\<close>

text \<open>C8: indexing a workflow with distinct node ids succeeds exactly when its dependency relation
  has no cycle and every dependency is a node of the workflow.\<close>

lemma build_succeeds_exactly:
  assumes "distinct (node_ids w)"
  shows "(\<exists>g. build w = Inr g) \<longleftrightarrow>
    acyclic (dep_rel w) \<and> (\<forall>t. deps_set w t \<subseteq> set (node_ids w))"
  by (rule build_succeeds_iff [OF assms])

lemma build_succeeds_exactly_witness: "acyclic (dep_rel sample_wf)"
  using build_succeeds_exactly [of sample_wf] sample_builds by (auto simp: node_ids_def sample_defs)

text \<open>C9: a workflow that validates can be indexed, and the order it is given lists every node once,
  after everything it depends on.\<close>

lemma validated_builds:
  assumes "validateWorkflow w nodeTypes = Some []"
  shows "\<exists>g. build w = Inr g \<and> distinct (g_nodeIds g) \<and> set (g_nodeIds g) = set (node_ids w) \<and>
    respecting (deps_set w) {} (g_nodeIds g)"
proof -
  obtain g where g: "build w = Inr g" "graph_ok g" using valid_builds [OF assms] by blast
  have "(\<lambda>n. set (dependencies g n)) = deps_set w" using set_dependencies [OF g(1)] by blast
  then show ?thesis using g graph_ok_order [OF g(2)] build_workflow [OF g(1)] by metis
qed

lemma validated_builds_witness:
  "validateWorkflow sample_wf None = Some [] \<and>
   (\<exists>g. build sample_wf = Inr g \<and> respecting (deps_set sample_wf) {} (g_nodeIds g))"
  using validated_builds [OF sample_valid] sample_valid by blast

text \<open>C10: the depth-first search for cycles always returns, and it finds none exactly when no node of
  the workflow leads into a cycle of edges.\<close>

lemma cycle_search_correct:
  "detectCycles w \<noteq> None \<and>
   (detectCycles w = Some None \<longleftrightarrow>
     (\<forall>n \<in> set (node_ids w). \<forall>y. (n, y) \<in> (edge_rel (w_edges w))\<^sup>* \<longrightarrow> (y, y) \<notin> (edge_rel (w_edges w))\<^sup>+))"
  using detectCycles_returns detectCycles_iff by blast

lemma cycle_search_correct_witness:
  "detectCycles sample_wf = Some None \<and> (''a'', ''a'') \<notin> (edge_rel (w_edges sample_wf))\<^sup>+"
proof -
  have d: "detectCycles sample_wf = Some None" using sample_valid by (simp add: validateWorkflow_Nil)
  moreover have "''a'' \<in> set (node_ids sample_wf)" by (simp add: node_ids_def sample_defs)
  ultimately show ?thesis using cycle_search_correct [of sample_wf] by blast
qed

section \<open>Limits\<close>

text \<open>C11: a value passes the limit check exactly when it is less than a hundred containers deep
  and its count fits the limit; the estimate is then the count. The count is the number of UTF-8
  bytes of the value's JSON text, which is never built, when no member or element is undefined, and
  is never below that number: an undefined member, which the text leaves out, is counted with its
  name and eight bytes.\<close>

lemma limit_check_exact:
  "(assertRuntimeValueWithinLimit v mx label = Inr () \<longleftrightarrow> depth_ok 0 v \<and> json_cost v \<le> mx) \<and>
   (depth_ok 0 v \<longrightarrow> json_cost v \<le> mx \<longrightarrow> estimateRuntimeJsonBytes v mx = json_cost v) \<and>
   (undef_free v \<longrightarrow> json_units v \<noteq> None \<and> json_cost v = json_bytes v) \<and>
   (\<forall>u. json_units v = Some u \<longrightarrow> utf8_len u \<le> json_cost v)"
  using estimate_within [of v mx] estimate_above [of v mx] json_cost_text [of v]
    json_bytes_cost [of v] json_text_le_cost [of v]
  by (fastforce simp: assert_within_limit_iff)

lemma limit_check_exact_witness:
  "assertRuntimeValueWithinLimit (JArr [JBool True, JNull]) 11 ''x'' = Inr () \<and>
   json_bytes (JArr [JBool True, JNull]) = 11 \<and>
   assertRuntimeValueWithinLimit (JObj [(''a'', JUndef)]) 13 ''x'' \<noteq> Inr () \<and>
   json_units (JObj [(''a'', JUndef)]) = Some (units ''{}'')"
proof -
  have "json_bytes (JArr [JBool True, JNull]) = 11" "undef_free (JArr [JBool True, JNull])"
    "depth_ok 0 (JArr [JBool True, JNull])"
    by (simp_all add: json_bytes_def units_def)
  moreover have "json_cost (JObj [(''a'', JUndef)]) = 14"
    by (simp add: text_cost_def units_def esc_unit_def surrogate_def hi_surrogate_def lo_surrogate_def)
  moreover have "json_units (JObj [(''a'', JUndef)]) = Some (units ''{}'')" by (simp add: units_def)
  ultimately show ?thesis using limit_check_exact [of "JArr [JBool True, JNull]" 11 "''x''"]
      limit_check_exact [of "JObj [(''a'', JUndef)]" 13 "''x''"] by simp
qed

end
