(* ===== verification/Flow_Guarantees.thy ===== *)
theory Flow_Guarantees
  imports Flow_Properties
begin

text \<open>
  What a node gets, what it may write, what a rehearsal does, and what one run leaves behind: the
  properties of the mapper, the registries, the executor and the runtime, each with a concrete
  run on which it is used.
\<close>

section \<open>Inputs and outputs of a node\<close>

text \<open>C12: an input of a node is what its edges deliver, all of it in order when the input is
  repeated and the last value otherwise; without any, the override of the run, when the node declares
  the input; and otherwise the value set on the node.\<close>

lemma inputs_precedence:
  "jget (collected n st x inbound overrides) k =
     (if edge_values st x inbound k \<noteq> []
      then Some (if accepts_multiple x k then JArr (edge_values st x inbound k)
                 else last (edge_values st x inbound k))
      else case override_of (n_inputs n) overrides k of
        Some v \<Rightarrow> Some v
      | None \<Rightarrow> default_of (n_inputs n) k)"
  by (rule collected_spec)

text \<open>C13: however the resolution of a node's inputs ends, nothing was written, schemas were looked
  up for the organization only, and every object that was read is one of the organization's own or
  does not exist, with one exception: the last read, when the store failed it or answered with an
  object that is not the organization's; the resolution then fails with that error, in the second
  case with "Object not found or access denied." Without an organization id every object counts as
  its own.\<close>

lemma inputs_own_objects:
  assumes "collectInputs ex n st x inbound organizationId overrides ops = (r, ops')"
  shows "\<exists>new. ops' = ops @ new \<and>
    (\<forall>k < length new. input_call (ex_host ex) organizationId (ops @ take k new) (new ! k) \<or>
       (Suc k = length new \<and>
        (\<exists>e. r = Inl e \<and> refused_call (ex_host ex) organizationId (ops @ take k new) (new ! k) e)))"
  using collectInputs_calls [of ex organizationId n st x inbound overrides] assms
  unfolding calls_ok_def calls_meet_def by blast

definition image_node :: node where
  "image_node = \<lparr>n_id = ''i'', n_name = ''I'', n_type = ''resize'',
     n_inputs = [(text_param ''image'')\<lparr>p_type := ''image'',
       p_value := JObj [(''id'', JStr ''o1''), (''mimeType'', JStr ''image/png'')]\<rparr>],
     n_outputs = [(text_param ''image'')\<lparr>p_type := ''image''\<rparr>]\<rparr>"

definition store_host :: host where
  "store_host = sample_host\<lparr>h_objectStore := True,
     h_read := (\<lambda>r ops. Inr (Some ([1, 2, 3], Some [(''organizationId'', ''org'')]))),
     h_write := (\<lambda>op ops. Inr (JObj [(''id'', JStr ''o2''), (''mimeType'', JStr ''image/png'')]))\<rparr>"

definition store_executor :: executor where
  "store_executor = sample_executor\<lparr>ex_host := store_host\<rparr>"

definition plain_executable :: executable where
  "plain_executable = \<lparr>x_nodeType = None, x_multiStep = False, x_execute = (\<lambda>ctx. io_fail (PlainError []))\<rparr>"

lemma image_node_simps [simp]:
  "n_id image_node = ''i''"
  "find_param (n_inputs image_node) ''image'' = Some ((text_param ''image'')\<lparr>p_type := ''image'',
     p_value := JObj [(''id'', JStr ''o1''), (''mimeType'', JStr ''image/png'')]\<rparr>)"
  "find_param (n_outputs image_node) ''image'' = Some ((text_param ''image'')\<lparr>p_type := ''image''\<rparr>)"
  by (simp_all add: image_node_def find_param_def text_param_def)

lemma image_inputs:
  "collected image_node initial_state plain_executable [] None =
     [(''image'', JObj [(''id'', JStr ''o1''), (''mimeType'', JStr ''image/png'')])]"
  by (simp add: collected_def apply_overrides_def default_inputs_def image_node_def text_param_def
      groupByTargetInput_def js_in_def)

lemma image_within: "within_limit (JObj [(''image'', JObj [(''id'', JStr ''o1''),
    (''mimeType'', JStr ''image/png'')])]) MAX_RUNTIME_INPUT_BYTES l = Inr ()"
  by (simp add: within_limit_cases estimateRuntimeJsonBytes_def est_visit.simps est_string_def est_units.simps
      units_def MAX_RUNTIME_INPUT_BYTES_def Let_def)

lemma image_collected:
  "collectInputs store_executor image_node initial_state plain_executable [] ''org'' None [] =
     (Inr ([(''image'', JObj [(''id'', JStr ''o1''), (''mimeType'', JStr ''image/png'')])],
           [(''image'', JObj [(''data'', JBytes [1, 2, 3]), (''mimeType'', JStr ''image/png'')])]),
      [ReadObject (JObj [(''id'', JStr ''o1''), (''mimeType'', JStr ''image/png'')])])"
  by (simp add: collectInputs_def image_inputs image_within io_bind_def io_lift_def Let_def
      apiInputsToNode_def text_param_def declared_type_def
      declared_repeated_def assertRepeatedParameterSize_def BINARY_PARAMETER_TYPES_def elements_of_def
      isBinaryInputReference_def isObjectReference_def js_in_def object_prototype_keys_def
      assertBinaryValueCount_def MAX_BINARY_VALUES_PER_NODE_def apiToNodeParameter_def STRING_TYPES_def
      BLOB_TYPES_def blobApiToNode_def store_executor_def store_host_def sample_executor_def
      read_blob_def io_call_def assert_tenant own_object_def io_return_def with_filename_def
      resolvedBinaryByteLength_def assertAggregateBinaryBytes_def MAX_BINARY_BYTES_PER_NODE_def)

text \<open>The same input under another organization: its object is read and then refused.\<close>

lemma image_refused:
  "collectInputs store_executor image_node initial_state plain_executable [] ''other'' None [] =
     (Inl (PlainError ''Object not found or access denied.''),
      [ReadObject (JObj [(''id'', JStr ''o1''), (''mimeType'', JStr ''image/png'')])])"
  by (simp add: collectInputs_def image_inputs image_within io_bind_def io_lift_def Let_def
      apiInputsToNode_def text_param_def declared_type_def
      declared_repeated_def assertRepeatedParameterSize_def BINARY_PARAMETER_TYPES_def elements_of_def
      isBinaryInputReference_def isObjectReference_def js_in_def object_prototype_keys_def
      assertBinaryValueCount_def MAX_BINARY_VALUES_PER_NODE_def apiToNodeParameter_def STRING_TYPES_def
      BLOB_TYPES_def blobApiToNode_def store_executor_def store_host_def sample_executor_def
      read_blob_def io_call_def assert_tenant own_object_def io_fail_def)

lemma inputs_own_objects_witness:
  "input_call store_host ''org'' [] (ReadObject (JObj [(''id'', JStr ''o1''), (''mimeType'', JStr ''image/png'')])) \<and>
   refused_call store_host ''other'' [] (ReadObject (JObj [(''id'', JStr ''o1''), (''mimeType'', JStr ''image/png'')]))
     (PlainError ''Object not found or access denied.'')"
  using inputs_own_objects [OF image_collected] inputs_own_objects [OF image_refused]
  by (auto simp: store_executor_def input_call_def store_host_def own_object_def)

text \<open>C14: converting a node's outputs makes only writes under the organization and the execution,
  even when it fails. The values of buffer geometry outputs apart, which the preflight does not
  count, there are at most 32 of them and at most 8 MiB in all: these are the bounds for a node
  that declares no output of type buffergeometry, and for another node they are exceeded by no
  more than the buffer geometry values and their bytes.\<close>

lemma outputs_bounded:
  assumes "nodeOutputsToApi h n outs org ex ops = (r, ops')"
  shows "\<exists>new. ops' = ops @ new \<and> list_all (output_call org ex) new \<and>
    ((\<forall>p \<in> set (n_outputs n). p_type p \<noteq> ''buffergeometry'') \<longrightarrow>
       length new \<le> 32 \<and> sum_list (map written new) \<le> 8388608) \<and>
    length new \<le> 32 + sum_of (\<lambda>nv. sum_of blob_count (geometry_values (n_outputs n) nv)) outs \<and>
    sum_list (map written new)
      \<le> 8388608 + sum_of (\<lambda>nv. sum_of blob_bytes (geometry_values (n_outputs n) nv)) outs"
proof -
  obtain new where new: "ops' = ops @ new" "list_all (output_call org ex) new"
    "length new \<le> 32 + sum_of (\<lambda>nv. sum_of blob_count (geometry_values (n_outputs n) nv)) outs"
    "sum_list (map written new)
      \<le> 8388608 + sum_of (\<lambda>nv. sum_of blob_bytes (geometry_values (n_outputs n) nv)) outs"
    by (rule writes_withinD [OF nodeOutputs_writes assms])
      (simp add: MAX_BINARY_VALUES_PER_NODE_def MAX_BINARY_BYTES_PER_NODE_def)
  moreover have "sum_of (\<lambda>nv. sum_of f (geometry_values (n_outputs n) nv)) outs = 0"
    if "\<forall>p \<in> set (n_outputs n). p_type p \<noteq> ''buffergeometry''" for f
    using geometry_values_None [OF that] by (induction outs) simp_all
  ultimately show ?thesis by (intro exI [of _ new]) force
qed

definition image_blob :: jv where
  "image_blob = JObj [(''data'', JBytes [1, 2, 3]), (''mimeType'', JStr ''image/PNG'')]"

lemma image_blob_native: "native_blob image_blob = Some ([1, 2, 3], ''image/PNG'')"
  by (simp add: native_blob_def image_blob_def)

lemma image_blob_simps [simp]:
  "elements_of b image_blob = [image_blob]" "assertRepeatedParameterSize name image_blob b = Inr ()"
  "\<not> is_array image_blob" "js_lower ''image/PNG'' = ''image/png''"
  "(case image_blob of JObj m \<Rightarrow> read_prop m ''filename'' | _ \<Rightarrow> JUndef) = JUndef"
  by (simp_all add: elements_of_def assertRepeatedParameterSize_def image_blob_def) code_simp

lemma image_written:
  "nodeOutputsToApi store_host image_node [(''image'', image_blob)] ''org'' (Some ''e'') [] =
     (Inr [(''image'', JObj [(''id'', JStr ''o2''), (''mimeType'', JStr ''image/png'')])],
      [WriteObject [1, 2, 3] ''image/png'' ''org'' (Some ''e'') JUndef])"
  by (simp add: nodeOutputsToApi_def io_bind_def io_lift_def Let_def declared_type_def text_param_def
      declared_repeated_def BINARY_PARAMETER_TYPES_def
      assertBinaryValueCount_def MAX_BINARY_VALUES_PER_NODE_def image_blob_native
      assertAggregateBinaryBytes_def MAX_BINARY_BYTES_PER_NODE_def convert_output_def
      nodeToApiParameter_def STRING_TYPES_def BLOB_TYPES_def blobNodeToApi_def store_host_def
      io_call_def io_return_def)

lemma outputs_bounded_witness:
  "list_all (output_call ''org'' (Some ''e'')) [WriteObject [1, 2, 3] ''image/png'' ''org'' (Some ''e'') JUndef] \<and>
   length [WriteObject [1, 2, 3] ''image/png'' ''org'' (Some ''e'') JUndef] \<le> 32"
proof -
  have "\<forall>p \<in> set (n_outputs image_node). p_type p \<noteq> ''buffergeometry''"
    by (simp add: image_node_def)
  from this outputs_bounded [OF image_written] show ?thesis by auto
qed

text \<open>buffer geometries escape these limits: a repeated output of them with up to 256 elements
  passes the preflight and is written in full to a store that accepts it, however many bytes it has.\<close>

lemma buffergeometry_unbounded:
  assumes "find_param (n_outputs n) k = Some p" and "p_type p = ''buffergeometry''" and "p_repeated p"
    and "length vs \<le> 256" and "list_all isNativeBlobParameter vs"
    and "h_objectStore h" and "org \<noteq> []" and "\<And>op ops. h_write h op ops = Inr (ref op)"
  shows "\<exists>outs new. nodeOutputsToApi h n [(k, JArr vs)] org ex [] = (Inr outs, new) \<and>
    length new = length vs \<and> sum_list (map written new) = sum_list (map blob_bytes vs)"
proof -
  have pre: "preflightBinaryOutputs (n_outputs n) [(k, JArr vs)] 0 0 = Inr (0, 0)"
    using assms(1-4) by (simp add: declared_type_def declared_repeated_def assertRepeatedParameterSize_def
        BINARY_PARAMETER_TYPES_def MAX_REPEATED_PARAMETER_ELEMENTS_def)
  have "\<exists>xs new. io_map (nodeToApiParameter h ''buffergeometry'' org ex) vs ops = (Inr xs, ops @ new) \<and>
      length new = length vs \<and> sum_list (map written new) = sum_list (map blob_bytes vs)" for ops
    using assms(5)
  proof (induction vs arbitrary: ops)
    case Nil
    then show ?case by (simp add: io_return_def)
  next
    case (Cons v vs)
    obtain bs mime where v: "native_blob v = Some (bs, mime)"
      using Cons.prems by (auto simp: isNativeBlobParameter_def)
    define op where "op = WriteObject bs (js_lower mime) org ex (case v of JObj m \<Rightarrow> read_prop m ''filename'' | _ \<Rightarrow> JUndef)"
    have first: "nodeToApiParameter h ''buffergeometry'' org ex v ops = (Inr (ref op), ops @ [op])"
      using assms(6-8) v by (simp add: nodeToApiParameter_def STRING_TYPES_def BLOB_TYPES_def
          blobNodeToApi_def io_call_def op_def Let_def)
    obtain xs new where rest: "io_map (nodeToApiParameter h ''buffergeometry'' org ex) vs (ops @ [op]) =
        (Inr xs, (ops @ [op]) @ new)" "length new = length vs"
        "sum_list (map written new) = sum_list (map blob_bytes vs)"
      using Cons.IH [of "ops @ [op]"] Cons.prems by auto
    have "written op = blob_bytes v" by (simp add: op_def blob_bytes_def v)
    then show ?case using first rest
      by (intro exI [of _ "ref op # xs"] exI [of _ "op # new"]) (simp add: io_bind_def io_return_def)
  qed
  then obtain xs new where "io_map (nodeToApiParameter h ''buffergeometry'' org ex) vs [] = (Inr xs, new)"
      "length new = length vs" "sum_list (map written new) = sum_list (map blob_bytes vs)"
    by (metis append_Nil)
  then show ?thesis using pre assms(1-3)
    by (simp add: nodeOutputsToApi_def io_bind_def io_lift_def convert_output_def Let_def
        declared_type_def declared_repeated_def elements_of_def io_return_def)
qed

definition geometry_node :: node where
  "geometry_node = image_node\<lparr>n_outputs := [(text_param ''g'')\<lparr>p_type := ''buffergeometry'', p_repeated := True\<rparr>]\<rparr>"

lemma buffergeometry_unbounded_witness:
  "\<exists>outs new. nodeOutputsToApi store_host geometry_node [(''g'', JArr (replicate 33 image_blob))] ''org'' None [] =
     (Inr outs, new) \<and> length new = 33 \<and> sum_list (map written new) = 99"
proof -
  have "sum_list (map blob_bytes (replicate 33 image_blob)) = 99"
    by (simp add: blob_bytes_def image_blob_native sum_list_replicate)
  then show ?thesis
    using buffergeometry_unbounded [of geometry_node "''g''" "(text_param ''g'')\<lparr>p_type := ''buffergeometry'', p_repeated := True\<rparr>"
        "replicate 33 image_blob" store_host "''org''" "\<lambda>op. JObj [(''id'', JStr ''o2''), (''mimeType'', JStr ''image/png'')]" None]
    by (simp add: geometry_node_def find_param_def text_param_def store_host_def list_all_iff
        isNativeBlobParameter_def image_blob_native)
qed

section \<open>Rehearsals\<close>

text \<open>C15: in a rehearsal, a node of an outward type and a node with an unbound required integration
  make no call at all, use nothing, and complete with outputs their type declares.\<close>

lemma rehearsal_silent:
  assumes "r_getNodeType inner (n_type n) = Inr t"
    and "r_create (rehearsal_registry curated inner) n = Some x"
    and "isOutward t \<or> (\<exists>name \<in> set (requiredIntegrationInputs t). \<not> bound_input (nc_inputs ctx) name)"
  shows "\<exists>r outs. x_execute x ctx ops = (Inr r, ops) \<and> xr_usage r = Some (Fin 0) \<and>
    xr_status r = ''completed'' \<and> xr_outputs r = Some outs \<and> set (jkeys outs) \<subseteq> p_name ` set (nt_outputs t)"
proof -
  have "silent_stub curated t ctx (x_execute x ctx)"
    using assms(3) outward_stubbed [OF assms(1) _ assms(2)] unbound_stubbed [OF assms(1) _ _ assms(2)] by blast
  then show ?thesis using stub_shape by blast
qed

definition mail_type :: node_type where
  "mail_type = \<lparr>nt_type = ''send-email'', nt_usage = None,
     nt_inputs = [(text_param ''to'')\<lparr>p_repeated := True\<rparr>], nt_outputs = [text_param ''id''], nt_trigger = False\<rparr>"

definition mail_implementation :: implementation where
  "mail_implementation = \<lparr>im_nodeType = mail_type, im_multiStep = True,
     im_execute = (\<lambda>n ctx. io_fail (PlainError ''sent''))\<rparr>"

definition mail_registry :: registry where
  "mail_registry = base_registry [(''send-email'', mail_implementation)]"

definition mail_node :: node where
  "mail_node = node_a\<lparr>n_type := ''send-email''\<rparr>"

definition mail_context :: node_context where
  "mail_context = \<lparr>nc_nodeId = ''a'', nc_workflowId = ''w'', nc_organizationId = ''org'', nc_userId = ''u'',
     nc_executionId = ''e'', nc_asyncSupported = False, nc_inputs = [], nc_trigger = [], nc_multiStep = True\<rparr>"

lemma mail_type_known: "r_getNodeType mail_registry (n_type mail_node) = Inr mail_type"
  by (simp add: mail_registry_def base_registry_def getNodeType_def mail_node_def mail_implementation_def)

lemma mail_outward: "isOutward mail_type"
  by (simp add: isOutward_def mail_type_def READ_ONLY_TYPES_def OUTWARD_PLATFORM_TYPES_def)

lemma mail_stubbed:
  "r_create (rehearsal_registry (\<lambda>t. None) mail_registry) mail_node = Some (RehearsalStubNode (\<lambda>t. None) mail_type)"
  using mail_type_known mail_outward
  by (simp add: rehearsal_registry_def rehearsal_create_def tryGetNodeType_def)

lemma rehearsal_silent_witness:
  "\<exists>r outs. x_execute (RehearsalStubNode (\<lambda>t. None) mail_type) mail_context [] = (Inr r, []) \<and>
     xr_outputs r = Some outs \<and> set (jkeys outs) \<subseteq> {''id''}"
proof -
  have "p_name ` set (nt_outputs mail_type) = {''id''}" by (simp add: mail_type_def text_param_def)
  then show ?thesis
    using rehearsal_silent [OF mail_type_known mail_stubbed, of mail_context "[]"] mail_outward by auto
qed

text \<open>the rehearsal registry over the base registry keeps its contract: it creates a node exactly
  for the known types, and a type it reports as multi-step gives a node that has step primitives.\<close>

lemma rehearsal_contract:
  defines "R \<equiv> \<lambda>curated impls. rehearsal_registry curated (base_registry impls)"
  shows "(r_create (R curated impls) n = None \<longleftrightarrow> (\<exists>e. r_getNodeType (R curated impls) (n_type n) = Inl e)) \<and>
    (r_isMultiStep (R curated impls) (n_type n) \<longrightarrow>
      (\<forall>x. r_create (R curated impls) n = Some x \<longrightarrow> x_multiStep x))"
  using rehearsal_reg.create_iff rehearsal_reg.multi_primitives
    rehearsal_registry_ok [OF base_registry_ok, of curated impls]
  unfolding R_def by blast

lemma rehearsal_contract_witness:
  "r_create (rehearsal_registry (\<lambda>t. None) (base_registry [(''send-email'', mail_implementation)])) mail_node \<noteq> None"
  using rehearsal_contract [of "\<lambda>t. None" "[(''send-email'', mail_implementation)]" mail_node]
    mail_type_known mail_stubbed by (simp add: mail_registry_def)

text \<open>a node the rehearsal replaces gets only the last of the values its edges deliver, even for
  an input its type declares repeated.\<close>

lemma rehearsal_drops_repeated:
  assumes "r_getNodeType inner (n_type n) = Inr t"
    and "r_create (rehearsal_registry curated inner) n = Some x"
    and "isOutward t \<or> requiredIntegrationInputs t \<noteq> []"
    and "edge_values st x inbound k \<noteq> []"
  shows "jget (collected n st x inbound overrides) k = Some (last (edge_values st x inbound k))"
proof -
  have "x_nodeType x = None"
    using assms(1-3) by (auto simp: rehearsal_registry_def rehearsal_create_def tryGetNodeType_def
        RehearsalStubNode_def RehearsalGateNode_def Let_def split: if_splits option.splits)
  then have "\<not> accepts_multiple x k" by (simp add: accepts_multiple_def)
  then show ?thesis using assms(4) by (simp add: collected_spec)
qed

definition mail_edges :: "edge list" where
  "mail_edges = [edge_ab\<lparr>e_source := ''p'', e_targetInput := ''to''\<rparr>, edge_ab\<lparr>e_source := ''q'', e_targetInput := ''to''\<rparr>]"

definition mail_state :: execution_state where
  "mail_state = initial_state\<lparr>nodeOutputs := [(''p'', [(''x'', JStr ''one'')]), (''q'', [(''x'', JStr ''two'')])]\<rparr>"

lemma rehearsal_drops_repeated_witness:
  "jget (collected mail_node mail_state (RehearsalStubNode (\<lambda>t. None) mail_type) mail_edges None) ''to'' =
     Some (JStr ''two'')"
proof -
  have "edge_values mail_state (RehearsalStubNode (\<lambda>t. None) mail_type) mail_edges ''to'' = [JStr ''one'', JStr ''two'']"
    by (simp add: edge_values_def mail_edges_def mail_state_def edge_ab_def values_from_def edge_value_def
        RehearsalStubNode_def accepts_multiple_def initial_state_def)
  then show ?thesis
    using rehearsal_drops_repeated [OF mail_type_known mail_stubbed, of mail_state mail_edges "''to''" None] mail_outward
    by simp
qed

section \<open>Executing a node\<close>

text \<open>the durable step names of the tool calls of an execution are distinct exactly when at most
  one of its nodes calls tools: two nodes that do share the name of their first call.\<close>

lemma tool_names_collide:
  "distinct (tool_steps executionId calls) \<longleftrightarrow> length (filter ((<) 0) calls) \<le> 1"
  by (rule tool_steps_distinct)

text \<open>when a node completes, the outputs it leaves and the inputs it got are each within their
  limit of 2 MiB of JSON.\<close>

lemma completed_within_limits:
  assumes "execute ex ctx g st nodeId = Some m"
    and "m ops = (Inr (Completed i ins outs u), ops')"
  shows "\<exists>vs. ins = Some vs \<and> estimateRuntimeJsonBytes (JObj vs) MAX_RUNTIME_INPUT_BYTES \<le> MAX_RUNTIME_INPUT_BYTES \<and>
    estimateRuntimeJsonBytes (JObj outs) MAX_RUNTIME_OUTPUT_BYTES \<le> MAX_RUNTIME_OUTPUT_BYTES"
  using assms by (rule execute_completed)

definition text_implementation :: implementation where
  "text_implementation = \<lparr>im_nodeType = \<lparr>nt_type = ''text'', nt_usage = Some (Fin 2), nt_inputs = [],
       nt_outputs = [text_param ''x''], nt_trigger = False\<rparr>, im_multiStep = False,
     im_execute = (\<lambda>n ctx. io_return \<lparr>xr_status = ''completed'', xr_error = None,
       xr_outputs = Some [(''x'', JStr ''hi'')], xr_usage = None, xr_pendingEvent = None\<rparr>)\<rparr>"

definition text_executor :: executor where
  "text_executor = sample_executor\<lparr>ex_registry := base_registry [(''text'', text_implementation)]\<rparr>"

lemma small_text: "within_limit (JObj [(''x'', JStr ''hi'')]) MAX_RUNTIME_OUTPUT_BYTES l = Inr ()"
  by (simp add: within_limit_cases estimateRuntimeJsonBytes_def est_visit.simps est_string_def est_units.simps
      units_def MAX_RUNTIME_OUTPUT_BYTES_def Let_def)

lemma no_inputs: "within_limit (JObj []) MAX_RUNTIME_INPUT_BYTES l = Inr ()"
  by (simp add: within_limit_cases estimateRuntimeJsonBytes_def est_visit.simps MAX_RUNTIME_INPUT_BYTES_def)

lemma text_executed:
  "\<exists>m. execute text_executor sample_context sample_graph initial_state ''a'' = Some m \<and>
     m [] = (Inr (Completed ''a'' (Some []) [(''x'', JStr ''hi'')] (Fin 2)), [])"
  by (simp add: execute_def checkSkipCondition_def analyzeUpstream_def conclude_def js_in_def Let_def
      object_prototype_keys_def resolveExecutable_def text_executor_def base_registry_def getNodeType_def
      createExecutableNode_def text_implementation_def node_a_def sample_executor_def sample_context_def
      collectInputs_def collected_def default_inputs_def apply_overrides_def groupByTargetInput_def
      no_inputs io_bind_def io_lift_def io_return_def apiInputsToNode_def invoke_def io_catch_def
      normalize_def completed_result_def nodeOutputsToApi_def find_param_def text_param_def declared_type_def
      declared_repeated_def assertRepeatedParameterSize_def BINARY_PARAMETER_TYPES_def convert_output_def
      nodeToApiParameter_def STRING_TYPES_def typeValidating_def small_text initial_state_def)

lemma completed_within_limits_witness:
  "estimateRuntimeJsonBytes (JObj [(''x'', JStr ''hi'')]) MAX_RUNTIME_OUTPUT_BYTES \<le> MAX_RUNTIME_OUTPUT_BYTES"
  using text_executed completed_within_limits by blast

section \<open>One run\<close>

definition sample_params :: run_params where
  "sample_params = \<lparr>pr_workflow = sample_wf, pr_json = JNull, pr_source = [], pr_userId = ''u'',
     pr_organizationId = ''org'', pr_billing = \<lparr>b_computeCredits = Fin 10, b_subscriptionStatus = None,
       b_overageLimit = None, b_unlimitedUsage = False\<rparr>, pr_inputOverrides = None, pr_rehearsal = False\<rparr>"

definition sample_record :: wf_record where
  "sample_record = \<lparr>wr_id = ''e'', wr_workflowId = ''w'', wr_status = WError, wr_nodeExecutions = [],
     wr_startedAt = 0, wr_endedAt = Some 1, wr_rehearsal = False, wr_error = None\<rparr>"

definition sample_run_host :: run_host where
  "sample_run_host = \<lparr>rh_policy = True,
     rh_admit = Inr \<lparr>ad_allowed = True, ad_reason = None, ad_alreadyActive = False\<rparr>,
     rh_hash = Inr ''hash'', rh_initialise = Inr (), rh_hasCredits = Inr True, rh_preload = Inr (),
     rh_recordUsage = Inr (), rh_settle = Inr (), rh_save = (\<lambda>sv. Inr sample_record),
     rh_release = Inr (), rh_started = 0, rh_ended = 1\<rparr>"

definition sample_flow :: "exec_graph \<Rightarrow> dataflow" where
  "sample_flow g = \<lparr>df_error = None, df_state = state_ab\<rparr>"

lemma sample_starts: "run_starts sample_run_host sample_params"
  by (simp add: run_starts_def sample_params_def sample_run_host_def sample_wf_def overrides_json_def
      extractTrigger_def TRIGGER_FIELDS_def estimateRuntimeJsonBytes_def est_visit.simps est_string_def
      est_units.simps units_def MAX_RUNTIME_INPUT_BYTES_def Let_def)

lemma sample_honest: "flow_honest sample_executor sample_context sample_params sample_flow"
proof -
  have "g = sample_graph" if "graph_ok g" "g_workflow g = sample_wf" for g
    using that sample_builds by (simp add: graph_ok_def)
  moreover have "dataflow_of sample_executor sample_context sample_graph (sample_flow sample_graph)"
    unfolding dataflow_of_def
    using sample_reach sample_finished
    by (auto simp: sample_flow_def sample_end_def sample_sched_def intro!: exI [of _ 6] exI [of _ sample_end])
  ultimately show ?thesis using sample_plain by (auto simp: flow_honest_def sample_params_def)
qed

lemma sample_host_simps [simp]:
  "rh_policy sample_run_host" "rh_hash sample_run_host = Inr ''hash''" "rh_initialise sample_run_host = Inr ()"
  "rh_hasCredits sample_run_host = Inr True" "rh_preload sample_run_host = Inr ()"
  "rh_save sample_run_host sv = Inr sample_record"
  "rh_admit sample_run_host = Inr \<lparr>ad_allowed = True, ad_reason = None, ad_alreadyActive = False\<rparr>"
  by (simp_all add: sample_run_host_def)

lemma sample_body:
  assumes "df_error (flow sample_graph) = None"
  shows "snd (run sample_run_host flow sample_params ''e'' True) =
    [EvNotify WSubmitted, EvCredits, EvPreload, EvNotify (status_of sample_graph initial_state), EvDataflow]
    @ settleUsage (df_state (flow sample_graph)) False
    @ [EvSave (saved_of sample_params ''e'' ''hash'' sample_graph (df_state (flow sample_graph))
         ((first_record sample_run_host sample_params ''e'')\<lparr>wr_status := status_of sample_graph (df_state (flow sample_graph)),
            wr_nodeExecutions := report_of sample_graph (df_state (flow sample_graph)) None,
            wr_endedAt := Some (rh_ended sample_run_host)\<rparr>)
         (status_of sample_graph (df_state (flow sample_graph)))),
       EvNotify WError, EvRelease]"
proof -
  have "prepare sample_run_host sample_params = Inr (sample_graph, initial_state)"
    by (simp add: prepare_def sample_params_def sample_valid sample_builds)
  then show ?thesis using assms
    by (simp add: run_starts_eq [OF sample_starts] run_finally_def run_try_def run_admitted_def
        run_credited_def executeGraph_def Let_def sample_record_def)
qed

text \<open>C16: a run that passes its first checks saves a record with one entry per node of the workflow,
  whose status is exhausted, error or completed; when it is completed every entry completed or was
  skipped by a branch, and no error is reported.\<close>

lemma run_saves:
  assumes "run_starts h p" and "flow_honest ex ctx p flow"
    and "EvSave sv \<in> set (snd (run h flow p i pre))"
  shows "map nx_node (sv_nodeExecutions sv) = node_ids (pr_workflow p) \<and>
    sv_status sv \<in> {WExhausted, WError, WCompleted} \<and>
    (sv_status sv = WCompleted \<longrightarrow> list_all nx_good (sv_nodeExecutions sv) \<and> sv_error sv = None)"
  using saved_spec [OF assms] by blast

lemma run_saves_witness:
  "\<exists>sv. EvSave sv \<in> set (snd (run sample_run_host sample_flow sample_params ''e'' True)) \<and>
     map nx_node (sv_nodeExecutions sv) = [''a'', ''b'']"
proof -
  have "node_ids (pr_workflow sample_params) = [''a'', ''b'']"
    by (simp add: sample_params_def sample_defs node_ids_def)
  then show ?thesis
    using run_saves [OF sample_starts sample_honest, of _ "''e''" True] sample_body [of sample_flow]
    by (fastforce simp: sample_flow_def)
qed

text \<open>usage is billed only for a run whose graph was executed, it is positive, and it is the sum of
  what the nodes of the final state report.\<close>

lemma usage_of_executed_graph:
  assumes "EvRecordUsage u \<in> set (snd (run h flow p i pre))"
  shows "EvDataflow \<in> set (snd (run h flow p i pre)) \<and>
    (\<exists>g. build (pr_workflow p) = Inr g \<and> u = total_usage (df_state (flow g)) \<and> js_lt (Fin 0) u)"
  using run_usage [OF assms] by blast

definition used_flow :: "exec_graph \<Rightarrow> dataflow" where
  "used_flow g = \<lparr>df_error = None, df_state = initial_state\<lparr>nodeUsage := [(''a'', Fin 3)]\<rparr>\<rparr>"

lemma used_recorded: "EvRecordUsage (js_add (Fin 0) (Fin 3)) \<in> set (snd (run sample_run_host used_flow sample_params ''e'' True))"
proof -
  have "js_lt (Fin 0) (js_add (Fin 0) (Fin 3))" by code_simp
  then have "EvRecordUsage (js_add (Fin 0) (Fin 3)) \<in> set (settleUsage (df_state (used_flow sample_graph)) False)"
    by (simp add: settleUsage_def total_usage_def used_flow_def)
  then show ?thesis using sample_body [of used_flow] by (simp add: used_flow_def)
qed

lemma usage_of_executed_graph_witness:
  "EvDataflow \<in> set (snd (run sample_run_host used_flow sample_params ''e'' True))"
  using usage_of_executed_graph [OF used_recorded] by blast

text \<open>a worker run that its policy admits afresh never throws, and gives its reservation back
  whatever happens.\<close>

lemma worker_settles:
  assumes "rh_policy h" and "rh_admit h = Inr a" and "ad_allowed a" and "\<not> ad_alreadyActive a"
  shows "(\<exists>rec. fst (worker_execute h flow p i) = Inr rec) \<and>
    EvRelease \<in> set (snd (worker_execute h flow p i))"
  using worker_never_throws [OF assms(1)] worker_releases [OF assms] by blast

lemma worker_settles_witness:
  "EvRelease \<in> set (snd (worker_execute sample_run_host sample_flow sample_params ''e''))"
  using worker_settles [of sample_run_host] by simp

text \<open>C17: a durable run that its policy admits gives its reservation back exactly once when it passes
  the first checks (at most 500 nodes, the input limit, the hash), and never when it does not.\<close>

lemma durable_release:
  assumes "rh_policy h" and "rh_admit h = Inr a" and "ad_allowed a"
  shows "count_list (snd (workflow_executeWithStep h flow p i)) EvRelease = (if run_starts h p then 1 else 0)"
  by (rule workflow_release [OF assms])

lemma durable_release_witness:
  "count_list (snd (workflow_executeWithStep sample_run_host sample_flow sample_params ''e'')) EvRelease = 1 \<and>
   count_list (snd (workflow_executeWithStep sample_run_host sample_flow
     (sample_params\<lparr>pr_workflow := sample_wf\<lparr>w_nodes := replicate 501 node_a\<rparr>\<rparr>) ''e'')) EvRelease = 0"
proof -
  have "\<not> run_starts sample_run_host (sample_params\<lparr>pr_workflow := sample_wf\<lparr>w_nodes := replicate 501 node_a\<rparr>\<rparr>)"
    by (simp add: run_starts_def)
  then show ?thesis
    using durable_release [of sample_run_host] sample_starts by simp
qed

end
