(* ===== verification/Policy_Properties.thy ===== *)
theory Policy_Properties
  imports Policy_Run Flow_Guarantees
begin

text \<open>
  The properties of the execution policy: its bounds for every interleaving, that the service stays
  within the steps they are proved of, and what a run can and cannot do to its reservation.
\<close>

section \<open>A sample configuration\<close>

definition sample_env :: policy_env where
  "sample_env = \<lparr>pe_cloudflareEnv = Some ''production'', pe_maintenance = None, pe_localOnly = None,
     pe_generation = Some ''7'', pe_executionEnabled = Some ''true'', pe_quotasEnabled = Some ''true'',
     pe_maxDaily = Some ''20'', pe_maxMonthly = Some ''100'', pe_maxConcurrent = Some ''1'',
     pe_maxNodes = Some ''5'', pe_maxSteps = Some ''3''\<rparr>"

definition sample_limits :: quota_limits where
  "sample_limits = \<lparr>ql_maxDailyRuns = 20, ql_maxMonthlyRuns = 100, ql_maxConcurrentRuns = 1,
     ql_maxNodesPerRun = 5, ql_maxStepsPerRun = 3\<rparr>"

definition no_rows :: ledger where
  "no_rows = \<lparr>lg_control = None, lg_rows = []\<rparr>"

definition sample_input :: admission_input where
  "sample_input = \<lparr>ai_executionId = ''e'', ai_organizationId = ''org'', ai_workflowId = ''w'', ai_nodeCount = Fin 2\<rparr>"

lemma digits_sample: "parsePositiveInteger (Some ''20'') = Some 20" "parsePositiveInteger (Some ''100'') = Some 100"
  "parsePositiveInteger (Some ''1'') = Some 1" "parsePositiveInteger (Some ''5'') = Some 5"
  "parsePositiveInteger (Some ''3'') = Some 3" "parsePositiveInteger (Some ''7'') = Some 7"
  by (simp_all add: parsePositiveInteger_def digits_value_def digit_char_def)

lemma sample_settings: "policySettings sample_env =
    \<lparr>ps_valid = True, ps_executionsEnabled = True, ps_quotasEnabled = True, ps_generation = Some 7\<rparr>"
  by (simp add: policySettings_def sample_env_def is_local_def Let_def parsePolicyGeneration_def
      digits_sample boolean_flag_def configuredQuotaValues_def)

lemma sample_limits_of: "limits_of sample_env = Some sample_limits"
  by (simp add: limits_of_def configuredQuotaValues_def sample_env_def digits_sample sample_limits_def)

lemma sample_quota_ok: "quota_ok sample_limits"
  by (simp add: quota_ok_def sample_limits_def)

lemma no_rows_reach: "ledger_reach q T no_rows"
  unfolding no_rows_def by (rule ledger_reach.empty)

definition one_row :: ledger where
  "one_row = \<lparr>lg_control = None, lg_rows = [(''e'', \<lparr>pw_organization = ''org'', pw_workflow = ''w'', pw_createdAt = 0,
     pw_completed = False, pw_active = True, pw_steps = 0, pw_maxSteps = 3, pw_leaseUntil = 1200000\<rparr>)]\<rparr>"

lemma sample_insert: "stmt_insert sample_limits 0 (start_of_day 0) (start_of_month 0) ''e'' ''org'' ''w'' no_rows = (True, one_row)"
  by (simp add: stmt_insert_def no_rows_def one_row_def not_paused_def created_since_def live_count_def count_rows_def
      sample_limits_def set_row_def EXECUTION_LEASE_MS_def)

lemma sample_admitted: "admit sample_env 0 sample_input (\<lambda>k. id) no_rows = (allow False, one_row)"
  using sample_insert
  by (simp add: admit_def sample_settings Let_def sample_limits_of persistedPause_def admit_new_def sample_input_def
      is_integer_num_def sample_limits_def no_rows_def)

section \<open>The ledger\<close>

text \<open>C18: whatever the workers do, as long as no renewal runs later than its own clock reading, at most
  the allowed number of runs hold a slot at the latest time used and after it, no day and no month
  counts more runs than allowed, and no run takes more steps than allowed.\<close>

lemma policy_bounds:
  assumes "ledger_reach q T lg" and "quota_ok q" and "T \<le> t"
  shows "live_count t lg \<le> ql_maxConcurrentRuns q \<and>
    window_count start_of_day d lg \<le> ql_maxDailyRuns q \<and>
    window_count start_of_month d lg \<le> ql_maxMonthlyRuns q \<and>
    (\<forall>i r. jget (lg_rows lg) i = Some r \<longrightarrow> 0 \<le> pw_steps r \<and> pw_steps r \<le> ql_maxStepsPerRun q)"
  using reach_bounds [OF assms(1,2)] assms(3) unfolding live_bounded_def steps_bounded_def by blast

lemma policy_bounds_witness: "live_count 5 one_row \<le> 1 \<and> live_count 5 one_row = 1"
proof -
  have "ledger_reach sample_limits 0 one_row"
    using ledger_reach.step [OF no_rows_reach [of sample_limits 0], of "OpInsert 0 ''e'' ''org'' ''w''"] sample_insert
    by (simp add: later_def)
  from policy_bounds [OF this sample_quota_ok, of 5] show ?thesis
    by (simp add: sample_limits_def one_row_def live_count_def count_rows_def live_row_def)
qed

text \<open>C19: each operation of the service is a sequence of the statements that are the steps of the
  bounds above: whatever other workers do before, between and after them, an admission ends in
  tables that come from the given ones by no statement, by one insert, or by one reacquire and at
  most one reclaim after it, for this run and with the one clock reading of the call, and never by
  none when it admits the run afresh under quotas; a release by the release of the run when quotas
  are on; a pause synchronisation by one pause statement; a consumed step by at most one consume
  statement of the run, and by exactly one when it succeeds under quotas. So tables that statements
  can lead to stay such tables under interference that keeps them so; for a consumed step, whose
  renewal must not be older than the times already used, when the times used before it and by the
  others are no later than its clock reading.\<close>

lemma policy_service_steps:
  assumes "limits_of env = Some q"
  shows "(\<exists>ops \<in> admission_ops t input. service_run q itf ops lg (snd (admit env t input itf lg)) \<and>
      (fresh_admission (fst (admit env t input itf lg)) \<longrightarrow> ps_quotasEnabled (policySettings env) \<longrightarrow> ops \<noteq> [])) \<and>
    service_run q itf (if pe_quotasEnabled env = Some ''true'' then [OpRelease i terminal] else []) lg
      (policy_release env i terminal lg) \<and>
    (\<exists>g. service_run q itf [OpPause (\<not> ps_valid (policySettings env) \<or> \<not> ps_executionsEnabled (policySettings env)) t g]
      lg (syncExecutionPolicyPause env t itf lg)) \<and>
    (\<exists>ops. ops \<in> {[], [OpConsume t i]} \<and> service_run q itf ops lg (snd (consumeStep env t i itf lg)) \<and>
      (fst (consumeStep env t i itf lg) = Inr () \<longrightarrow> ps_quotasEnabled (policySettings env) \<longrightarrow>
         ops = [OpConsume t i])) \<and>
    (reachable q lg \<longrightarrow> itf_ok q itf \<longrightarrow> reachable q (snd (admit env t input itf lg)) \<and>
      reachable q (policy_release env i terminal lg) \<and> reachable q (syncExecutionPolicyPause env t itf lg)) \<and>
    (\<forall>T \<le> t. ledger_reach q T lg \<longrightarrow> itf_before q t itf \<longrightarrow>
      (\<exists>T' \<le> t. ledger_reach q T' (snd (consumeStep env t i itf lg))))"
proof -
  have keep: "reachable q lg'" if "service_run q itf [op] lg lg' \<or> service_run q itf [] lg lg'" "reachable q lg"
    "itf_ok q itf" "\<And>t i. op \<noteq> OpConsume t i" for op lg'
    using that service_run_keeps [of q itf _ lg lg' "reachable q"] reachable_op [of q _ op] itf_reach
    by (metis empty_iff empty_set set_ConsD)
  obtain g where g: "service_run q itf
      [OpPause (\<not> ps_valid (policySettings env) \<or> \<not> ps_executionsEnabled (policySettings env)) t g] lg
      (syncExecutionPolicyPause env t itf lg)"
    using sync_run by blast
  have rel: "service_run q itf (if pe_quotasEnabled env = Some ''true'' then [OpRelease i terminal] else []) lg
      (policy_release env i terminal lg)" by (rule release_run)
  have "reachable q (snd (admit env t input itf lg)) \<and> reachable q (policy_release env i terminal lg) \<and>
      reachable q (syncExecutionPolicyPause env t itf lg)" if r: "reachable q lg" and itf: "itf_ok q itf"
    using admit_reach [OF assms itf r] keep [OF disjI1 [OF g] r itf]
      keep [of "OpRelease i terminal", OF _ r itf] rel by (simp split: if_splits)
  then show ?thesis
    using admit_run [OF assms, of t input itf lg] g rel consume_run [OF assms, of t i itf lg]
      consume_reach [OF assms, of t itf _ lg i] by blast
qed

lemma policy_service_steps_witness:
  "reachable sample_limits one_row \<and>
   (\<exists>ops \<in> admission_ops 0 sample_input. ops \<noteq> [] \<and> service_run sample_limits (\<lambda>k. id) ops no_rows one_row)"
proof -
  have itf: "itf_ok sample_limits (\<lambda>k. id)" by (simp add: itf_ok_def)
  have r: "reachable sample_limits no_rows" using no_rows_reach by (auto simp: reachable_def)
  have a: "snd (admit sample_env 0 sample_input (\<lambda>k. id) no_rows) = one_row"
    "fresh_admission (fst (admit sample_env 0 sample_input (\<lambda>k. id) no_rows))"
    "ps_quotasEnabled (policySettings sample_env)"
    using sample_admitted sample_settings by simp_all
  note steps = policy_service_steps [OF sample_limits_of, of 0 sample_input "\<lambda>k. id" no_rows]
  have "reachable sample_limits one_row"
    using steps [THEN conjunct2, THEN conjunct2, THEN conjunct2, THEN conjunct2, THEN conjunct1] itf r
    unfolding a(1) by blast
  moreover have "\<exists>ops \<in> admission_ops 0 sample_input. ops \<noteq> [] \<and> service_run sample_limits (\<lambda>k. id) ops no_rows one_row"
    using steps [THEN conjunct1] a(2,3) unfolding a(1) by blast
  ultimately show ?thesis ..
qed

text \<open>without that condition the bound fails: a worker that read its clock just before its lease ended
  and renews after another run got the slot makes two runs hold the only slot.\<close>

lemma stale_renewal_exceeds:
  "live_count 1200001 (fold (apply_op sample_limits)
     [OpInsert 0 ''e'' ''org'' ''w'', OpInsert 1200000 ''f'' ''org'' ''w'', OpConsume 1199999 ''e''] no_rows) = 2 \<and>
   ql_maxConcurrentRuns sample_limits = 1"
proof -
  have m: "start_of_month 1200000 = 0" by code_simp
  show ?thesis
    using sample_insert
    by (simp add: one_row_def stmt_insert_def stmt_consume_def not_paused_def created_since_def live_count_def
        count_rows_def live_row_def set_row_def EXECUTION_LEASE_MS_def sample_limits_def m start_of_day_def)
qed

section \<open>A run and its reservation\<close>

text \<open>C20: once a run was released as terminal it is never admitted again and takes no step, whatever
  statements other workers run, unless one of them releases it as not terminal.\<close>

lemma finished_run_refused:
  fixes q :: quota_limits
  assumes "ps_quotasEnabled (policySettings env)" and "jget (lg_rows lg) i = Some r"
    and "OpRelease i False \<notin> set ops" and "\<And>k. OpRelease i False \<notin> set (between k)"
    and "ai_executionId input = i"
  defines "lg' \<equiv> fold (apply_op q) ops (policy_release env i True lg)"
    and "itf \<equiv> \<lambda>k. fold (apply_op q) (between k)"
  shows "(\<forall>a. fst (admit env t input itf lg') = Inr a \<longrightarrow> \<not> ad_allowed a) \<and>
    fst (consumeStep env t i itf lg') \<noteq> Inr ()"
proof -
  have fin: "finished i lg'"
    unfolding lg'_def by (rule finished_ops [OF release_finishes [OF assms(1,2)] assms(3)])
  have itf: "finished i (itf k l)" if "finished i l" for k l
    unfolding itf_def by (rule finished_ops [OF that assms(4)])
  have "\<not> ad_allowed a" if "fst (admit env t input itf lg') = Inr a" for a
    using finished_not_admitted [OF assms(1) _ _ that] fin itf assms(5) by simp
  moreover have "fst (consumeStep env t i itf lg') \<noteq> Inr ()"
    by (rule finished_no_step [OF assms(1) fin itf])
  ultimately show ?thesis by blast
qed

lemma finished_run_refused_witness:
  "\<exists>r. jget (lg_rows one_row) ''e'' = Some r \<and>
     fst (consumeStep sample_env 10 ''e'' (\<lambda>k. fold (apply_op sample_limits) []) (policy_release sample_env ''e'' True one_row)) \<noteq> Inr ()"
proof -
  obtain r where r: "jget (lg_rows one_row) ''e'' = Some r" by (simp add: one_row_def)
  have "ps_quotasEnabled (policySettings sample_env)" by (simp add: sample_settings)
  from finished_run_refused [OF this r, of "[]" "\<lambda>k. []" sample_input 10 sample_limits] r
  show ?thesis by (simp add: sample_input_def)
qed

text \<open>C21: a fresh admission under quotas leaves the run with a slot for the twenty minutes of the lease, and
  delivering the same run again before they end is recognised and changes nothing.\<close>

lemma admission_reserves:
  assumes "ps_quotasEnabled (policySettings env)" and "admit env t input itf lg = (Inr a, lg')"
    and "ad_allowed a" and "\<not> ad_alreadyActive a"
  shows "(\<exists>r. jget (lg_rows lg') (ai_executionId input) = Some r \<and> live_row t r \<and>
      pw_leaseUntil r = t + EXECUTION_LEASE_MS) \<and>
    (\<forall>u < t + EXECUTION_LEASE_MS. admit env u input (\<lambda>k. id) lg' = (allow True, lg'))"
  using fresh_takes_slot(1) [OF assms] fresh_readmitted [OF assms]
  by (auto simp: live_row_def EXECUTION_LEASE_MS_def)

lemma admission_reserves_witness: "admit sample_env 1199999 sample_input (\<lambda>k. id) one_row = (allow True, one_row)"
  using admission_reserves [of sample_env 0 sample_input "\<lambda>k. id" no_rows _ one_row] sample_admitted sample_settings
  by (simp add: allow_def EXECUTION_LEASE_MS_def)

text \<open>C22: while the switch is off at a generation, workers of that generation or an older one cannot turn
  it on: no statement of theirs adds a run or gives a run a slot, nothing is admitted, and no step is
  taken.\<close>

lemma pause_holds:
  fixes q :: quota_limits
  assumes "paused_at g lg" and "list_all (op_upto g) ops"
  defines "lg' \<equiv> fold (apply_op q) ops lg"
  shows "paused_at g lg' \<and> live_count t lg' \<le> live_count t lg \<and> length (lg_rows lg') = length (lg_rows lg) \<and>
    (\<forall>a. fst (admit env t input (\<lambda>k. id) lg') = Inr a \<longrightarrow> \<not> ad_allowed a) \<and>
    fst (consumeStep env t i (\<lambda>k. id) lg') \<noteq> Inr ()"
proof -
  note p = paused_ops [OF assms(1,2), of q t, folded lg'_def]
  then show ?thesis
    using paused_no_admission [of g "\<lambda>k. id" lg' env t input] paused_no_step [of g "\<lambda>k. id" lg' env t i] by auto
qed

definition paused_row :: ledger where
  "paused_row = one_row\<lparr>lg_control := Some \<lparr>pc_paused = True, pc_updatedAt = 0, pc_generation = 8\<rparr>\<rparr>"

lemma pause_holds_witness:
  "fst (consumeStep sample_env 10 ''e'' (\<lambda>k. id) (fold (apply_op sample_limits) [OpPause False 9 7] paused_row)) \<noteq> Inr ()"
proof -
  have "paused_at 8 paused_row" by (simp add: paused_at_def paused_row_def)
  moreover have "list_all (op_upto 8) [OpPause False 9 7]" by simp
  ultimately show ?thesis using pause_holds by blast
qed

text \<open>C23: with a metered policy, a worker run that is admitted afresh holds a slot and has given it back when
  it ends; a durable run has given it back exactly when it passed the first checks of the runtime.\<close>

lemma run_gives_slot_back:
  assumes "ps_quotasEnabled (policySettings env)" and "rh_policy h"
    and "admit env t (run_admission pr i) itf lg = (Inr a, lg')" and "rh_admit h = Inr a"
    and "ad_allowed a" and "\<not> ad_alreadyActive a"
  defines "give \<equiv> \<lambda>lg i. policy_release env i True lg"
  shows "holds_slot lg' i \<and>
    \<not> holds_slot (after_calls give i (snd (worker_execute h flow pr i)) lg') i \<and>
    (holds_slot (after_calls give i (snd (workflow_executeWithStep h flow pr i)) lg') i \<longleftrightarrow> \<not> run_starts h pr)"
  using ledger_policy.worker_keeps_none(1) [OF assms(1,2), where t = t and pr = pr and itf = itf and p = lg
      and i = i and a = a]
    ledger_policy.worker_keeps_none(2) [OF assms(1,2), where t = t and pr = pr and itf = itf and p = lg
      and i = i and a = a and flow = flow and params = pr]
    ledger_policy.durable_keeps [OF assms(1,2), where t = t and pr = pr and itf = itf and p = lg
      and i = i and a = a and flow = flow and params = pr] assms(3-6)
  unfolding give_def by simp

lemma run_gives_slot_back_witness:
  "\<exists>lg'. \<not> holds_slot (after_calls (\<lambda>lg i. policy_release sample_env i True lg) ''e''
      (snd (worker_execute sample_run_host sample_flow sample_params ''e'')) lg') ''e'' \<and> lg' = one_row"
proof -
  have "run_admission sample_params ''e'' = sample_input"
    by (simp add: run_admission_def sample_params_def sample_input_def sample_defs)
  then have "admit sample_env 0 (run_admission sample_params ''e'') (\<lambda>k. id) no_rows =
      (Inr \<lparr>ad_allowed = True, ad_reason = None, ad_alreadyActive = False\<rparr>, one_row)"
    using sample_admitted by (simp add: allow_def)
  then show ?thesis
    using run_gives_slot_back [of sample_env sample_run_host 0 sample_params "''e''" "\<lambda>k. id" no_rows _ one_row sample_flow]
      sample_settings by simp
qed

end
