(* ===== verification/Native_Workflow.thy ===== *)
theory Native_Workflow
  imports Js_Value
begin

text \<open>
  The contract of the native workflows, \<open>packages/studio-shared/src/workflows.ts\<close>: definitions
  as their schema leaves them, the checks the schema makes on them, and the values, conditions and
  delays a run evaluates. Unknown members, which the strict schemas refuse, cannot be written
  down here. Two formats are checks of the schema library and parameters: \<open>uuid\<close> and
  \<open>iso_datetime\<close>.
\<close>

section \<open>Names\<close>

definition safePart :: "string \<Rightarrow> bool" where
  "safePart part \<longleftrightarrow> part \<notin> set [''__proto__'', ''constructor'', ''prototype'']"

text \<open>\<open>/^[a-z][a-z0-9_]{0,47}$/\<close> and no reserved name.\<close>

definition key_ok :: "string \<Rightarrow> bool" where
  "key_ok s = (case s of
     [] \<Rightarrow> False
   | c # cs \<Rightarrow> lower_letter c \<and> length cs \<le> 47 \<and>
       list_all (\<lambda>d. lower_letter d \<or> is_digit d \<or> d = CHR ''_'') cs \<and> safePart s)"

fun split_dots :: "string \<Rightarrow> string list" where
  "split_dots [] = [[]]"
| "split_dots (c # cs) =
     (if c = CHR ''.'' then [] # split_dots cs
      else (case split_dots cs of p # ps \<Rightarrow> (c # p) # ps | [] \<Rightarrow> [[c]]))"

text \<open>\<open>/^(trigger|before|system|steps)(\.[a-zA-Z0-9_]+)+$/\<close>, with safe parts.\<close>

definition ref_ok :: "string \<Rightarrow> bool" where
  "ref_ok r = (length r \<le> 250 \<and>
     (case split_dots r of
        scope # parts \<Rightarrow> scope \<in> set [''trigger'', ''before'', ''system'', ''steps''] \<and> parts \<noteq> [] \<and>
          list_all (\<lambda>p. p \<noteq> [] \<and> list_all word_char p) parts \<and> list_all safePart (scope # parts)
      | [] \<Rightarrow> False))"

section \<open>Values\<close>

datatype wvalue =
    WvStr string
  | WvNum rat
  | WvBool bool
  | WvNull
  | WvRef string
  | WvConcat "wvalue list"
  | WvDateOffset wvalue int

fun value_ok :: "nat \<Rightarrow> wvalue \<Rightarrow> bool" where
  "value_ok d (WvStr s) = (length s \<le> 4000)"
| "value_ok d (WvNum n) = True"
| "value_ok d (WvBool b) = True"
| "value_ok d WvNull = True"
| "value_ok d (WvRef r) = ref_ok r"
| "value_ok 0 (WvConcat vs) = False"
| "value_ok (Suc d) (WvConcat vs) = (1 \<le> length vs \<and> length vs \<le> 12 \<and> list_all (value_ok d) vs)"
| "value_ok 0 (WvDateOffset v n) = False"
| "value_ok (Suc d) (WvDateOffset v n) = (value_ok d v \<and> -3660 \<le> n \<and> n \<le> 3660)"

definition workflow_value_ok :: "wvalue \<Rightarrow> bool" where
  "workflow_value_ok v = value_ok 3 v"

type_synonym wvalues = "wvalue jmap"

definition values_ok :: "wvalues \<Rightarrow> bool" where
  "values_ok m \<longleftrightarrow> distinct (jkeys m) \<and> list_all (\<lambda>(k, v). key_ok k \<and> workflow_value_ok v) m \<and> length m \<le> 50"

section \<open>Nodes and triggers\<close>

datatype cond_op = OpEq | OpNeq | OpGt | OpGte | OpLt | OpLte | OpContains | OpDateAfter | OpEmpty

datatype wkind =
    KWebhook string nat wvalues
  | KCondition wvalue cond_op wvalue "string option"
  | KTransform wvalues
  | KQuery string string wvalue nat
  | KCreate string wvalues "string option"
  | KUpdate string wvalue wvalues
  | KTask wvalue wvalue nat
  | KNotification wvalue wvalue
  | KDelay "nat option" "wvalue option"

record wnode =
  wn_id :: string
  wn_label :: "string option"
  wn_next :: "string option"
  wn_kind :: wkind

definition opt_ok :: "('a \<Rightarrow> bool) \<Rightarrow> 'a option \<Rightarrow> bool" where
  "opt_ok P x = (case x of None \<Rightarrow> True | Some y \<Rightarrow> P y)"

fun kind_ok :: "(string \<Rightarrow> bool) \<Rightarrow> wkind \<Rightarrow> bool" where
  "kind_ok uuid (KWebhook destination revision vs) = (uuid destination \<and> 0 < revision \<and> values_ok vs)"
| "kind_ok uuid (KCondition l op r otherwise) = (workflow_value_ok l \<and> workflow_value_ok r \<and> opt_ok key_ok otherwise)"
| "kind_ok uuid (KTransform vs) = values_ok vs"
| "kind_ok uuid (KQuery c f v limit) = (key_ok c \<and> key_ok f \<and> workflow_value_ok v \<and> 1 \<le> limit \<and> limit \<le> 100)"
| "kind_ok uuid (KCreate c vs match) = (key_ok c \<and> values_ok vs \<and> opt_ok key_ok match)"
| "kind_ok uuid (KUpdate c i vs) = (key_ok c \<and> workflow_value_ok i \<and> values_ok vs)"
| "kind_ok uuid (KTask t a days) = (workflow_value_ok t \<and> workflow_value_ok a \<and> days \<le> 365)"
| "kind_ok uuid (KNotification t a) = (workflow_value_ok t \<and> workflow_value_ok a)"
| "kind_ok uuid (KDelay seconds until) =
     (opt_ok (\<lambda>s. 1 \<le> s \<and> s \<le> 31536000) seconds \<and> opt_ok workflow_value_ok until \<and>
      (seconds = None) \<noteq> (until = None))"

definition node_ok :: "(string \<Rightarrow> bool) \<Rightarrow> wnode \<Rightarrow> bool" where
  "node_ok uuid n \<longleftrightarrow> key_ok (wn_id n) \<and> opt_ok (\<lambda>l. length l \<le> 100) (wn_label n) \<and>
     opt_ok key_ok (wn_next n) \<and> kind_ok uuid (wn_kind n)"

datatype trigger_op = TrEq | TrNeq | TrGt | TrGte | TrLt | TrLte | TrContains | TrEmpty | TrNotEmpty

record trigger_condition =
  tc_field :: string
  tc_op :: trigger_op
  tc_value :: wvalue

definition trigger_condition_ok :: "trigger_condition \<Rightarrow> bool" where
  "trigger_condition_ok c \<longleftrightarrow> key_ok (tc_field c) \<and>
     (case tc_value c of WvStr s \<Rightarrow> length s \<le> 4000 | WvNum _ \<Rightarrow> True | WvBool _ \<Rightarrow> True | WvNull \<Rightarrow> True | _ \<Rightarrow> False) \<and>
     (tc_op c \<in> set [TrGt, TrGte, TrLt, TrLte] \<longrightarrow> (case tc_value c of WvNum _ \<Rightarrow> True | _ \<Rightarrow> False)) \<and>
     (tc_op c = TrContains \<longrightarrow> (case tc_value c of WvStr _ \<Rightarrow> True | _ \<Rightarrow> False))"

text \<open>\<open>conditions\<close> and whether all or any of them must hold (\<open>conditionMode\<close>).\<close>

record collection_trigger =
  ct_collection :: string
  ct_conditions :: "trigger_condition list option"
  ct_any :: "bool option"

datatype wtrigger =
    TWebhook
  | TCreated collection_trigger
  | TDeleted collection_trigger
  | TCreatedOrUpdated collection_trigger "string list"
  | TUpdated collection_trigger "string list"
  | TManual "string option"
  | TSchedule nat string

definition collection_trigger_ok :: "collection_trigger \<Rightarrow> bool" where
  "collection_trigger_ok t \<longleftrightarrow> key_ok (ct_collection t) \<and>
     opt_ok (\<lambda>cs. list_all trigger_condition_ok cs \<and> length cs \<le> 20) (ct_conditions t)"

fun trigger_ok :: "(string \<Rightarrow> bool) \<Rightarrow> wtrigger \<Rightarrow> bool" where
  "trigger_ok iso_datetime TWebhook = True"
| "trigger_ok iso_datetime (TCreated t) = collection_trigger_ok t"
| "trigger_ok iso_datetime (TDeleted t) = collection_trigger_ok t"
| "trigger_ok iso_datetime (TCreatedOrUpdated t fs) = (collection_trigger_ok t \<and> list_all key_ok fs \<and> length fs \<le> 50)"
| "trigger_ok iso_datetime (TUpdated t fs) = (collection_trigger_ok t \<and> list_all key_ok fs \<and> length fs \<le> 50)"
| "trigger_ok iso_datetime (TManual c) = opt_ok key_ok c"
| "trigger_ok iso_datetime (TSchedule minutes startAt) = (1 \<le> minutes \<and> minutes \<le> 525600 \<and> iso_datetime startAt)"

record wdefinition =
  wd_trigger :: wtrigger
  wd_nodes :: "wnode list"
  wd_positions :: "(rat \<times> rat) jmap option"

definition position_ok :: "rat \<times> rat \<Rightarrow> bool" where
  "position_ok = (\<lambda>(x, y). -100000 \<le> x \<and> x \<le> 100000 \<and> -100000 \<le> y \<and> y \<le> 100000)"

definition shape_ok :: "(string \<Rightarrow> bool) \<Rightarrow> (string \<Rightarrow> bool) \<Rightarrow> wdefinition \<Rightarrow> bool" where
  "shape_ok uuid iso_datetime d \<longleftrightarrow> trigger_ok iso_datetime (wd_trigger d) \<and>
     1 \<le> length (wd_nodes d) \<and> length (wd_nodes d) \<le> 50 \<and> list_all (node_ok uuid) (wd_nodes d) \<and>
     opt_ok (\<lambda>ps. distinct (jkeys ps) \<and> list_all (\<lambda>(k, p). key_ok k \<and> position_ok p) ps \<and> length ps \<le> 50)
       (wd_positions d)"


section \<open>The JSON of a definition\<close>

text \<open>
  The members of every object in the order of its schema; an optional member that is absent is
  left out.
\<close>

definition opt_member :: "string \<Rightarrow> ('a \<Rightarrow> jv) \<Rightarrow> 'a option \<Rightarrow> jv jmap" where
  "opt_member k f x = (case x of None \<Rightarrow> [] | Some y \<Rightarrow> [(k, f y)])"

fun value_jv :: "wvalue \<Rightarrow> jv" where
  "value_jv (WvStr s) = JStr s"
| "value_jv (WvNum n) = JNum (Fin n)"
| "value_jv (WvBool b) = JBool b"
| "value_jv WvNull = JNull"
| "value_jv (WvRef r) = JObj [(''ref'', JStr r)]"
| "value_jv (WvConcat vs) = JObj [(''concat'', JArr (map value_jv vs))]"
| "value_jv (WvDateOffset v n) = JObj [(''dateOffset'', JObj [(''value'', value_jv v), (''days'', JInt n)])]"

definition wvalues_jv :: "wvalues \<Rightarrow> jv" where
  "wvalues_jv m = JObj (map (\<lambda>(k, v). (k, value_jv v)) m)"

fun op_name :: "cond_op \<Rightarrow> string" where
  "op_name OpEq = ''eq''" | "op_name OpNeq = ''neq''" | "op_name OpGt = ''gt''"
| "op_name OpGte = ''gte''" | "op_name OpLt = ''lt''" | "op_name OpLte = ''lte''"
| "op_name OpContains = ''contains''" | "op_name OpDateAfter = ''date_after''" | "op_name OpEmpty = ''empty''"

fun kind_name :: "wkind \<Rightarrow> string" where
  "kind_name (KWebhook _ _ _) = ''webhook''"
| "kind_name (KCondition _ _ _ _) = ''condition''"
| "kind_name (KTransform _) = ''transform''"
| "kind_name (KQuery _ _ _ _) = ''query''"
| "kind_name (KCreate _ _ _) = ''create''"
| "kind_name (KUpdate _ _ _) = ''update''"
| "kind_name (KTask _ _ _) = ''task''"
| "kind_name (KNotification _ _) = ''notification''"
| "kind_name (KDelay _ _) = ''delay''"

fun kind_members :: "wkind \<Rightarrow> jv jmap" where
  "kind_members (KWebhook d r vs) =
     [(''destinationId'', JStr d), (''destinationRevision'', JInt (int r)), (''values'', wvalues_jv vs)]"
| "kind_members (KCondition l op r otherwise) =
     [(''left'', value_jv l), (''operator'', JStr (op_name op)), (''right'', value_jv r)]
     @ opt_member ''otherwise'' JStr otherwise"
| "kind_members (KTransform vs) = [(''values'', wvalues_jv vs)]"
| "kind_members (KQuery c f v limit) =
     [(''collection'', JStr c), (''field'', JStr f), (''value'', value_jv v), (''limit'', JInt (int limit))]"
| "kind_members (KCreate c vs match) =
     [(''collection'', JStr c), (''values'', wvalues_jv vs)] @ opt_member ''matchField'' JStr match"
| "kind_members (KUpdate c i vs) =
     [(''collection'', JStr c), (''recordId'', value_jv i), (''values'', wvalues_jv vs)]"
| "kind_members (KTask t a days) =
     [(''title'', value_jv t), (''assignee'', value_jv a), (''dueDays'', JInt (int days))]"
| "kind_members (KNotification t a) = [(''title'', value_jv t), (''assignee'', value_jv a)]"
| "kind_members (KDelay seconds until) =
     opt_member ''seconds'' (\<lambda>n. JInt (int n)) seconds @ opt_member ''until'' value_jv until"

definition node_jv :: "wnode \<Rightarrow> jv" where
  "node_jv n = JObj ([(''id'', JStr (wn_id n))] @ opt_member ''label'' JStr (wn_label n)
     @ opt_member ''next'' JStr (wn_next n) @ [(''type'', JStr (kind_name (wn_kind n)))]
     @ kind_members (wn_kind n))"

fun trigger_op_name :: "trigger_op \<Rightarrow> string" where
  "trigger_op_name TrEq = ''eq''" | "trigger_op_name TrNeq = ''neq''" | "trigger_op_name TrGt = ''gt''"
| "trigger_op_name TrGte = ''gte''" | "trigger_op_name TrLt = ''lt''" | "trigger_op_name TrLte = ''lte''"
| "trigger_op_name TrContains = ''contains''" | "trigger_op_name TrEmpty = ''empty''"
| "trigger_op_name TrNotEmpty = ''not_empty''"

definition condition_jv :: "trigger_condition \<Rightarrow> jv" where
  "condition_jv c = JObj [(''field'', JStr (tc_field c)), (''operator'', JStr (trigger_op_name (tc_op c))),
     (''value'', value_jv (tc_value c))]"

definition collection_members :: "collection_trigger \<Rightarrow> jv jmap" where
  "collection_members t = [(''collection'', JStr (ct_collection t))]
     @ opt_member ''conditions'' (\<lambda>cs. JArr (map condition_jv cs)) (ct_conditions t)
     @ opt_member ''conditionMode'' (\<lambda>b. JStr (if b then ''any'' else ''all'')) (ct_any t)"

fun trigger_jv :: "wtrigger \<Rightarrow> jv" where
  "trigger_jv TWebhook = JObj [(''type'', JStr ''webhook'')]"
| "trigger_jv (TCreated t) = JObj ((''type'', JStr ''created'') # collection_members t)"
| "trigger_jv (TDeleted t) = JObj ((''type'', JStr ''deleted'') # collection_members t)"
| "trigger_jv (TCreatedOrUpdated t fs) = JObj ((''type'', JStr ''created_or_updated'')
     # collection_members t @ [(''changedFields'', JArr (map JStr fs))])"
| "trigger_jv (TUpdated t fs) = JObj ((''type'', JStr ''updated'')
     # collection_members t @ [(''changedFields'', JArr (map JStr fs))])"
| "trigger_jv (TManual c) = JObj ((''type'', JStr ''manual'') # opt_member ''collection'' JStr c)"
| "trigger_jv (TSchedule minutes startAt) = JObj [(''type'', JStr ''schedule''),
     (''intervalMinutes'', JInt (int minutes)), (''startAt'', JStr startAt)]"

definition definition_jv :: "wdefinition \<Rightarrow> jv" where
  "definition_jv d = JObj ([(''trigger'', trigger_jv (wd_trigger d)),
     (''nodes'', JArr (map node_jv (wd_nodes d)))]
     @ opt_member ''positions''
         (\<lambda>ps. JObj (map (\<lambda>(k, (x, y)). (k, JObj [(''x'', JNum (Fin x)), (''y'', JNum (Fin y))])) ps))
         (wd_positions d))"

definition json_length :: "jv \<Rightarrow> nat" where
  "json_length v = (case json_units v of None \<Rightarrow> 0 | Some u \<Rightarrow> length u)"

section \<open>The checks on the whole definition\<close>

text \<open>
  The references of a value: an object with a text member \<open>ref\<close> counts as one reference,
  whatever else it holds.
\<close>

fun references :: "jv \<Rightarrow> string list" where
  "references (JObj m) = (case jget m ''ref'' of
     Some (JStr r) \<Rightarrow> [r]
   | _ \<Rightarrow> concat (map (\<lambda>kv. references (snd kv)) m))"
| "references (JArr vs) = concat (map references vs)"
| "references _ = []"

text \<open>The steps a node names as what follows it, empty names left out.\<close>

definition successors :: "wnode \<Rightarrow> string list" where
  "successors n = filter (\<lambda>s. s \<noteq> []) (concat (map (\<lambda>x. case x of None \<Rightarrow> [] | Some s \<Rightarrow> [s])
     [wn_next n, (case wn_kind n of KCondition _ _ _ otherwise \<Rightarrow> otherwise | _ \<Rightarrow> None)]))"

definition nodes_map :: "wdefinition \<Rightarrow> wnode jmap" where
  "nodes_map d = jmap_of_list (map (\<lambda>n. (wn_id n, n)) (wd_nodes d))"

text \<open>The variables of the walk; \<open>wk_order\<close> grows at its front.\<close>

record walk =
  wk_visiting :: "string list"
  wk_visited :: "string list"
  wk_preds :: "string list jmap"
  wk_order :: "string list"
  wk_issues :: "string list"

definition walk_start :: walk where
  "walk_start = \<lparr>wk_visiting = [], wk_visited = [], wk_preds = [], wk_order = [], wk_issues = []\<rparr>"

definition issue :: "string \<Rightarrow> walk \<Rightarrow> walk" where
  "issue m w = w\<lparr>wk_issues := wk_issues w @ [m]\<rparr>"

definition preds_of :: "string list jmap \<Rightarrow> string \<Rightarrow> string list" where
  "preds_of p v = (case jget p v of None \<Rightarrow> [] | Some us \<Rightarrow> us)"

definition record_edge :: "string \<Rightarrow> string \<Rightarrow> walk \<Rightarrow> walk" where
  "record_edge u v w = w\<lparr>wk_preds := jset (wk_preds w) v (preds_of (wk_preds w) v @ [u])\<rparr>"

definition enter :: "string \<Rightarrow> walk \<Rightarrow> walk" where
  "enter u w = w\<lparr>wk_visiting := set_add u (wk_visiting w)\<rparr>"

definition leave :: "string \<Rightarrow> walk \<Rightarrow> walk" where
  "leave u w = w\<lparr>wk_visiting := filter (\<lambda>x. x \<noteq> u) (wk_visiting w),
     wk_visited := set_add u (wk_visited w), wk_order := u # wk_order w\<rparr>"

text \<open>The loop over what follows a step; \<open>go\<close> is the recursive call.\<close>

fun follow :: "(string \<Rightarrow> walk \<Rightarrow> walk option) \<Rightarrow> string \<Rightarrow> string list \<Rightarrow> walk \<Rightarrow> walk option" where
  "follow go u [] w = Some w"
| "follow go u (v # vs) w =
     (case go v (record_edge u v w) of None \<Rightarrow> None | Some w' \<Rightarrow> follow go u vs w')"

text \<open>\<open>None\<close> means out of fuel; one more than the number of nodes is enough.\<close>

fun visit :: "nat \<Rightarrow> wnode jmap \<Rightarrow> string \<Rightarrow> walk \<Rightarrow> walk option" where
  "visit 0 nodes i w = None"
| "visit (Suc f) nodes i w =
     (if i \<in> set (wk_visiting w) then Some (issue ''Workflow cycles are not supported'' w)
      else if i \<in> set (wk_visited w) then Some w
      else (case jget nodes i of
          None \<Rightarrow> Some (issue (''Missing step: '' @ i) w)
        | Some n \<Rightarrow> map_option (leave i) (follow (visit f nodes) i (successors n) (enter i w))))"

text \<open>What is available at a step: what every predecessor has available, and the predecessor.\<close>

definition available :: "string list jmap \<Rightarrow> string list jmap \<Rightarrow> string \<Rightarrow> string list" where
  "available preds doms i =
     (let parents = map (\<lambda>p. js_set (p # preds_of doms p)) (preds_of preds i) in
      filter (\<lambda>c. list_all (\<lambda>p. c \<in> set p) parents) (case parents of [] \<Rightarrow> [] | p # _ \<Rightarrow> p))"

definition steps_ref :: "string \<Rightarrow> string option" where
  "steps_ref r = (case split_dots r of
     a # b # _ \<Rightarrow> if a = ''steps'' then Some b else None
   | _ \<Rightarrow> None)"

definition ref_issues :: "wnode jmap \<Rightarrow> string \<Rightarrow> string list \<Rightarrow> string list" where
  "ref_issues nodes i avail = (case jget nodes i of None \<Rightarrow> [] | Some n \<Rightarrow>
     concat (map (\<lambda>r. case steps_ref r of
         Some s \<Rightarrow> if s \<in> set avail then [] else
           [''Step '' @ i @ '' references a result unavailable on every incoming path: '' @ r]
       | None \<Rightarrow> []) (references (node_jv n))))"

fun dominate :: "wnode jmap \<Rightarrow> string list jmap \<Rightarrow> string list \<Rightarrow> string list jmap \<Rightarrow> string list" where
  "dominate nodes preds [] doms = []"
| "dominate nodes preds (i # ks) doms =
     (let a = available preds doms i in ref_issues nodes i a @ dominate nodes preds ks (jset doms i a))"

definition position_issues :: "wdefinition \<Rightarrow> string list" where
  "position_issues d = concat (map (\<lambda>i. if has_own (nodes_map d) i then []
     else [''Position references an unknown node'']) (case wd_positions d of None \<Rightarrow> [] | Some ps \<Rightarrow> jkeys ps))"

definition graph_issues :: "wdefinition \<Rightarrow> string list option" where
  "graph_issues d = (case wd_nodes d of
     [] \<Rightarrow> Some []
   | first # _ \<Rightarrow>
       (if length (nodes_map d) \<noteq> length (wd_nodes d) then Some [''Step identifiers must be unique'']
        else (case visit (Suc (length (wd_nodes d))) (nodes_map d) (wn_id first) walk_start of
            None \<Rightarrow> None
          | Some w \<Rightarrow> Some (wk_issues w
              @ (if length (wk_visited w) \<noteq> length (nodes_map d)
                 then [''Every step must be reachable from the first step''] else [])
              @ dominate (nodes_map d) (wk_preds w) (wk_order w) []
              @ (if 64000 < json_length (definition_jv d) then [''Workflow definition is too large''] else [])))))"

definition definition_issues :: "wdefinition \<Rightarrow> string list option" where
  "definition_issues d = (if wd_nodes d = [] then Some [] else map_option ((@) (position_issues d)) (graph_issues d))"

definition definition_ok :: "(string \<Rightarrow> bool) \<Rightarrow> (string \<Rightarrow> bool) \<Rightarrow> wdefinition \<Rightarrow> bool" where
  "definition_ok uuid iso_datetime d \<longleftrightarrow> shape_ok uuid iso_datetime d \<and> definition_issues d = Some []"

end
