(* ===== verification/Native_Values.thy ===== *)
theory Native_Values
  imports Native_Workflow
begin

text \<open>
  What a step of a native workflow evaluates (\<open>packages/studio-shared/src/workflows.ts\<close>):
  values against the context of the execution, conditions and the time a delay ends. The context
  is the object parsed from the stored JSON. A thrown error is its message.
\<close>

type_synonym 'a evaluated = "string + 'a"

section \<open>Dates\<close>

definition all_digits :: "string \<Rightarrow> bool" where
  "all_digits s \<longleftrightarrow> list_all is_digit s"

text \<open>\<open>/^\d{4}-\d{2}-\d{2}$/\<close> and its three numbers.\<close>

definition split_date :: "string \<Rightarrow> (int \<times> int \<times> int) option" where
  "split_date s =
     (let y = take 4 s; m = take 2 (drop 5 s); d = take 2 (drop 8 s) in
      if length s = 10 \<and> all_digits y \<and> s ! 4 = CHR ''-'' \<and> all_digits m \<and> s ! 7 = CHR ''-'' \<and> all_digits d
      then Some (digits_value y, digits_value m, digits_value d) else None)"

text \<open>The day of a text that is a calendar date: parsing it and printing the day gives it back.\<close>

definition calendar_day :: "string \<Rightarrow> int option" where
  "calendar_day s = (case split_date s of None \<Rightarrow> None
     | Some (y, m, d) \<Rightarrow> (let n = days_of_civil y m d in if iso_date n = s then Some n else None))"

text \<open>\<open>T\d{2}:\d{2}:\d{2}(\.\d{3})?Z\<close>: the milliseconds since midnight; \<open>None\<close> for
  another text or a time that does not exist. \<open>24:00:00\<close> names the next day, which the
  comparison of the dates refuses.\<close>

definition time_of_day :: "string \<Rightarrow> int option" where
  "time_of_day s =
     (let h = take 2 (drop 1 s); m = take 2 (drop 4 s); sec = take 2 (drop 7 s);
          ms = (if length s = 14 then take 3 (drop 10 s) else []) in
      if (length s = 10 \<or> length s = 14 \<and> s ! 9 = CHR ''.'') \<and> s ! 0 = CHR ''T'' \<and> s ! 3 = CHR '':'' \<and> s ! 6 = CHR '':''
         \<and> last s = CHR ''Z'' \<and> all_digits (h @ m @ sec @ ms)
         \<and> digits_value h < 24 \<and> digits_value m < 60 \<and> digits_value sec < 60
      then Some (((digits_value h * 60 + digits_value m) * 60 + digits_value sec) * 1000 + digits_value ms)
      else None)"

definition parse_utc :: "string \<Rightarrow> int option" where
  "parse_utc s = (case calendar_day (take 10 s) of None \<Rightarrow> None
     | Some n \<Rightarrow> if length s = 10 then Some (n * 86400000)
         else (case time_of_day (drop 10 s) of None \<Rightarrow> None | Some t \<Rightarrow> Some (n * 86400000 + t)))"

section \<open>Values\<close>

text \<open>\<open>Object.hasOwn\<close> and reading the member; an array has its indices and its length.\<close>

fun own_member :: "jv \<Rightarrow> string \<Rightarrow> jv option" where
  "own_member (JObj m) k = jget m k"
| "own_member (JArr xs) k = (if k = ''length'' then Some (JInt (int (length xs)))
     else map_option (\<lambda>i. xs ! i) (find (\<lambda>i. nat_digits i = k) [0..<length xs]))"
| "own_member _ k = None"

fun lookup_path :: "string \<Rightarrow> string list \<Rightarrow> jv \<Rightarrow> jv evaluated" where
  "lookup_path ref [] v = Inr v"
| "lookup_path ref (p # ps) v =
     (if \<not> safePart p then Inl (''Variable unavailable: '' @ ref)
      else (case own_member v p of None \<Rightarrow> Inl (''Variable unavailable: '' @ ref)
        | Some v' \<Rightarrow> lookup_path ref ps v'))"

text \<open>The text of a part of a concatenation; other values are refused.\<close>

fun part_text :: "jv \<Rightarrow> string option" where
  "part_text (JStr s) = Some s"
| "part_text (JNum n) = Some (num_to_string n)"
| "part_text _ = None"

fun gather_values :: "jv evaluated list \<Rightarrow> jv list evaluated" where
  "gather_values [] = Inr []"
| "gather_values (Inl e # xs) = Inl e"
| "gather_values (Inr v # xs) = (case gather_values xs of Inl e \<Rightarrow> Inl e | Inr vs \<Rightarrow> Inr (v # vs))"

definition join_parts :: "jv list \<Rightarrow> jv evaluated" where
  "join_parts vs = (case traverse part_text vs of
     None \<Rightarrow> Inl ''Concatenation requires text or numbers''
   | Some ts \<Rightarrow> if 4000 < length (concat ts) then Inl ''Expression exceeds 4000 characters''
       else Inr (JStr (concat ts)))"

definition offset_date :: "jv \<Rightarrow> int \<Rightarrow> jv evaluated" where
  "offset_date v days = (case v of
     JStr s \<Rightarrow> (case calendar_day s of
         None \<Rightarrow> Inl ''Date offset requires a valid calendar date''
       | Some n \<Rightarrow> Inr (JStr (take 10 (iso_date (n + days)))))
   | _ \<Rightarrow> Inl ''Date offset requires a valid calendar date'')"

fun resolveWorkflowValue :: "jv \<Rightarrow> wvalue \<Rightarrow> jv evaluated" where
  "resolveWorkflowValue c (WvStr s) = Inr (JStr s)"
| "resolveWorkflowValue c (WvNum n) = Inr (JNum (Fin n))"
| "resolveWorkflowValue c (WvBool b) = Inr (JBool b)"
| "resolveWorkflowValue c WvNull = Inr JNull"
| "resolveWorkflowValue c (WvConcat vs) =
     (case gather_values (map (resolveWorkflowValue c) vs) of Inl e \<Rightarrow> Inl e | Inr xs \<Rightarrow> join_parts xs)"
| "resolveWorkflowValue c (WvDateOffset v days) =
     (case resolveWorkflowValue c v of Inl e \<Rightarrow> Inl e | Inr x \<Rightarrow> offset_date x days)"
| "resolveWorkflowValue c (WvRef r) = lookup_path r (split_dots r) c"

section \<open>Conditions and delays\<close>

definition date_value :: "jv \<Rightarrow> int option" where
  "date_value v = (case v of JStr s \<Rightarrow> calendar_day s | _ \<Rightarrow> None)"

definition compare_numbers :: "(jnum \<Rightarrow> jnum \<Rightarrow> bool) \<Rightarrow> jv \<Rightarrow> jv \<Rightarrow> bool evaluated" where
  "compare_numbers cmp l r = (case (l, r) of (JNum a, JNum b) \<Rightarrow> Inr (cmp a b)
     | _ \<Rightarrow> Inl ''Numeric comparisons require two numbers'')"

fun apply_cond_op :: "cond_op \<Rightarrow> jv \<Rightarrow> jv \<Rightarrow> bool evaluated" where
  "apply_cond_op OpEq l r = Inr (json_units l = json_units r)"
| "apply_cond_op OpNeq l r = Inr (json_units l \<noteq> json_units r)"
| "apply_cond_op OpEmpty l r = Inr (l = JNull \<or> l = JStr [] \<or> l = JArr [])"
| "apply_cond_op OpDateAfter l r = Inr (case (date_value l, date_value r) of (Some a, Some b) \<Rightarrow> b < a | _ \<Rightarrow> False)"
| "apply_cond_op OpContains l r = Inr (case (l, r) of (JStr s, JStr t) \<Rightarrow> js_includes s t | _ \<Rightarrow> False)"
| "apply_cond_op OpGt l r = compare_numbers (\<lambda>a b. js_lt b a) l r"
| "apply_cond_op OpGte l r = compare_numbers (\<lambda>a b. js_le b a) l r"
| "apply_cond_op OpLt l r = compare_numbers js_lt l r"
| "apply_cond_op OpLte l r = compare_numbers js_le l r"

definition evaluateWorkflowCondition :: "jv \<Rightarrow> wvalue \<Rightarrow> cond_op \<Rightarrow> wvalue \<Rightarrow> bool evaluated" where
  "evaluateWorkflowCondition c l op r =
     (case resolveWorkflowValue c l of Inl e \<Rightarrow> Inl e
      | Inr x \<Rightarrow> (case resolveWorkflowValue c r of Inl e \<Rightarrow> Inl e | Inr y \<Rightarrow> apply_cond_op op x y))"

text \<open>A delay of the schema has seconds or a date; without both the code reads an absent value.\<close>

definition workflowResumeAt :: "jv \<Rightarrow> nat option \<Rightarrow> wvalue option \<Rightarrow> int \<Rightarrow> int evaluated" where
  "workflowResumeAt c seconds until now = (case seconds of
     Some s \<Rightarrow> Inr (now + int s * 1000)
   | None \<Rightarrow> (case (case until of None \<Rightarrow> Inr JUndef | Some v \<Rightarrow> resolveWorkflowValue c v) of
       Inl e \<Rightarrow> Inl e
     | Inr (JStr s) \<Rightarrow> (case parse_utc s of None \<Rightarrow> Inl ''Delay requires an ISO UTC date''
         | Some t \<Rightarrow> Inr (max now t))
     | Inr _ \<Rightarrow> Inl ''Delay requires an ISO UTC date''))"

section \<open>When a reference can be read\<close>

lemma steps_ref_parts:
  assumes "steps_ref r = Some s"
  shows "\<exists>rest. split_dots r = ''steps'' # s # rest"
  using assms by (auto simp: steps_ref_def split: list.splits if_splits)

text \<open>A reference to a result fails at the latest when the result itself is missing.\<close>

lemma missing_result:
  assumes "steps_ref r = Some s" "own_member c ''steps'' = Some (JObj results)" "s \<notin> set (jkeys results)"
  shows "resolveWorkflowValue c (WvRef r) = Inl (''Variable unavailable: '' @ r)"
proof -
  obtain rest where "split_dots r = ''steps'' # s # rest" using steps_ref_parts [OF assms(1)] by blast
  moreover have "jget results s = None" using assms(3) by (simp add: jget_None_iff)
  ultimately show ?thesis using assms(2) by (simp add: safePart_def)
qed

text \<open>A reference to a result that is there, and names nothing inside it, is the result.\<close>

lemma present_result:
  assumes "split_dots r = [''steps'', s]" "safePart s" "own_member c ''steps'' = Some (JObj results)"
    and "jget results s = Some v"
  shows "resolveWorkflowValue c (WvRef r) = Inr v"
  using assms by (simp add: safePart_def)

end
