(* ===== verification/Native_Store.thy ===== *)
theory Native_Store
  imports Native_Values
begin

text \<open>
  The tables of the native workflows and the statements that change executions:
  \<open>apps/flows/packages/native/src/repository.ts\<close> (row types) and the SQL texts of
  \<open>runtime.ts\<close>, with the constraints of \<open>packages/db/migrations/0001_initial.sql\<close>.
  Every statement, and every \<open>transaction\<close> of \<open>studio-server/src/services.ts\<close>, is one
  function on the tables. A JSON column holds the value it parses to. \<open>nd_runs\<close> is in the
  order of \<open>created_at, id\<close>, new rows last. \<open>nd_claims\<close> is no table: it records the tokens and
  the rows that claims have handed out, for the proofs; no operation reads it.
\<close>

section \<open>Errors\<close>

text \<open>\<open>String(error)\<close> and \<open>Number(error.status)\<close>, 0 for an error without a status.\<close>

record thrown =
  th_text :: string
  th_status :: int

definition plain_error :: "string \<Rightarrow> thrown" where
  "plain_error m = \<lparr>th_text = ''Error: '' @ m, th_status = 0\<rparr>"

definition fail_with :: "string \<Rightarrow> int \<Rightarrow> thrown" where
  "fail_with m s = \<lparr>th_text = ''Error: '' @ m, th_status = s\<rparr>"

definition lost_lease :: thrown where
  "lost_lease = fail_with (''Los datos cambiaron durante la operaci'' @ [CHR 0xF3]
     @ ''n. Recarga y vuelve a intentarlo.'') 409"

text \<open>What \<open>transaction\<close> makes of an error text of the database.\<close>

definition transaction_error :: "string \<Rightarrow> thrown" where
  "transaction_error text =
     (if js_includes text ''studio_unique_values''
      then fail_with (''Ya existe un registro con el mismo valor en un campo '' @ [CHR 0xFA] @ ''nico.'') 409
      else if js_includes text ''CHECK constraint'' \<or> js_includes text ''studio_write_guards'' then lost_lease
      else \<lparr>th_text = text, th_status = 0\<rparr>)"

section \<open>Tables\<close>

datatype exec_status = SQueued | SRunning | SWaiting | SCompleted | SFailed | SBlocked | SCancelled

record exec_row =
  xr_workspace :: string
  xr_id :: string
  xr_workflow :: string
  xr_version :: string
  xr_owner :: string
  xr_initiator :: string
  xr_event_key :: string
  xr_status :: exec_status
  xr_node :: "string option"
  xr_context :: jv
  xr_depth :: nat
  xr_wake :: int
  xr_token :: "string option"
  xr_until :: int
  xr_attempts :: nat
  xr_error :: "string option"

record job_row =
  jb_workspace :: string
  jb_execution :: string
  jb_node :: string
  jb_sequence :: nat
  jb_type :: string
  jb_input :: jv
  jb_output :: jv
  jb_attempts :: nat

record task_row =
  tk_workspace :: string
  tk_id :: string
  tk_execution :: string
  tk_node :: string
  tk_kind :: string
  tk_title :: string
  tk_assignee :: string
  tk_done :: bool
  tk_due :: "int option"

record delivery_row =
  dl_workspace :: string
  dl_execution :: string
  dl_node :: string
  dl_destination :: string
  dl_destination_revision :: nat
  dl_payload :: jv
  dl_key :: string
  dl_attempts :: nat
  dl_retry_generation :: nat
  dl_generation_attempts :: nat
  dl_state :: string

record attempt_row =
  at_workspace :: string
  at_execution :: string
  at_node :: string
  at_sequence :: nat
  at_token :: string
  at_started :: int
  at_finished :: "int option"
  at_status :: "int option"
  at_error :: "string option"
  at_output :: "jv option"

record workflow_row =
  wr_workspace :: string
  wr_id :: string
  wr_name :: string
  wr_definition :: wdefinition
  wr_revision :: nat
  wr_enabled :: bool
  wr_published :: "string option"
  wr_created_by :: string
  wr_next_run :: "int option"

record version_row =
  vr_workspace :: string
  vr_id :: string
  vr_workflow :: string
  vr_definition :: wdefinition
  vr_owner :: string
  vr_revision :: nat

record native_db =
  nd_workflows :: "workflow_row list"
  nd_versions :: "version_row list"
  nd_runs :: "exec_row list"
  nd_jobs :: "job_row list"
  nd_tasks :: "task_row list"
  nd_deliveries :: "delivery_row list"
  nd_attempts :: "attempt_row list"
  nd_claims :: "(string \<times> exec_row) list"

text \<open>The text of the error a violated constraint gives.\<close>

type_synonym constraint_text = "string \<Rightarrow> string"

section \<open>Statements on executions\<close>

definition is_run :: "string \<Rightarrow> string \<Rightarrow> exec_row \<Rightarrow> bool" where
  "is_run ws i r \<longleftrightarrow> xr_workspace r = ws \<and> xr_id r = i"

definition same_run :: "exec_row \<Rightarrow> exec_row \<Rightarrow> bool" where
  "same_run run = is_run (xr_workspace run) (xr_id run)"

definition update_runs :: "(exec_row \<Rightarrow> bool) \<Rightarrow> (exec_row \<Rightarrow> exec_row) \<Rightarrow> native_db \<Rightarrow> native_db" where
  "update_runs P f db = db\<lparr>nd_runs := map (\<lambda>r. if P r then f r else r) (nd_runs db)\<rparr>"

definition find_run :: "string \<Rightarrow> string \<Rightarrow> native_db \<Rightarrow> exec_row option" where
  "find_run ws i db = find (is_run ws i) (nd_runs db)"

definition due :: "int \<Rightarrow> exec_row \<Rightarrow> bool" where
  "due now r \<longleftrightarrow> (xr_status r = SQueued \<or> xr_status r = SWaiting) \<and> xr_wake r \<le> now
     \<or> xr_status r = SRunning \<and> xr_until r \<le> now"

text \<open>The claim of the oldest due execution, and the row it returns.\<close>

definition claimed :: "string \<Rightarrow> int \<Rightarrow> exec_row \<Rightarrow> exec_row" where
  "claimed token clock r = r\<lparr>xr_status := SRunning, xr_token := Some token, xr_until := clock + 30000,
     xr_attempts := xr_attempts r + 1\<rparr>"

definition stmt_claim :: "string \<Rightarrow> int \<Rightarrow> int \<Rightarrow> native_db \<Rightarrow> exec_row option \<times> native_db" where
  "stmt_claim token clock now db = (case find (due now) (nd_runs db) of
     None \<Rightarrow> (None, db)
   | Some r \<Rightarrow> (Some (claimed token clock r),
       update_runs (same_run r) (claimed token clock) (db\<lparr>nd_claims := (token, claimed token clock r) # nd_claims db\<rparr>)))"

definition holds_lease :: "exec_row \<Rightarrow> string \<Rightarrow> exec_row \<Rightarrow> bool" where
  "holds_lease run token r \<longleftrightarrow> same_run run r \<and> xr_token r = Some token"

definition stmt_block_run :: "exec_row \<Rightarrow> string \<Rightarrow> native_db \<Rightarrow> native_db" where
  "stmt_block_run run token = update_runs (holds_lease run token)
     (\<lambda>r. r\<lparr>xr_status := SBlocked, xr_error := Some ''Execution permission revoked'', xr_token := None\<rparr>)"

definition stmt_complete_run :: "exec_row \<Rightarrow> string \<Rightarrow> native_db \<Rightarrow> native_db" where
  "stmt_complete_run run token = update_runs (holds_lease run token)
     (\<lambda>r. r\<lparr>xr_status := SCompleted, xr_token := None\<rparr>)"

text \<open>
  The statement of the rejection by the policy and of the error handler. \<open>wake_at\<close> is
  \<open>NOT NULL\<close>: binding null fails when a row matches.
\<close>

definition stmt_set_run :: "constraint_text \<Rightarrow> exec_row \<Rightarrow> string \<Rightarrow> exec_status \<Rightarrow> string \<Rightarrow> int option \<Rightarrow> nat
    \<Rightarrow> native_db \<Rightarrow> thrown + native_db" where
  "stmt_set_run texts run token status err wake attempts db =
     (let P = (\<lambda>r. holds_lease run token r \<and> xr_status r = SRunning) in
      case wake of
        None \<Rightarrow> if list_ex P (nd_runs db)
          then Inl \<lparr>th_text = texts ''workflow_executions.wake_at'', th_status = 0\<rparr> else Inr db
      | Some t \<Rightarrow> Inr (update_runs P (\<lambda>r. r\<lparr>xr_status := status, xr_error := Some err, xr_wake := t,
            xr_attempts := attempts, xr_token := None\<rparr>) db))"

section \<open>The checkpoint of a step\<close>

text \<open>The condition of the guard: the lease is held and has not ended.\<close>

definition lease_valid :: "exec_row \<Rightarrow> string \<Rightarrow> int \<Rightarrow> native_db \<Rightarrow> bool" where
  "lease_valid run token clock db \<longleftrightarrow>
     list_ex (\<lambda>r. holds_lease run token r \<and> xr_status r = SRunning \<and> clock < xr_until r) (nd_runs db)"

definition job_exists :: "exec_row \<Rightarrow> string \<Rightarrow> native_db \<Rightarrow> bool" where
  "job_exists run node db \<longleftrightarrow> list_ex (\<lambda>j. jb_workspace j = xr_workspace run \<and> jb_execution j = xr_id run
     \<and> jb_node j = node) (nd_jobs db)"

text \<open>What the statements of \<open>finish\<close> bind.\<close>

record finish_step =
  fs_job :: job_row
  fs_next :: "string option"
  fs_context :: jv
  fs_status :: exec_status
  fs_wake :: int

definition advance :: "finish_step \<Rightarrow> exec_row \<Rightarrow> exec_row" where
  "advance f r = r\<lparr>xr_node := fs_next f, xr_context := fs_context f, xr_status := fs_status f,
     xr_wake := fs_wake f, xr_attempts := 0, xr_error := None, xr_token := None\<rparr>"

text \<open>The effects of a step on other tables, inside its transaction.\<close>

datatype step_effect =
    NoEffect
  | RecordWrite "thrown option"
  | NewTask task_row "thrown option"

definition task_conflict :: "task_row \<Rightarrow> native_db \<Rightarrow> bool" where
  "task_conflict t db \<longleftrightarrow> list_ex (\<lambda>u. tk_workspace u = tk_workspace t \<and>
     (tk_id u = tk_id t \<or> tk_execution u = tk_execution t \<and> tk_node u = tk_node t)) (nd_tasks db)"

fun apply_effect :: "constraint_text \<Rightarrow> step_effect \<Rightarrow> native_db \<Rightarrow> thrown + native_db" where
  "apply_effect texts NoEffect db = Inr db"
| "apply_effect texts (RecordWrite e) db = (case e of None \<Rightarrow> Inr db | Some x \<Rightarrow> Inl x)"
| "apply_effect texts (NewTask t e) db =
     (if task_conflict t db then Inl (transaction_error (texts ''workflow_tasks''))
      else (case e of Some x \<Rightarrow> Inl x | None \<Rightarrow> Inr (db\<lparr>nd_tasks := nd_tasks db @ [t]\<rparr>)))"

definition trans_checkpoint :: "constraint_text \<Rightarrow> exec_row \<Rightarrow> string \<Rightarrow> int \<Rightarrow> step_effect \<Rightarrow> finish_step
    \<Rightarrow> native_db \<Rightarrow> thrown + native_db" where
  "trans_checkpoint texts run token clock e f db =
     (if \<not> lease_valid run token clock db then Inl lost_lease
      else (case apply_effect texts e db of
          Inl x \<Rightarrow> Inl x
        | Inr db' \<Rightarrow>
            if job_exists run (jb_node (fs_job f)) db' then Inl (transaction_error (texts ''workflow_jobs''))
            else Inr (update_runs (same_run run) (advance f) (db'\<lparr>nd_jobs := nd_jobs db' @ [fs_job f]\<rparr>))))"

section \<open>New executions\<close>

definition event_taken :: "exec_row \<Rightarrow> native_db \<Rightarrow> bool" where
  "event_taken x db \<longleftrightarrow> list_ex (\<lambda>r. xr_workspace r = xr_workspace x \<and> xr_workflow r = xr_workflow x
     \<and> xr_event_key r = xr_event_key x) (nd_runs db)"

text \<open>\<open>INSERT ... ON CONFLICT(workspace_id,workflow_id,event_key) DO NOTHING\<close>\<close>

definition insert_run :: "constraint_text \<Rightarrow> exec_row \<Rightarrow> native_db \<Rightarrow> thrown + native_db" where
  "insert_run texts x db =
     (if event_taken x db then Inr db
      else if list_ex (same_run x) (nd_runs db) then Inl (transaction_error (texts ''workflow_executions''))
      else Inr (db\<lparr>nd_runs := nd_runs db @ [x]\<rparr>))"

definition new_run :: "string \<Rightarrow> string \<Rightarrow> string \<Rightarrow> string \<Rightarrow> string \<Rightarrow> string \<Rightarrow> string \<Rightarrow> string
    \<Rightarrow> jv \<Rightarrow> exec_row" where
  "new_run ws i workflow version owner initiator key node context =
     \<lparr>xr_workspace = ws, xr_id = i, xr_workflow = workflow, xr_version = version, xr_owner = owner,
      xr_initiator = initiator, xr_event_key = key, xr_status = SQueued, xr_node = Some node,
      xr_context = context, xr_depth = 0, xr_wake = 0, xr_token = None, xr_until = 0,
      xr_attempts = 0, xr_error = None\<rparr>"

section \<open>Cancel and retry\<close>

definition stmt_cancel :: "string \<Rightarrow> string \<Rightarrow> native_db \<Rightarrow> native_db" where
  "stmt_cancel ws i = update_runs (\<lambda>r. is_run ws i r \<and> xr_status r \<in> {SQueued, SRunning, SWaiting})
     (\<lambda>r. r\<lparr>xr_status := SCancelled, xr_token := None\<rparr>)"

text \<open>A retry starts a new generation of attempts for the delivery of the step it stands at.\<close>

definition delivery_at :: "string \<Rightarrow> string \<Rightarrow> native_db \<Rightarrow> delivery_row \<Rightarrow> bool" where
  "delivery_at ws i db d \<longleftrightarrow> dl_workspace d = ws \<and> dl_execution d = i \<and>
     (case find_run ws i db of None \<Rightarrow> False | Some r \<Rightarrow> xr_node r = Some (dl_node d))"

definition new_generation :: "delivery_row \<Rightarrow> delivery_row" where
  "new_generation d = d\<lparr>dl_generation_attempts := 0, dl_retry_generation := dl_retry_generation d + 1\<rparr>"

definition trans_retry :: "string \<Rightarrow> string \<Rightarrow> native_db \<Rightarrow> thrown + native_db" where
  "trans_retry ws i db =
     (if list_ex (\<lambda>r. is_run ws i r \<and> xr_status r \<in> {SFailed, SBlocked}) (nd_runs db)
      then Inr (update_runs (is_run ws i)
        (\<lambda>r. r\<lparr>xr_status := SQueued, xr_attempts := 0, xr_wake := 0, xr_error := None\<rparr>)
        (db\<lparr>nd_deliveries := map (\<lambda>d. if delivery_at ws i db d then new_generation d else d) (nd_deliveries db)\<rparr>))
      else Inl lost_lease)"

section \<open>Rows under a statement\<close>

lemma update_runs_simps [simp]:
  "nd_runs (update_runs P f db) = map (\<lambda>r. if P r then f r else r) (nd_runs db)"
  "nd_jobs (update_runs P f db) = nd_jobs db" "nd_tasks (update_runs P f db) = nd_tasks db"
  "nd_deliveries (update_runs P f db) = nd_deliveries db" "nd_attempts (update_runs P f db) = nd_attempts db"
  "nd_claims (update_runs P f db) = nd_claims db"
  "nd_versions (update_runs P f db) = nd_versions db" "nd_workflows (update_runs P f db) = nd_workflows db"
  by (simp_all add: update_runs_def)

lemma update_runs_none: "\<not> list_ex P (nd_runs db) \<Longrightarrow> update_runs P f db = db"
  by (simp add: update_runs_def list_ex_iff map_idI)

end
