(* ===== verification/Native_Webhook.thy ===== *)
theory Native_Webhook
  imports Native_Store
begin

text \<open>
  \<open>apps/flows/packages/native/src/webhook-delivery.ts\<close>: a webhook step keeps its payload in a
  delivery row, books every attempt before it is sent and ends it under the lease. The
  destination and the transport are the outside (\<open>webhook_env\<close>), so is the hash of the key;
  \<open>hk_itf k\<close> is what other workers did to the tables before the transaction number \<open>k\<close>.
\<close>

record send_result =
  sr_status :: "int option"
  sr_retryable :: bool
  sr_retryAfterMs :: "int option"
  sr_error :: "string option"
  sr_output :: jv

record webhook_env =
  hk_hash :: "string list \<Rightarrow> string"
  hk_resolve :: "string \<Rightarrow> nat \<Rightarrow> thrown option"
  hk_send :: "jv \<Rightarrow> string \<Rightarrow> send_result"
  hk_clock :: "nat \<Rightarrow> int"
  hk_itf :: "nat \<Rightarrow> native_db \<Rightarrow> native_db"

section \<open>Rows\<close>

definition delivery_of :: "exec_row \<Rightarrow> string \<Rightarrow> delivery_row \<Rightarrow> bool" where
  "delivery_of run node d \<longleftrightarrow> dl_workspace d = xr_workspace run \<and> dl_execution d = xr_id run \<and> dl_node d = node"

definition attempt_of :: "exec_row \<Rightarrow> string \<Rightarrow> attempt_row \<Rightarrow> bool" where
  "attempt_of run node a \<longleftrightarrow> at_workspace a = xr_workspace run \<and> at_execution a = xr_id run \<and> at_node a = node"

definition update_deliveries :: "(delivery_row \<Rightarrow> bool) \<Rightarrow> (delivery_row \<Rightarrow> delivery_row) \<Rightarrow> native_db \<Rightarrow> native_db" where
  "update_deliveries P f db = db\<lparr>nd_deliveries := map (\<lambda>d. if P d then f d else d) (nd_deliveries db)\<rparr>"

definition update_attempts :: "(attempt_row \<Rightarrow> bool) \<Rightarrow> (attempt_row \<Rightarrow> attempt_row) \<Rightarrow> native_db \<Rightarrow> native_db" where
  "update_attempts P f db = db\<lparr>nd_attempts := map (\<lambda>a. if P a then f a else a) (nd_attempts db)\<rparr>"

text \<open>Attempts that were never ended are marked when the next one starts.\<close>

definition expire_attempts :: "exec_row \<Rightarrow> string \<Rightarrow> int \<Rightarrow> native_db \<Rightarrow> native_db" where
  "expire_attempts run node clock = update_attempts (\<lambda>a. attempt_of run node a \<and> at_finished a = None)
     (\<lambda>a. a\<lparr>at_finished := Some clock, at_error := Some ''Delivery outcome unknown after lease expiry''\<rparr>)"

section \<open>The transactions\<close>

definition trans_delivery :: "constraint_text \<Rightarrow> exec_row \<Rightarrow> string \<Rightarrow> int \<Rightarrow> delivery_row \<Rightarrow> native_db
    \<Rightarrow> thrown + native_db" where
  "trans_delivery texts run token clock d db =
     (if \<not> lease_valid run token clock db then Inl lost_lease
      else if list_ex (delivery_of run (dl_node d)) (nd_deliveries db)
      then Inl (transaction_error (texts ''workflow_webhook_deliveries''))
      else Inr (db\<lparr>nd_deliveries := nd_deliveries db @ [d]\<rparr>))"

definition trans_exhausted :: "exec_row \<Rightarrow> string \<Rightarrow> int \<Rightarrow> string \<Rightarrow> native_db \<Rightarrow> thrown + native_db" where
  "trans_exhausted run token clock node db =
     (if \<not> lease_valid run token clock db then Inl lost_lease
      else Inr (update_deliveries (delivery_of run node) (\<lambda>d. d\<lparr>dl_state := ''failed''\<rparr>)
        (expire_attempts run node clock db)))"

definition book_attempt :: "delivery_row \<Rightarrow> delivery_row" where
  "book_attempt d = d\<lparr>dl_attempts := dl_attempts d + 1,
     dl_generation_attempts := dl_generation_attempts d + 1, dl_state := ''sending''\<rparr>"

definition trans_attempt :: "constraint_text \<Rightarrow> exec_row \<Rightarrow> string \<Rightarrow> int \<Rightarrow> string \<Rightarrow> nat \<Rightarrow> native_db
    \<Rightarrow> thrown + native_db" where
  "trans_attempt texts run token clock node sequence db =
     (if \<not> lease_valid run token clock db then Inl lost_lease
      else if list_ex (\<lambda>a. attempt_of run node a \<and> at_sequence a = sequence) (nd_attempts db)
      then Inl (transaction_error (texts ''workflow_webhook_attempts''))
      else (let db = update_deliveries (delivery_of run node) book_attempt (expire_attempts run node clock db) in
        Inr (db\<lparr>nd_attempts := nd_attempts db @ [\<lparr>at_workspace = xr_workspace run, at_execution = xr_id run,
          at_node = node, at_sequence = sequence, at_token = token, at_started = clock, at_finished = None,
          at_status = None, at_error = None, at_output = None\<rparr>]\<rparr>)))"

text \<open>What the closing transaction binds: \<open>we_job\<close> is there when the step is finished.\<close>

record webhook_end =
  we_node :: string
  we_sequence :: nat
  we_result :: send_result
  we_state :: string
  we_job :: "job_row option"
  we_status :: exec_status
  we_next :: "string option"
  we_context :: jv
  we_wake :: int
  we_error :: "string option"

definition settle_webhook :: "webhook_end \<Rightarrow> exec_row \<Rightarrow> exec_row" where
  "settle_webhook w r = r\<lparr>xr_status := we_status w, xr_node := we_next w, xr_context := we_context w,
     xr_wake := we_wake w, xr_attempts := 0, xr_error := we_error w, xr_token := None\<rparr>"

definition trans_webhook_end :: "constraint_text \<Rightarrow> exec_row \<Rightarrow> string \<Rightarrow> int \<Rightarrow> webhook_end \<Rightarrow> native_db
    \<Rightarrow> thrown + native_db" where
  "trans_webhook_end texts run token clock w db =
     (if \<not> lease_valid run token clock db then Inl lost_lease
      else if we_job w \<noteq> None \<and> job_exists run (we_node w) db then Inl (transaction_error (texts ''workflow_jobs''))
      else (let db = update_attempts (\<lambda>a. attempt_of run (we_node w) a \<and> at_sequence a = we_sequence w \<and> at_token a = token)
                  (\<lambda>a. a\<lparr>at_finished := Some clock, at_status := sr_status (we_result w),
                     at_error := sr_error (we_result w), at_output := Some (sr_output (we_result w))\<rparr>) db;
                db = update_deliveries (delivery_of run (we_node w)) (\<lambda>d. d\<lparr>dl_state := we_state w\<rparr>) db;
                db = db\<lparr>nd_jobs := nd_jobs db @ (case we_job w of None \<Rightarrow> [] | Some j \<Rightarrow> [j])\<rparr> in
        Inr (update_runs (same_run run) (settle_webhook w) db)))"

section \<open>The step\<close>

text \<open>The members of an object; the other values a context cannot hold have none.\<close>

definition members :: "jv \<Rightarrow> jv jmap" where
  "members v = (case v of JObj m \<Rightarrow> m | _ \<Rightarrow> [])"

definition context_steps :: "jv \<Rightarrow> jv jmap" where
  "context_steps c = (case jget (members c) ''steps'' of None \<Rightarrow> [] | Some v \<Rightarrow> members v)"

text \<open>\<open>{...context, steps: {...context.steps, [node.id]: output}}\<close>\<close>

definition with_result :: "jv \<Rightarrow> string \<Rightarrow> jv \<Rightarrow> jv" where
  "with_result c i output = JObj (jset (members c) ''steps'' (JObj (jset (context_steps c) i output)))"

fun mapped :: "jv \<Rightarrow> wvalues \<Rightarrow> jv jmap evaluated" where
  "mapped c [] = Inr []"
| "mapped c ((k, v) # vs) = (case resolveWorkflowValue c v of
     Inl e \<Rightarrow> Inl e
   | Inr x \<Rightarrow> (case mapped c vs of Inl e \<Rightarrow> Inl e | Inr m \<Rightarrow> Inr ((k, x) # m)))"

definition payload_bytes :: "jv \<Rightarrow> nat" where
  "payload_bytes v = (case json_units v of None \<Rightarrow> 0 | Some u \<Rightarrow> utf8_len u)"

definition new_delivery :: "exec_row \<Rightarrow> string \<Rightarrow> string \<Rightarrow> nat \<Rightarrow> jv \<Rightarrow> string \<Rightarrow> delivery_row" where
  "new_delivery run node destination revision payload key =
     \<lparr>dl_workspace = xr_workspace run, dl_execution = xr_id run, dl_node = node, dl_destination = destination,
      dl_destination_revision = revision, dl_payload = payload, dl_key = key, dl_attempts = 0,
      dl_retry_generation = 0, dl_generation_attempts = 0, dl_state = ''prepared''\<rparr>"

text \<open>The delivery of the step, made when it is missing.\<close>

definition prepare_delivery :: "constraint_text \<Rightarrow> webhook_env \<Rightarrow> exec_row \<Rightarrow> wnode \<Rightarrow> string \<Rightarrow> nat \<Rightarrow> wvalues
    \<Rightarrow> jv \<Rightarrow> string \<Rightarrow> native_db \<Rightarrow> (thrown + delivery_row) \<times> native_db" where
  "prepare_delivery texts h run n destination revision vs c token db =
     (case find (delivery_of run (wn_id n)) (nd_deliveries db) of
        Some d \<Rightarrow> (Inr d, db)
      | None \<Rightarrow> (case mapped c vs of
          Inl e \<Rightarrow> (Inl (plain_error e), db)
        | Inr m \<Rightarrow>
            if 32768 < payload_bytes (JObj m) then (Inl (fail_with ''Webhook payload exceeds 32 KiB'' 413), db)
            else (let d = new_delivery run (wn_id n) destination revision (JObj m)
                            (hk_hash h [xr_workspace run, xr_id run, wn_id n]);
                      db = hk_itf h 0 db in
              case trans_delivery texts run token (hk_clock h 0) d db of
                Inl e \<Rightarrow> (Inl e, db) | Inr db' \<Rightarrow> (Inr d, db'))))"

definition ok_status :: "int option \<Rightarrow> bool" where
  "ok_status s = (case s of None \<Rightarrow> False | Some n \<Rightarrow> 200 \<le> n \<and> n < 300)"

text \<open>What the code binds after the attempt has been sent.\<close>

definition webhook_outcome :: "exec_row \<Rightarrow> wnode \<Rightarrow> jv \<Rightarrow> int \<Rightarrow> delivery_row \<Rightarrow> send_result \<Rightarrow> webhook_end" where
  "webhook_outcome run n c now d res =
     (let sequence = dl_attempts d + 1;
          retry = (sr_retryable res \<and> dl_generation_attempts d + 1 < 3);
          updated = with_result c (wn_id n) (sr_output res);
          too_large = 256000 < json_length updated;
          finished = (ok_status (sr_status res) \<and> \<not> too_large) in
      \<lparr>we_node = wn_id n, we_sequence = sequence, we_result = res,
       we_state = (if finished then ''completed'' else if retry then ''waiting'' else ''failed''),
       we_job = (if finished then Some \<lparr>jb_workspace = xr_workspace run, jb_execution = xr_id run,
          jb_node = wn_id n, jb_sequence = length (context_steps c), jb_type = ''webhook'',
          jb_input = node_jv n, jb_output = sr_output res, jb_attempts = sequence\<rparr> else None),
       we_status = (if finished then (if wn_next n = None \<or> wn_next n = Some [] then SCompleted else SQueued)
          else if retry then SWaiting else SFailed),
       we_next = (if finished then wn_next n else Some (wn_id n)),
       we_context = (if finished then updated else xr_context run),
       we_wake = (if retry then now + (case sr_retryAfterMs res of Some t \<Rightarrow> t
          | None \<Rightarrow> if dl_generation_attempts d = 0 then 5000 else 30000) else 0),
       we_error = (if too_large then Some ''Execution context exceeds 256 KB'' else sr_error res)\<rparr>)"

definition executeWebhookNode :: "constraint_text \<Rightarrow> webhook_env \<Rightarrow> exec_row \<Rightarrow> wnode \<Rightarrow> string \<Rightarrow> nat \<Rightarrow> wvalues
    \<Rightarrow> jv \<Rightarrow> string \<Rightarrow> int \<Rightarrow> native_db \<Rightarrow> (thrown + unit) \<times> native_db" where
  "executeWebhookNode texts h run n destination revision vs c token now db =
     (case prepare_delivery texts h run n destination revision vs c token db of
        (Inl e, db) \<Rightarrow> (Inl e, db)
      | (Inr d, db) \<Rightarrow>
          if 3 \<le> dl_generation_attempts d
          then (let db = hk_itf h 1 db in
            case trans_exhausted run token (hk_clock h 1) (wn_id n) db of
              Inl e \<Rightarrow> (Inl e, db)
            | Inr db' \<Rightarrow> (Inl (fail_with ''Webhook automatic attempts exhausted; prior delivery may have been accepted'' 422), db'))
          else (case hk_resolve h destination revision of
              Some e \<Rightarrow> (Inl e, db)
            | None \<Rightarrow> (let db = hk_itf h 1 db in
                case trans_attempt texts run token (hk_clock h 1) (wn_id n) (dl_attempts d + 1) db of
                  Inl e \<Rightarrow> (Inl e, db)
                | Inr db' \<Rightarrow> (let db = hk_itf h 2 db' in
                    case trans_webhook_end texts run token (hk_clock h 2)
                        (webhook_outcome run n c now d (hk_send h (dl_payload d) (dl_key d))) db of
                      Inl e \<Rightarrow> (Inl e, db) | Inr db'' \<Rightarrow> (Inr (), db'')))))"

end
