(* ===== verification/Native_Cause.thy ===== *)
theory Native_Cause
  imports Native_Store
begin

text \<open>
  \<open>packages/studio-shared/src/flow-causation.ts\<close>: the ancestry a workflow passes on to the
  events of the records it writes, so that chains of workflows end. \<open>parse\<close> is
  \<open>JSON.parse\<close>.
\<close>

record flow_cause =
  fc_root :: string
  fc_workflows :: "string list"
  fc_depth :: nat

definition str_of :: "jv \<Rightarrow> string option" where
  "str_of v = (case v of JStr s \<Rightarrow> Some s | _ \<Rightarrow> None)"

definition depth_of :: "jv \<Rightarrow> nat option" where
  "depth_of v = (case v of
     JNum (Fin q) \<Rightarrow> if q = of_int \<lfloor>q\<rfloor> \<and> 0 \<le> q \<and> q \<le> 8 then Some (nat \<lfloor>q\<rfloor>) else None
   | _ \<Rightarrow> None)"

definition workflow_ids :: "jv \<Rightarrow> string list option" where
  "workflow_ids v = (case v of
     JArr vs \<Rightarrow> if length vs \<le> 8 then traverse (\<lambda>x. case str_of x of None \<Rightarrow> None
         | Some s \<Rightarrow> if 0 < length s \<and> length s \<le> 200 then Some s else None) vs else None
   | _ \<Rightarrow> None)"

definition cause_of :: "jv jmap \<Rightarrow> flow_cause option" where
  "cause_of m = (case (str_of (read_prop m ''rootEventId''), workflow_ids (read_prop m ''workflowIds''),
       depth_of (read_prop m ''depth'')) of
     (Some r, Some ws, Some d) \<Rightarrow> if r \<noteq> [] \<and> length r \<le> 200
       then Some \<lparr>fc_root = r, fc_workflows = ws, fc_depth = d\<rparr> else None
   | _ \<Rightarrow> None)"

definition parseFlowCause :: "(string \<Rightarrow> jv option) \<Rightarrow> jv \<Rightarrow> flow_cause option" where
  "parseFlowCause parse v = (case (case v of JStr s \<Rightarrow> parse s | _ \<Rightarrow> Some v) of
     Some (JObj m) \<Rightarrow> cause_of m
   | _ \<Rightarrow> None)"

definition nativeFlowWriteCause :: "(string \<Rightarrow> jv option) \<Rightarrow> string \<Rightarrow> string \<Rightarrow> nat \<Rightarrow> jv \<Rightarrow> thrown + flow_cause" where
  "nativeFlowWriteCause parse workflowId executionId depth cause =
     (let inherited = parseFlowCause parse cause;
          d = max depth (case inherited of None \<Rightarrow> 0 | Some i \<Rightarrow> fc_depth i);
          ws = js_set ((case inherited of None \<Rightarrow> [] | Some i \<Rightarrow> fc_workflows i) @ [''native:'' @ workflowId]) in
      if 8 \<le> d \<or> 8 < length ws
      then Inl (plain_error ''The collection workflow chain limit was reached.'')
      else Inr \<lparr>fc_root = (case inherited of None \<Rightarrow> executionId | Some i \<Rightarrow> fc_root i),
                 fc_workflows = ws, fc_depth = d + 1\<rparr>)"

section \<open>Chains\<close>

text \<open>The JSON of a cause, as the write context stores it.\<close>

definition cause_jv :: "flow_cause \<Rightarrow> jv" where
  "cause_jv c = JObj [(''rootEventId'', JStr (fc_root c)), (''workflowIds'', JArr (map JStr (fc_workflows c))),
     (''depth'', JInt (int (fc_depth c)))]"

definition cause_ok :: "flow_cause \<Rightarrow> bool" where
  "cause_ok c \<longleftrightarrow> fc_root c \<noteq> [] \<and> length (fc_root c) \<le> 200 \<and> length (fc_workflows c) \<le> 8 \<and>
     list_all (\<lambda>s. 0 < length s \<and> length s \<le> 200) (fc_workflows c) \<and> fc_depth c \<le> 8"

lemma workflow_ids_strings:
  "length ws \<le> 8 \<Longrightarrow> list_all (\<lambda>s. 0 < length s \<and> length s \<le> 200) ws \<Longrightarrow>
     workflow_ids (JArr (map JStr ws)) = Some ws"
proof -
  assume len: "length ws \<le> 8" and ok: "list_all (\<lambda>s. 0 < length s \<and> length s \<le> 200) ws"
  have "traverse (\<lambda>x. case str_of x of None \<Rightarrow> None | Some s \<Rightarrow>
      if 0 < length s \<and> length s \<le> 200 then Some s else None) (map JStr ws) = Some ws"
    using ok by (induction ws) (auto simp: str_of_def)
  with len show ?thesis by (simp add: workflow_ids_def)
qed

lemma parse_cause_jv: "cause_ok c \<Longrightarrow> parseFlowCause parse (cause_jv c) = Some c"
  by (auto simp: parseFlowCause_def cause_jv_def cause_of_def cause_ok_def str_of_def depth_of_def
      workflow_ids_strings)

lemma parsed_cause_ok:
  assumes "parseFlowCause parse v = Some c"
  shows "cause_ok c"
proof -
  obtain m where m: "cause_of m = Some c"
    using assms by (auto simp: parseFlowCause_def split: option.splits jv.splits)
  then obtain r ws d where c: "str_of (read_prop m ''rootEventId'') = Some r"
      "workflow_ids (read_prop m ''workflowIds'') = Some ws" "depth_of (read_prop m ''depth'') = Some d"
      "r \<noteq> []" "length r \<le> 200" "c = \<lparr>fc_root = r, fc_workflows = ws, fc_depth = d\<rparr>"
    by (auto simp: cause_of_def split: option.splits if_splits)
  obtain vs where vs: "length vs \<le> 8" "traverse (\<lambda>x. case str_of x of None \<Rightarrow> None | Some s \<Rightarrow>
      if 0 < length s \<and> length s \<le> 200 then Some s else None) vs = Some ws"
    using c(2) by (auto simp: workflow_ids_def split: jv.splits if_splits)
  from vs(2) have "length ws = length vs \<and> list_all (\<lambda>s. 0 < length s \<and> length s \<le> 200) ws"
    by (induction vs arbitrary: ws) (auto split: option.splits if_splits)
  moreover have "d \<le> 8"
    using c(3) by (auto simp: depth_of_def split: jv.splits jnum.splits if_splits)
  ultimately show ?thesis using c vs(1) by (simp add: cause_ok_def)
qed

end
