(* ===== verification/Native_Runtime.thy ===== *)
theory Native_Runtime
  imports Native_Webhook Native_Cause
begin

text \<open>
  \<open>apps/flows/packages/native/src/runtime.ts\<close>: the worker of the native workflows. One tick
  queues what is scheduled, claims executions one at a time and runs one step of each under a
  lease. The collections, the policy and the clock are the outside (\<open>native_env\<close>); other
  workers may change the tables before every transaction (\<open>ne_itf\<close>).
\<close>

section \<open>The outside\<close>

record field_def =
  fl_type :: string
  fl_unique :: bool
  fl_multiple :: bool

record studio_object =
  so_kind :: "string option"
  so_fields :: "field_def jmap"
  so_order :: "string list option"

text \<open>The answer of the execution policy: \<open>admit\<close> and \<open>consumeStep\<close>.\<close>

record native_policy =
  np_admit :: "thrown + (bool \<times> string option)"
  np_consume :: "thrown option"

text \<open>
  \<open>ne_create\<close> and \<open>ne_update\<close> are \<open>createRecord\<close> and \<open>updateRecord\<close>: their checks fail, or
  they give the record and whether their own statements fail inside the transaction.
\<close>

record native_env =
  ne_texts :: constraint_text
  ne_uuid :: "string \<Rightarrow> bool"
  ne_datetime :: "string \<Rightarrow> bool"
  ne_parse :: "string \<Rightarrow> jv option"
  ne_clock :: int
  ne_new_id :: string
  ne_authorize :: "thrown + bool"
  ne_policy :: "native_policy option"
  ne_local :: "string \<Rightarrow> thrown option"
  ne_object :: "string \<Rightarrow> thrown + studio_object"
  ne_destination :: "string \<Rightarrow> nat \<Rightarrow> thrown option"
  ne_unique :: "nat \<Rightarrow> string \<Rightarrow> string \<Rightarrow> string \<Rightarrow> string option"
  ne_record :: "string \<Rightarrow> string \<Rightarrow> thrown + jv"
  ne_create :: "string \<Rightarrow> jv jmap \<Rightarrow> string \<Rightarrow> thrown + (jv \<times> thrown option)"
  ne_update :: "string \<Rightarrow> string \<Rightarrow> jv jmap \<Rightarrow> jv \<Rightarrow> thrown + (jv \<times> thrown option)"
  ne_query :: "string \<Rightarrow> string \<Rightarrow> jv \<Rightarrow> nat \<Rightarrow> jv list"
  ne_notice :: "thrown option"
  ne_webhook :: webhook_env
  ne_itf :: "nat \<Rightarrow> native_db \<Rightarrow> native_db"

section \<open>Validation of a definition against the collections\<close>

text \<open>\<open>fieldEntries\<close>: the names of the fields in their order.\<close>

definition field_names :: "studio_object \<Rightarrow> string list" where
  "field_names ob = (case so_order ob of Some ns \<Rightarrow> ns | None \<Rightarrow> jkeys (so_fields ob))"

definition text_type :: "field_def \<Rightarrow> bool" where
  "text_type f \<longleftrightarrow> fl_type f = ''Textbox'' \<or> fl_type f = ''Dropdown''"

definition match_field :: "studio_object \<Rightarrow> string \<Rightarrow> bool" where
  "match_field ob k = (case jget (so_fields ob) k of None \<Rightarrow> False
     | Some f \<Rightarrow> fl_unique f \<and> \<not> fl_multiple f \<and> text_type f)"

text \<open>What \<open>validate\<close> looks at in a trigger or a node.\<close>

record checked_item =
  ci_collection :: "string option"
  ci_query :: bool
  ci_match :: "string option"
  ci_values :: "wvalues"
  ci_used :: "string list"
  ci_conditions :: "trigger_condition list"

definition no_item :: checked_item where
  "no_item = \<lparr>ci_collection = None, ci_query = False, ci_match = None, ci_values = [], ci_used = [],
     ci_conditions = []\<rparr>"

definition collection_item :: "collection_trigger \<Rightarrow> string list \<Rightarrow> checked_item" where
  "collection_item t used = no_item\<lparr>ci_collection := Some (ct_collection t), ci_used := used,
     ci_conditions := (case ct_conditions t of None \<Rightarrow> [] | Some cs \<Rightarrow> cs)\<rparr>"

fun trigger_item :: "wtrigger \<Rightarrow> checked_item" where
  "trigger_item (TCreated t) = collection_item t []"
| "trigger_item (TDeleted t) = collection_item t []"
| "trigger_item (TCreatedOrUpdated t fs) = collection_item t fs"
| "trigger_item (TUpdated t fs) = collection_item t fs"
| "trigger_item (TManual c) = no_item\<lparr>ci_collection := c\<rparr>"
| "trigger_item _ = no_item"

fun node_item :: "wkind \<Rightarrow> checked_item" where
  "node_item (KQuery c f v l) = no_item\<lparr>ci_collection := Some c, ci_query := True, ci_used := [f]\<rparr>"
| "node_item (KCreate c vs m) = no_item\<lparr>ci_collection := Some c, ci_match := m, ci_values := vs, ci_used := jkeys vs\<rparr>"
| "node_item (KUpdate c i vs) = no_item\<lparr>ci_collection := Some c, ci_values := vs, ci_used := jkeys vs\<rparr>"
| "node_item _ = no_item"

definition validate_item :: "native_env \<Rightarrow> checked_item \<Rightarrow> thrown option" where
  "validate_item env item = (case ci_collection item of
     None \<Rightarrow> None
   | Some [] \<Rightarrow> None
   | Some c \<Rightarrow> (case ne_local env c of Some e \<Rightarrow> Some e
     | None \<Rightarrow> (case ne_object env c of Inl e \<Rightarrow> Some e
       | Inr ob \<Rightarrow>
         (let fs = set (field_names ob) \<union> (if ci_query item then {''id''} else {}) in
          if (case so_kind ob of None \<Rightarrow> False | Some k \<Rightarrow> k \<noteq> [] \<and> k \<noteq> ''crm'')
          then Some (fail_with ''Workflow steps currently support native collections only'' 422)
          else if (case ci_match item of None \<Rightarrow> False
              | Some m \<Rightarrow> m \<noteq> [] \<and> (\<not> match_field ob m \<or> \<not> js_in m (ci_values item)))
          then Some (fail_with ''Matched creation requires a mapped unique field'' 422)
          else if list_ex (\<lambda>n. n \<notin> fs) (ci_used item) \<or>
            list_ex (\<lambda>t. tc_field t \<notin> fs \<and> tc_field t \<noteq> ''id'') (ci_conditions item)
          then Some (fail_with (''Unknown field in '' @ c) 422)
          else None))))"

fun first_error :: "thrown option list \<Rightarrow> thrown option" where
  "first_error [] = None"
| "first_error (None # es) = first_error es"
| "first_error (Some e # es) = Some e"

definition validate :: "native_env \<Rightarrow> wdefinition \<Rightarrow> thrown option" where
  "validate env d = first_error
     (map (\<lambda>n. case wn_kind n of KWebhook dest r vs \<Rightarrow> ne_destination env dest r | _ \<Rightarrow> None) (wd_nodes d)
      @ map (validate_item env) (trigger_item (wd_trigger d) # map (\<lambda>n. node_item (wn_kind n)) (wd_nodes d)))"

section \<open>One step\<close>

text \<open>What the node evaluates to before its transaction: what follows, the output and the effect.\<close>

record step_plan =
  sp_next :: "string option"
  sp_output :: jv
  sp_effect :: step_effect

definition lift_error :: "'a evaluated \<Rightarrow> thrown + 'a" where
  "lift_error x = (case x of Inl m \<Rightarrow> Inl (plain_error m) | Inr y \<Rightarrow> Inr y)"

definition scalar_value :: "jv \<Rightarrow> bool" where
  "scalar_value v \<longleftrightarrow> v = JNull \<or> typeof v \<in> {''string'', ''number'', ''boolean''}"

definition plan_notice :: "native_env \<Rightarrow> exec_row \<Rightarrow> wnode \<Rightarrow> bool \<Rightarrow> int option \<Rightarrow> jv \<Rightarrow> jv \<Rightarrow> thrown + step_plan" where
  "plan_notice env run n is_task due_at title assignee = (case (title, assignee) of
     (JStr t, JStr a) \<Rightarrow>
       if js_trim t = [] \<or> 500 < length t \<or> a = [] \<or> 200 < length a
       then Inl (plain_error ''Task requires a title and assignee'')
       else Inr \<lparr>sp_next = wn_next n, sp_output = JObj [(''id'', JStr (ne_new_id env))],
         sp_effect = NewTask \<lparr>tk_workspace = xr_workspace run, tk_id = ne_new_id env, tk_execution = xr_id run,
           tk_node = wn_id n, tk_kind = kind_name (wn_kind n), tk_title = t, tk_assignee = a, tk_done = False,
           tk_due = due_at\<rparr> (if is_task then ne_notice env else None)\<rparr>
   | _ \<Rightarrow> Inl (plain_error ''Task requires a title and assignee''))"

definition plan_two :: "jv \<Rightarrow> wvalue \<Rightarrow> wvalue \<Rightarrow> (jv \<Rightarrow> jv \<Rightarrow> thrown + step_plan) \<Rightarrow> thrown + step_plan" where
  "plan_two c a b k = (case resolveWorkflowValue c a of Inl e \<Rightarrow> Inl (plain_error e)
     | Inr x \<Rightarrow> (case resolveWorkflowValue c b of Inl e \<Rightarrow> Inl (plain_error e) | Inr y \<Rightarrow> k x y))"

fun plan_node :: "native_env \<Rightarrow> exec_row \<Rightarrow> wnode \<Rightarrow> jv \<Rightarrow> int \<Rightarrow> wkind \<Rightarrow> thrown + step_plan" where
  "plan_node env run n c now (KCondition l op r otherwise) =
     (case evaluateWorkflowCondition c l op r of Inl e \<Rightarrow> Inl (plain_error e)
      | Inr b \<Rightarrow> Inr \<lparr>sp_next = (if b then wn_next n else otherwise),
          sp_output = JObj [(''matches'', JBool b)], sp_effect = NoEffect\<rparr>)"
| "plan_node env run n c now (KTransform vs) =
     (case mapped c vs of Inl e \<Rightarrow> Inl (plain_error e)
      | Inr m \<Rightarrow> Inr \<lparr>sp_next = wn_next n, sp_output = JObj m, sp_effect = NoEffect\<rparr>)"
| "plan_node env run n c now (KQuery coll f v limit) =
     (case resolveWorkflowValue c v of Inl e \<Rightarrow> Inl (plain_error e)
      | Inr x \<Rightarrow> if \<not> scalar_value x then Inl (plain_error ''Query value must be scalar'')
          else (let rows = ne_query env coll f x limit in
            Inr \<lparr>sp_next = wn_next n, sp_output = JObj [(''records'', JArr rows), (''count'', JInt (int (length rows)))],
              sp_effect = NoEffect\<rparr>))"
| "plan_node env run n c now (KTask t a days) =
     plan_two c t a (plan_notice env run n True (Some (now + int days * 86400000)))"
| "plan_node env run n c now (KNotification t a) = plan_two c t a (plan_notice env run n False None)"
| "plan_node env run n c now (KDelay seconds until) =
     (case workflowResumeAt c seconds until now of Inl e \<Rightarrow> Inl (plain_error e)
      | Inr t \<Rightarrow> Inr \<lparr>sp_next = wn_next n, sp_output = JObj [(''resumeAt'', JStr (iso_of_ms t))],
          sp_effect = NoEffect\<rparr>)"
| "plan_node env run n c now _ = Inl (plain_error [])"

text \<open>\<open>finish\<close>: the values its statements bind.\<close>

definition wake_after :: "jv \<Rightarrow> wkind \<Rightarrow> int \<Rightarrow> thrown + int" where
  "wake_after c k now = (case k of
     KDelay seconds until \<Rightarrow> lift_error (workflowResumeAt c seconds until now)
   | _ \<Rightarrow> Inr 0)"

definition is_delay :: "wkind \<Rightarrow> bool" where
  "is_delay k = (case k of KDelay _ _ \<Rightarrow> True | _ \<Rightarrow> False)"

definition finish :: "exec_row \<Rightarrow> wnode \<Rightarrow> jv \<Rightarrow> int \<Rightarrow> string option \<Rightarrow> jv \<Rightarrow> thrown + finish_step" where
  "finish run n c now next output =
     (let updated = with_result c (wn_id n) output in
      if 256000 < json_length updated then Inl (plain_error ''Execution context exceeds 256 KB'')
      else (case wake_after c (wn_kind n) now of Inl e \<Rightarrow> Inl e
        | Inr wake \<Rightarrow> Inr \<lparr>fs_job = \<lparr>jb_workspace = xr_workspace run, jb_execution = xr_id run, jb_node = wn_id n,
              jb_sequence = length (context_steps c), jb_type = kind_name (wn_kind n), jb_input = node_jv n,
              jb_output = output, jb_attempts = xr_attempts run\<rparr>,
            fs_next = next, fs_context = updated,
            fs_status = (if is_delay (wn_kind n) then SWaiting
              else if next = None \<or> next = Some [] then SCompleted else SQueued),
            fs_wake = wake\<rparr>))"

text \<open>Building the transaction and running it; \<open>k\<close> counts the transactions of the step.\<close>

definition commit :: "native_env \<Rightarrow> exec_row \<Rightarrow> string \<Rightarrow> wnode \<Rightarrow> jv \<Rightarrow> int \<Rightarrow> nat \<Rightarrow> step_plan \<Rightarrow> native_db
    \<Rightarrow> (thrown + unit) \<times> native_db" where
  "commit env run token n c now k p db =
     (case finish run n c now (sp_next p) (sp_output p) of
        Inl e \<Rightarrow> (Inl e, db)
      | Inr f \<Rightarrow> (let db = ne_itf env k db in
          case trans_checkpoint (ne_texts env) run token (ne_clock env) (sp_effect p) f db of
            Inl e \<Rightarrow> (Inl e, db) | Inr db' \<Rightarrow> (Inr (), db')))"

text \<open>\<open>findMatch\<close>: the record that already has the unique value; \<open>k\<close> counts its calls.\<close>

definition findMatch :: "native_env \<Rightarrow> nat \<Rightarrow> string \<Rightarrow> string option \<Rightarrow> jv jmap \<Rightarrow> thrown + jv option" where
  "findMatch env k coll m input = (case m of
     None \<Rightarrow> Inr None
   | Some [] \<Rightarrow> Inr None
   | Some f \<Rightarrow> (case ne_object env coll of Inl e \<Rightarrow> Inl e
     | Inr ob \<Rightarrow>
       if \<not> match_field ob f then Inl (plain_error ''Matched creation requires a unique field'')
       else (case read_prop input f of
           JStr s \<Rightarrow> if js_trim s = [] then Inl (plain_error ''Matched creation requires a nonempty text key'')
             else (case ne_unique env k coll f (js_lower (js_trim s)) of None \<Rightarrow> Inr None
               | Some i \<Rightarrow> (case ne_record env coll i of Inl e \<Rightarrow> Inl e | Inr r \<Rightarrow> Inr (Some r)))
         | _ \<Rightarrow> Inl (plain_error ''Matched creation requires a nonempty text key''))))"

definition existing_plan :: "wnode \<Rightarrow> jv \<Rightarrow> step_plan" where
  "existing_plan n r = \<lparr>sp_next = wn_next n, sp_output = r, sp_effect = NoEffect\<rparr>"

definition execute_create :: "native_env \<Rightarrow> exec_row \<Rightarrow> string \<Rightarrow> wnode \<Rightarrow> jv \<Rightarrow> int \<Rightarrow> string \<Rightarrow> wvalues
    \<Rightarrow> string option \<Rightarrow> native_db \<Rightarrow> (thrown + unit) \<times> native_db" where
  "execute_create env run token n c now coll vs m db =
     (case mapped c vs of
        Inl e \<Rightarrow> (Inl (plain_error e), db)
      | Inr input \<Rightarrow> (case findMatch env 0 coll m input of
          Inl e \<Rightarrow> (Inl e, db)
        | Inr (Some r) \<Rightarrow> commit env run token n c now 0 (existing_plan n r) db
        | Inr None \<Rightarrow>
            (let (res, db) = (case ne_create env coll input (ne_new_id env) of
                 Inl e \<Rightarrow> (Inl e, db)
               | Inr (r, own) \<Rightarrow> commit env run token n c now 0
                   \<lparr>sp_next = wn_next n, sp_output = r, sp_effect = RecordWrite own\<rparr> db) in
             case res of
               Inr u \<Rightarrow> (Inr (), db)
             | Inl e \<Rightarrow> (case findMatch env 1 coll m input of
                 Inl e' \<Rightarrow> (Inl e', db)
               | Inr None \<Rightarrow> (Inl e, db)
               | Inr (Some r) \<Rightarrow> commit env run token n c now 1 (existing_plan n r) db))))"

definition execute_update :: "native_env \<Rightarrow> exec_row \<Rightarrow> string \<Rightarrow> wnode \<Rightarrow> jv \<Rightarrow> int \<Rightarrow> string \<Rightarrow> wvalue \<Rightarrow> wvalues
    \<Rightarrow> native_db \<Rightarrow> (thrown + unit) \<times> native_db" where
  "execute_update env run token n c now coll i vs db =
     (case resolveWorkflowValue c i of
        Inl e \<Rightarrow> (Inl (plain_error e), db)
      | Inr (JStr (ch # s)) \<Rightarrow> (case ne_record env coll (ch # s) of
          Inl e \<Rightarrow> (Inl e, db)
        | Inr r \<Rightarrow> (case mapped c vs of
            Inl e \<Rightarrow> (Inl (plain_error e), db)
          | Inr input \<Rightarrow> (case ne_update env coll (ch # s) input (read_prop (members r) ''_version'') of
              Inl e \<Rightarrow> (Inl e, db)
            | Inr (r', own) \<Rightarrow> commit env run token n c now 0
                \<lparr>sp_next = wn_next n, sp_output = r', sp_effect = RecordWrite own\<rparr> db)))
      | Inr _ \<Rightarrow> (Inl (plain_error ''Update requires a record identifier''), db))"

definition context_cause :: "jv \<Rightarrow> jv" where
  "context_cause c = read_prop (members (read_prop (members c) ''system'')) ''cause''"

definition executeNode :: "native_env \<Rightarrow> exec_row \<Rightarrow> wnode \<Rightarrow> jv \<Rightarrow> string \<Rightarrow> int \<Rightarrow> native_db
    \<Rightarrow> (thrown + unit) \<times> native_db" where
  "executeNode env run n c token now db =
     (case nativeFlowWriteCause (ne_parse env) (xr_workflow run) (xr_id run) (xr_depth run) (context_cause c) of
        Inl e \<Rightarrow> (Inl e, db)
      | Inr cause \<Rightarrow> (case wn_kind n of
          KCreate coll vs m \<Rightarrow> execute_create env run token n c now coll vs m db
        | KUpdate coll i vs \<Rightarrow> execute_update env run token n c now coll i vs db
        | k \<Rightarrow> (case plan_node env run n c now k of
            Inl e \<Rightarrow> (Inl e, db)
          | Inr p \<Rightarrow> commit env run token n c now 0 p db)))"

end
