(* ===== verification/Native_Worker.thy ===== *)
theory Native_Worker
  imports Native_Runtime
begin

text \<open>
  \<open>processWorkflows\<close> of \<open>apps/flows/packages/native/src/runtime.ts\<close>: the schedule, the claim,
  what happens around a step (authorization, policy, errors, release) and the bounded loop.
\<close>

section \<open>The schedule\<close>

definition due_workflow :: "int \<Rightarrow> native_db \<Rightarrow> workflow_row \<Rightarrow> (workflow_row \<times> version_row) option" where
  "due_workflow now db w =
     (case (wr_published w, wr_next_run w) of
        (Some v, Some t) \<Rightarrow> if wr_enabled w \<and> t \<le> now
          then (case find (\<lambda>x. vr_workspace x = wr_workspace w \<and> vr_id x = v) (nd_versions db) of
              None \<Rightarrow> None | Some x \<Rightarrow> Some (w, x)) else None
      | _ \<Rightarrow> None)"

definition due_workflows :: "int \<Rightarrow> native_db \<Rightarrow> (workflow_row \<times> version_row) list" where
  "due_workflows now db = take 50 (concat (map (\<lambda>w. case due_workflow now db w of None \<Rightarrow> [] | Some x \<Rightarrow> [x]) (nd_workflows db)))"

definition same_workflow :: "workflow_row \<Rightarrow> workflow_row \<Rightarrow> bool" where
  "same_workflow w x \<longleftrightarrow> wr_workspace x = wr_workspace w \<and> wr_id x = wr_id w"

definition update_workflows :: "(workflow_row \<Rightarrow> bool) \<Rightarrow> (workflow_row \<Rightarrow> workflow_row) \<Rightarrow> native_db \<Rightarrow> native_db" where
  "update_workflows P f db = db\<lparr>nd_workflows := map (\<lambda>w. if P w then f w else w) (nd_workflows db)\<rparr>"

definition start_context :: "jv \<Rightarrow> jv jmap \<Rightarrow> jv" where
  "start_context trigger system = JObj [(''trigger'', trigger), (''before'', JObj []), (''steps'', JObj []), (''system'', JObj system)]"

definition first_node :: "wdefinition \<Rightarrow> string" where
  "first_node d = (case wd_nodes d of [] \<Rightarrow> [] | n # _ \<Rightarrow> wn_id n)"

definition scheduled_run :: "string \<Rightarrow> workflow_row \<Rightarrow> version_row \<Rightarrow> int \<Rightarrow> exec_row" where
  "scheduled_run i w v t = new_run (wr_workspace w) i (wr_id w) (vr_id v) (vr_owner v) (vr_owner v)
     (''schedule:'' @ vr_id v @ '':'' @ num_to_string (Fin (of_int t))) (first_node (vr_definition v))
     (start_context (JObj [(''scheduledAt'', JStr (iso_of_ms t))])
        [(''owner'', JStr (vr_owner v)), (''workspace'', JStr (wr_workspace w))])"

text \<open>Queueing one scheduled execution; the guard asks that nothing changed since it was read.\<close>

definition trans_schedule :: "constraint_text \<Rightarrow> string \<Rightarrow> int \<Rightarrow> nat \<Rightarrow> int \<Rightarrow> workflow_row \<Rightarrow> version_row
    \<Rightarrow> native_db \<Rightarrow> thrown + native_db" where
  "trans_schedule texts i now minutes t w v db =
     (if \<not> list_ex (\<lambda>x. same_workflow w x \<and> wr_enabled x \<and> wr_next_run x = Some t \<and> wr_published x = Some (vr_id v))
          (nd_workflows db)
      then Inl lost_lease
      else (case insert_run texts (scheduled_run i w v t) db of
          Inl e \<Rightarrow> Inl e
        | Inr db' \<Rightarrow> Inr (update_workflows (same_workflow w)
            (\<lambda>x. x\<lparr>wr_next_run := Some (max (t + int minutes * 60000) (now + int minutes * 60000))\<rparr>) db')))"

text \<open>\<open>ids k\<close> is the identifier drawn for the row number \<open>k\<close>, \<open>itf k\<close> what happened before its
  transaction. A definition that no longer parses ends the tick with its error.\<close>

fun schedule_rows :: "native_env \<Rightarrow> (nat \<Rightarrow> string) \<Rightarrow> (nat \<Rightarrow> native_db \<Rightarrow> native_db) \<Rightarrow> int \<Rightarrow> nat
    \<Rightarrow> (workflow_row \<times> version_row) list \<Rightarrow> native_db \<Rightarrow> thrown option \<times> native_db" where
  "schedule_rows env ids itf now k [] db = (None, db)"
| "schedule_rows env ids itf now k ((w, v) # rows) db =
     (if \<not> definition_ok (ne_uuid env) (ne_datetime env) (vr_definition v)
      then (Some \<lparr>th_text = ne_texts env ''definition'', th_status = 0\<rparr>, db)
      else (case (wd_trigger (vr_definition v), wr_next_run w) of
          (TSchedule minutes startAt, Some t) \<Rightarrow>
            (let db = itf k db in
             case trans_schedule (ne_texts env) (ids k) now minutes t w v db of
               Inr db' \<Rightarrow> schedule_rows env ids itf now (k + 1) rows db'
             | Inl e \<Rightarrow> if th_status e \<noteq> 409 then (Some e, db)
                 else schedule_rows env ids itf now (k + 1) rows db)
        | _ \<Rightarrow> schedule_rows env ids itf now (k + 1) rows db))"

definition schedule :: "native_env \<Rightarrow> (nat \<Rightarrow> string) \<Rightarrow> (nat \<Rightarrow> native_db \<Rightarrow> native_db) \<Rightarrow> int \<Rightarrow> native_db
    \<Rightarrow> thrown option \<times> native_db" where
  "schedule env ids itf now db = schedule_rows env ids itf now 0 (due_workflows now db) db"

section \<open>A claimed execution\<close>

datatype policy_call = CallAdmit | CallConsume | CallRelease bool

text \<open>How the body of the try block ends: an error for the handler, or whether the execution is
  over for the policy; with it whether a reservation is held and the calls so far.\<close>

record body_end =
  be_result :: "thrown + bool"
  be_reserved :: bool
  be_calls :: "policy_call list"
  be_db :: native_db

definition body_error :: "thrown \<Rightarrow> bool \<Rightarrow> policy_call list \<Rightarrow> native_db \<Rightarrow> body_end" where
  "body_error e reserved calls db = \<lparr>be_result = Inl e, be_reserved = reserved, be_calls = calls, be_db = db\<rparr>"

definition body_done :: "bool \<Rightarrow> bool \<Rightarrow> policy_call list \<Rightarrow> native_db \<Rightarrow> body_end" where
  "body_done terminal reserved calls db = \<lparr>be_result = Inr terminal, be_reserved = reserved, be_calls = calls, be_db = db\<rparr>"

text \<open>Case-insensitive search of a text, as the patterns of the code do.\<close>

definition mentions :: "string \<Rightarrow> string \<Rightarrow> bool" where
  "mentions text s \<longleftrightarrow> js_includes (js_lower text) s"

definition defer_indefinitely :: "string option \<Rightarrow> bool" where
  "defer_indefinitely reason = (case reason of None \<Rightarrow> False
     | Some t \<Rightarrow> mentions t ''workflow executions are paused'' \<or> mentions t ''policy bridge is unavailable'')"

definition deferred :: "string option \<Rightarrow> bool" where
  "deferred reason \<longleftrightarrow> defer_indefinitely reason \<or>
     (case reason of None \<Rightarrow> False | Some t \<Rightarrow> js_includes t ''Concurrent execution limit'')"

definition reject_run :: "native_env \<Rightarrow> exec_row \<Rightarrow> string \<Rightarrow> int \<Rightarrow> string option \<Rightarrow> native_db \<Rightarrow> thrown + native_db" where
  "reject_run env run token now reason =
     stmt_set_run (ne_texts env) run token (if deferred reason then SQueued else SBlocked)
       (case reason of None \<Rightarrow> ''Execution rejected by policy'' | Some t \<Rightarrow> t)
       (if deferred reason then Some (now + 30000) else None)
       (if defer_indefinitely reason then 0 else xr_attempts run)"

definition run_status :: "exec_row \<Rightarrow> native_db \<Rightarrow> exec_status option" where
  "run_status run db = map_option xr_status (find_run (xr_workspace run) (xr_id run) db)"

definition terminal_status :: "exec_status option \<Rightarrow> bool" where
  "terminal_status s \<longleftrightarrow> s \<in> {Some SCompleted, Some SFailed, Some SBlocked}"

text \<open>The step itself: the node the execution stands at, if the definition has it.\<close>

definition find_step :: "wdefinition \<Rightarrow> string option \<Rightarrow> wnode option" where
  "find_step d i = find (\<lambda>n. Some (wn_id n) = i) (wd_nodes d)"

definition step_body :: "native_env \<Rightarrow> exec_row \<Rightarrow> string \<Rightarrow> int \<Rightarrow> wdefinition \<Rightarrow> bool \<Rightarrow> policy_call list
    \<Rightarrow> native_db \<Rightarrow> body_end" where
  "step_body env run token now d reserved calls db =
     (case find_step d (xr_node run) of
        None \<Rightarrow> body_done True reserved calls (stmt_complete_run run token (ne_itf env 0 db))
      | Some n \<Rightarrow>
          (let c = xr_context run;
               (res, db) = (case wn_kind n of
                   KWebhook dest r vs \<Rightarrow> executeWebhookNode (ne_texts env) (ne_webhook env) run n dest r vs c token now db
                 | _ \<Rightarrow> executeNode env run n c token now db) in
           case res of
             Inl e \<Rightarrow> body_error e reserved calls db
           | Inr u \<Rightarrow> (let db = ne_itf env 2 db in body_done (terminal_status (run_status run db)) reserved calls db)))"

definition turn_body :: "native_env \<Rightarrow> exec_row \<Rightarrow> string \<Rightarrow> int \<Rightarrow> native_db \<Rightarrow> body_end" where
  "turn_body env run token now db =
     (case ne_authorize env of
        Inl e \<Rightarrow> body_error e False [] db
      | Inr False \<Rightarrow> body_done True False [] (stmt_block_run run token (ne_itf env 0 db))
      | Inr True \<Rightarrow>
        (case find (\<lambda>v. vr_workspace v = xr_workspace run \<and> vr_id v = xr_version run) (nd_versions db) of
           None \<Rightarrow> body_error (plain_error ''Published version missing'') False [] db
         | Some v \<Rightarrow>
           if \<not> definition_ok (ne_uuid env) (ne_datetime env) (vr_definition v)
           then body_error \<lparr>th_text = ne_texts env ''definition'', th_status = 0\<rparr> False [] db
           else (case validate env (vr_definition v) of
             Some e \<Rightarrow> body_error e False [] db
           | None \<Rightarrow> (case ne_policy env of
               None \<Rightarrow> step_body env run token now (vr_definition v) False [] db
             | Some p \<Rightarrow> (case np_admit p of
                 Inl e \<Rightarrow> body_error e False [CallAdmit] db
               | Inr (False, reason) \<Rightarrow> (case reject_run env run token now reason (ne_itf env 0 db) of
                   Inl e \<Rightarrow> body_error e False [CallAdmit] (ne_itf env 0 db)
                 | Inr db' \<Rightarrow> body_done (\<not> deferred reason) False [CallAdmit] db')
               | Inr (True, reason) \<Rightarrow> (case np_consume p of
                   Some e \<Rightarrow> body_error e True [CallAdmit, CallConsume] db
                 | None \<Rightarrow> step_body env run token now (vr_definition v) True [CallAdmit, CallConsume] db))))))"

section \<open>The error handler\<close>

definition permanent_quota :: "thrown \<Rightarrow> bool" where
  "permanent_quota e \<longleftrightarrow> mentions (th_text e) ''step limit'' \<or> mentions (th_text e) ''execution quota configuration''"

definition retryable_concurrency :: "thrown \<Rightarrow> bool" where
  "retryable_concurrency e \<longleftrightarrow> mentions (th_text e) ''concurrent execution limit''"

definition policy_unavailable :: "thrown \<Rightarrow> bool" where
  "policy_unavailable e \<longleftrightarrow> mentions (th_text e) ''workflow executions are paused''
     \<or> mentions (th_text e) ''execution policy bridge is unavailable''
     \<or> mentions (th_text e) ''execution policy returned an invalid response''"

definition retries :: "thrown \<Rightarrow> exec_row \<Rightarrow> bool" where
  "retries e run \<longleftrightarrow> (th_status e = 0 \<or> retryable_concurrency e \<or> policy_unavailable e)
     \<and> \<not> permanent_quota e \<and> (policy_unavailable e \<or> xr_attempts run < 3)"

definition handle_error :: "native_env \<Rightarrow> exec_row \<Rightarrow> string \<Rightarrow> int \<Rightarrow> thrown \<Rightarrow> native_db \<Rightarrow> thrown + native_db" where
  "handle_error env run token now e =
     stmt_set_run (ne_texts env) run token (if retries e run then SQueued else SFailed)
       (take 1000 (th_text e)) (Some (now + int (xr_attempts run) * 5000))
       (if policy_unavailable e then 0 else xr_attempts run)"

definition release_calls :: "bool \<Rightarrow> bool \<Rightarrow> policy_call list" where
  "release_calls reserved terminal = (if reserved then [CallRelease terminal] else [])"

text \<open>The try, its handler and its finally; the error of a release is logged and dropped.\<close>

definition process_run :: "native_env \<Rightarrow> exec_row \<Rightarrow> string \<Rightarrow> int \<Rightarrow> native_db \<Rightarrow> policy_call list \<times> native_db" where
  "process_run env run token now db =
     (let b = turn_body env run token now db in
      case be_result b of
        Inr terminal \<Rightarrow> (be_calls b @ release_calls (be_reserved b) terminal, be_db b)
      | Inl e \<Rightarrow>
          (let db = ne_itf env 3 (be_db b) in
           (be_calls b @ release_calls (be_reserved b) (\<not> retries e run),
            (case handle_error env run token now e db of Inl x \<Rightarrow> db | Inr db' \<Rightarrow> db'))))"

lemma handle_error_total: "\<exists>db'. handle_error env run token now e db = Inr db'"
  by (simp add: handle_error_def stmt_set_run_def)

section \<open>The tick\<close>

text \<open>What one turn of the loop meets: its token, the clock of the lease and the outside.\<close>

record turn =
  tn_token :: string
  tn_clock :: int
  tn_env :: native_env
  tn_itf :: "native_db \<Rightarrow> native_db"

fun process_loop :: "nat \<Rightarrow> (nat \<Rightarrow> turn) \<Rightarrow> int \<Rightarrow> nat \<Rightarrow> native_db \<Rightarrow> policy_call list \<times> native_db" where
  "process_loop 0 turns now k db = ([], db)"
| "process_loop (Suc steps) turns now k db =
     (let t = turns k in
      case stmt_claim (tn_token t) (tn_clock t) now (tn_itf t db) of
        (None, db) \<Rightarrow> ([], db)
      | (Some run, db) \<Rightarrow>
          (let (calls, db) = process_run (tn_env t) run (tn_token t) now db;
               (more, db) = process_loop steps turns now (k + 1) db in (calls @ more, db)))"

definition processWorkflows :: "native_env \<Rightarrow> bool \<Rightarrow> (nat \<Rightarrow> string) \<Rightarrow> (nat \<Rightarrow> native_db \<Rightarrow> native_db)
    \<Rightarrow> (nat \<Rightarrow> turn) \<Rightarrow> int \<Rightarrow> nat option \<Rightarrow> native_db \<Rightarrow> thrown option \<times> policy_call list \<times> native_db" where
  "processWorkflows env paused ids itf turns now maxSteps db =
     (if paused then (None, [], db)
      else (case schedule env ids itf now db of
          (Some e, db) \<Rightarrow> (Some e, [], db)
        | (None, db) \<Rightarrow> (case process_loop (min (case maxSteps of None \<Rightarrow> 100 | Some m \<Rightarrow> m) 200) turns now 0 db of
            (calls, db) \<Rightarrow> (None, calls, db))))"

end
