(* ===== verification/Native_Repository.thy ===== *)
theory Native_Repository
  imports Native_Worker
begin

text \<open>
  \<open>WorkflowRepository\<close> of \<open>apps/flows/packages/native/src/repository.ts\<close>: drafts, published
  versions, manual starts, cancel, retry and tasks of one workspace. The tables are read and
  written one statement after another; \<open>itf k\<close> is what others did before the statement number
  \<open>k\<close>. The schema has already parsed the drafts.
\<close>

section \<open>Workflows\<close>

definition find_workflow :: "string \<Rightarrow> string \<Rightarrow> native_db \<Rightarrow> workflow_row option" where
  "find_workflow ws i db = find (\<lambda>w. wr_workspace w = ws \<and> wr_id w = i) (nd_workflows db)"

definition get_workflow :: "string \<Rightarrow> string \<Rightarrow> native_db \<Rightarrow> thrown + workflow_row" where
  "get_workflow ws i db = (case find_workflow ws i db of
     None \<Rightarrow> Inl (fail_with ''Workflow not found'' 404) | Some w \<Rightarrow> Inr w)"

definition list_workflows :: "string \<Rightarrow> native_db \<Rightarrow> workflow_row list" where
  "list_workflows ws db = take 200 (rev (filter (\<lambda>w. wr_workspace w = ws) (nd_workflows db)))"

definition create_workflow :: "constraint_text \<Rightarrow> string \<Rightarrow> string \<Rightarrow> string \<Rightarrow> wdefinition \<Rightarrow> string \<Rightarrow> native_db
    \<Rightarrow> (thrown + workflow_row) \<times> native_db" where
  "create_workflow texts ws i name d owner db =
     (if find_workflow ws i db \<noteq> None then (Inl \<lparr>th_text = texts ''workflows'', th_status = 0\<rparr>, db)
      else (let db = db\<lparr>nd_workflows := nd_workflows db @ [\<lparr>wr_workspace = ws, wr_id = i, wr_name = name,
              wr_definition = d, wr_revision = 1, wr_enabled = False, wr_published = None, wr_created_by = owner,
              wr_next_run = None\<rparr>]\<rparr> in (get_workflow ws i db, db)))"

definition save_workflow :: "string \<Rightarrow> string \<Rightarrow> nat \<Rightarrow> string \<Rightarrow> wdefinition \<Rightarrow> native_db
    \<Rightarrow> (thrown + workflow_row) \<times> native_db" where
  "save_workflow ws i revision name d db =
     (let P = (\<lambda>w. wr_workspace w = ws \<and> wr_id w = i \<and> wr_revision w = revision) in
      if \<not> list_ex P (nd_workflows db) then (Inl (fail_with ''Draft changed; reload before saving'' 409), db)
      else (let db = update_workflows P (\<lambda>w. w\<lparr>wr_name := name, wr_definition := d,
              wr_revision := wr_revision w + 1\<rparr>) db in (get_workflow ws i db, db)))"

definition version_id :: "string \<Rightarrow> nat \<Rightarrow> string" where
  "version_id i revision = i @ '':'' @ nat_digits revision"

definition insert_version :: "version_row \<Rightarrow> native_db \<Rightarrow> native_db" where
  "insert_version v db =
     (if list_ex (\<lambda>x. vr_workspace x = vr_workspace v \<and> vr_workflow x = vr_workflow v \<and> vr_revision x = vr_revision v)
          (nd_versions db)
      then db else db\<lparr>nd_versions := nd_versions db @ [v]\<rparr>)"

text \<open>\<open>start\<close> is the parsed start of a schedule.\<close>

definition trans_publish :: "string \<Rightarrow> string \<Rightarrow> nat \<Rightarrow> string \<Rightarrow> wdefinition \<Rightarrow> int option \<Rightarrow> native_db
    \<Rightarrow> thrown + native_db" where
  "trans_publish ws i revision owner d start db =
     (if \<not> list_ex (\<lambda>w. wr_workspace w = ws \<and> wr_id w = i \<and> wr_revision w = revision) (nd_workflows db)
      then Inl lost_lease
      else (let v = version_id i revision;
                db = insert_version \<lparr>vr_workspace = ws, vr_id = v, vr_workflow = i, vr_definition = d,
                       vr_owner = owner, vr_revision = revision\<rparr> db in
        Inr (update_workflows (\<lambda>w. wr_workspace w = ws \<and> wr_id w = i)
          (\<lambda>w. w\<lparr>wr_next_run := (if wr_published w = Some v then wr_next_run w else start),
                 wr_published := Some v, wr_enabled := True\<rparr>) db)))"

definition publish :: "native_env \<Rightarrow> (string \<Rightarrow> int option) \<Rightarrow> string \<Rightarrow> string \<Rightarrow> nat \<Rightarrow> string
    \<Rightarrow> (nat \<Rightarrow> native_db \<Rightarrow> native_db) \<Rightarrow> native_db \<Rightarrow> (thrown + workflow_row) \<times> native_db" where
  "publish env parse_date ws i revision owner itf db =
     (case get_workflow ws i db of
        Inl e \<Rightarrow> (Inl e, db)
      | Inr draft \<Rightarrow>
          if wr_revision draft \<noteq> revision then (Inl (fail_with ''Draft changed; reload before publishing'' 409), db)
          else (case validate env (wr_definition draft) of
              Some e \<Rightarrow> (Inl e, db)
            | None \<Rightarrow>
              (let db = itf 0 db;
                   start = (case wd_trigger (wr_definition draft) of TSchedule m s \<Rightarrow> parse_date s | _ \<Rightarrow> None) in
               case trans_publish ws i revision owner (wr_definition draft) start db of
                 Inl e \<Rightarrow> (Inl e, db)
               | Inr db' \<Rightarrow> (let db = itf 1 db' in (get_workflow ws i db, db)))))"

definition setEnabled :: "string \<Rightarrow> string \<Rightarrow> bool \<Rightarrow> native_db \<Rightarrow> (thrown + workflow_row) \<times> native_db" where
  "setEnabled ws i enabled db =
     (case get_workflow ws i db of
        Inl e \<Rightarrow> (Inl e, db)
      | Inr w \<Rightarrow>
          if enabled \<and> (wr_published w = None \<or> wr_published w = Some [])
          then (Inl (fail_with ''Publish a version first'' 422), db)
          else (let db = update_workflows (\<lambda>w. wr_workspace w = ws \<and> wr_id w = i) (\<lambda>w. w\<lparr>wr_enabled := enabled\<rparr>) db
                in (get_workflow ws i db, db)))"

section \<open>Executions\<close>

definition manual_key :: "string \<Rightarrow> string \<Rightarrow> string" where
  "manual_key initiator key = ''manual:'' @ initiator @ '':'' @ key"

definition trans_start :: "constraint_text \<Rightarrow> string \<Rightarrow> string \<Rightarrow> string option \<Rightarrow> exec_row \<Rightarrow> native_db
    \<Rightarrow> thrown + native_db" where
  "trans_start texts ws i published x db =
     (if \<not> list_ex (\<lambda>w. wr_workspace w = ws \<and> wr_id w = i \<and> wr_enabled w \<and> wr_published w = published) (nd_workflows db)
      then Inl lost_lease else insert_run texts x db)"

definition start :: "native_env \<Rightarrow> string \<Rightarrow> string \<Rightarrow> string \<Rightarrow> jv jmap \<Rightarrow> string \<Rightarrow> string
    \<Rightarrow> (nat \<Rightarrow> native_db \<Rightarrow> native_db) \<Rightarrow> native_db \<Rightarrow> (thrown + exec_row) \<times> native_db" where
  "start env run ws i data initiator key itf db =
     (if key = [] \<or> 150 < length key \<or> 32000 < json_length (JObj data)
      then (Inl (fail_with ''Invalid execution input'' 422), db)
      else (case get_workflow ws i db of
          Inl e \<Rightarrow> (Inl e, db)
        | Inr w \<Rightarrow>
          (case find (\<lambda>v. vr_workspace v = ws \<and> Some (vr_id v) = wr_published w) (nd_versions db) of
             None \<Rightarrow> (Inl (fail_with ''Workflow is not active'' 409), db)
           | Some v \<Rightarrow>
             if \<not> wr_enabled w then (Inl (fail_with ''Workflow is not active'' 409), db)
             else if (case wd_trigger (vr_definition v) of TManual _ \<Rightarrow> False | _ \<Rightarrow> True)
             then (Inl (fail_with ''This workflow does not accept manual starts'' 422), db)
             else (let x = new_run ws run i (vr_id v) (vr_owner v) initiator (manual_key initiator key)
                       (first_node (vr_definition v))
                       (start_context (JObj data) [(''owner'', JStr (vr_owner v)), (''workspace'', JStr ws),
                          (''initiator'', JStr initiator)]);
                       db = itf 0 db in
               case trans_start (ne_texts env) ws i (wr_published w) x db of
                 Inl e \<Rightarrow> (Inl e, db)
               | Inr db' \<Rightarrow> (let db = itf 1 db' in
                   case find (\<lambda>r. xr_workspace r = ws \<and> xr_workflow r = i \<and> xr_event_key r = manual_key initiator key)
                       (nd_runs db) of
                     None \<Rightarrow> (Inl (fail_with ''Execution key was used with different input'' 409), db)
                   | Some r \<Rightarrow>
                       if json_units (read_prop (members (xr_context r)) ''trigger'') \<noteq> json_units (JObj data)
                       then (Inl (fail_with ''Execution key was used with different input'' 409), db)
                       else (Inr r, db))))))"

definition get_execution :: "string \<Rightarrow> string \<Rightarrow> native_db \<Rightarrow> thrown + exec_row" where
  "get_execution ws i db = (case find_run ws i db of
     None \<Rightarrow> Inl (fail_with ''Execution not found'' 404) | Some r \<Rightarrow> Inr r)"

definition cancel :: "string \<Rightarrow> string \<Rightarrow> (nat \<Rightarrow> native_db \<Rightarrow> native_db) \<Rightarrow> native_db
    \<Rightarrow> (thrown + exec_row) \<times> native_db" where
  "cancel ws i itf db =
     (case get_execution ws i db of
        Inl e \<Rightarrow> (Inl e, db)
      | Inr r \<Rightarrow> (let db = itf 1 (stmt_cancel ws i (itf 0 db)) in (get_execution ws i db, db)))"

definition retry :: "string \<Rightarrow> string \<Rightarrow> (nat \<Rightarrow> native_db \<Rightarrow> native_db) \<Rightarrow> native_db
    \<Rightarrow> (thrown + exec_row) \<times> native_db" where
  "retry ws i itf db =
     (case trans_retry ws i db of
        Inl e \<Rightarrow> (Inl e, db)
      | Inr db' \<Rightarrow> (let db = itf 0 db' in (get_execution ws i db, db)))"

definition inbox :: "string \<Rightarrow> string \<Rightarrow> native_db \<Rightarrow> task_row list" where
  "inbox ws user db = take 200 (rev (filter (\<lambda>t. tk_workspace t = ws \<and> tk_assignee t = user) (nd_tasks db)))"

definition resolveTask :: "string \<Rightarrow> string \<Rightarrow> string \<Rightarrow> native_db \<Rightarrow> (thrown + unit) \<times> native_db" where
  "resolveTask ws i user db =
     (let P = (\<lambda>t. tk_workspace t = ws \<and> tk_id t = i \<and> tk_assignee t = user) in
      if \<not> list_ex P (nd_tasks db) then (Inl (fail_with ''Assigned item not found'' 404), db)
      else (Inr (), db\<lparr>nd_tasks := map (\<lambda>t. if P t then t\<lparr>tk_done := True\<rparr> else t) (nd_tasks db)\<rparr>))"

end
