(* ===== verification/Native_Graph.thy ===== *)
theory Native_Graph
  imports Native_Workflow
begin

text \<open>
  What the walk and the dominators of \<open>packages/studio-shared/src/workflows.ts\<close> compute:
  the paths of a workflow, the walk against reachability, and the availability sets against the
  steps that lie on every path.
\<close>

section \<open>Paths\<close>

definition step_edge :: "wnode jmap \<Rightarrow> string \<Rightarrow> string \<Rightarrow> bool" where
  "step_edge nodes u v \<longleftrightarrow> (\<exists>n. jget nodes u = Some n \<and> v \<in> set (successors n))"

text \<open>The steps before \<open>v\<close> on a way from the first step, the last one first.\<close>

inductive wpath :: "wnode jmap \<Rightarrow> string \<Rightarrow> string list \<Rightarrow> string \<Rightarrow> bool" for nodes r where
  wpath_start: "wpath nodes r [] r"
| wpath_step: "wpath nodes r us u \<Longrightarrow> step_edge nodes u v \<Longrightarrow> wpath nodes r (u # us) v"

inductive_cases wpath_NilE: "wpath nodes r [] v"
inductive_cases wpath_ConsE: "wpath nodes r (u # us) v"

inductive_simps wpath_Nil_iff: "wpath nodes r [] v"
inductive_simps wpath_Cons_iff: "wpath nodes r (u # us) v"

definition reachable_step :: "wnode jmap \<Rightarrow> string \<Rightarrow> string \<Rightarrow> bool" where
  "reachable_step nodes r v \<longleftrightarrow> (\<exists>us. wpath nodes r us v)"

definition no_cycle :: "wnode jmap \<Rightarrow> string \<Rightarrow> bool" where
  "no_cycle nodes r \<longleftrightarrow> (\<forall>us v. wpath nodes r us v \<longrightarrow> v \<notin> set us)"

definition closed_steps :: "wnode jmap \<Rightarrow> bool" where
  "closed_steps nodes \<longleftrightarrow> (\<forall>u v. step_edge nodes u v \<longrightarrow> v \<in> set (jkeys nodes))"

text \<open>The steps on every way to \<open>v\<close>.\<close>

definition always_before :: "wnode jmap \<Rightarrow> string \<Rightarrow> string \<Rightarrow> string set" where
  "always_before nodes r v = {c. \<forall>us. wpath nodes r us v \<longrightarrow> c \<in> set us}"

lemma reachable_start [simp]: "reachable_step nodes r r"
  using wpath_start by (auto simp: reachable_step_def)

lemma reachable_edge: "reachable_step nodes r u \<Longrightarrow> step_edge nodes u v \<Longrightarrow> reachable_step nodes r v"
  by (auto simp: reachable_step_def intro: wpath_step)

lemma wpath_reachable: "wpath nodes r us v \<Longrightarrow> x \<in> set us \<Longrightarrow> reachable_step nodes r x"
  by (induction rule: wpath.induct) (auto simp: reachable_step_def)

lemma wpath_has_start: "wpath nodes r us v \<Longrightarrow> us \<noteq> [] \<Longrightarrow> r \<in> set us"
proof (induction rule: wpath.induct)
  case (wpath_step us u v)
  then show ?case by (cases us) (auto elim: wpath_NilE)
qed simp

lemma no_edge_to_start:
  assumes "no_cycle nodes r" and "reachable_step nodes r u"
  shows "\<not> step_edge nodes u r"
proof
  assume "step_edge nodes u r"
  moreover obtain us where "wpath nodes r us u"
    using assms(2) by (auto simp: reachable_step_def)
  ultimately have p: "wpath nodes r (u # us) r" by (rule wpath_step [rotated])
  then have "r \<in> set (u # us)" by (rule wpath_has_start) simp
  with p assms(1) show False unfolding no_cycle_def by blast
qed

lemma wpath_distinct: "no_cycle nodes r \<Longrightarrow> wpath nodes r us v \<Longrightarrow> distinct us"
proof (induction us arbitrary: v)
  case (Cons u us)
  then have "wpath nodes r us u" by (auto elim: wpath_ConsE)
  with Cons show ?case by (auto simp: no_cycle_def)
qed simp

lemma wpath_keys: "wpath nodes r us v \<Longrightarrow> set us \<subseteq> set (jkeys nodes)"
  by (induction rule: wpath.induct) (auto simp: step_edge_def dest: jget_Some_key)

section \<open>The walk ends\<close>

lemma walk_simps [simp]:
  "wk_visiting (issue m w) = wk_visiting w" "wk_visited (issue m w) = wk_visited w"
  "wk_preds (issue m w) = wk_preds w" "wk_order (issue m w) = wk_order w"
  "wk_issues (issue m w) = wk_issues w @ [m]"
  "wk_visiting (record_edge u v w) = wk_visiting w" "wk_visited (record_edge u v w) = wk_visited w"
  "wk_order (record_edge u v w) = wk_order w" "wk_issues (record_edge u v w) = wk_issues w"
  "wk_visiting (enter u w) = set_add u (wk_visiting w)" "wk_visited (enter u w) = wk_visited w"
  "wk_preds (enter u w) = wk_preds w" "wk_order (enter u w) = wk_order w"
  "wk_issues (enter u w) = wk_issues w"
  "wk_visiting (leave u w) = filter (\<lambda>x. x \<noteq> u) (wk_visiting w)"
  "wk_visited (leave u w) = set_add u (wk_visited w)" "wk_preds (leave u w) = wk_preds w"
  "wk_order (leave u w) = u # wk_order w" "wk_issues (leave u w) = wk_issues w"
  by (simp_all add: issue_def record_edge_def enter_def leave_def)

lemma preds_record [simp]:
  "set (preds_of (wk_preds (record_edge u v w)) x) =
     (if x = v then insert u (set (preds_of (wk_preds w) x)) else set (preds_of (wk_preds w) x))"
proof -
  have "wk_preds (record_edge u v w) = jset (wk_preds w) v (preds_of (wk_preds w) v @ [u])"
    by (simp add: record_edge_def)
  then show ?thesis by (cases "jget (wk_preds w) x"; cases "x = v") (unfold preds_of_def jget_jset, simp_all)
qed

lemma filter_set_add: "x \<notin> set V \<Longrightarrow> filter (\<lambda>y. y \<noteq> x) (set_add x V) = V"
  by (auto simp: set_add_def filter_id_conv)

text \<open>What a part of the walk leaves alone and what it can only add to.\<close>

definition grow :: "walk \<Rightarrow> walk \<Rightarrow> bool" where
  "grow w w' \<longleftrightarrow> wk_visiting w' = wk_visiting w \<and> set (wk_visited w) \<subseteq> set (wk_visited w') \<and>
     (\<forall>v. set (preds_of (wk_preds w) v) \<subseteq> set (preds_of (wk_preds w') v)) \<and>
     (\<exists>xs. wk_issues w' = wk_issues w @ xs)"

lemma grow_refl [simp]: "grow w w"
  by (simp add: grow_def)

lemma grow_trans: "grow w w' \<Longrightarrow> grow w' w'' \<Longrightarrow> grow w w''"
  unfolding grow_def by (metis append.assoc order_trans)

lemma grow_record: "grow w (record_edge u v w)"
  by (auto simp: grow_def)

lemma grow_issues: "grow w w' \<Longrightarrow> wk_issues w' = [] \<Longrightarrow> wk_issues w = []"
  by (auto simp: grow_def)

text \<open>The rule of the loop over what follows a step.\<close>

lemma follow_rule:
  assumes run: "follow go u vs w = Some w'" and start: "I w"
    and body: "\<And>v w w'. v \<in> set vs \<Longrightarrow> I w \<Longrightarrow> go v (record_edge u v w) = Some w' \<Longrightarrow>
      I w' \<and> grow w w' \<and> Q v w'"
    and stable: "\<And>v w w'. Q v w \<Longrightarrow> grow w w' \<Longrightarrow> Q v w'"
  shows "I w' \<and> grow w w' \<and> (\<forall>v \<in> set vs. Q v w')"
  using run start body
proof (induction vs arbitrary: w)
  case (Cons v vs)
  then obtain w1 where w1: "go v (record_edge u v w) = Some w1" "follow go u vs w1 = Some w'"
    by (auto split: option.splits)
  have step: "I w1 \<and> grow w w1 \<and> Q v w1"
    by (rule Cons.prems(3)) (use Cons.prems(2) w1(1) in simp_all)
  have rest: "I w' \<and> grow w1 w' \<and> (\<forall>v \<in> set vs. Q v w')"
  proof (rule Cons.IH [OF w1(2)])
    show "I w1" using step by simp
    show "I b \<and> grow a b \<and> Q x b" if "x \<in> set vs" "I a" "go x (record_edge u x a) = Some b" for x a b
      by (rule Cons.prems(3)) (use that in simp_all)
  qed
  with step show ?case using grow_trans stable by fastforce
qed simp

lemma follow_grow:
  assumes "follow go u vs w = Some w'"
    and "\<And>v w w'. go v w = Some w' \<Longrightarrow> grow w w'"
  shows "grow w w'"
proof -
  have "True \<and> grow w w' \<and> (\<forall>v \<in> set vs. True)"
    by (rule follow_rule [where I = "\<lambda>_. True" and Q = "\<lambda>_ _. True", OF assms(1)])
      (auto intro: grow_trans [OF grow_record assms(2)])
  then show ?thesis by simp
qed

lemma visit_grow: "visit f nodes i w = Some w' \<Longrightarrow> grow w w'"
proof (induction f arbitrary: i w w')
  case (Suc f)
  show ?case
  proof (cases "i \<in> set (wk_visiting w) \<or> i \<in> set (wk_visited w) \<or> jget nodes i = None")
    case True
    with Suc.prems show ?thesis by (auto simp: grow_def split: if_splits)
  next
    case False
    then obtain n w1 where w1: "follow (visit f nodes) i (successors n) (enter i w) = Some w1"
      "w' = leave i w1" and new: "i \<notin> set (wk_visiting w)"
      using Suc.prems by auto
    have "grow (enter i w) w1" using w1(1) Suc.IH by (rule follow_grow)
    with w1(2) new show ?thesis by (auto simp: grow_def filter_set_add)
  qed
qed simp

lemma follow_total:
  assumes "\<And>v w. wk_visiting w = V \<Longrightarrow> \<exists>w'. go v w = Some w'"
    and "\<And>v w w'. go v w = Some w' \<Longrightarrow> grow w w'"
    and "wk_visiting w = V"
  shows "\<exists>w'. follow go u vs w = Some w'"
  using assms(3)
proof (induction vs arbitrary: w)
  case (Cons v vs)
  obtain w1 where w1: "go v (record_edge u v w) = Some w1" using assms(1) Cons.prems by fastforce
  have "wk_visiting w1 = V" using assms(2) [OF w1] Cons.prems by (simp add: grow_def)
  with Cons.IH w1 show ?case by simp
qed simp

lemma visit_total:
  assumes "distinct (wk_visiting w)" "set (wk_visiting w) \<subseteq> set (jkeys nodes)"
    and "length nodes < f + length (wk_visiting w)"
  shows "\<exists>w'. visit f nodes i w = Some w'"
  using assms
proof (induction f arbitrary: i w)
  case 0
  have "length (wk_visiting w) = card (set (wk_visiting w))"
    using 0 by (simp add: distinct_card)
  also have "\<dots> \<le> card (set (jkeys nodes))" using 0 by (intro card_mono) auto
  also have "\<dots> \<le> length nodes" using card_length [of "jkeys nodes"] by (simp add: jkeys_def)
  finally show ?case using 0 by simp
next
  case (Suc f)
  show ?case
  proof (cases "i \<in> set (wk_visiting w) \<or> i \<in> set (wk_visited w) \<or> jget nodes i = None")
    case True
    then show ?thesis by auto
  next
    case False
    then obtain n where n: "jget nodes i = Some n" and new: "i \<notin> set (wk_visiting w)" by auto
    have entered: "set_add i (wk_visiting w) = wk_visiting w @ [i]" using new by (simp add: set_add_def)
    have "\<exists>w'. follow (visit f nodes) i (successors n) (enter i w) = Some w'"
    proof (rule follow_total [where V = "wk_visiting w @ [i]"])
      show "\<exists>w'. visit f nodes v x = Some w'" if "wk_visiting x = wk_visiting w @ [i]" for v x
        using Suc.prems new jget_Some_key [OF n] that by (intro Suc.IH) auto
    qed (simp_all add: visit_grow entered)
    with False n show ?thesis by auto
  qed
qed


section \<open>What the walk finds\<close>

text \<open>Every step of the order comes before all that may follow it.\<close>

primrec topo :: "wnode jmap \<Rightarrow> string list \<Rightarrow> bool" where
  "topo nodes [] = True"
| "topo nodes (u # us) = ((\<forall>v. step_edge nodes u v \<longrightarrow> v \<in> set us) \<and> topo nodes us)"

definition walk_inv :: "wnode jmap \<Rightarrow> string \<Rightarrow> walk \<Rightarrow> bool" where
  "walk_inv nodes r w \<longleftrightarrow>
     distinct (wk_order w) \<and> distinct (wk_visited w) \<and> set (wk_order w) = set (wk_visited w) \<and>
     set (wk_visiting w) \<inter> set (wk_visited w) = {} \<and> topo nodes (wk_order w) \<and>
     set (wk_visited w) \<subseteq> set (jkeys nodes) \<and>
     (\<forall>v \<in> set (wk_visited w). reachable_step nodes r v) \<and>
     (\<forall>u \<in> set (wk_visited w). \<forall>v. step_edge nodes u v \<longrightarrow> u \<in> set (preds_of (wk_preds w) v)) \<and>
     (\<forall>v. \<forall>u \<in> set (preds_of (wk_preds w) v).
        step_edge nodes u v \<and> u \<in> set (wk_visiting w) \<union> set (wk_visited w))"

lemma walk_inv_start [simp]: "walk_inv nodes r walk_start"
  by (simp add: walk_inv_def walk_start_def preds_of_def)

lemma walk_inv_enter: "walk_inv nodes r w \<Longrightarrow> u \<notin> set (wk_visited w) \<Longrightarrow> walk_inv nodes r (enter u w)"
  by (auto simp: walk_inv_def)

lemma walk_inv_record:
  "walk_inv nodes r w \<Longrightarrow> step_edge nodes u v \<Longrightarrow> u \<in> set (wk_visiting w) \<Longrightarrow>
     walk_inv nodes r (record_edge u v w)"
  by (auto simp: walk_inv_def split: if_splits)

lemma walk_inv_leave:
  assumes inv: "walk_inv nodes r w" and u: "u \<in> set (wk_visiting w)" "u \<in> set (jkeys nodes)"
    "reachable_step nodes r u"
    and out: "\<And>v. step_edge nodes u v \<Longrightarrow> v \<in> set (wk_visited w) \<and> u \<in> set (preds_of (wk_preds w) v)"
  shows "walk_inv nodes r (leave u w)"
proof -
  have new: "u \<notin> set (wk_visited w)" using inv u(1) by (auto simp: walk_inv_def)
  have order: "distinct (wk_order w)" "distinct (wk_visited w)" "set (wk_order w) = set (wk_visited w)"
    "set (wk_visiting w) \<inter> set (wk_visited w) = {}" "set (wk_visited w) \<subseteq> set (jkeys nodes)"
    using inv by (simp_all add: walk_inv_def)
  have "distinct (wk_order (leave u w)) \<and> distinct (wk_visited (leave u w))" using order new by simp
  moreover have "set (wk_order (leave u w)) = set (wk_visited (leave u w))" using order by simp
  moreover have "set (wk_visiting (leave u w)) \<inter> set (wk_visited (leave u w)) = {}" using order by auto
  moreover have "set (wk_visited (leave u w)) \<subseteq> set (jkeys nodes)" using order u(2) by simp
  moreover have "topo nodes (wk_order (leave u w))"
  proof -
    have "topo nodes (wk_order w)" using inv by (simp add: walk_inv_def)
    moreover have "\<forall>v. step_edge nodes u v \<longrightarrow> v \<in> set (wk_order w)" using out order(3) by blast
    ultimately show ?thesis by simp
  qed
  moreover have "\<forall>v \<in> set (wk_visited (leave u w)). reachable_step nodes r v"
    using inv u(3) by (simp add: walk_inv_def)
  moreover have "\<forall>x \<in> set (wk_visited (leave u w)). \<forall>v. step_edge nodes x v \<longrightarrow>
      x \<in> set (preds_of (wk_preds (leave u w)) v)"
  proof -
    have "\<forall>x \<in> set (wk_visited w). \<forall>v. step_edge nodes x v \<longrightarrow> x \<in> set (preds_of (wk_preds w) v)"
      using inv by (simp add: walk_inv_def)
    with out show ?thesis by auto
  qed
  moreover have "\<forall>v. \<forall>x \<in> set (preds_of (wk_preds (leave u w)) v). step_edge nodes x v \<and>
      x \<in> set (wk_visiting (leave u w)) \<union> set (wk_visited (leave u w))"
    using inv by (auto simp: walk_inv_def)
  ultimately show ?thesis unfolding walk_inv_def by blast
qed

lemma successors_edge: "jget nodes u = Some n \<Longrightarrow> step_edge nodes u v \<longleftrightarrow> v \<in> set (successors n)"
  by (simp add: step_edge_def)

lemma visit_inv:
  assumes "visit f nodes i w = Some w'" "wk_issues w' = []" "walk_inv nodes r w" "reachable_step nodes r i"
  shows "walk_inv nodes r w' \<and> i \<in> set (wk_visited w')"
  using assms
proof (induction f arbitrary: i w w')
  case (Suc f)
  have unseen: "i \<notin> set (wk_visiting w)" using Suc.prems(1,2) by auto
  show ?case
  proof (cases "i \<in> set (wk_visited w)")
    case True
    with Suc.prems unseen show ?thesis by auto
  next
    case False
    then obtain n w1 where n: "jget nodes i = Some n"
      and run: "follow (visit f nodes) i (successors n) (enter i w) = Some w1" and w': "w' = leave i w1"
      using Suc.prems(1,2) unseen by (auto split: option.splits)
    let ?I = "\<lambda>x. i \<in> set (wk_visiting x) \<and> (wk_issues x = [] \<longrightarrow> walk_inv nodes r x)"
    let ?Q = "\<lambda>v x. wk_issues x = [] \<longrightarrow> v \<in> set (wk_visited x) \<and> i \<in> set (preds_of (wk_preds x) v)"
    have "?I w1 \<and> grow (enter i w) w1 \<and> (\<forall>v \<in> set (successors n). ?Q v w1)"
    proof (rule follow_rule [where I = ?I and Q = ?Q, OF run])
      show "?I (enter i w)" using Suc.prems(3) False by (simp add: walk_inv_enter)
    next
      fix v a b
      assume v: "v \<in> set (successors n)" and I: "?I a" and go: "visit f nodes v (record_edge i v a) = Some b"
      have edge: "step_edge nodes i v" using v n by (simp add: successors_edge)
      have g: "grow (record_edge i v a) b" using go by (rule visit_grow)
      have clean: "walk_inv nodes r b \<and> v \<in> set (wk_visited b)" if "wk_issues b = []"
      proof (rule Suc.IH [OF go that])
        have "wk_issues (record_edge i v a) = []" using g that by (rule grow_issues)
        with I edge show "walk_inv nodes r (record_edge i v a)" by (intro walk_inv_record) simp_all
        show "reachable_step nodes r v" using Suc.prems(4) edge by (rule reachable_edge)
      qed
      have "i \<in> set (preds_of (wk_preds (record_edge i v a)) v)" by simp
      with g have "i \<in> set (preds_of (wk_preds b) v)" unfolding grow_def by blast
      with clean I g grow_trans [OF grow_record g] show "?I b \<and> grow a b \<and> ?Q v b"
        by (auto simp: grow_def)
    next
      fix v a b assume Q: "?Q v a" and g: "grow a b"
      show "?Q v b" using Q g by (auto simp: grow_def)
    qed
    moreover have "wk_issues w1 = []" using Suc.prems(2) w' by simp
    ultimately show ?thesis
      using n Suc.prems(4) w' jget_Some_key [OF n]
      by (auto intro!: walk_inv_leave simp: successors_edge)
  qed
qed simp

text \<open>Without cycles and missing steps the walk has nothing to report.\<close>

lemma visit_clean:
  assumes "closed_steps nodes" "no_cycle nodes r"
    and "visit f nodes i w = Some w'" "wk_issues w = []"
    and "i \<in> set (jkeys nodes)" "wpath nodes r us i" "set (wk_visiting w) \<subseteq> set us"
  shows "wk_issues w' = []"
  using assms(3-)
proof (induction f arbitrary: i w w' us)
  case (Suc f)
  have "i \<notin> set (wk_visiting w)" using Suc.prems(4,5) assms(2) by (auto simp: no_cycle_def)
  show ?case
  proof (cases "i \<in> set (wk_visited w)")
    case True
    with Suc.prems \<open>i \<notin> set (wk_visiting w)\<close> show ?thesis by auto
  next
    case False
    obtain n where n: "jget nodes i = Some n" using Suc.prems(3) jget_None_iff [of nodes i] by auto
    obtain w1 where run: "follow (visit f nodes) i (successors n) (enter i w) = Some w1" and w': "w' = leave i w1"
      using Suc.prems(1) False \<open>i \<notin> set (wk_visiting w)\<close> n by auto
    let ?I = "\<lambda>x. wk_issues x = [] \<and> set (wk_visiting x) \<subseteq> set (i # us)"
    have "?I w1 \<and> grow (enter i w) w1 \<and> (\<forall>v \<in> set (successors n). True)"
    proof (rule follow_rule [where I = ?I and Q = "\<lambda>_ _. True", OF run])
      show "?I (enter i w)" using Suc.prems(2,5) by auto
    next
      fix v a b
      assume v: "v \<in> set (successors n)" and I: "?I a" and go: "visit f nodes v (record_edge i v a) = Some b"
      have edge: "step_edge nodes i v" using v n by (simp add: successors_edge)
      have "wk_issues b = []"
      proof (rule Suc.IH [OF go])
        show "v \<in> set (jkeys nodes)" using edge assms(1) by (auto simp: closed_steps_def)
        show "wpath nodes r (i # us) v" using Suc.prems(4) edge by (rule wpath_step)
      qed (use I in simp_all)
      with I grow_trans [OF grow_record visit_grow [OF go]] show "?I b \<and> grow a b \<and> True"
        by (auto simp: grow_def)
    qed auto
    with w' show ?thesis by simp
  qed
qed simp

section \<open>The order\<close>

definition rank :: "string list \<Rightarrow> string \<Rightarrow> nat" where
  "rank order v = length (takeWhile (\<lambda>x. x \<noteq> v) order)"

lemma rank_Cons: "rank (x # xs) v = (if x = v then 0 else Suc (rank xs v))"
  by (simp add: rank_def)

lemma topo_rank:
  "topo nodes order \<Longrightarrow> distinct order \<Longrightarrow> u \<in> set order \<Longrightarrow> step_edge nodes u v \<Longrightarrow>
     v \<in> set order \<and> rank order u < rank order v"
  by (induction order) (auto simp: rank_Cons)

lemma topo_path:
  assumes "topo nodes order" "distinct order" "r \<in> set order" "wpath nodes r us v"
  shows "v \<in> set order \<and> (\<forall>u \<in> set us. rank order u < rank order v)"
  using assms(4)
proof (induction rule: wpath.induct)
  case wpath_start
  then show ?case using assms(3) by simp
next
  case (wpath_step us u v)
  then have "v \<in> set order \<and> rank order u < rank order v" using assms(1,2) topo_rank by blast
  with wpath_step.IH show ?case by fastforce
qed

lemma topo_no_cycle: "topo nodes order \<Longrightarrow> distinct order \<Longrightarrow> r \<in> set order \<Longrightarrow> no_cycle nodes r"
  unfolding no_cycle_def using topo_path by blast

lemma topo_split: "topo nodes (xs @ u # ys) \<Longrightarrow> distinct (xs @ u # ys) \<Longrightarrow> v \<in> set (xs @ u # ys) \<Longrightarrow>
   step_edge nodes v u \<Longrightarrow> v \<in> set xs"
proof (induction xs)
  case Nil
  then have "rank (u # ys) v < rank (u # ys) u" by (intro topo_rank [THEN conjunct2]) auto
  then show ?case by (simp add: rank_Cons)
qed auto


section \<open>What is available\<close>

lemma available_exact:
  assumes acyclic: "no_cycle nodes r" and i: "reachable_step nodes r i"
    and preds: "set (preds_of preds i) = {u. step_edge nodes u i \<and> reachable_step nodes r u}"
    and doms: "\<And>u. u \<in> set (preds_of preds i) \<Longrightarrow> set (preds_of doms u) = always_before nodes r u"
  shows "set (available preds doms i) = always_before nodes r i"
proof (cases "preds_of preds i")
  case Nil
  have "us = []" if "wpath nodes r us i" for us
    using that Nil preds by (cases us) (auto elim!: wpath_ConsE simp: reachable_step_def)
  with i have "always_before nodes r i = {}" by (fastforce simp: always_before_def reachable_step_def)
  with Nil show ?thesis by (simp add: available_def)
next
  case (Cons p ps)
  have "set (available preds doms i) = {c. \<forall>u \<in> set (preds_of preds i). c = u \<or> c \<in> always_before nodes r u}"
    using doms by (auto simp: available_def Let_def list_all_iff Cons)
  also have "\<dots> = always_before nodes r i"
  proof (intro set_eqI iffI)
    fix c assume c: "c \<in> {c. \<forall>u \<in> set (preds_of preds i). c = u \<or> c \<in> always_before nodes r u}"
    have "c \<in> set us" if p: "wpath nodes r us i" for us
    proof (cases us)
      case Nil
      then have "i = r" using p by (simp add: wpath_Nil_iff)
      with Cons preds have "step_edge nodes p r \<and> reachable_step nodes r p" by auto
      with acyclic show ?thesis using no_edge_to_start by blast
    next
      case (Cons u vs)
      with p have u: "wpath nodes r vs u" "step_edge nodes u i" by (auto elim: wpath_ConsE)
      then have "u \<in> set (preds_of preds i)" using preds by (auto simp: reachable_step_def)
      with c u(1) Cons show ?thesis by (auto simp: always_before_def)
    qed
    then show "c \<in> always_before nodes r i" by (simp add: always_before_def)
  next
    fix c assume c: "c \<in> always_before nodes r i"
    have "c = u \<or> c \<in> set vs" if "u \<in> set (preds_of preds i)" "wpath nodes r vs u" for u vs
    proof -
      have "wpath nodes r (u # vs) i" using that preds by (auto intro: wpath_step)
      with c show ?thesis by (auto simp: always_before_def)
    qed
    then show "c \<in> {c. \<forall>u \<in> set (preds_of preds i). c = u \<or> c \<in> always_before nodes r u}"
      by (auto simp: always_before_def)
  qed
  finally show ?thesis .
qed

text \<open>The results a step names are all there.\<close>

definition refs_available :: "string set \<Rightarrow> wnode \<Rightarrow> bool" where
  "refs_available S n \<longleftrightarrow> (\<forall>ref \<in> set (references (node_jv n)). \<forall>s. steps_ref ref = Some s \<longrightarrow> s \<in> S)"

lemma ref_issues_Nil:
  "jget nodes i = Some n \<Longrightarrow> ref_issues nodes i a = [] \<longleftrightarrow> refs_available (set a) n"
  by (auto simp: ref_issues_def refs_available_def split: option.splits if_splits)

lemma dominate_exact:
  assumes acyclic: "no_cycle nodes r"
    and order: "topo nodes (xs @ ks)" "distinct (xs @ ks)"
    and members: "set (xs @ ks) = {v. reachable_step nodes r v}" "set (xs @ ks) \<subseteq> set (jkeys nodes)"
    and preds: "\<And>v. set (preds_of preds v) = {u. step_edge nodes u v \<and> reachable_step nodes r u}"
    and doms: "\<And>x. x \<in> set xs \<Longrightarrow> set (preds_of doms x) = always_before nodes r x"
  shows "dominate nodes preds ks doms = [] \<longleftrightarrow>
    (\<forall>i \<in> set ks. \<forall>n. jget nodes i = Some n \<longrightarrow> refs_available (always_before nodes r i) n)"
  using order members doms
proof (induction ks arbitrary: xs doms)
  case (Cons i ks)
  have avail: "set (available preds doms i) = always_before nodes r i"
  proof (rule available_exact [OF acyclic _ preds])
    show "reachable_step nodes r i" using Cons.prems(3) by auto
    show "set (preds_of doms u) = always_before nodes r u" if "u \<in> set (preds_of preds i)" for u
    proof (rule Cons.prems(5))
      have "u \<in> set (xs @ i # ks)" using that preds Cons.prems(3) by auto
      then show "u \<in> set xs" using that preds Cons.prems(1,2) topo_split by blast
    qed
  qed
  obtain n where n: "jget nodes i = Some n"
    using Cons.prems(4) jget_None_iff [of nodes i] by auto
  have "dominate nodes preds ks (jset doms i (available preds doms i)) = [] \<longleftrightarrow>
    (\<forall>i \<in> set ks. \<forall>n. jget nodes i = Some n \<longrightarrow> refs_available (always_before nodes r i) n)"
  proof (rule Cons.IH [of "xs @ [i]"])
    fix x assume "x \<in> set (xs @ [i])"
    then show "set (preds_of (jset doms i (available preds doms i)) x) = always_before nodes r x"
      using Cons.prems(5) avail by (cases "x = i") (auto simp: preds_of_def jget_jset)
  qed (use Cons.prems in simp_all)
  with n avail show ?case by (simp add: Let_def ref_issues_Nil)
qed simp

section \<open>The checks together\<close>

text \<open>What the schema asks of a workflow with the first step \<open>r\<close>.\<close>

definition well_connected :: "wnode jmap \<Rightarrow> string \<Rightarrow> bool" where
  "well_connected nodes r \<longleftrightarrow> closed_steps nodes \<and> no_cycle nodes r \<and>
     (\<forall>v \<in> set (jkeys nodes). reachable_step nodes r v)"

definition results_available :: "wnode jmap \<Rightarrow> string \<Rightarrow> bool" where
  "results_available nodes r \<longleftrightarrow> (\<forall>i n. jget nodes i = Some n \<longrightarrow> refs_available (always_before nodes r i) n)"

lemma walk_result:
  assumes run: "visit f nodes r walk_start = Some w" and clean: "wk_issues w = []" and keys: "distinct (jkeys nodes)"
  shows "no_cycle nodes r \<and> set (wk_order w) = {v. reachable_step nodes r v} \<and>
    distinct (wk_order w) \<and> topo nodes (wk_order w) \<and> set (wk_order w) \<subseteq> set (jkeys nodes) \<and>
    length (wk_visited w) = card (set (wk_order w)) \<and>
    (\<forall>v. set (preds_of (wk_preds w) v) = {u. step_edge nodes u v \<and> reachable_step nodes r u})"
proof -
  have "walk_inv nodes r w \<and> r \<in> set (wk_visited w)" by (rule visit_inv [OF run clean walk_inv_start reachable_start])
  moreover have "wk_visiting w = []" using visit_grow [OF run] by (simp add: grow_def walk_start_def)
  ultimately have inv: "walk_inv nodes r w" and visited: "r \<in> set (wk_visited w)" and idle: "wk_visiting w = []"
    by blast+
  have order: "topo nodes (wk_order w)" "distinct (wk_order w)" "set (wk_order w) = set (wk_visited w)"
    "distinct (wk_visited w)" "set (wk_visited w) \<subseteq> set (jkeys nodes)"
    "\<forall>v \<in> set (wk_visited w). reachable_step nodes r v"
    using inv unfolding walk_inv_def by blast+
  have r: "r \<in> set (wk_order w)" using visited order(3) by simp
  have reach: "set (wk_order w) = {v. reachable_step nodes r v}"
    using order(3,6) topo_path [OF order(1,2) r] by (auto simp: reachable_step_def)
  have preds: "set (preds_of (wk_preds w) v) = {u. step_edge nodes u v \<and> reachable_step nodes r u}" for v
  proof (rule set_eqI)
    fix u
    have into: "u \<in> set (wk_visited w) \<Longrightarrow> step_edge nodes u v \<Longrightarrow> u \<in> set (preds_of (wk_preds w) v)"
      and out: "u \<in> set (preds_of (wk_preds w) v) \<Longrightarrow> step_edge nodes u v \<and> u \<in> set (wk_visiting w) \<union> set (wk_visited w)"
      using inv unfolding walk_inv_def by blast+
    have "u \<in> set (wk_visited w) \<longleftrightarrow> reachable_step nodes r u" using reach order(3) by auto
    with into out idle show "u \<in> set (preds_of (wk_preds w) v) \<longleftrightarrow>
        u \<in> {u. step_edge nodes u v \<and> reachable_step nodes r u}" by auto
  qed
  have "length (wk_visited w) = card (set (wk_order w))" using order(3,4) by (simp add: distinct_card)
  moreover have "set (wk_order w) \<subseteq> set (jkeys nodes)" using order(3,5) by simp
  ultimately show ?thesis using reach order(1,2) topo_no_cycle [OF order(1,2) r] preds by blast
qed

lemma all_visited_iff:
  assumes "A \<subseteq> set xs" "distinct xs"
  shows "card A = length xs \<longleftrightarrow> A = set xs"
  using assms card_subset_eq [of "set xs" A] by (auto simp: distinct_card)

lemma walk_issues_exact:
  assumes keys: "distinct (jkeys nodes)" "r \<in> set (jkeys nodes)" and run: "visit f nodes r walk_start = Some w"
  shows "wk_issues w = [] \<and> length (wk_visited w) = length nodes \<and>
      dominate nodes (wk_preds w) (wk_order w) [] = [] \<longleftrightarrow>
    well_connected nodes r \<and> results_available nodes r"
proof (cases "wk_issues w = []")
  case clean: True
  note res = walk_result [OF run clean keys(1)]
  have len: "length (wk_visited w) = length nodes \<longleftrightarrow> {v. reachable_step nodes r v} = set (jkeys nodes)"
  proof -
    have "length nodes = length (jkeys nodes)" by (simp add: jkeys_def)
    moreover have "set (wk_order w) \<subseteq> set (jkeys nodes)" "length (wk_visited w) = card (set (wk_order w))"
      "set (wk_order w) = {v. reachable_step nodes r v}" using res by blast+
    ultimately show ?thesis using all_visited_iff [of "set (wk_order w)" "jkeys nodes"] keys(1) by simp
  qed
  have dom: "dominate nodes (wk_preds w) (wk_order w) [] = [] \<longleftrightarrow> (\<forall>i \<in> set (wk_order w). \<forall>n. jget nodes i = Some n
      \<longrightarrow> refs_available (always_before nodes r i) n)"
    using dominate_exact [of nodes r "[]" "wk_order w" "wk_preds w" "[]"] res by auto
  have closed: "closed_steps nodes" if "{v. reachable_step nodes r v} = set (jkeys nodes)"
    unfolding closed_steps_def
  proof (intro allI impI)
    fix u v assume edge: "step_edge nodes u v"
    then have "u \<in> set (jkeys nodes)" by (auto simp: step_edge_def dest: jget_Some_key)
    then have "reachable_step nodes r v" using that edge reachable_edge by blast
    with that show "v \<in> set (jkeys nodes)" by blast
  qed
  show ?thesis
  proof (cases "{v. reachable_step nodes r v} = set (jkeys nodes)")
    case True
    then have "well_connected nodes r" using closed res by (auto simp: well_connected_def)
    moreover have "results_available nodes r \<longleftrightarrow> dominate nodes (wk_preds w) (wk_order w) [] = []"
      using dom res True jget_Some_key [of nodes] by (auto simp: results_available_def)
    ultimately show ?thesis using clean len True by simp
  next
    case False
    have "\<not> well_connected nodes r"
    proof
      assume "well_connected nodes r"
      then have "set (jkeys nodes) \<subseteq> {v. reachable_step nodes r v}" by (auto simp: well_connected_def)
      with res False show False by auto
    qed
    with len False show ?thesis by simp
  qed
next
  case False
  have "wk_issues w = []" if "closed_steps nodes" "no_cycle nodes r"
    using visit_clean [OF that run _ keys(2) wpath_start] by (simp add: walk_start_def)
  with False show ?thesis by (auto simp: well_connected_def)
qed

section \<open>Definitions\<close>

lemma fold_jset_keys:
  "set (jkeys (fold (\<lambda>(k, v) m. jset m k v) ps m)) = set (jkeys m) \<union> fst ` set ps"
  by (induction ps arbitrary: m) auto

lemma distinct_fold_jset: "distinct (jkeys m) \<Longrightarrow> distinct (jkeys (fold (\<lambda>(k, v) m. jset m k v) ps m))"
  by (induction ps arbitrary: m) auto

lemma jmap_of_list_distinct:
  "distinct (map fst ps) \<Longrightarrow> jmap_of_list ps = ps"
proof -
  have "fold (\<lambda>(k, v) m. jset m k v) ps m = m @ ps" if "distinct (map fst (m @ ps))" for m :: "(string \<times> 'a) list"
    using that
  proof (induction ps arbitrary: m)
    case (Cons p ps)
    have "jset m (fst p) (snd p) = m @ [p]" if "fst p \<notin> fst ` set m"
      using that by (induction m) auto
    with Cons show ?case by (auto simp: case_prod_beta)
  qed simp
  from this [of "[]"] show "distinct (map fst ps) \<Longrightarrow> ?thesis" by (simp add: jmap_of_list_def)
qed

lemma nodes_map_keys: "set (jkeys (nodes_map d)) = set (map wn_id (wd_nodes d))"
  by (simp add: nodes_map_def jmap_of_list_def fold_jset_keys image_image)

lemma nodes_map_distinct [simp]: "distinct (jkeys (nodes_map d))"
  by (simp add: nodes_map_def jmap_of_list_def distinct_fold_jset)

lemma nodes_map_unique:
  "length (nodes_map d) = length (wd_nodes d) \<longleftrightarrow> distinct (map wn_id (wd_nodes d))"
proof -
  have "length (nodes_map d) = card (set (map wn_id (wd_nodes d)))"
    using distinct_card [OF nodes_map_distinct, of d] unfolding nodes_map_keys by (simp add: jkeys_def)
  then show ?thesis using card_distinct [of "map wn_id (wd_nodes d)"] distinct_card [of "map wn_id (wd_nodes d)"] by auto
qed

lemma graph_issues_walk:
  assumes "wd_nodes d = first # rest" "distinct (map wn_id (wd_nodes d))"
  shows "\<exists>w. visit (Suc (length (wd_nodes d))) (nodes_map d) (wn_id first) walk_start = Some w"
  using nodes_map_unique [of d] assms(2) by (intro visit_total) (simp_all add: walk_start_def)

lemma definition_issues_total: "\<exists>xs. definition_issues d = Some xs"
proof (cases "wd_nodes d")
  case (Cons first rest)
  show ?thesis
  proof (cases "distinct (map wn_id (wd_nodes d))")
    case True
    then obtain w where "visit (Suc (length (wd_nodes d))) (nodes_map d) (wn_id first) walk_start = Some w"
      using graph_issues_walk Cons by blast
    with Cons show ?thesis by (auto simp: definition_issues_def graph_issues_def)
  next
    case False
    with nodes_map_unique [of d] Cons show ?thesis by (auto simp: definition_issues_def graph_issues_def)
  qed
qed (simp add: definition_issues_def)

definition positions_known :: "wdefinition \<Rightarrow> bool" where
  "positions_known d \<longleftrightarrow> (case wd_positions d of None \<Rightarrow> True
     | Some ps \<Rightarrow> set (jkeys ps) \<subseteq> set (map wn_id (wd_nodes d)))"

lemma position_issues_Nil: "position_issues d = [] \<longleftrightarrow> positions_known d"
  by (auto simp: position_issues_def positions_known_def has_own_def nodes_map_keys split: option.splits if_splits)

lemma definition_issues_exact:
  assumes "wd_nodes d = first # rest"
  shows "definition_issues d = Some [] \<longleftrightarrow> positions_known d \<and> distinct (map wn_id (wd_nodes d)) \<and>
    well_connected (nodes_map d) (wn_id first) \<and> results_available (nodes_map d) (wn_id first) \<and>
    json_length (definition_jv d) \<le> 64000"
proof (cases "distinct (map wn_id (wd_nodes d))")
  case True
  obtain w where w: "visit (Suc (length (wd_nodes d))) (nodes_map d) (wn_id first) walk_start = Some w"
    using graph_issues_walk [OF assms True] by blast
  have first: "wn_id first \<in> set (jkeys (nodes_map d))" using assms by (simp add: nodes_map_keys)
  show ?thesis
    using walk_issues_exact [OF nodes_map_distinct first w] nodes_map_unique [of d] True w assms
    by (auto simp: definition_issues_def graph_issues_def position_issues_Nil)
next
  case False
  with nodes_map_unique [of d] assms show ?thesis by (auto simp: definition_issues_def graph_issues_def)
qed

end
