(* ===== verification/Native_Reach.thy ===== *)
theory Native_Reach
  imports Native_Repository Native_Graph
begin

text \<open>
  The native workflow tables under any number of workers and users: the step relation of all
  transactions, the history an execution keeps, and that every step preserves it.
\<close>

section \<open>Steps\<close>

definition run_definition :: "exec_row \<Rightarrow> native_db \<Rightarrow> wdefinition option" where
  "run_definition r db = map_option vr_definition
     (find (\<lambda>v. vr_workspace v = xr_workspace r \<and> vr_id v = xr_version r) (nd_versions db))"

text \<open>What a step may name as what follows it.\<close>

definition next_ok :: "wnode \<Rightarrow> string option \<Rightarrow> bool" where
  "next_ok n next \<longleftrightarrow> next = wn_next n \<or> (\<exists>l op r. wn_kind n = KCondition l op r next)"

text \<open>An execution as the code inserts it, for a version that exists.\<close>

definition fresh_run :: "exec_row \<Rightarrow> native_db \<Rightarrow> bool" where
  "fresh_run x db \<longleftrightarrow> (case run_definition x db of None \<Rightarrow> False
     | Some d \<Rightarrow> xr_node x = Some (first_node d)) \<and> context_steps (xr_context x) = []
     \<and> xr_status x = SQueued \<and> xr_token x = None"

inductive nstep :: "native_db \<Rightarrow> native_db \<Rightarrow> bool" where
  n_claim: "stmt_claim token clock now db = (Some run, db') \<Longrightarrow> token \<notin> fst ` set (nd_claims db) \<Longrightarrow> nstep db db'"
| n_block: "(token, run) \<in> set (nd_claims db) \<Longrightarrow> nstep db (stmt_block_run run token db)"
| n_complete: "(token, run) \<in> set (nd_claims db) \<Longrightarrow> nstep db (stmt_complete_run run token db)"
| n_set: "(token, run) \<in> set (nd_claims db) \<Longrightarrow> status \<in> {SQueued, SFailed, SBlocked} \<Longrightarrow>
    stmt_set_run texts run token status err wake attempts db = Inr db' \<Longrightarrow> nstep db db'"
| n_finish: "(token, run) \<in> set (nd_claims db) \<Longrightarrow> run_definition run db = Some d \<Longrightarrow> definition_ok uuid datetime d \<Longrightarrow>
    find_step d (xr_node run) = Some n \<Longrightarrow> next_ok n next \<Longrightarrow>
    finish run n (xr_context run) now next output = Inr f \<Longrightarrow>
    trans_checkpoint texts run token clock e f db = Inr db' \<Longrightarrow> nstep db db'"
| n_delivery: "(token, run) \<in> set (nd_claims db) \<Longrightarrow>
    trans_delivery texts run token clock d db = Inr db' \<Longrightarrow> nstep db db'"
| n_exhausted: "(token, run) \<in> set (nd_claims db) \<Longrightarrow>
    trans_exhausted run token clock node db = Inr db' \<Longrightarrow> nstep db db'"
| n_attempt: "(token, run) \<in> set (nd_claims db) \<Longrightarrow>
    trans_attempt texts run token clock node sequence db = Inr db' \<Longrightarrow> nstep db db'"
| n_webhook: "(token, run) \<in> set (nd_claims db) \<Longrightarrow> run_definition run db = Some d \<Longrightarrow> definition_ok uuid datetime d \<Longrightarrow>
    find_step d (xr_node run) = Some n \<Longrightarrow>
    trans_webhook_end texts run token clock (webhook_outcome run n (xr_context run) now dl res) db = Inr db' \<Longrightarrow> nstep db db'"
| n_insert: "fresh_run x db \<Longrightarrow> insert_run texts x db = Inr db' \<Longrightarrow> nstep db db'"
| n_cancel: "nstep db (stmt_cancel ws i db)"
| n_retry: "trans_retry ws i db = Inr db' \<Longrightarrow> nstep db db'"
| n_version: "nstep db (insert_version v db)"
| n_workflows: "nstep db (db\<lparr>nd_workflows := ws\<rparr>)"
| n_task: "nstep db (snd (resolveTask ws i user db))"

abbreviation nsteps :: "native_db \<Rightarrow> native_db \<Rightarrow> bool" where
  "nsteps \<equiv> nstep\<^sup>*\<^sup>*"

definition empty_db :: "native_db \<Rightarrow> bool" where
  "empty_db db \<longleftrightarrow> nd_runs db = [] \<and> nd_jobs db = [] \<and> nd_claims db = [] \<and> nd_deliveries db = []
     \<and> nd_attempts db = [] \<and> nd_tasks db = []"

section \<open>What steps preserve\<close>

locale step_invariant =
  fixes step :: "'s \<Rightarrow> 's \<Rightarrow> bool" and kept :: "'s \<Rightarrow> bool"
  assumes step_keeps: "step s t \<Longrightarrow> kept s \<Longrightarrow> kept t"
begin

lemma steps_keep: "step\<^sup>*\<^sup>* s t \<Longrightarrow> kept s \<Longrightarrow> kept t"
  by (induction rule: rtranclp_induct) (auto intro: step_keeps)

end

section \<open>The history of an execution\<close>

definition job_of :: "exec_row \<Rightarrow> job_row \<Rightarrow> bool" where
  "job_of r j \<longleftrightarrow> jb_workspace j = xr_workspace r \<and> jb_execution j = xr_id r"

definition jobs_of :: "exec_row \<Rightarrow> native_db \<Rightarrow> job_row list" where
  "jobs_of r db = filter (job_of r) (nd_jobs db)"

definition history_path :: "wdefinition \<Rightarrow> string list \<Rightarrow> string option \<Rightarrow> bool" where
  "history_path d js node = (case node of
     Some v \<Rightarrow> wpath (nodes_map d) (first_node d) (rev js) v
   | None \<Rightarrow> js \<noteq> [] \<and> wpath (nodes_map d) (first_node d) (rev (butlast js)) (last js))"

definition history_ok :: "native_db \<Rightarrow> exec_row \<Rightarrow> bool" where
  "history_ok db r \<longleftrightarrow>
     context_steps (xr_context r) = map (\<lambda>j. (jb_node j, jb_output j)) (jobs_of r db) \<and>
     map jb_sequence (jobs_of r db) = [0..<length (jobs_of r db)] \<and>
     distinct (map jb_node (jobs_of r db)) \<and>
     (\<exists>d. run_definition r db = Some d \<and> history_path d (map jb_node (jobs_of r db)) (xr_node r))"

text \<open>What a claim hands out and only the checkpoint of its holder changes.\<close>

definition frozen :: "exec_row \<Rightarrow> string \<times> string \<times> string \<times> string option \<times> jv" where
  "frozen r = (xr_workspace r, xr_id r, xr_version r, xr_node r, xr_context r)"

definition run_key :: "exec_row \<Rightarrow> string \<times> string" where
  "run_key r = (xr_workspace r, xr_id r)"

definition lease_ok :: "native_db \<Rightarrow> exec_row \<Rightarrow> bool" where
  "lease_ok db r \<longleftrightarrow> (\<forall>t. xr_token r = Some t \<longrightarrow> xr_status r = SRunning \<and>
     (\<exists>run. (t, run) \<in> set (nd_claims db) \<and> frozen run = frozen r))"

definition native_inv :: "native_db \<Rightarrow> bool" where
  "native_inv db \<longleftrightarrow> distinct (map run_key (nd_runs db)) \<and> distinct (map fst (nd_claims db)) \<and>
     (\<forall>j \<in> set (nd_jobs db). \<exists>r \<in> set (nd_runs db). job_of r j) \<and>
     (\<forall>r \<in> set (nd_runs db). lease_ok db r \<and> history_ok db r)"

lemma native_invI:
  assumes "distinct (map run_key (nd_runs db))" "distinct (map fst (nd_claims db))"
    and "\<And>j. j \<in> set (nd_jobs db) \<Longrightarrow> \<exists>r \<in> set (nd_runs db). job_of r j"
    and "\<And>r. r \<in> set (nd_runs db) \<Longrightarrow> lease_ok db r \<and> history_ok db r"
  shows "native_inv db"
  using assms by (simp add: native_inv_def)

lemma native_inv_distinct:
  "native_inv db \<Longrightarrow> distinct (map run_key (nd_runs db))" "native_inv db \<Longrightarrow> distinct (map fst (nd_claims db))"
  by (simp_all add: native_inv_def)

lemma native_inv_job: "native_inv db \<Longrightarrow> j \<in> set (nd_jobs db) \<Longrightarrow> \<exists>r \<in> set (nd_runs db). job_of r j"
  by (simp add: native_inv_def)

lemma native_inv_row: "native_inv db \<Longrightarrow> r \<in> set (nd_runs db) \<Longrightarrow> lease_ok db r \<and> history_ok db r"
  by (simp add: native_inv_def)

lemma native_inv_empty: "empty_db db \<Longrightarrow> native_inv db"
  by (simp add: native_inv_def empty_db_def)

lemma same_run_key: "same_run run r \<longleftrightarrow> run_key r = run_key run"
  by (auto simp: same_run_def is_run_def run_key_def)

lemma job_of_key: "run_key r = run_key r' \<Longrightarrow> job_of r = job_of r'"
  by (simp add: fun_eq_iff job_of_def run_key_def)

lemma frozen_key: "frozen r = frozen r' \<Longrightarrow> run_key r = run_key r'"
  by (simp add: frozen_def run_key_def)

lemma frozen_history:
  assumes "frozen r = frozen r'" "nd_jobs db = nd_jobs db'" "run_definition r' db' = run_definition r' db"
  shows "history_ok db r = history_ok db' r'"
proof -
  have "jobs_of r db = jobs_of r' db'"
    using assms(2) job_of_key [OF frozen_key [OF assms(1)]] by (simp add: jobs_of_def)
  moreover have "run_definition r db = run_definition r' db'"
    using assms(1,3) by (simp add: run_definition_def frozen_def)
  ultimately show ?thesis using assms(1) by (simp add: history_ok_def frozen_def)
qed

lemma unique_run:
  assumes "native_inv db" "r \<in> set (nd_runs db)" "r' \<in> set (nd_runs db)" "run_key r = run_key r'"
  shows "r = r'"
proof -
  have "distinct (map run_key (nd_runs db))" using assms(1) by (simp add: native_inv_def)
  then have "inj_on run_key (set (nd_runs db))" by (simp add: distinct_map)
  then show ?thesis using assms(4,2,3) by (rule inj_onD)
qed

text \<open>Changes that leave the history alone.\<close>

lemma native_inv_update:
  assumes inv: "native_inv db" and keep: "\<And>r. r \<in> set (nd_runs db) \<Longrightarrow> P r \<Longrightarrow> frozen (f r) = frozen r"
    and lease: "\<And>r t. r \<in> set (nd_runs db) \<Longrightarrow> P r \<Longrightarrow> xr_token (f r) = Some t \<Longrightarrow>
      xr_token r = Some t \<and> xr_status (f r) = xr_status r"
  shows "native_inv (update_runs P f db)"
proof -
  have keys: "map run_key (nd_runs (update_runs P f db)) = map run_key (nd_runs db)"
  proof -
    have "run_key (f r) = run_key r" if "r \<in> set (nd_runs db)" "P r" for r using frozen_key [OF keep [OF that]] .
    then show ?thesis by simp
  qed
  have jobs: "\<exists>r \<in> set (nd_runs (update_runs P f db)). job_of r j" if j: "j \<in> set (nd_jobs db)" for j
  proof -
    obtain r where r: "r \<in> set (nd_runs db)" "job_of r j" using native_inv_job [OF inv j] by auto
    have "job_of (if P r then f r else r) j" using r job_of_key [OF frozen_key [OF keep [OF r(1)]]] by simp
    with r(1) show ?thesis by (cases "P r") auto
  qed
  have row: "lease_ok (update_runs P f db) x \<and> history_ok (update_runs P f db) x"
    if x: "x \<in> set (nd_runs (update_runs P f db))" for x
  proof -
    obtain r where r: "r \<in> set (nd_runs db)" "x = (if P r then f r else r)" using x by auto
    have fz: "frozen x = frozen r" using r keep by simp
    have "history_ok (update_runs P f db) x = history_ok db r"
      by (rule frozen_history) (simp_all add: fz run_definition_def)
    moreover have "lease_ok db r" "history_ok db r" using inv r(1) by (auto simp: native_inv_def)
    moreover have "xr_token r = Some t \<and> xr_status x = xr_status r" if "xr_token x = Some t" for t
      using lease [OF r(1)] r(2) that by (cases "P r") auto
    ultimately show ?thesis using fz unfolding lease_ok_def by fastforce
  qed
  show ?thesis
  proof (rule native_invI)
    show "distinct (map run_key (nd_runs (update_runs P f db)))"
      unfolding keys using inv by (rule native_inv_distinct)
    show "distinct (map fst (nd_claims (update_runs P f db)))"
      using native_inv_distinct(2) [OF inv] by simp
  qed (use jobs row in simp_all)
qed

text \<open>Changes of the other tables.\<close>

lemma native_inv_tables:
  assumes inv: "native_inv db" and same: "nd_runs db' = nd_runs db" "nd_jobs db' = nd_jobs db"
      "nd_claims db' = nd_claims db"
    and kept: "\<And>r d. run_definition r db = Some d \<Longrightarrow> run_definition r db' = Some d"
  shows "native_inv db'"
proof -
  have "history_ok db' r" if "history_ok db r" for r
    using that kept same(2) by (auto simp: history_ok_def jobs_of_def)
  moreover have "lease_ok db' r = lease_ok db r" for r using same(3) by (simp add: lease_ok_def)
  ultimately show ?thesis using inv same by (simp add: native_inv_def)
qed


section \<open>Steps that keep the history\<close>

lemma no_token: "native_inv db \<Longrightarrow> r \<in> set (nd_runs db) \<Longrightarrow> xr_status r \<noteq> SRunning \<Longrightarrow> xr_token r = None"
  using native_inv_row [of db r] by (cases "xr_token r") (auto simp: lease_ok_def)

lemma claim_inv:
  assumes inv: "native_inv db" and step: "stmt_claim token clock now db = (Some run, db')"
    and new: "token \<notin> fst ` set (nd_claims db)"
  shows "native_inv db'"
proof -
  obtain r where found: "find (due now) (nd_runs db) = Some r"
    using step by (cases "find (due now) (nd_runs db)") (simp_all add: stmt_claim_def)
  have eq: "Some (claimed token clock r) = Some run \<and> update_runs (same_run r) (claimed token clock)
      (db\<lparr>nd_claims := (token, claimed token clock r) # nd_claims db\<rparr>) = db'"
    using step unfolding stmt_claim_def found by (simp only: option.case prod.inject)
  then have r: "run = claimed token clock r" by simp
  note db' = conjunct2 [OF eq, symmetric]
  have mem: "r \<in> set (nd_runs db)" using find_Some_mem [OF found] by simp
  have fz: "frozen (claimed token clock x) = frozen x" for x by (simp add: frozen_def claimed_def)
  have row: "lease_ok db' x \<and> history_ok db' x" if x: "x \<in> set (nd_runs db')" for x
  proof -
    obtain y where y: "y \<in> set (nd_runs db)" "x = (if same_run r y then claimed token clock y else y)"
      using x db' by auto
    have "frozen x = frozen y" using y(2) fz by simp
    then have "history_ok db' x = history_ok db y"
      by (rule frozen_history) (simp_all add: db' run_definition_def)
    moreover have "lease_ok db' x"
    proof (cases "same_run r y")
      case True
      then have "y = r" using unique_run [OF inv y(1) mem] by (simp add: same_run_key)
      with True y(2) r db' show ?thesis by (auto simp: lease_ok_def claimed_def)
    next
      case False
      with y native_inv_row [OF inv y(1)] db' show ?thesis by (auto simp: lease_ok_def)
    qed
    ultimately show ?thesis using native_inv_row [OF inv y(1)] by simp
  qed
  have keys: "run_key (claimed token clock x) = run_key x" for x using frozen_key [OF fz] .
  have "map run_key (nd_runs db') = map run_key (nd_runs db)" using db' keys by simp
  then have "distinct (map run_key (nd_runs db'))" using native_inv_distinct(1) [OF inv] by simp
  moreover have "\<exists>x \<in> set (nd_runs db'). job_of x j" if j: "j \<in> set (nd_jobs db')" for j
  proof -
    obtain x where x: "x \<in> set (nd_runs db)" "job_of x j"
      using native_inv_job [OF inv, of j] j db' by auto
    have "job_of (if same_run r x then claimed token clock x else x) j"
      using x(2) job_of_key [OF keys] by simp
    with x(1) db' show ?thesis by (cases "same_run r x") auto
  qed
  moreover have "distinct (map fst (nd_claims db'))" using native_inv_distinct(2) [OF inv] new db' by simp
  ultimately show ?thesis using row by (intro native_invI)
qed

lemma drop_token_inv:
  assumes "native_inv db" "\<And>r. frozen (f r) = frozen r" "\<And>r. xr_token (f r) = None"
  shows "native_inv (update_runs P f db)"
  by (rule native_inv_update) (use assms in auto)

lemma frozen_simps [simp]:
  "frozen (r\<lparr>xr_status := s\<rparr>) = frozen r" "frozen (r\<lparr>xr_error := e\<rparr>) = frozen r"
  "frozen (r\<lparr>xr_token := t\<rparr>) = frozen r" "frozen (r\<lparr>xr_wake := w\<rparr>) = frozen r"
  "frozen (r\<lparr>xr_attempts := a\<rparr>) = frozen r" "frozen (r\<lparr>xr_until := u\<rparr>) = frozen r"
  by (simp_all add: frozen_def)

lemma set_run_inv:
  "native_inv db \<Longrightarrow> stmt_set_run texts run token status err wake attempts db = Inr db' \<Longrightarrow> native_inv db'"
  by (auto simp: stmt_set_run_def Let_def split: option.splits if_splits intro!: drop_token_inv)

lemma retry_inv:
  assumes inv: "native_inv db" and step: "trans_retry ws i db = Inr db'"
  shows "native_inv db'"
proof -
  let ?db = "db\<lparr>nd_deliveries := map (\<lambda>d. if delivery_at ws i db d then new_generation d else d) (nd_deliveries db)\<rparr>"
  obtain r where r: "r \<in> set (nd_runs db)" "is_run ws i r" "xr_status r \<in> {SFailed, SBlocked}"
    and db': "db' = update_runs (is_run ws i)
      (\<lambda>r. r\<lparr>xr_status := SQueued, xr_attempts := 0, xr_wake := 0, xr_error := None\<rparr>) ?db"
    using step by (auto simp: trans_retry_def list_ex_iff split: if_splits)
  have inv': "native_inv ?db" using inv by (rule native_inv_tables) (simp_all add: run_definition_def)
  have "xr_token x = None" if "x \<in> set (nd_runs db)" "is_run ws i x" for x
  proof -
    have "x = r" using unique_run [OF inv that(1) r(1)] that(2) r(2) by (simp add: run_key_def is_run_def)
    with r no_token [OF inv r(1)] show ?thesis by auto
  qed
  then show ?thesis unfolding db' using inv' by (intro native_inv_update) simp_all
qed

lemma find_app: "find P (xs @ ys) = (case find P xs of None \<Rightarrow> find P ys | Some x \<Rightarrow> Some x)"
  by (induction xs) auto

lemma insert_version_definition:
  "run_definition r db = Some d \<Longrightarrow> run_definition r (insert_version v db) = Some d"
  by (auto simp: run_definition_def insert_version_def find_app split: option.splits)

section \<open>New executions\<close>

lemma insert_inv:
  assumes inv: "native_inv db" and fresh: "fresh_run x db" and step: "insert_run texts x db = Inr db'"
  shows "native_inv db'"
proof (cases "event_taken x db")
  case True
  with inv step show ?thesis by (simp add: insert_run_def)
next
  case False
  then have new: "\<forall>r \<in> set (nd_runs db). run_key r \<noteq> run_key x" and db': "db' = db\<lparr>nd_runs := nd_runs db @ [x]\<rparr>"
    using step by (auto simp: insert_run_def list_ex_iff same_run_key split: if_splits)
  have none: "jobs_of x db' = []"
  proof -
    have "\<not> job_of x j" if j: "j \<in> set (nd_jobs db)" for j
    proof
      assume "job_of x j"
      obtain r where "r \<in> set (nd_runs db)" "job_of r j" using native_inv_job [OF inv j] by auto
      with \<open>job_of x j\<close> new show False by (auto simp: job_of_def run_key_def)
    qed
    then show ?thesis by (simp add: jobs_of_def db' filter_empty_conv)
  qed
  have "lease_ok db' x" using fresh by (simp add: fresh_run_def lease_ok_def)
  moreover have "history_ok db' x"
  proof -
    obtain d where d: "run_definition x db = Some d" "xr_node x = Some (first_node d)" "context_steps (xr_context x) = []"
      using fresh by (auto simp: fresh_run_def split: option.splits)
    then show ?thesis using none wpath_start
      by (auto simp: history_ok_def db' run_definition_def history_path_def)
  qed
  moreover have "lease_ok db' r = lease_ok db r \<and> history_ok db' r = history_ok db r" for r
    by (simp add: lease_ok_def history_ok_def jobs_of_def run_definition_def db')
  ultimately show ?thesis using inv new unfolding native_inv_def
    by (auto simp: db')
qed


section \<open>The checkpoint\<close>

lemma lease_row:
  assumes inv: "native_inv db" and claim: "(token, run) \<in> set (nd_claims db)" and valid: "lease_valid run token clock db"
  obtains r where "r \<in> set (nd_runs db)" "frozen r = frozen run" "same_run run r"
    "\<And>x. x \<in> set (nd_runs db) \<Longrightarrow> same_run run x \<Longrightarrow> x = r"
proof -
  obtain r where r: "r \<in> set (nd_runs db)" "holds_lease run token r"
    using valid by (auto simp: lease_valid_def list_ex_iff)
  then obtain run' where run': "(token, run') \<in> set (nd_claims db)" "frozen run' = frozen r"
    using native_inv_row [OF inv r(1)] by (auto simp: lease_ok_def holds_lease_def)
  have same: "run' = run" using native_inv_distinct(2) [OF inv] run'(1) claim by (rule eq_key_imp_eq_value)
  have only: "x = r" if "x \<in> set (nd_runs db)" "same_run run x" for x
    using unique_run [OF inv that(1) r(1)] that(2) r(2) by (simp add: same_run_key holds_lease_def)
  have "same_run run r" using r(2) by (simp add: holds_lease_def)
  with r(1) run'(2) [symmetric] show thesis unfolding same using only by (rule that)
qed

lemma context_with_result:
  "context_steps (with_result c i v) = jset (context_steps c) i v"
  by (simp add: with_result_def context_steps_def members_def)

lemma jset_new: "k \<notin> set (jkeys m) \<Longrightarrow> jset m k v = m @ [(k, v)]"
  by (induction m) auto

lemma find_node_map:
  assumes "definition_ok uuid datetime d" "find_step d i = Some n"
  shows "jget (nodes_map d) (wn_id n) = Some n \<and> i = Some (wn_id n) \<and> n \<in> set (wd_nodes d)"
proof -
  have n: "n \<in> set (wd_nodes d)" "i = Some (wn_id n)"
    using assms(2) find_Some_mem unfolding find_step_def by fastforce+
  then obtain first rest where "wd_nodes d = first # rest" by (cases "wd_nodes d") auto
  then have "distinct (map wn_id (wd_nodes d))"
    using assms(1) definition_issues_exact by (simp add: definition_ok_def)
  then have "distinct (map fst (map (\<lambda>n. (wn_id n, n)) (wd_nodes d)))" by (simp add: comp_def)
  then have "nodes_map d = map (\<lambda>n. (wn_id n, n)) (wd_nodes d)"
    and "distinct (map fst (nodes_map d))" unfolding nodes_map_def by (simp_all only: jmap_of_list_distinct)
  then have "map_of (nodes_map d) (wn_id n) = Some n" using n(1) by (auto intro!: map_of_is_SomeI)
  with n show ?thesis by (simp add: jget_def)
qed

lemma key_not_empty: "key_ok [] = False"
  by (simp add: key_ok_def)

lemma next_edge:
  assumes d: "definition_ok uuid datetime d" "find_step d i = Some n" and nx: "next_ok n (Some v)"
  shows "step_edge (nodes_map d) (wn_id n) v"
proof -
  have n: "jget (nodes_map d) (wn_id n) = Some n" "n \<in> set (wd_nodes d)" using find_node_map [OF d] by simp_all
  have ok: "node_ok uuid n" using d(1) n(2) by (auto simp: definition_ok_def shape_ok_def list_all_iff)
  have "v \<in> set (successors n)"
  proof (cases "wn_next n = Some v")
    case True
    with ok show ?thesis by (auto simp: successors_def node_ok_def opt_ok_def key_not_empty)
  next
    case False
    then obtain l op r where k: "wn_kind n = KCondition l op r (Some v)" using nx by (auto simp: next_ok_def)
    with ok have "v \<noteq> []" by (auto simp: node_ok_def opt_ok_def key_not_empty)
    with k show ?thesis by (simp add: successors_def)
  qed
  with n(1) show ?thesis by (simp add: successors_edge)
qed

lemma history_extend:
  assumes d: "definition_ok uuid datetime d" "find_step d i = Some n" "next_ok n next"
    and path: "history_path d js i"
  shows "history_path d (js @ [wn_id n]) next"
proof -
  have "i = Some (wn_id n)" using find_node_map [OF d(1,2)] by simp
  with path have p: "wpath (nodes_map d) (first_node d) (rev js) (wn_id n)" by (simp add: history_path_def)
  then show ?thesis
  proof (cases "next")
    case (Some v)
    with d have "step_edge (nodes_map d) (wn_id n) v" using next_edge by blast
    with p Some show ?thesis by (auto simp: history_path_def intro: wpath_step)
  qed (simp add: history_path_def)
qed

lemma checkpoint_inv:
  assumes inv: "native_inv db" and claim: "(token, run) \<in> set (nd_claims db)" and valid: "lease_valid run token clock db"
    and d: "run_definition run db = Some d" "definition_ok uuid datetime d" "find_step d (xr_node run) = Some n"
      "next_ok n nx"
    and job: "jb_workspace j = xr_workspace run" "jb_execution j = xr_id run" "jb_node j = wn_id n"
      "jb_sequence j = length (context_steps (xr_context run))" "\<not> job_exists run (wn_id n) db"
    and row: "\<And>r. frozen (f r) = (xr_workspace r, xr_id r, xr_version r, nx, with_result (xr_context run) (wn_id n) (jb_output j))"
      "\<And>r. xr_token (f r) = None"
  shows "native_inv (update_runs (same_run run) f (db\<lparr>nd_jobs := nd_jobs db @ [j]\<rparr>))" (is "native_inv ?db")
proof -
  obtain r where r: "r \<in> set (nd_runs db)" "frozen r = frozen run" "same_run run r"
    and only: "\<And>x. x \<in> set (nd_runs db) \<Longrightarrow> same_run run x \<Longrightarrow> x = r"
    using lease_row [OF inv claim valid] by metis
  have key: "run_key (f x) = run_key x" for x using row(1) [of x] by (simp add: frozen_def run_key_def)
  have keys: "run_key (if same_run run x then f x else x) = run_key x" for x using key by simp
  have hist: "history_ok db r" using native_inv_row [OF inv r(1)] by simp
  have rdef: "run_definition r db = Some d" using d(1) r(2) by (simp add: run_definition_def frozen_def)
  define js where "js = jobs_of r db"
  have new: "jobs_of (f r) ?db = js @ [j]"
    using job(1,2) r(2) job_of_key [OF key [of r]] by (simp add: jobs_of_def js_def job_of_def frozen_def)
  have ctx: "context_steps (xr_context run) = map (\<lambda>j. (jb_node j, jb_output j)) js"
    using hist r(2) by (simp add: history_ok_def js_def frozen_def)
  have absent: "wn_id n \<notin> set (map jb_node js)"
    using job(5) r(2) by (auto simp: job_exists_def list_ex_iff js_def jobs_of_def job_of_def frozen_def)
  have ctx': "context_steps (xr_context (f r)) = map (\<lambda>j. (jb_node j, jb_output j)) (js @ [j])"
    using row(1) [of r] absent job(3) ctx by (simp add: frozen_def context_with_result jset_new jkeys_def comp_def)
  have done_row: "history_ok ?db (f r)"
    unfolding history_ok_def new
  proof (intro conjI exI)
    show "context_steps (xr_context (f r)) = map (\<lambda>j. (jb_node j, jb_output j)) (js @ [j])" by (rule ctx')
    show "map jb_sequence (js @ [j]) = [0..<length (js @ [j])]"
      using hist job(4) ctx by (simp add: history_ok_def js_def)
    show "distinct (map jb_node (js @ [j]))" using hist absent job(3) by (simp add: history_ok_def js_def)
    show "run_definition (f r) ?db = Some d" using row(1) [of r] rdef by (simp add: run_definition_def frozen_def)
    have "history_path d (map jb_node js) (xr_node run)"
      using hist rdef r(2) by (simp add: history_ok_def js_def frozen_def)
    then show "history_path d (map jb_node (js @ [j])) (xr_node (f r))"
      using history_extend [OF d(2-4)] job(3) row(1) [of r] by (simp add: frozen_def)
  qed
  have other: "history_ok ?db x" if "x \<in> set (nd_runs db)" "\<not> same_run run x" for x
  proof -
    have "\<not> job_of x j" using that(2) job(1,2) by (auto simp: job_of_def same_run_def is_run_def)
    then have "jobs_of x ?db = jobs_of x db" by (simp add: jobs_of_def)
    with native_inv_row [OF inv that(1)] show ?thesis by (simp add: history_ok_def run_definition_def)
  qed
  show ?thesis
  proof (rule native_invI)
    have same: "map run_key (nd_runs ?db) = map run_key (nd_runs db)" using keys by simp
    show "distinct (map run_key (nd_runs ?db))" unfolding same by (rule native_inv_distinct [OF inv])
    show "distinct (map fst (nd_claims ?db))" using native_inv_distinct(2) [OF inv] by simp
  next
    fix k assume k: "k \<in> set (nd_jobs ?db)"
    obtain x where x: "x \<in> set (nd_runs db)" "job_of x k"
    proof (cases "k = j")
      case True
      then have "job_of r k" using job(1,2) r(2) by (simp add: job_of_def frozen_def)
      with r(1) show thesis using that by blast
    next
      case False
      with k have "k \<in> set (nd_jobs db)" by simp
      then show thesis using native_inv_job [OF inv] that by blast
    qed
    then have "job_of (if same_run run x then f x else x) k" using job_of_key [OF keys [of x]] by simp
    with x(1) show "\<exists>x \<in> set (nd_runs ?db). job_of x k" by (cases "same_run run x") auto
  next
    fix x assume "x \<in> set (nd_runs ?db)"
    then obtain y where y: "y \<in> set (nd_runs db)" "x = (if same_run run y then f y else y)" by auto
    show "lease_ok ?db x \<and> history_ok ?db x"
    proof (cases "same_run run y")
      case True
      with only y have "y = r" "x = f r" by auto
      with done_row row(2) show ?thesis by (simp add: lease_ok_def)
    next
      case False
      with y native_inv_row [OF inv y(1)] other show ?thesis by (simp add: lease_ok_def)
    qed
  qed
qed


text \<open>A way through a checked definition has at most as many steps as the definition, 50.\<close>

lemma history_path_keys: "history_path d js node \<Longrightarrow> definition_ok uuid datetime d \<Longrightarrow> set js \<subseteq> set (map wn_id (wd_nodes d))"
proof (cases "node")
  case (Some v)
  assume "history_path d js node"
  with Some wpath_keys show ?thesis by (fastforce simp: history_path_def nodes_map_keys)
next
  case None
  assume h: "history_path d js node" and ok: "definition_ok uuid datetime d"
  with None have js: "js \<noteq> []" "wpath (nodes_map d) (first_node d) (rev (butlast js)) (last js)"
    by (simp_all add: history_path_def)
  obtain n ns where nodes: "wd_nodes d = n # ns" using ok by (cases "wd_nodes d") (auto simp: definition_ok_def shape_ok_def)
  have conn: "well_connected (nodes_map d) (first_node d)"
    using ok definition_issues_exact [OF nodes] nodes by (simp add: definition_ok_def first_node_def)
  have "last js \<in> set (jkeys (nodes_map d))"
  proof (cases "rev (butlast js)")
    case Nil
    with js have "last js = first_node d" by (simp add: wpath_Nil_iff)
    then show ?thesis using nodes by (simp add: nodes_map_keys first_node_def)
  next
    case (Cons u us)
    with js have "step_edge (nodes_map d) u (last js)" by (auto elim: wpath_ConsE)
    with conn show ?thesis by (auto simp: well_connected_def closed_steps_def)
  qed
  moreover have "set (butlast js) \<subseteq> set (jkeys (nodes_map d))" using wpath_keys [OF js(2)] by simp
  moreover have "set js = insert (last js) (set (butlast js))" using js(1) append_butlast_last_id [of js]
    by (metis list.simps(15) rotate1.simps(2) set_rotate1)
  ultimately show ?thesis by (simp add: nodes_map_keys)
qed

lemma history_length:
  assumes ok: "definition_ok uuid datetime d" and path: "history_path d (map jb_node js) node" "distinct (map jb_node js)"
  shows "length js \<le> 50"
proof -
  have "length js = card (set (map jb_node js))" using distinct_card [OF path(2)] by simp
  also have "\<dots> \<le> card (set (map wn_id (wd_nodes d)))"
    using history_path_keys [OF path(1) ok] by (intro card_mono) simp_all
  also have "\<dots> \<le> length (wd_nodes d)" using card_length [of "map wn_id (wd_nodes d)"] by simp
  finally show ?thesis using ok by (simp add: definition_ok_def shape_ok_def)
qed

text \<open>Tables that carry no history.\<close>

lemma side_tables:
  "nd_runs (update_deliveries P f db) = nd_runs db" "nd_jobs (update_deliveries P f db) = nd_jobs db"
  "nd_claims (update_deliveries P f db) = nd_claims db" "nd_versions (update_deliveries P f db) = nd_versions db"
  "nd_runs (update_attempts Q g db) = nd_runs db" "nd_jobs (update_attempts Q g db) = nd_jobs db"
  "nd_claims (update_attempts Q g db) = nd_claims db" "nd_versions (update_attempts Q g db) = nd_versions db"
  "nd_runs (expire_attempts run node clock db) = nd_runs db" "nd_jobs (expire_attempts run node clock db) = nd_jobs db"
  "nd_claims (expire_attempts run node clock db) = nd_claims db"
  "nd_versions (expire_attempts run node clock db) = nd_versions db"
  by (simp_all add: update_deliveries_def update_attempts_def expire_attempts_def)

definition same_history :: "native_db \<Rightarrow> native_db \<Rightarrow> bool" where
  "same_history db db' \<longleftrightarrow> nd_runs db' = nd_runs db \<and> nd_jobs db' = nd_jobs db \<and> nd_claims db' = nd_claims db
     \<and> nd_versions db' = nd_versions db"

lemma same_history_inv: "native_inv db \<Longrightarrow> same_history db db' \<Longrightarrow> native_inv db'"
  by (rule native_inv_tables) (simp_all add: same_history_def run_definition_def)

lemma same_history_facts:
  assumes "same_history db db'"
  shows "run_definition run db' = run_definition run db" "lease_valid run token clock db' = lease_valid run token clock db"
    "job_exists run i db' = job_exists run i db" "nd_claims db' = nd_claims db"
  using assms by (simp_all add: same_history_def run_definition_def lease_valid_def job_exists_def)

lemma effect_history: "apply_effect texts e db = Inr db' \<Longrightarrow> same_history db db'"
  by (cases e) (auto simp: same_history_def split: option.splits if_splits)

lemma finish_fields:
  assumes "finish run n c now nx output = Inr f"
  shows "fs_next f = nx \<and> fs_context f = with_result c (wn_id n) output \<and>
    jb_workspace (fs_job f) = xr_workspace run \<and> jb_execution (fs_job f) = xr_id run \<and> jb_node (fs_job f) = wn_id n \<and>
    jb_sequence (fs_job f) = length (context_steps c) \<and> jb_output (fs_job f) = output"
  using assms by (auto simp: finish_def Let_def split: if_splits sum.splits)

lemma finish_inv:
  assumes inv: "native_inv db" and claim: "(token, run) \<in> set (nd_claims db)"
    and d: "run_definition run db = Some d" "definition_ok uuid datetime d" "find_step d (xr_node run) = Some n" "next_ok n nx"
    and f: "finish run n (xr_context run) now nx output = Inr f"
    and step: "trans_checkpoint texts run token clock e f db = Inr db'"
  shows "native_inv db'"
proof -
  have valid: "lease_valid run token clock db" using step by (auto simp: trans_checkpoint_def split: if_splits)
  obtain db1 where e: "apply_effect texts e db = Inr db1"
    using step valid by (cases "apply_effect texts e db") (auto simp: trans_checkpoint_def)
  have h: "same_history db db1" using e by (rule effect_history)
  note ff = finish_fields [OF f]
  have new: "\<not> job_exists run (jb_node (fs_job f)) db1" and
    db': "db' = update_runs (same_run run) (advance f) (db1\<lparr>nd_jobs := nd_jobs db1 @ [fs_job f]\<rparr>)"
    using step valid e by (auto simp: trans_checkpoint_def split: if_splits)
  show ?thesis unfolding db'
  proof (rule checkpoint_inv [where token = token and run = run and d = d and n = n and nx = nx])
    show "native_inv db1" using inv h by (rule same_history_inv)
  qed (use claim valid d new ff same_history_facts [OF h] in \<open>auto simp: frozen_def advance_def\<close>)
qed

lemma webhook_inv:
  assumes inv: "native_inv db" and claim: "(token, run) \<in> set (nd_claims db)"
    and d: "run_definition run db = Some d" "definition_ok uuid datetime d" "find_step d (xr_node run) = Some n"
    and step: "trans_webhook_end texts run token clock (webhook_outcome run n (xr_context run) now dl res) db = Inr db'"
  shows "native_inv db'"
proof -
  let ?w = "webhook_outcome run n (xr_context run) now dl res"
  have valid: "lease_valid run token clock db" using step by (auto simp: trans_webhook_end_def split: if_splits)
  define db1 where "db1 = update_deliveries (delivery_of run (we_node ?w)) (\<lambda>d. d\<lparr>dl_state := we_state ?w\<rparr>)
    (update_attempts (\<lambda>a. attempt_of run (we_node ?w) a \<and> at_sequence a = we_sequence ?w \<and> at_token a = token)
       (\<lambda>a. a\<lparr>at_finished := Some clock, at_status := sr_status (we_result ?w),
          at_error := sr_error (we_result ?w), at_output := Some (sr_output (we_result ?w))\<rparr>) db)"
  have h: "same_history db db1" by (simp add: db1_def same_history_def side_tables)
  have inv1: "native_inv db1" using inv h by (rule same_history_inv)
  have absent: "we_job ?w \<noteq> None \<Longrightarrow> \<not> job_exists run (we_node ?w) db"
    and db': "db' = update_runs (same_run run) (settle_webhook ?w)
      (db1\<lparr>nd_jobs := nd_jobs db1 @ (case we_job ?w of None \<Rightarrow> [] | Some j \<Rightarrow> [j])\<rparr>)"
    using step valid by (auto simp: trans_webhook_end_def Let_def db1_def split: if_splits)
  show ?thesis
  proof (cases "we_job ?w")
    case None
    then have stay: "we_next ?w = Some (wn_id n)" "we_context ?w = xr_context run"
      by (auto simp: webhook_outcome_def Let_def split: if_splits)
    obtain r where r: "frozen r = frozen run" and only: "\<And>x. x \<in> set (nd_runs db) \<Longrightarrow> same_run run x \<Longrightarrow> x = r"
      using lease_row [OF inv claim valid] by metis
    have node: "xr_node run = Some (wn_id n)" using find_node_map [OF d(2,3)] by simp
    have "native_inv (update_runs (same_run run) (settle_webhook ?w) db1)"
    proof (rule native_inv_update [OF inv1])
      fix x assume "x \<in> set (nd_runs db1)" "same_run run x"
      with only h have "x = r" by (simp add: same_history_def)
      with r stay node show "frozen (settle_webhook ?w x) = frozen x" by (simp add: frozen_def settle_webhook_def)
    qed (simp add: settle_webhook_def)
    with None db' show ?thesis by simp
  next
    case (Some j)
    then have j: "jb_workspace j = xr_workspace run" "jb_execution j = xr_id run" "jb_node j = wn_id n"
        "jb_sequence j = length (context_steps (xr_context run))" "we_next ?w = wn_next n" "we_node ?w = wn_id n"
        "we_context ?w = with_result (xr_context run) (wn_id n) (jb_output j)"
      by (auto simp: webhook_outcome_def Let_def split: if_splits)
    have "native_inv (update_runs (same_run run) (settle_webhook ?w) (db1\<lparr>nd_jobs := nd_jobs db1 @ [j]\<rparr>))"
    proof (rule checkpoint_inv [OF inv1])
      show "next_ok n (wn_next n)" by (simp add: next_ok_def)
      show "\<not> job_exists run (wn_id n) db1"
        using absent Some j(6) same_history_facts(3) [OF h] by simp
    qed (use claim valid d j same_history_facts [OF h] in \<open>simp_all add: frozen_def settle_webhook_def\<close>)
    with Some db' show ?thesis by simp
  qed
qed

theorem nstep_inv: "nstep db db' \<Longrightarrow> native_inv db \<Longrightarrow> native_inv db'"
proof (induction rule: nstep.induct)
  case (n_claim token clock now db run db')
  from n_claim(3,1,2) show ?case by (rule claim_inv)
next
  case (n_block token run db)
  then show ?case unfolding stmt_block_run_def by (intro drop_token_inv) simp_all
next
  case (n_complete token run db)
  then show ?case unfolding stmt_complete_run_def by (intro drop_token_inv) simp_all
next
  case (n_set token run db status texts err wake attempts db')
  from n_set(4,3) show ?case by (rule set_run_inv)
next
  case (n_finish token run db d uuid datetime n nx now out f texts clock e db')
  from n_finish(8,1-7) show ?case by (rule finish_inv)
next
  case (n_delivery token run db texts clock d db')
  then have "same_history db db'" by (auto simp: trans_delivery_def same_history_def split: if_splits)
  with n_delivery.prems show ?case by (rule same_history_inv)
next
  case (n_exhausted token run db clock node db')
  then have "same_history db db'"
    by (auto simp: trans_exhausted_def same_history_def side_tables split: if_splits)
  with n_exhausted.prems show ?case by (rule same_history_inv)
next
  case (n_attempt token run db texts clock node sequence db')
  then have "same_history db db'"
    by (auto simp: trans_attempt_def Let_def same_history_def side_tables split: if_splits)
  with n_attempt.prems show ?case by (rule same_history_inv)
next
  case (n_webhook token run db d uuid datetime n texts clock now dl res db')
  from n_webhook(6,1-5) show ?case by (rule webhook_inv)
next
  case (n_insert x db texts db')
  from n_insert(3,1,2) show ?case by (rule insert_inv)
next
  case (n_cancel db ws i)
  then show ?case unfolding stmt_cancel_def by (intro drop_token_inv) simp_all
next
  case (n_retry ws i db db')
  from n_retry(2,1) show ?case by (rule retry_inv)
next
  case (n_version db v)
  then show ?case
    by (rule native_inv_tables) (simp_all add: insert_version_definition, simp_all add: insert_version_def)
next
  case (n_workflows db ws)
  then show ?case by (rule same_history_inv) (simp add: same_history_def)
next
  case (n_task db ws i user)
  then show ?case by (rule same_history_inv) (simp add: same_history_def resolveTask_def Let_def)
qed

interpretation history: step_invariant nstep native_inv
  by unfold_locales (rule nstep_inv)

lemma reachable_inv: "empty_db db0 \<Longrightarrow> nsteps db0 db \<Longrightarrow> native_inv db"
  using history.steps_keep native_inv_empty by blast

end
