(* ===== verification/Native_Steps.thy ===== *)
theory Native_Steps
  imports Native_Reach
begin

text \<open>
  The functions of the worker and of the repository make steps of the relation of
  \<open>Native_Reach\<close> and no others, whatever other workers do in between.
\<close>

section \<open>What steps never take away\<close>

lemma nstep_claims: "nstep db db' \<Longrightarrow> set (nd_claims db) \<subseteq> set (nd_claims db')"
proof (induction rule: nstep.induct)
  case (n_claim token clock now db run db')
  then show ?case by (cases "find (due now) (nd_runs db)") (auto simp: stmt_claim_def)
next
  case (n_set token run db status texts err wake attempts db')
  then show ?case by (auto simp: stmt_set_run_def Let_def split: option.splits if_splits)
next
  case (n_finish token run db d uuid datetime n nx now out f texts clock e db')
  then obtain db1 where db1: "apply_effect texts e db = Inr db1"
    by (cases "apply_effect texts e db") (auto simp: trans_checkpoint_def split: if_splits)
  with n_finish(7) effect_history [OF db1] show ?case
    by (auto simp: trans_checkpoint_def same_history_def split: if_splits)
next
  case (n_insert x db texts db')
  then show ?case by (auto simp: insert_run_def split: if_splits)
next
  case (n_retry ws i db db')
  then show ?case by (auto simp: trans_retry_def split: if_splits)
qed (auto simp: trans_delivery_def trans_exhausted_def trans_attempt_def trans_webhook_end_def Let_def side_tables
    stmt_block_run_def stmt_complete_run_def stmt_cancel_def insert_version_def resolveTask_def split: if_splits)

lemma nstep_versions: "nstep db db' \<Longrightarrow> nd_versions db' = nd_versions db \<or> (\<exists>v. nd_versions db' = nd_versions db @ [v])"
proof (induction rule: nstep.induct)
  case (n_claim token clock now db run db')
  then show ?case by (cases "find (due now) (nd_runs db)") (auto simp: stmt_claim_def)
next
  case (n_set token run db status texts err wake attempts db')
  then show ?case by (auto simp: stmt_set_run_def Let_def split: option.splits if_splits)
next
  case (n_finish token run db d uuid datetime n nx now out f texts clock e db')
  then obtain db1 where db1: "apply_effect texts e db = Inr db1"
    by (cases "apply_effect texts e db") (auto simp: trans_checkpoint_def split: if_splits)
  with n_finish(7) effect_history [OF db1] show ?case
    by (auto simp: trans_checkpoint_def same_history_def split: if_splits)
next
  case (n_insert x db texts db')
  then show ?case by (auto simp: insert_run_def split: if_splits)
next
  case (n_retry ws i db db')
  then show ?case by (auto simp: trans_retry_def split: if_splits)
qed (auto simp: trans_delivery_def trans_exhausted_def trans_attempt_def trans_webhook_end_def Let_def side_tables
    stmt_block_run_def stmt_complete_run_def stmt_cancel_def insert_version_def resolveTask_def split: if_splits)

lemma nstep_definition: "nstep db db' \<Longrightarrow> run_definition r db = Some d \<Longrightarrow> run_definition r db' = Some d"
  by (drule nstep_versions) (auto simp: run_definition_def find_app split: option.splits)

text \<open>A worker that runs a claimed execution of a definition.\<close>

definition at_work :: "string \<Rightarrow> exec_row \<Rightarrow> wdefinition \<Rightarrow> native_db \<Rightarrow> bool" where
  "at_work token run d db \<longleftrightarrow> (token, run) \<in> set (nd_claims db) \<and> run_definition run db = Some d"

interpretation working: step_invariant nstep "at_work token run d" for token run d
  by unfold_locales (use nstep_claims nstep_definition in \<open>auto simp: at_work_def\<close>)

interpretation claimed_row: step_invariant nstep "\<lambda>db. claim \<in> set (nd_claims db)" for claim
  by unfold_locales (use nstep_claims in auto)

interpretation definition_kept: step_invariant nstep "\<lambda>db. run_definition r db = Some d" for r d
  by unfold_locales (rule nstep_definition)

lemmas nsteps_at_work = working.steps_keep

lemma nsteps_claims: "nsteps db db' \<Longrightarrow> set (nd_claims db) \<subseteq> set (nd_claims db')"
  using claimed_row.steps_keep by auto

section \<open>The worker\<close>

definition others_step :: "(nat \<Rightarrow> native_db \<Rightarrow> native_db) \<Rightarrow> bool" where
  "others_step itf \<longleftrightarrow> (\<forall>k db. nsteps db (itf k db))"

definition env_steps :: "native_env \<Rightarrow> bool" where
  "env_steps env \<longleftrightarrow> others_step (ne_itf env) \<and> others_step (hk_itf (ne_webhook env))"

lemma others_stepD: "others_step itf \<Longrightarrow> nsteps db (itf k db)"
  by (simp add: others_step_def)

lemma then_step: "nsteps db db' \<Longrightarrow> nstep db' db'' \<Longrightarrow> nsteps db db''"
  by (rule rtranclp.rtrancl_into_rtrancl)

lemma commit_steps:
  assumes env: "others_step (ne_itf env)" and work: "at_work token run d db"
    and d: "definition_ok uuid datetime d" "find_step d (xr_node run) = Some n" "next_ok n (sp_next p)"
  shows "nsteps db (snd (commit env run token n (xr_context run) now k p db))"
proof (cases "finish run n (xr_context run) now (sp_next p) (sp_output p)")
  case (Inl e)
  then show ?thesis by (simp add: commit_def)
next
  case (Inr f)
  let ?db = "ne_itf env k db"
  have away: "nsteps db ?db" using env by (rule others_stepD)
  have work': "at_work token run d ?db" using away work by (rule nsteps_at_work)
  show ?thesis
  proof (cases "trans_checkpoint (ne_texts env) run token (ne_clock env) (sp_effect p) f ?db")
    case (Inl e)
    with Inr away show ?thesis by (simp add: commit_def Let_def)
  next
    case (Inr db')
    have "nstep ?db db'"
      using work' d \<open>finish _ _ _ _ _ _ = Inr f\<close> Inr by (intro n_finish) (auto simp: at_work_def)
    with away have "nsteps db db'" by (rule then_step)
    with Inr \<open>finish _ _ _ _ _ _ = Inr f\<close> show ?thesis by (simp add: commit_def Let_def)
  qed
qed

lemma create_steps:
  assumes env: "others_step (ne_itf env)" and work: "at_work token run d db"
    and d: "definition_ok uuid datetime d" "find_step d (xr_node run) = Some n"
  shows "nsteps db (snd (execute_create env run token n (xr_context run) now coll vs m db))"
proof -
  have go: "nsteps x (snd (commit env run token n (xr_context run) now k
      \<lparr>sp_next = wn_next n, sp_output = out, sp_effect = e\<rparr> x))" if "at_work token run d x" for x k out e
    using env that d by (rule commit_steps) (simp add: next_ok_def)
  have again: "nsteps x (snd (commit env run token n (xr_context run) now k (existing_plan n out) x))"
    if "at_work token run d x" for x k out
    unfolding existing_plan_def using go [OF that] .
  show ?thesis
  proof (cases "mapped (xr_context run) vs")
    case (Inr input)
    show ?thesis
    proof (cases "findMatch env 0 coll m input")
      case (Inr found)
      show ?thesis
      proof (cases found)
        case None
        define first where "first = (case ne_create env coll input (ne_new_id env) of
                 Inl e \<Rightarrow> (Inl e, db)
               | Inr (r, own) \<Rightarrow> commit env run token n (xr_context run) now 0
                   \<lparr>sp_next = wn_next n, sp_output = r, sp_effect = RecordWrite own\<rparr> db)"
        have s: "nsteps db (snd first)"
          using go [OF work] by (auto simp: first_def split: sum.splits)
        then have w: "at_work token run d (snd first)" using work by (rule nsteps_at_work)
        have "execute_create env run token n (xr_context run) now coll vs m db =
          (case fst first of Inr u \<Rightarrow> (Inr (), snd first)
           | Inl e \<Rightarrow> (case findMatch env 1 coll m input of Inl e' \<Rightarrow> (Inl e', snd first)
             | Inr None \<Rightarrow> (Inl e, snd first)
             | Inr (Some r) \<Rightarrow> commit env run token n (xr_context run) now 1 (existing_plan n r) (snd first)))"
          using \<open>mapped _ vs = Inr input\<close> Inr None
          by (simp add: execute_create_def first_def [symmetric] case_prod_beta Let_def)
        moreover have "nsteps db (snd (commit env run token n (xr_context run) now 1 (existing_plan n r) (snd first)))" for r
          using s again [OF w] by (rule rtranclp_trans)
        ultimately show ?thesis using s by (simp split: sum.splits option.splits)
      next
        case (Some r)
        with Inr \<open>mapped _ vs = Inr input\<close> again [OF work] show ?thesis by (simp add: execute_create_def)
      qed
    qed (simp add: execute_create_def \<open>mapped _ vs = Inr input\<close>)
  qed (simp add: execute_create_def)
qed

lemma update_steps:
  assumes env: "others_step (ne_itf env)" and work: "at_work token run d db"
    and d: "definition_ok uuid datetime d" "find_step d (xr_node run) = Some n"
  shows "nsteps db (snd (execute_update env run token n (xr_context run) now coll i vs db))"
proof -
  have "nsteps db (snd (commit env run token n (xr_context run) now k
      \<lparr>sp_next = wn_next n, sp_output = out, sp_effect = e\<rparr> db))" for k out e
    using env work d by (rule commit_steps) (simp add: next_ok_def)
  then show ?thesis
    unfolding execute_update_def by (auto split: sum.splits jv.splits list.splits)
qed

lemma plan_next: "plan_node env run n c now (wn_kind n) = Inr p \<Longrightarrow> next_ok n (sp_next p)"
  by (cases "wn_kind n")
    (auto simp: next_ok_def plan_two_def plan_notice_def Let_def split: sum.splits if_splits jv.splits)

lemma node_steps:
  assumes env: "others_step (ne_itf env)" and work: "at_work token run d db"
    and d: "definition_ok uuid datetime d" "find_step d (xr_node run) = Some n"
  shows "nsteps db (snd (executeNode env run n (xr_context run) token now db))"
proof (cases "nativeFlowWriteCause (ne_parse env) (xr_workflow run) (xr_id run) (xr_depth run) (context_cause (xr_context run))")
  case (Inl e)
  then show ?thesis by (simp add: executeNode_def)
next
  case (Inr cause)
  have plain: "nsteps db (snd (case plan_node env run n (xr_context run) now (wn_kind n) of
      Inl e \<Rightarrow> (Inl e, db) | Inr p \<Rightarrow> commit env run token n (xr_context run) now 0 p db))"
    using commit_steps [OF env work d plan_next] by (auto split: sum.splits)
  show ?thesis
  proof (cases "wn_kind n")
    case (KCreate coll vs m)
    with Inr create_steps [OF env work d] show ?thesis by (simp add: executeNode_def)
  next
    case (KUpdate coll i vs)
    with Inr update_steps [OF env work d] show ?thesis by (simp add: executeNode_def)
  qed (use Inr plain in \<open>simp_all add: executeNode_def\<close>)
qed


lemma prepare_steps:
  assumes env: "others_step (hk_itf h)" and work: "at_work token run d db"
  shows "nsteps db (snd (prepare_delivery texts h run n dest rv vs c token db))"
proof -
  have "nsteps db (hk_itf h 0 db)" using env by (rule others_stepD)
  moreover have "nsteps db db'" if "trans_delivery texts run token (hk_clock h 0) dl (hk_itf h 0 db) = Inr db'" for dl db'
  proof -
    have "nsteps db (hk_itf h 0 db)" using env by (rule others_stepD)
    moreover have "at_work token run d (hk_itf h 0 db)" using calculation work by (rule nsteps_at_work)
    ultimately show ?thesis using that by (auto simp: at_work_def intro: then_step n_delivery)
  qed
  ultimately show ?thesis
    unfolding prepare_delivery_def by (auto simp: Let_def split: option.splits sum.splits)
qed

lemma webhook_steps:
  assumes env: "others_step (hk_itf h)" and work: "at_work token run d db"
    and d: "definition_ok uuid datetime d" "find_step d (xr_node run) = Some n"
  shows "nsteps db (snd (executeWebhookNode texts h run n dest rv vs (xr_context run) token now db))"
proof -
  define first where "first = prepare_delivery texts h run n dest rv vs (xr_context run) token db"
  have s: "nsteps db (snd first)" unfolding first_def using env work by (rule prepare_steps)
  then have w: "at_work token run d (snd first)" using work by (rule nsteps_at_work)
  define db1 where "db1 = hk_itf h (Suc 0) (snd first)"
  have s1: "nsteps db db1" unfolding db1_def using s others_stepD [OF env] by (rule rtranclp_trans)
  then have w1: "at_work token run d db1" using work by (rule nsteps_at_work)
  have exhausted: "nsteps db db'" if "trans_exhausted run token (hk_clock h (Suc 0)) (wn_id n) db1 = Inr db'" for db'
    using s1 n_exhausted [OF _ that] w1 by (auto simp: at_work_def intro: then_step)
  have attempt: "nsteps db db'" if "trans_attempt texts run token (hk_clock h (Suc 0)) (wn_id n) k db1 = Inr db'" for db' k
    using s1 n_attempt [OF _ that] w1 by (auto simp: at_work_def intro: then_step)
  have ended: "nsteps db (hk_itf h 2 db') \<and> (\<forall>db''. trans_webhook_end texts run token (hk_clock h 2)
      (webhook_outcome run n (xr_context run) now dl res) (hk_itf h 2 db') = Inr db'' \<longrightarrow> nsteps db db'')"
    if "nsteps db db'" for db' dl res
  proof (intro conjI allI impI)
    show s2: "nsteps db (hk_itf h 2 db')" using that others_stepD [OF env] by (rule rtranclp_trans)
    fix db'' assume t: "trans_webhook_end texts run token (hk_clock h 2)
      (webhook_outcome run n (xr_context run) now dl res) (hk_itf h 2 db') = Inr db''"
    have "at_work token run d (hk_itf h 2 db')" using s2 work by (rule nsteps_at_work)
    then have "nstep (hk_itf h 2 db') db''" using n_webhook [OF _ _ d t] by (auto simp: at_work_def)
    with s2 show "nsteps db db''" by (rule then_step)
  qed
  show ?thesis
  proof (cases "fst first")
    case (Inl e)
    with s show ?thesis by (simp add: executeWebhookNode_def first_def [symmetric] case_prod_beta)
  next
    case dl: (Inr dl)
    show ?thesis
    proof (cases "3 \<le> dl_generation_attempts dl")
      case True
      with dl s1 exhausted show ?thesis
        by (auto simp: executeWebhookNode_def first_def [symmetric] db1_def [symmetric] case_prod_beta Let_def split: sum.splits)
    next
      case False
      show ?thesis
      proof (cases "hk_resolve h dest rv")
        case None
        show ?thesis
        proof (cases "trans_attempt texts run token (hk_clock h (Suc 0)) (wn_id n) (dl_attempts dl + 1) db1")
          case (Inl e)
          with dl False None s1 show ?thesis
            by (simp add: executeWebhookNode_def first_def [symmetric] db1_def [symmetric] case_prod_beta Let_def)
        next
          case (Inr db')
          with dl False None ended [OF attempt [OF Inr]] show ?thesis
            by (simp add: executeWebhookNode_def first_def [symmetric] db1_def [symmetric] case_prod_beta Let_def
                split: sum.splits)
        qed
      qed (use dl False s in \<open>simp add: executeWebhookNode_def first_def [symmetric] case_prod_beta\<close>)
    qed
  qed
qed

lemma set_run_steps:
  assumes work: "(token, run) \<in> set (nd_claims db)" and "status \<in> {SQueued, SFailed, SBlocked}"
    and "stmt_set_run texts run token status err wake attempts db = Inr db'"
  shows "nsteps db db'"
  using n_set [OF assms] by (rule r_into_rtranclp)

lemma step_body_steps:
  assumes env: "env_steps env" and work: "at_work token run d db" and d: "definition_ok uuid datetime d"
  shows "nsteps db (be_db (step_body env run token now d reserved calls db))"
proof (cases "find_step d (xr_node run)")
  case None
  have s: "nsteps db (ne_itf env 0 db)" using env by (simp add: env_steps_def others_step_def)
  then have "(token, run) \<in> set (nd_claims (ne_itf env 0 db))" using nsteps_at_work [OF s work] by (simp add: at_work_def)
  then have "nstep (ne_itf env 0 db) (stmt_complete_run run token (ne_itf env 0 db))" by (rule n_complete)
  with s have "nsteps db (stmt_complete_run run token (ne_itf env 0 db))" by (rule then_step)
  with None show ?thesis by (simp add: step_body_def body_done_def)
next
  case (Some n)
  define r where "r = (case wn_kind n of
      KWebhook dest rv vs \<Rightarrow> executeWebhookNode (ne_texts env) (ne_webhook env) run n dest rv vs (xr_context run) token now db
    | _ \<Rightarrow> executeNode env run n (xr_context run) token now db)"
  have "nsteps db (snd (executeNode env run n (xr_context run) token now db))"
    by (rule node_steps [OF _ work d Some]) (use env in \<open>simp add: env_steps_def\<close>)
  moreover have "nsteps db (snd (executeWebhookNode (ne_texts env) (ne_webhook env) run n dest rv vs (xr_context run) token now db))"
    for dest rv vs by (rule webhook_steps [OF _ work d Some]) (use env in \<open>simp add: env_steps_def\<close>)
  ultimately have s: "nsteps db (snd r)" by (auto simp: r_def split: wkind.splits)
  have "nsteps db (ne_itf env 2 (snd r))"
    by (rule rtranclp_trans [OF s]) (use env in \<open>simp add: env_steps_def others_step_def\<close>)
  with s Some show ?thesis
    by (simp add: step_body_def r_def [symmetric] case_prod_beta body_error_def body_done_def Let_def split: sum.splits)
qed

lemma body_simps [simp]:
  "be_db (body_error e r c db) = db" "be_db (body_done t r c db) = db"
  "be_result (body_error e r c db) = Inl e" "be_result (body_done t r c db) = Inr t"
  "be_reserved (body_error e r c db) = r" "be_reserved (body_done t r c db) = r"
  "be_calls (body_error e r c db) = c" "be_calls (body_done t r c db) = c"
  by (simp_all add: body_error_def body_done_def)

lemma turn_body_steps:
  assumes env: "env_steps env" and claim: "(token, run) \<in> set (nd_claims db)"
  shows "nsteps db (be_db (turn_body env run token now db))"
proof -
  let ?db = "ne_itf env 0 db"
  have s: "nsteps db ?db" using env by (simp add: env_steps_def others_step_def)
  have c: "(token, run) \<in> set (nd_claims ?db)" using nsteps_claims [OF s] claim by auto
  have block: "nsteps db (stmt_block_run run token ?db)" using s n_block [OF c] by (rule then_step)
  have reject: "nsteps db db'" if "reject_run env run token now reason ?db = Inr db'" for reason db'
  proof -
    have "nsteps ?db db'" using c _ that [unfolded reject_run_def] by (rule set_run_steps) simp
    with s show ?thesis by (rule rtranclp_trans)
  qed
  have body: "nsteps db (be_db (step_body env run token now (vr_definition v) reserved calls db))"
    if "find (\<lambda>v. vr_workspace v = xr_workspace run \<and> vr_id v = xr_version run) (nd_versions db) = Some v"
      "definition_ok (ne_uuid env) (ne_datetime env) (vr_definition v)" for v reserved calls
    using env _ that(2) by (rule step_body_steps) (simp add: at_work_def claim run_definition_def that(1))
  show ?thesis
    unfolding turn_body_def
    by (simp add: block s body split: sum.split bool.split option.split prod.split) (use reject in blast)
qed

lemma process_run_steps:
  assumes env: "env_steps env" and claim: "(token, run) \<in> set (nd_claims db)"
  shows "nsteps db (snd (process_run env run token now db))"
proof -
  define b where "b = turn_body env run token now db"
  have s: "nsteps db (be_db b)" unfolding b_def using env claim by (rule turn_body_steps)
  show ?thesis
  proof (cases "be_result b")
    case (Inl e)
    let ?db = "ne_itf env 3 (be_db b)"
    have s3: "nsteps db ?db" by (rule rtranclp_trans [OF s]) (use env in \<open>simp add: env_steps_def others_step_def\<close>)
    have c: "(token, run) \<in> set (nd_claims ?db)" using nsteps_claims [OF s3] claim by auto
    obtain db' where db': "handle_error env run token now e ?db = Inr db'" using handle_error_total by blast
    have "nsteps ?db db'" using c _ db' [unfolded handle_error_def] by (rule set_run_steps) simp
    with s3 have "nsteps db db'" by (rule rtranclp_trans)
    with Inl db' show ?thesis by (simp add: process_run_def b_def [symmetric] Let_def)
  qed (use s in \<open>simp add: process_run_def b_def [symmetric] Let_def\<close>)
qed

section \<open>The schedule and the repository\<close>

lemma insert_fresh:
  assumes "run_definition x db = Some d" "xr_node x = Some (first_node d)" "context_steps (xr_context x) = []"
    "xr_status x = SQueued" "xr_token x = None" "insert_run texts x db = Inr db'"
  shows "nstep db db'"
  by (rule n_insert [OF _ assms(6)]) (use assms in \<open>simp add: fresh_run_def\<close>)

lemma start_context_steps [simp]: "context_steps (start_context t s) = []"
  by (simp add: start_context_def context_steps_def members_def)

lemma new_run_simps [simp]:
  "xr_node (new_run ws i w v ow ini k n c) = Some n" "xr_context (new_run ws i w v ow ini k n c) = c"
  "xr_status (new_run ws i w v ow ini k n c) = SQueued" "xr_token (new_run ws i w v ow ini k n c) = None"
  "run_definition (new_run ws i w v ow ini k n c) db = map_option vr_definition
     (find (\<lambda>x. vr_workspace x = ws \<and> vr_id x = v) (nd_versions db))"
  by (simp_all add: new_run_def run_definition_def)

lemma update_workflows_step: "nstep db (update_workflows P f db)"
  unfolding update_workflows_def by (rule n_workflows)

lemma schedule_trans_steps:
  assumes v: "find (\<lambda>x. vr_workspace x = wr_workspace w \<and> vr_id x = vr_id v) (nd_versions db) = Some v"
    and step: "trans_schedule texts i now minutes t w v db = Inr db'"
  shows "nsteps db db'"
proof -
  obtain db1 where db1: "insert_run texts (scheduled_run i w v t) db = Inr db1"
    and db': "db' = update_workflows (same_workflow w)
            (\<lambda>x. x\<lparr>wr_next_run := Some (max (t + int minutes * 60000) (now + int minutes * 60000))\<rparr>) db1"
    using step by (auto simp: trans_schedule_def split: if_splits sum.splits)
  have "nstep db db1" using v by (intro insert_fresh [OF _ _ _ _ _ db1]) (simp_all add: scheduled_run_def)
  then have "nsteps db db1" by (rule r_into_rtranclp)
  then show ?thesis unfolding db' by (rule then_step) (rule update_workflows_step)
qed

lemma cancel_steps:
  assumes "others_step itf"
  shows "nsteps db (snd (cancel ws i itf db))"
proof -
  have "nsteps db (itf 0 db)" using assms by (rule others_stepD)
  then have "nsteps db (stmt_cancel ws i (itf 0 db))" using n_cancel by (rule then_step)
  then have "nsteps db (itf 1 (stmt_cancel ws i (itf 0 db)))" using others_stepD [OF assms] by (rule rtranclp_trans)
  then show ?thesis by (simp add: cancel_def Let_def split: sum.splits)
qed

lemma retry_steps:
  assumes "others_step itf"
  shows "nsteps db (snd (retry ws i itf db))"
proof -
  have "nsteps db (itf 0 db')" if "trans_retry ws i db = Inr db'" for db'
    using r_into_rtranclp [of nstep, OF n_retry [OF that]] others_stepD [OF assms] by (rule rtranclp_trans)
  then show ?thesis by (simp add: retry_def Let_def split: sum.splits)
qed


lemma start_steps:
  assumes others: "others_step itf"
  shows "nsteps db (snd (start env run ws i data initiator key itf db))"
proof -
  have go: "nsteps db (itf 0 db)" using others by (rule others_stepD)
  have started: "nsteps db (itf 1 db')"
    if v: "find (\<lambda>v. vr_workspace v = ws \<and> Some (vr_id v) = wr_published w) (nd_versions db) = Some v"
      and t: "trans_start (ne_texts env) ws i (wr_published w) (new_run ws run i (vr_id v) (vr_owner v) initiator k
        (first_node (vr_definition v)) (start_context t s)) (itf 0 db) = Inr db'" for w v db' k t s
  proof -
    have published: "wr_published w = Some (vr_id v)" "vr_workspace v = ws" using find_Some_mem [OF v] by auto
    have "find (\<lambda>x. vr_workspace x = ws \<and> vr_id x = vr_id v) (nd_versions db) = Some v"
      using v published(1) by (simp add: eq_commute)
    then have "run_definition (new_run ws run i (vr_id v) (vr_owner v) initiator k (first_node (vr_definition v))
        (start_context t s)) db = Some (vr_definition v)" by simp
    then have "run_definition (new_run ws run i (vr_id v) (vr_owner v) initiator k (first_node (vr_definition v))
        (start_context t s)) (itf 0 db) = Some (vr_definition v)" using definition_kept.steps_keep [OF go] by blast
    then have "nstep (itf 0 db) db'"
      using t by (intro insert_fresh) (auto simp: trans_start_def split: if_splits)
    with go have "nsteps db db'" by (rule then_step)
    then show ?thesis using others_stepD [OF others] by (rule rtranclp_trans)
  qed
  have plain: "nsteps db (snd (start env run ws i data initiator key itf db))" if "get_workflow ws i db = Inl e" for e
    using that by (simp add: start_def)
  show ?thesis
  proof (cases "get_workflow ws i db")
    case (Inr w)
    show ?thesis
    proof (cases "find (\<lambda>v. vr_workspace v = ws \<and> Some (vr_id v) = wr_published w) (nd_versions db)")
      case None
      with Inr show ?thesis by (simp add: start_def)
    next
      case (Some v)
      let ?x = "new_run ws run i (vr_id v) (vr_owner v) initiator (manual_key initiator key) (first_node (vr_definition v))
        (start_context (JObj data) [(''owner'', JStr (vr_owner v)), (''workspace'', JStr ws), (''initiator'', JStr initiator)])"
      show ?thesis
      proof (cases "trans_start (ne_texts env) ws i (wr_published w) ?x (itf 0 db)")
        case (Inl e)
        with Inr Some go show ?thesis by (simp add: start_def Let_def)
      next
        case (Inr db')
        with \<open>get_workflow ws i db = Inr w\<close> Some started [OF Some Inr] show ?thesis
          by (simp add: start_def Let_def split: option.splits)
      qed
    qed
  qed (use plain in blast)
qed

lemma due_workflow_Some:
  assumes "due_workflow now db x = Some (w, v)"
  shows "find (\<lambda>x. vr_workspace x = wr_workspace w \<and> vr_id x = vr_id v) (nd_versions db) = Some v"
proof -
  obtain i t where it: "wr_published x = Some i" "wr_next_run x = Some t"
    using assms by (auto simp: due_workflow_def split: option.splits)
  with assms have "x = w" and found: "find (\<lambda>y. vr_workspace y = wr_workspace x \<and> vr_id y = i) (nd_versions db) = Some v"
    by (auto simp: due_workflow_def split: option.splits if_splits)
  moreover have "vr_id v = i" using find_Some_mem [OF found] by simp
  ultimately show ?thesis by simp
qed

lemma due_workflow_version:
  assumes "(w, v) \<in> set (due_workflows now db)"
  shows "find (\<lambda>x. vr_workspace x = wr_workspace w \<and> vr_id x = vr_id v) (nd_versions db) = Some v"
proof -
  have "(w, v) \<in> set (concat (map (\<lambda>w. case due_workflow now db w of None \<Rightarrow> [] | Some x \<Rightarrow> [x]) (nd_workflows db)))"
    using assms unfolding due_workflows_def by (rule in_set_takeD)
  then obtain x where "due_workflow now db x = Some (w, v)" by (auto split: option.splits)
  then show ?thesis by (rule due_workflow_Some)
qed

text \<open>The version of a workflow read before stays the version later.\<close>

definition version_kept :: "workflow_row \<Rightarrow> version_row \<Rightarrow> native_db \<Rightarrow> bool" where
  "version_kept w v db \<longleftrightarrow> find (\<lambda>x. vr_workspace x = wr_workspace w \<and> vr_id x = vr_id v) (nd_versions db) = Some v"

interpretation version_stays: step_invariant nstep "version_kept w v" for w v
  by unfold_locales (drule nstep_versions, auto simp: version_kept_def find_app)

lemma schedule_steps:
  assumes "others_step itf"
  shows "nsteps db (snd (schedule env ids itf now db))"
proof -
  have rows_go: "nsteps db (snd (schedule_rows env ids itf now k rows db))"
    if "\<forall>(w, v) \<in> set rows. version_kept w v db" for k rows db
    using that
  proof (induction rows arbitrary: k db)
    case (Cons p rows)
    obtain w v where p: "p = (w, v)" by force
    have keep: "\<forall>(w, v) \<in> set rows. version_kept w v db'" if "nsteps db db'" for db'
      using Cons.prems version_stays.steps_keep [OF that] by auto
    have go: "nsteps db (itf k db)" using assms by (rule others_stepD)
    have vk: "version_kept w v (itf k db)" using version_stays.steps_keep [OF go] Cons.prems p by simp
    have rest: "nsteps db (snd (schedule_rows env ids itf now (k + 1) rows db'))" if "nsteps db db'" for db'
      using that Cons.IH [OF keep [OF that]] by (rule rtranclp_trans)
    have queued: "nsteps db db'"
      if "trans_schedule (ne_texts env) (ids k) now minutes t w v (itf k db) = Inr db'" for minutes t db'
      using go schedule_trans_steps [OF vk [unfolded version_kept_def] that] by (rule rtranclp_trans)
    show ?case
      using rest [OF rtranclp.rtrancl_refl] rest [OF go] go rest [OF queued]
      by (auto simp: p Let_def split: wtrigger.splits option.splits sum.splits)
  qed simp
  show ?thesis unfolding schedule_def
    by (rule rows_go) (use due_workflow_version in \<open>auto simp: version_kept_def\<close>)
qed

end
