(* ===== verification/Native_Outcome.thy ===== *)
theory Native_Outcome
  imports Native_Steps
begin

text \<open>
  What one turn of the worker comes to: the branches of \<open>turn_body\<close> and \<open>process_run\<close> in closed
  form, for a worker that holds its lease, one that lost it, and one the policy refuses.
\<close>

section \<open>Up to the step\<close>

definition runnable :: "native_env \<Rightarrow> exec_row \<Rightarrow> wdefinition \<Rightarrow> native_db \<Rightarrow> bool" where
  "runnable env run d db \<longleftrightarrow> ne_authorize env = Inr True \<and> run_definition run db = Some d \<and>
     definition_ok (ne_uuid env) (ne_datetime env) d \<and> validate env d = None"

lemma turn_body_runnable:
  assumes "runnable env run d db"
  shows "turn_body env run token now db = (case ne_policy env of
      None \<Rightarrow> step_body env run token now d False [] db
    | Some p \<Rightarrow> (case np_admit p of
        Inl e \<Rightarrow> body_error e False [CallAdmit] db
      | Inr (False, reason) \<Rightarrow> (case reject_run env run token now reason (ne_itf env 0 db) of
          Inl e \<Rightarrow> body_error e False [CallAdmit] (ne_itf env 0 db)
        | Inr db' \<Rightarrow> body_done (\<not> deferred reason) False [CallAdmit] db')
      | Inr (True, reason) \<Rightarrow> (case np_consume p of
          Some e \<Rightarrow> body_error e True [CallAdmit, CallConsume] db
        | None \<Rightarrow> step_body env run token now d True [CallAdmit, CallConsume] db)))"
proof -
  obtain v where v: "find (\<lambda>v. vr_workspace v = xr_workspace run \<and> vr_id v = xr_version run) (nd_versions db) = Some v"
    "vr_definition v = d" using assms by (auto simp: runnable_def run_definition_def)
  show ?thesis using assms unfolding turn_body_def v(1) option.case v(2) by (simp add: runnable_def)
qed

text \<open>A step that writes to no collection and calls nobody.\<close>

fun plain_kind :: "wkind \<Rightarrow> bool" where
  "plain_kind (KWebhook _ _ _) = False"
| "plain_kind (KCreate _ _ _) = False"
| "plain_kind (KUpdate _ _ _) = False"
| "plain_kind _ = True"

definition step_ready :: "native_env \<Rightarrow> exec_row \<Rightarrow> int \<Rightarrow> wdefinition \<Rightarrow> step_plan \<Rightarrow> finish_step \<Rightarrow> bool" where
  "step_ready env run now d p f \<longleftrightarrow> (case find_step d (xr_node run) of None \<Rightarrow> False
     | Some n \<Rightarrow> plain_kind (wn_kind n) \<and>
         (case nativeFlowWriteCause (ne_parse env) (xr_workflow run) (xr_id run) (xr_depth run)
             (context_cause (xr_context run)) of Inl e \<Rightarrow> False | Inr c \<Rightarrow> True) \<and>
         plan_node env run n (xr_context run) now (wn_kind n) = Inr p \<and>
         finish run n (xr_context run) now (sp_next p) (sp_output p) = Inr f)"

lemma plain_execute:
  assumes "plain_kind (wn_kind n)"
    and "nativeFlowWriteCause (ne_parse env) (xr_workflow run) (xr_id run) (xr_depth run) (context_cause c) = Inr cause"
    and "plan_node env run n c now (wn_kind n) = Inr p"
  shows "executeNode env run n c token now db = commit env run token n c now 0 p db"
  using assms by (cases "wn_kind n") (simp_all add: executeNode_def)

lemma step_ready_body:
  assumes "step_ready env run now d p f"
  shows "step_body env run token now d reserved calls db =
    (let db = ne_itf env 0 db in
     case trans_checkpoint (ne_texts env) run token (ne_clock env) (sp_effect p) f db of
       Inl e \<Rightarrow> body_error e reserved calls db
     | Inr db \<Rightarrow> (let db = ne_itf env 2 db in body_done (terminal_status (run_status run db)) reserved calls db))"
proof -
  obtain n cause where n: "find_step d (xr_node run) = Some n" "plain_kind (wn_kind n)"
    "nativeFlowWriteCause (ne_parse env) (xr_workflow run) (xr_id run) (xr_depth run) (context_cause (xr_context run)) = Inr cause"
    "plan_node env run n (xr_context run) now (wn_kind n) = Inr p"
    "finish run n (xr_context run) now (sp_next p) (sp_output p) = Inr f"
    using assms by (auto simp: step_ready_def split: option.splits sum.splits)
  have "(case wn_kind n of
      KWebhook dest r vs \<Rightarrow> executeWebhookNode (ne_texts env) (ne_webhook env) run n dest r vs (xr_context run) token now db
    | _ \<Rightarrow> executeNode env run n (xr_context run) token now db) = commit env run token n (xr_context run) now 0 p db"
    using plain_execute [OF n(2-4)] n(2) by (cases "wn_kind n") simp_all
  then show ?thesis
    by (simp add: step_body_def n(1) commit_def n(5) Let_def split: sum.split)
qed

section \<open>Without the lease\<close>

definition has_lease :: "exec_row \<Rightarrow> string \<Rightarrow> native_db \<Rightarrow> bool" where
  "has_lease run token db \<longleftrightarrow> list_ex (holds_lease run token) (nd_runs db)"

lemma no_lease_valid: "\<not> has_lease run token db \<Longrightarrow> \<not> lease_valid run token clock db"
  by (auto simp: has_lease_def lease_valid_def list_ex_iff)

lemma no_lease_update: "\<not> has_lease run token db \<Longrightarrow> update_runs (holds_lease run token) f db = db"
  by (rule update_runs_none) (simp add: has_lease_def)

lemma no_lease_set:
  "\<not> has_lease run token db \<Longrightarrow> stmt_set_run texts run token status err wake attempts db = Inr db"
  by (auto simp: stmt_set_run_def has_lease_def Let_def list_ex_iff update_runs_none split: option.split)

lemma no_lease_checkpoint: "\<not> has_lease run token db \<Longrightarrow> trans_checkpoint texts run token clock e f db = Inl lost_lease"
  by (simp add: trans_checkpoint_def no_lease_valid)

text \<open>
  \<open>lease_lost P run token\<close>: in no table of \<open>P\<close> does the worker hold the lease. Interference that
  stays in \<open>P\<close> never gives it back, so every statement of the turn meets a table of \<open>P\<close>, and
  leaves it as it is.
\<close>

definition lease_lost :: "native_db set \<Rightarrow> exec_row \<Rightarrow> string \<Rightarrow> bool" where
  "lease_lost P run token \<longleftrightarrow> (\<forall>db \<in> P. \<not> has_lease run token db)"

lemma lease_lostD: "lease_lost P run token \<Longrightarrow> db \<in> P \<Longrightarrow> \<not> has_lease run token db"
  by (simp add: lease_lost_def)

definition stays_in :: "native_db set \<Rightarrow> (nat \<Rightarrow> native_db \<Rightarrow> native_db) \<Rightarrow> bool" where
  "stays_in P itf \<longleftrightarrow> (\<forall>k. \<forall>db \<in> P. itf k db \<in> P)"

lemma stays_inD [intro]: "stays_in P itf \<Longrightarrow> db \<in> P \<Longrightarrow> itf k db \<in> P"
  by (simp add: stays_in_def)

lemma no_lease_commit:
  assumes "lease_lost P run token" "stays_in P (ne_itf env)" "db \<in> P"
  shows "snd (commit env run token n c now k p db) \<in> P"
  using assms no_lease_checkpoint [OF lease_lostD [OF assms(1) stays_inD [OF assms(2,3)]]]
  by (simp add: commit_def Let_def stays_inD split: sum.split)

lemma no_lease_prepare:
  assumes "lease_lost P run token" "stays_in P (hk_itf h)" "db \<in> P"
  shows "snd (prepare_delivery texts h run n dest r vs c token db) \<in> P"
  using assms no_lease_valid [OF lease_lostD [OF assms(1) stays_inD [OF assms(2,3)]]]
  by (simp add: prepare_delivery_def Let_def trans_delivery_def stays_inD split: option.split sum.split)

lemma no_lease_webhook:
  assumes lost: "lease_lost P run token" and itf: "stays_in P (hk_itf h)" and db: "db \<in> P"
  shows "snd (executeWebhookNode texts h run n dest r vs c token now db) \<in> P"
proof -
  obtain res db1 where q: "prepare_delivery texts h run n dest r vs c token db = (res, db1)" by fastforce
  then have db1: "db1 \<in> P" using no_lease_prepare [OF assms, of texts n dest r vs c] by simp
  then have "\<not> lease_valid run token clock (hk_itf h 1 db1)" for clock
    using no_lease_valid [OF lease_lostD [OF lost stays_inD [OF itf db1]]] by simp
  then show ?thesis using db1 stays_inD [OF itf db1]
    by (simp add: executeWebhookNode_def q Let_def trans_exhausted_def trans_attempt_def
        split: sum.split option.split)
qed

lemma no_lease_node:
  assumes lost: "lease_lost P run token" and itf: "stays_in P (ne_itf env)" and db: "db \<in> P"
  shows "snd (executeNode env run n c token now db) \<in> P"
proof -
  note stay = no_lease_commit [OF lost itf]
  have create: "snd (execute_create env run token n c now coll vs m db) \<in> P" for coll vs m
  proof (cases "mapped c vs")
    case (Inr input)
    define q where "q = (case ne_create env coll input (ne_new_id env) of Inl e \<Rightarrow> (Inl e, db)
        | Inr (r, own) \<Rightarrow> commit env run token n c now 0
            \<lparr>sp_next = wn_next n, sp_output = r, sp_effect = RecordWrite own\<rparr> db)"
    have "snd q \<in> P" unfolding q_def using stay [OF db] db by (simp split: sum.split prod.split)
    then show ?thesis using stay db Inr
      by (simp add: execute_create_def q_def [symmetric] case_prod_beta Let_def split: sum.split option.split)
  qed (simp add: execute_create_def db)
  have update: "snd (execute_update env run token n c now coll i vs db) \<in> P" for coll i vs
    by (simp add: execute_update_def stay db split: sum.split jv.split list.split prod.split)
  show ?thesis
    by (simp add: executeNode_def create update stay db split: sum.split wkind.split)
qed

lemma no_lease_body:
  assumes lost: "lease_lost P run token" and itf: "stays_in P (ne_itf env)" "stays_in P (hk_itf (ne_webhook env))"
    and db: "db \<in> P"
  shows "be_db (turn_body env run token now db) \<in> P"
proof -
  note no = lease_lostD [OF lost stays_inD [OF itf(1) db]]
  have "be_db (step_body env run token now d reserved calls db) \<in> P" for d reserved calls
  proof (cases "find_step d (xr_node run)")
    case None
    then show ?thesis
      by (simp add: step_body_def stays_inD [OF itf(1) db] stmt_complete_run_def no_lease_update [OF no])
  next
    case (Some n)
    define q where "q = (case wn_kind n of
        KWebhook dest r vs \<Rightarrow> executeWebhookNode (ne_texts env) (ne_webhook env) run n dest r vs (xr_context run) token now db
      | _ \<Rightarrow> executeNode env run n (xr_context run) token now db)"
    have "snd q \<in> P"
      unfolding q_def using no_lease_node [OF lost itf(1) db] no_lease_webhook [OF lost itf(2) db]
      by (simp split: wkind.split)
    with Some show ?thesis
      by (simp add: step_body_def q_def [symmetric] case_prod_beta Let_def stays_inD [OF itf(1)] split: sum.split)
  qed
  then show ?thesis
    by (simp add: turn_body_def db stays_inD [OF itf(1) db] stmt_block_run_def no_lease_update [OF no]
        reject_run_def no_lease_set [OF no] split: sum.split bool.split option.split prod.split)
qed

lemma no_lease_process:
  assumes lost: "lease_lost P run token" and itf: "stays_in P (ne_itf env)" "stays_in P (hk_itf (ne_webhook env))"
    and db: "db \<in> P"
  shows "snd (process_run env run token now db) \<in> P"
proof -
  have body: "be_db (turn_body env run token now db) \<in> P" by (rule no_lease_body [OF assms])
  then have "ne_itf env 3 (be_db (turn_body env run token now db)) \<in> P" by (rule stays_inD [OF itf(1)])
  with body show ?thesis
    by (simp add: process_run_def Let_def handle_error_def no_lease_set [OF lease_lostD [OF lost]] split: sum.split)
qed

lemma lost_lease_final: "retries lost_lease run = False"
proof -
  have "\<not> retryable_concurrency lost_lease" "\<not> policy_unavailable lost_lease"
    by (simp_all add: retryable_concurrency_def policy_unavailable_def mentions_def lost_lease_def fail_with_def
        js_lower_def lower_char_def)
  then show ?thesis by (simp add: retries_def lost_lease_def fail_with_def)
qed

text \<open>The worker that lost its lease and would have succeeded tells the policy that the
  execution is over.\<close>

lemma no_lease_calls:
  assumes no: "\<not> has_lease run token (ne_itf env 0 db)"
    and run: "runnable env run d db" "step_ready env run now d p f"
    and pol: "ne_policy env = Some pol" "np_admit pol = Inr (True, reason)" "np_consume pol = None"
  shows "fst (process_run env run token now db) = [CallAdmit, CallConsume, CallRelease True]"
proof -
  have "turn_body env run token now db = body_error lost_lease True [CallAdmit, CallConsume] (ne_itf env 0 db)"
    by (simp add: turn_body_runnable [OF run(1)] pol step_ready_body [OF run(2)] no_lease_checkpoint [OF no])
  then show ?thesis by (simp add: process_run_def release_calls_def lost_lease_final Let_def)
qed

section \<open>Refused by the policy\<close>

definition running_lease :: "exec_row \<Rightarrow> string \<Rightarrow> exec_row \<Rightarrow> bool" where
  "running_lease run token r \<longleftrightarrow> holds_lease run token r \<and> xr_status r = SRunning"

lemma refused_process:
  assumes run: "runnable env run d db" and itf: "\<And>k. ne_itf env k db = db"
    and pol: "ne_policy env = Some p" "np_admit p = Inr (False, reason)" "\<not> deferred reason"
    and held: "list_ex (running_lease run token) (nd_runs db)"
    and e: "e = \<lparr>th_text = ne_texts env ''workflow_executions.wake_at'', th_status = 0\<rparr>"
    and msg: "\<not> permanent_quota e" "\<not> policy_unavailable e"
  shows "process_run env run token now db = ([CallAdmit], update_runs (running_lease run token)
    (\<lambda>r. r\<lparr>xr_status := if xr_attempts run < 3 then SQueued else SFailed, xr_error := Some (take 1000 (th_text e)),
       xr_wake := now + int (xr_attempts run) * 5000, xr_attempts := xr_attempts run, xr_token := None\<rparr>) db)"
proof -
  have "reject_run env run token now reason db = Inl e"
    using held pol(3) e by (simp add: reject_run_def stmt_set_run_def Let_def running_lease_def [abs_def])
  then have "turn_body env run token now db = body_error e False [CallAdmit] db"
    by (simp add: turn_body_runnable [OF run] pol itf)
  moreover have "retries e run \<longleftrightarrow> xr_attempts run < 3" using msg e by (simp add: retries_def)
  ultimately show ?thesis
    using msg by (simp add: process_run_def release_calls_def itf handle_error_def stmt_set_run_def Let_def
        running_lease_def [abs_def] Let_def)
qed

end
