(* ===== verification/Native_Samples.thy ===== *)
theory Native_Samples
  imports Native_Outcome
begin

text \<open>
  A small native workflow and the tables of one execution of it, for the witnesses of the
  properties: \<open>a\<close> computes a value, \<open>b\<close> decides by it and \<open>c\<close> uses it.
\<close>

definition step_a :: wnode where
  "step_a = \<lparr>wn_id = ''a'', wn_label = None, wn_next = Some ''b'', wn_kind = KTransform [(''x'', WvStr ''1'')]\<rparr>"

definition step_b :: wnode where
  "step_b = \<lparr>wn_id = ''b'', wn_label = None, wn_next = Some ''c'',
     wn_kind = KCondition (WvRef ''steps.a.x'') OpEq (WvStr ''1'') None\<rparr>"

definition step_c :: wnode where
  "step_c = \<lparr>wn_id = ''c'', wn_label = None, wn_next = None, wn_kind = KTransform [(''y'', WvRef ''steps.a.x'')]\<rparr>"

definition sample_definition :: wdefinition where
  "sample_definition = \<lparr>wd_trigger = TManual None, wd_nodes = [step_a, step_b, step_c], wd_positions = None\<rparr>"

definition no_format :: "string \<Rightarrow> bool" where
  "no_format s = False"


lemma sample_size: "json_length (definition_jv sample_definition) \<le> 64000"
  by (simp add: json_length_def definition_jv_def sample_definition_def step_a_def step_b_def step_c_def
    node_jv_def opt_member_def wvalues_jv_def json_quote_def units_def esc_unit_def hi_surrogate_def lo_surrogate_def surrogate_def)

lemma sample_nodes: "nodes_map sample_definition = [(''a'', step_a), (''b'', step_b), (''c'', step_c)]"
  by (simp add: nodes_map_def sample_definition_def jmap_of_list_def step_a_def step_b_def step_c_def)

lemma sample_successors: "successors step_a = [''b'']" "successors step_b = [''c'']" "successors step_c = []"
  by (simp_all add: successors_def step_a_def step_b_def step_c_def)

lemma sample_walk: "\<exists>w. visit 4 (nodes_map sample_definition) ''a'' walk_start = Some w \<and> wk_issues w = [] \<and> wk_order w = [''a'',''b'',''c''] \<and> wk_visited w = [''c'',''b'',''a''] \<and> wk_preds w = [(''b'', [''a'']), (''c'', [''b''])]"
  by (simp add: sample_nodes sample_successors walk_start_def enter_def leave_def record_edge_def set_add_def preds_of_def eval_nat_numeral)


lemma sample_refs: "references (node_jv step_a) = []" "references (node_jv step_b) = [''steps.a.x'']"
  "references (node_jv step_c) = [''steps.a.x'']"
  by (simp_all add: node_jv_def step_a_def step_b_def step_c_def opt_member_def wvalues_jv_def)

lemma sample_steps_ref: "steps_ref ''steps.a.x'' = Some ''a''"
  by (simp add: steps_ref_def)

lemma sample_dominate: "dominate (nodes_map sample_definition) [(''b'', [''a'']), (''c'', [''b''])] [''a'',''b'',''c''] [] = []"
  by (simp add: sample_nodes sample_refs sample_steps_ref ref_issues_def available_def preds_of_def Let_def js_set_def set_add_def)

lemma sample_issues: "definition_issues sample_definition = Some []"
proof -
  obtain w where w: "visit 4 (nodes_map sample_definition) ''a'' walk_start = Some w" "wk_issues w = []"
     "wk_order w = [''a'',''b'',''c'']" "wk_visited w = [''c'',''b'',''a'']" "wk_preds w = [(''b'', [''a'']), (''c'', [''b''])]"
    using sample_walk by blast
  have n: "wd_nodes sample_definition = [step_a, step_b, step_c]" "wn_id step_a = ''a''" "wd_positions sample_definition = None"
    by (simp_all add: sample_definition_def step_a_def)
  have four: "Suc (length [step_a, step_b, step_c]) = 4" by simp
  have walk: "visit (Suc (length [step_a, step_b, step_c])) (nodes_map sample_definition) ''a'' walk_start = Some w"
    unfolding four by (rule w)
  have three: "length (nodes_map sample_definition) = length [step_a, step_b, step_c]" by (simp add: sample_nodes)
  have seen: "length (wk_visited w) = length [step_a, step_b, step_c]" by (simp add: w)
  have "graph_issues sample_definition = Some []"
    unfolding graph_issues_def n(1) list.case n(2) walk option.case three seen
    using sample_dominate sample_size w(2,3,5) by (simp del: dominate.simps)
  then show ?thesis by (simp add: definition_issues_def position_issues_def n)
qed

lemma sample_ok: "definition_ok no_format no_format sample_definition"
  unfolding definition_ok_def sample_issues
  by (simp add: shape_ok_def sample_definition_def node_ok_def step_a_def step_b_def step_c_def
    key_ok_def opt_ok_def lower_letter_def safePart_def values_ok_def workflow_value_ok_def ref_ok_def word_char_def
    upper_letter_def is_digit_def)
definition sample_version :: version_row where
  "sample_version = \<lparr>vr_workspace = ''w'', vr_id = ''f:1'', vr_workflow = ''f'', vr_definition = sample_definition,
     vr_owner = ''o'', vr_revision = 1\<rparr>"

definition sample_db :: native_db where
  "sample_db = \<lparr>nd_workflows = [], nd_versions = [sample_version], nd_runs = [], nd_jobs = [], nd_tasks = [],
     nd_deliveries = [], nd_attempts = [], nd_claims = []\<rparr>"

definition sample_row :: exec_row where
  "sample_row = new_run ''w'' ''e'' ''f'' ''f:1'' ''o'' ''o'' ''k'' ''a'' (start_context (JObj []) [])"

definition sample_started :: native_db where
  "sample_started = sample_db\<lparr>nd_runs := [sample_row]\<rparr>"

definition sample_claim :: exec_row where
  "sample_claim = claimed ''t'' 0 sample_row"

definition sample_claimed :: native_db where
  "sample_claimed = sample_db\<lparr>nd_runs := [sample_claim], nd_claims := [(''t'', sample_claim)]\<rparr>"

definition no_texts :: constraint_text where
  "no_texts s = ''Error: constraint failed: '' @ s"

definition sample_webhook :: webhook_env where
  "sample_webhook = \<lparr>hk_hash = concat, hk_resolve = (\<lambda>i r. None),
     hk_send = (\<lambda>p k. \<lparr>sr_status = Some 200, sr_retryable = False, sr_retryAfterMs = None, sr_error = None, sr_output = JNull\<rparr>),
     hk_clock = (\<lambda>k. 0), hk_itf = (\<lambda>k db. db)\<rparr>"

definition metered :: native_policy where
  "metered = \<lparr>np_admit = Inr (True, None), np_consume = None\<rparr>"

definition refusing :: native_policy where
  "refusing = \<lparr>np_admit = Inr (False, Some ''Daily execution limit reached''), np_consume = None\<rparr>"

definition native_sample_env :: "native_policy option \<Rightarrow> native_env" where
  "native_sample_env pol = \<lparr>ne_texts = no_texts, ne_uuid = no_format, ne_datetime = no_format, ne_parse = (\<lambda>s. None),
     ne_clock = 1000, ne_new_id = ''i'', ne_authorize = Inr True, ne_policy = pol, ne_local = (\<lambda>c. None),
     ne_object = (\<lambda>c. Inl (plain_error ''none'')), ne_destination = (\<lambda>i r. None), ne_unique = (\<lambda>k c f v. None),
     ne_record = (\<lambda>c i. Inl (plain_error ''none'')), ne_create = (\<lambda>c m i. Inl (plain_error ''none'')),
     ne_update = (\<lambda>c i m v. Inl (plain_error ''none'')), ne_query = (\<lambda>c f v n. []), ne_notice = None,
     ne_webhook = sample_webhook, ne_itf = (\<lambda>k db. db)\<rparr>"

definition sample_stepped :: native_db where
  "sample_stepped = snd (process_run (native_sample_env None) sample_claim ''t'' 2000 sample_claimed)"

lemma sample_env_steps: "env_steps (native_sample_env pol)"
  by (simp add: env_steps_def others_step_def native_sample_env_def sample_webhook_def)

lemma sample_empty: "empty_db sample_db"
  by (simp add: empty_db_def sample_db_def)


lemma sample_started_step: "nstep sample_db sample_started"
proof (rule n_insert)
  show "fresh_run sample_row sample_db"
    by (simp add: fresh_run_def sample_row_def sample_db_def sample_version_def first_node_def sample_definition_def step_a_def)
  show "insert_run no_texts sample_row sample_db = Inr sample_started"
    by (simp add: insert_run_def event_taken_def sample_db_def sample_started_def)
qed

lemma sample_claimed_step: "nstep sample_started sample_claimed"
proof (rule n_claim)
  show "stmt_claim ''t'' 0 0 sample_started = (Some sample_claim, sample_claimed)"
    by (simp add: stmt_claim_def sample_started_def sample_db_def sample_claimed_def sample_claim_def due_def
        sample_row_def new_run_def claimed_def update_runs_def same_run_def is_run_def)
qed (simp add: sample_started_def sample_db_def)

lemma sample_claimed_reached: "nsteps sample_db sample_claimed"
  using r_into_rtranclp [of nstep, OF sample_started_step] sample_claimed_step by (rule then_step)

lemma sample_stepped_reached: "nsteps sample_db sample_stepped"
proof -
  have "(''t'', sample_claim) \<in> set (nd_claims sample_claimed)" by (simp add: sample_claimed_def)
  from process_run_steps [OF sample_env_steps this] sample_claimed_reached show ?thesis
    unfolding sample_stepped_def by (rule rtranclp_trans [rotated])
qed

lemma sample_node: "find_step sample_definition (Some ''a'') = Some step_a"
  by (simp add: find_step_def sample_definition_def step_a_def)

lemma sample_validates: "validate (native_sample_env pol) sample_definition = None"
  by (simp add: validate_def sample_definition_def step_a_def step_b_def step_c_def validate_item_def no_item_def)

lemma sample_lookup: "find (\<lambda>v. vr_workspace v = ''w'' \<and> vr_id v = ''f:1'') [sample_version] = Some sample_version"
  "vr_definition sample_version = sample_definition"
  by (simp_all add: sample_version_def)

lemma sample_claim_fields:
  "xr_workspace sample_claim = ''w''" "xr_id sample_claim = ''e''" "xr_workflow sample_claim = ''f''"
  "xr_version sample_claim = ''f:1''" "xr_node sample_claim = Some ''a''" "xr_depth sample_claim = 0"
  "xr_status sample_claim = SRunning" "xr_token sample_claim = Some ''t''" "xr_until sample_claim = 30000"
  "xr_attempts sample_claim = 1" "xr_context sample_claim = start_context (JObj []) []"
  by (simp_all add: sample_claim_def sample_row_def claimed_def new_run_def)

lemma sample_cause: "nativeFlowWriteCause p ''f'' i 0 (context_cause (start_context (JObj []) [])) =
    Inr \<lparr>fc_root = i, fc_workflows = [''native:f''], fc_depth = 1\<rparr>"
  by (simp add: nativeFlowWriteCause_def context_cause_def start_context_def members_def parseFlowCause_def js_set_def set_add_def)

lemma sample_finish: "finish sample_claim step_a (start_context (JObj []) []) now (Some ''b'') (JObj [(''x'', JStr ''1'')]) = Inr
   \<lparr>fs_job = \<lparr>jb_workspace = ''w'', jb_execution = ''e'', jb_node = ''a'', jb_sequence = 0,
       jb_type = ''transform'', jb_input = node_jv step_a, jb_output = JObj [(''x'', JStr ''1'')], jb_attempts = 1\<rparr>,
     fs_next = Some ''b'', fs_context = with_result (start_context (JObj []) []) ''a'' (JObj [(''x'', JStr ''1'')]),
     fs_status = SQueued, fs_wake = 0\<rparr>"
proof -
  have "json_length (with_result (start_context (JObj []) []) ''a'' (JObj [(''x'', JStr ''1'')])) \<le> 256000"
    by (simp add: json_length_def with_result_def start_context_def members_def context_steps_def json_quote_def units_def
      esc_unit_def hi_surrogate_def lo_surrogate_def surrogate_def)
  then show ?thesis
    by (simp add: finish_def Let_def sample_claim_fields step_a_def wake_after_def is_delay_def)
qed

lemma sample_env_fields:
  "ne_texts (native_sample_env pol) = no_texts" "ne_uuid (native_sample_env pol) = no_format" "ne_datetime (native_sample_env pol) = no_format"
  "ne_clock (native_sample_env pol) = 1000" "ne_authorize (native_sample_env pol) = Inr True" "ne_policy (native_sample_env pol) = pol"
  "ne_itf (native_sample_env pol) k db = db" "hk_itf (ne_webhook (native_sample_env pol)) k db = db"
  by (simp_all add: native_sample_env_def sample_webhook_def)

lemma sample_runnable: "nd_versions db = [sample_version] \<Longrightarrow> runnable (native_sample_env pol) sample_claim sample_definition db"
  using sample_lookup sample_ok sample_validates [of pol]
  by (simp add: runnable_def sample_env_fields run_definition_def sample_claim_fields)

definition sample_plan :: step_plan where
  "sample_plan = \<lparr>sp_next = Some ''b'', sp_output = JObj [(''x'', JStr ''1'')], sp_effect = NoEffect\<rparr>"

definition sample_closing :: finish_step where
  "sample_closing = \<lparr>fs_job = \<lparr>jb_workspace = ''w'', jb_execution = ''e'', jb_node = ''a'', jb_sequence = 0,
       jb_type = ''transform'', jb_input = node_jv step_a, jb_output = JObj [(''x'', JStr ''1'')], jb_attempts = 1\<rparr>,
     fs_next = Some ''b'', fs_context = with_result (start_context (JObj []) []) ''a'' (JObj [(''x'', JStr ''1'')]),
     fs_status = SQueued, fs_wake = 0\<rparr>"

lemma sample_step_ready: "step_ready (native_sample_env pol) sample_claim now sample_definition sample_plan sample_closing"
proof -
  have "plan_node (native_sample_env pol) sample_claim step_a (start_context (JObj []) []) now (wn_kind step_a) = Inr sample_plan"
    by (simp add: step_a_def sample_plan_def)
  moreover have "plain_kind (wn_kind step_a)" by (simp add: step_a_def)
  ultimately show ?thesis
    using sample_finish [of now] sample_cause [of "ne_parse (native_sample_env pol)" "''e''"]
    by (simp add: step_ready_def sample_node sample_claim_fields sample_plan_def sample_closing_def)
qed

lemma sample_checkpoint:
  "trans_checkpoint no_texts sample_claim ''t'' 1000 NoEffect sample_closing sample_claimed =
     Inr (sample_claimed\<lparr>nd_jobs := [fs_job sample_closing], nd_runs := [advance sample_closing sample_claim]\<rparr>)"
  by (simp add: trans_checkpoint_def lease_valid_def sample_claimed_def sample_db_def holds_lease_def same_run_def
      is_run_def sample_claim_fields job_exists_def update_runs_def)

lemma sample_stepped_eq:
  "sample_stepped = sample_claimed\<lparr>nd_jobs := [fs_job sample_closing], nd_runs := [advance sample_closing sample_claim]\<rparr>"
proof -
  have "nd_versions sample_claimed = [sample_version]" by (simp add: sample_claimed_def sample_db_def)
  from turn_body_runnable [OF sample_runnable [OF this]] show ?thesis
    by (simp add: sample_stepped_def process_run_def sample_env_fields step_ready_body [OF sample_step_ready]
        sample_plan_def sample_checkpoint Let_def)
qed

end
