(* ===== verification/Native_References.thy ===== *)
theory Native_References
  imports Native_Reach
begin

text \<open>
  From the references the check of a definition sees to the values a step evaluates: every
  reference of a step's values is seen, unless a values map holds a text under the key
  \<open>ref\<close>, which the check takes for a reference itself.
\<close>

section \<open>The references of a step\<close>

fun wrefs :: "wvalue \<Rightarrow> string list" where
  "wrefs (WvRef r) = [r]"
| "wrefs (WvConcat vs) = concat (map wrefs vs)"
| "wrefs (WvDateOffset v n) = wrefs v"
| "wrefs _ = []"

fun kind_maps :: "wkind \<Rightarrow> wvalues list" where
  "kind_maps (KWebhook d r vs) = [vs]"
| "kind_maps (KTransform vs) = [vs]"
| "kind_maps (KCreate c vs m) = [vs]"
| "kind_maps (KUpdate c i vs) = [vs]"
| "kind_maps _ = []"

fun kind_single :: "wkind \<Rightarrow> wvalue list" where
  "kind_single (KCondition l op r x) = [l, r]"
| "kind_single (KQuery c f v n) = [v]"
| "kind_single (KUpdate c i vs) = [i]"
| "kind_single (KTask t a n) = [t, a]"
| "kind_single (KNotification t a) = [t, a]"
| "kind_single (KDelay s (Some v)) = [v]"
| "kind_single _ = []"

definition step_values :: "wnode \<Rightarrow> wvalue list" where
  "step_values n = kind_single (wn_kind n) @ concat (map (map snd) (kind_maps (wn_kind n)))"

definition no_text_ref :: "wnode \<Rightarrow> bool" where
  "no_text_ref n \<longleftrightarrow> list_all (\<lambda>m. case jget m ''ref'' of Some (WvStr s) \<Rightarrow> False | _ \<Rightarrow> True) (kind_maps (wn_kind n))"

lemma references_value: "references (value_jv v) = wrefs v"
proof (induction v)
  case (WvConcat vs)
  then show ?case by (auto intro!: arg_cong [where f = concat])
qed simp_all

lemma references_plain:
  assumes "\<And>s. jget m ''ref'' \<noteq> Some (JStr s)"
  shows "references (JObj m) = concat (map (\<lambda>kv. references (snd kv)) m)"
  using assms by (cases "jget m ''ref''") (auto split: jv.splits)

lemma jget_values: "jget (map (\<lambda>(k, v). (k, value_jv v)) m) k = map_option value_jv (jget m k)"
  by (induction m) auto

lemma value_jv_str: "value_jv v = JStr s \<longleftrightarrow> v = WvStr s"
  by (cases v) auto

lemma references_values:
  assumes "case jget m ''ref'' of Some (WvStr s) \<Rightarrow> False | _ \<Rightarrow> True" "(k, v) \<in> set m"
  shows "set (wrefs v) \<subseteq> set (references (wvalues_jv m))"
proof -
  have "jget (map (\<lambda>(k, v). (k, value_jv v)) m) ''ref'' \<noteq> Some (JStr s)" for s
    using assms(1) unfolding jget_values by (auto simp: value_jv_str)
  then show ?thesis
    using assms(2) unfolding wvalues_jv_def
    by (subst references_plain) (force simp: references_value [symmetric] image_iff)+
qed

lemma opt_member_key: "k \<noteq> k' \<Longrightarrow> jget (opt_member k' f x @ m) k = jget m k"
  by (simp add: opt_member_def split: option.split)

lemma opt_member_last: "k \<noteq> k' \<Longrightarrow> jget (opt_member k' f x) k = None"
  by (simp add: opt_member_def split: option.split)

lemma kind_members_ref: "jget (kind_members k) ''ref'' = None"
  by (cases k) (simp_all add: opt_member_key opt_member_last)

lemma kind_members_single: "v \<in> set (kind_single k) \<Longrightarrow> value_jv v \<in> snd ` set (kind_members k)"
  by (cases k rule: kind_single.cases) (auto simp: opt_member_def)

lemma kind_members_maps: "m \<in> set (kind_maps k) \<Longrightarrow> wvalues_jv m \<in> snd ` set (kind_members k)"
  by (cases k) (auto simp: opt_member_def)

lemma references_kind:
  "set (references (JObj (kind_members k))) = (\<Union>x \<in> snd ` set (kind_members k). set (references x))"
  by (simp add: kind_members_ref)

lemma references_node:
  "set (references (JObj (kind_members (wn_kind n)))) \<subseteq> set (references (node_jv n))"
proof -
  let ?m = "[(''id'', JStr (wn_id n))] @ opt_member ''label'' JStr (wn_label n)
     @ opt_member ''next'' JStr (wn_next n) @ [(''type'', JStr (kind_name (wn_kind n)))] @ kind_members (wn_kind n)"
  have "jget ?m ''ref'' = None" by (simp add: opt_member_key kind_members_ref)
  then have "references (JObj ?m) = concat (map (\<lambda>kv. references (snd kv)) ?m)" by simp
  moreover have "references (JObj (kind_members (wn_kind n))) = concat (map (\<lambda>kv. references (snd kv)) (kind_members (wn_kind n)))"
    by (simp add: kind_members_ref)
  ultimately show ?thesis by (auto simp: node_jv_def)
qed

lemma references_seen:
  assumes "no_text_ref n" "v \<in> set (step_values n)" "r \<in> set (wrefs v)"
  shows "r \<in> set (references (node_jv n))"
proof -
  consider "v \<in> set (kind_single (wn_kind n))" | m k where "m \<in> set (kind_maps (wn_kind n))" "(k, v) \<in> set m"
    using assms(2) by (auto simp: step_values_def)
  then have "r \<in> set (references (JObj (kind_members (wn_kind n))))"
  proof cases
    case 1
    with assms(3) show ?thesis unfolding references_kind
      by (intro UN_I [OF kind_members_single]) (simp_all add: references_value)
  next
    case 2
    then have "r \<in> set (references (wvalues_jv m))"
      using references_values [of m k v] assms(1,3) by (auto simp: no_text_ref_def list_all_iff)
    with 2(1) show ?thesis unfolding references_kind by (intro UN_I [OF kind_members_maps])
  qed
  then show ?thesis using references_node by blast
qed

section \<open>At the step\<close>

lemma history_before:
  assumes ok: "definition_ok uuid datetime d" and path: "history_path d js (Some v)"
    and n: "jget (nodes_map d) v = Some n" and ref: "ref \<in> set (references (node_jv n))" "steps_ref ref = Some s"
  shows "s \<in> set js"
proof -
  obtain m ms where nodes: "wd_nodes d = m # ms" using ok by (cases "wd_nodes d") (auto simp: definition_ok_def shape_ok_def)
  have "results_available (nodes_map d) (first_node d)"
    using ok definition_issues_exact [OF nodes] nodes by (simp add: definition_ok_def first_node_def)
  then have "s \<in> always_before (nodes_map d) (first_node d) v"
    using n ref by (auto simp: results_available_def refs_available_def)
  with path show ?thesis by (auto simp: always_before_def history_path_def)
qed

lemma definition_keys_safe:
  assumes "definition_ok uuid datetime d" "s \<in> set (map wn_id (wd_nodes d))"
  shows "safePart s"
proof -
  have "key_ok s" using assms by (auto simp: definition_ok_def shape_ok_def node_ok_def list_all_iff)
  then show ?thesis by (cases s) (simp_all add: key_ok_def)
qed

lemma context_steps_member:
  assumes "context_steps c \<noteq> []"
  shows "own_member c ''steps'' = Some (JObj (context_steps c))"
proof -
  obtain m where m: "c = JObj m" using assms by (cases c) (auto simp: context_steps_def members_def)
  obtain v where v: "jget m ''steps'' = Some v" using assms m by (cases "jget m ''steps''") (auto simp: context_steps_def members_def)
  with assms m show ?thesis by (cases v) (auto simp: context_steps_def members_def)
qed

lemma result_read:
  assumes jobs: "context_steps c = map (\<lambda>j. (jb_node j, jb_output j)) js" "distinct (map jb_node js)"
    and j: "j \<in> set js" "safePart (jb_node j)" "split_dots ref = ''steps'' # jb_node j # rest"
  shows "resolveWorkflowValue c (WvRef ref) = lookup_path ref rest (jb_output j)"
proof -
  have "own_member c ''steps'' = Some (JObj (context_steps c))"
    by (rule context_steps_member) (use jobs(1) j(1) in auto)
  moreover have "jget (context_steps c) (jb_node j) = Some (jb_output j)"
    unfolding jget_def by (rule map_of_is_SomeI) (use jobs j(1) in \<open>auto simp: comp_def\<close>)
  ultimately show ?thesis using j(2,3) by (simp add: safePart_def)
qed

end
