(* ===== verification/Native_Properties.thy ===== *)
theory Native_Properties
  imports Native_Samples Native_References
begin

text \<open>
  The properties of the native workflows: what their definitions are checked for, what an
  execution keeps under competing workers, and what a turn of the worker comes to.
\<close>

section \<open>Definitions\<close>

text \<open>C24: The check of a definition always ends, and it has nothing to report exactly when every
  position names a step, the step names are distinct, every named step exists, no way from the
  first step meets a step twice, every step lies on such a way, every result a step refers to
  belongs to a step on every way to it, and the definition is at most 64,000 units of JSON.\<close>
theorem definition_checks_exact:
  assumes "wd_nodes d = first # rest"
  defines "way \<equiv> wpath (nodes_map d) (wn_id first)"
  shows "\<exists>xs. definition_issues d = Some xs \<and> (xs = [] \<longleftrightarrow>
    positions_known d \<and> distinct (map wn_id (wd_nodes d)) \<and>
    (\<forall>u v. step_edge (nodes_map d) u v \<longrightarrow> v \<in> set (map wn_id (wd_nodes d))) \<and>
    (\<forall>us v. way us v \<longrightarrow> v \<notin> set us) \<and>
    (\<forall>v \<in> set (map wn_id (wd_nodes d)). \<exists>us. way us v) \<and>
    (\<forall>v n ref s us. jget (nodes_map d) v = Some n \<longrightarrow> ref \<in> set (references (node_jv n)) \<longrightarrow>
       steps_ref ref = Some s \<longrightarrow> way us v \<longrightarrow> s \<in> set us) \<and>
    json_length (definition_jv d) \<le> 64000)"
proof -
  obtain xs where xs: "definition_issues d = Some xs" using definition_issues_total by blast
  have connected: "well_connected (nodes_map d) (wn_id first) \<longleftrightarrow>
      (\<forall>u v. step_edge (nodes_map d) u v \<longrightarrow> v \<in> set (map wn_id (wd_nodes d))) \<and>
      (\<forall>us v. way us v \<longrightarrow> v \<notin> set us) \<and> (\<forall>v \<in> set (map wn_id (wd_nodes d)). \<exists>us. way us v)"
    unfolding well_connected_def closed_steps_def no_cycle_def reachable_step_def nodes_map_keys way_def ..
  have results: "results_available (nodes_map d) (wn_id first) \<longleftrightarrow>
      (\<forall>v n ref s us. jget (nodes_map d) v = Some n \<longrightarrow> ref \<in> set (references (node_jv n)) \<longrightarrow>
       steps_ref ref = Some s \<longrightarrow> way us v \<longrightarrow> s \<in> set us)"
    unfolding results_available_def refs_available_def always_before_def way_def by blast
  show ?thesis
    using definition_issues_exact [OF assms(1)] xs unfolding connected results by simp
qed

theorem definition_checks_exact_witness:
  "definition_issues sample_definition = Some [] \<and> \<not> wpath (nodes_map sample_definition) ''a'' [''b''] ''c''"
proof -
  have first: "wd_nodes sample_definition = step_a # [step_b, step_c]" and a: "wn_id step_a = ''a''"
    by (simp_all add: sample_definition_def step_a_def)
  obtain xs where xs: "definition_issues sample_definition = Some xs" and iff: "xs = [] \<longleftrightarrow>
    positions_known sample_definition \<and> distinct (map wn_id (wd_nodes sample_definition)) \<and>
    (\<forall>u v. step_edge (nodes_map sample_definition) u v \<longrightarrow> v \<in> set (map wn_id (wd_nodes sample_definition))) \<and>
    (\<forall>us v. wpath (nodes_map sample_definition) ''a'' us v \<longrightarrow> v \<notin> set us) \<and>
    (\<forall>v \<in> set (map wn_id (wd_nodes sample_definition)). \<exists>us. wpath (nodes_map sample_definition) ''a'' us v) \<and>
    (\<forall>v n ref s us. jget (nodes_map sample_definition) v = Some n \<longrightarrow> ref \<in> set (references (node_jv n)) \<longrightarrow>
       steps_ref ref = Some s \<longrightarrow> wpath (nodes_map sample_definition) ''a'' us v \<longrightarrow> s \<in> set us) \<and>
    json_length (definition_jv sample_definition) \<le> 64000"
    using definition_checks_exact [OF first] unfolding a by blast
  have "xs = []" using xs sample_issues by simp
  then have refs: "jget (nodes_map sample_definition) v = Some n \<Longrightarrow> ref \<in> set (references (node_jv n)) \<Longrightarrow>
       steps_ref ref = Some s \<Longrightarrow> wpath (nodes_map sample_definition) ''a'' us v \<Longrightarrow> s \<in> set us" for v n ref s us
    using iff by blast
  have "\<not> wpath (nodes_map sample_definition) ''a'' [''b''] ''c''"
    using refs [of "''c''" step_c "''steps.a.x''" "''a''" "[''b'']"] by (auto simp: sample_nodes sample_refs sample_steps_ref)
  with sample_issues show ?thesis by simp
qed

section \<open>Executions\<close>

text \<open>C25: Whatever workers and users do, an execution keeps its history: its jobs are numbered
  from 0, are of distinct steps along one way through its definition that leads to the step it
  stands at, and its results are exactly the outputs of its jobs; of a checked definition it
  has at most 50.\<close>
theorem execution_history:
  assumes "empty_db db0" "nsteps db0 db" "r \<in> set (nd_runs db)"
  defines "js \<equiv> jobs_of r db"
  shows "\<exists>d. run_definition r db = Some d \<and> history_path d (map jb_node js) (xr_node r) \<and>
    distinct (map jb_node js) \<and> map jb_sequence js = [0..<length js] \<and>
    context_steps (xr_context r) = map (\<lambda>j. (jb_node j, jb_output j)) js \<and>
    (definition_ok uuid datetime d \<longrightarrow> length js \<le> 50)"
proof -
  have "history_ok db r" using native_inv_row [OF reachable_inv [OF assms(1,2)] assms(3)] by simp
  then obtain d where d: "run_definition r db = Some d" "history_path d (map jb_node js) (xr_node r)"
    "distinct (map jb_node js)" "map jb_sequence js = [0..<length js]"
    "context_steps (xr_context r) = map (\<lambda>j. (jb_node j, jb_output j)) js"
    unfolding history_ok_def js_def by blast
  have "length js \<le> 50" if ok: "definition_ok uuid datetime d"
    using history_length [OF ok d(2,3)] by simp
  with d show ?thesis by blast
qed


theorem execution_history_witness:
  "sample_stepped \<noteq> sample_db \<and> map jb_sequence (jobs_of (advance sample_closing sample_claim) sample_stepped) =
     [0..<length (jobs_of (advance sample_closing sample_claim) sample_stepped)]"
proof -
  have "advance sample_closing sample_claim \<in> set (nd_runs sample_stepped)" by (simp add: sample_stepped_eq)
  from execution_history [OF sample_empty sample_stepped_reached this]
  have "map jb_sequence (jobs_of (advance sample_closing sample_claim) sample_stepped) =
     [0..<length (jobs_of (advance sample_closing sample_claim) sample_stepped)]" by blast
  moreover have "nd_jobs sample_stepped \<noteq> nd_jobs sample_db" by (simp add: sample_stepped_eq sample_db_def)
  ultimately show ?thesis by auto
qed

text \<open>C26: When an execution of a checked definition stands at a step that has no text under the
  key \<open>ref\<close>, every reference of the step's values to the result of another step reads the
  output of that step's job; it fails at most inside that output.\<close>
theorem results_available_at_step:
  assumes "empty_db db0" "nsteps db0 db" "r \<in> set (nd_runs db)" "xr_node r = Some i"
    and "run_definition r db = Some d" "definition_ok uuid datetime d" "find_step d (Some i) = Some n"
    and "no_text_ref n" "v \<in> set (step_values n)" "ref \<in> set (wrefs v)" "split_dots ref = ''steps'' # s # rest"
  shows "\<exists>j \<in> set (jobs_of r db). jb_node j = s \<and>
    resolveWorkflowValue (xr_context r) (WvRef ref) = lookup_path ref rest (jb_output j)"
proof -
  have "history_ok db r" using native_inv_row [OF reachable_inv [OF assms(1,2)] assms(3)] by simp
  then have h: "history_path d (map jb_node (jobs_of r db)) (Some i)" "distinct (map jb_node (jobs_of r db))"
      "context_steps (xr_context r) = map (\<lambda>j. (jb_node j, jb_output j)) (jobs_of r db)"
    using assms(4,5) unfolding history_ok_def by auto
  have n: "jget (nodes_map d) i = Some n" using find_node_map [OF assms(6,7)] by simp
  have "steps_ref ref = Some s" using assms(11) by (simp add: steps_ref_def)
  then have "s \<in> set (map jb_node (jobs_of r db))"
    using history_before [OF assms(6) h(1) n references_seen [OF assms(8-10)]] by simp
  then obtain j where j: "j \<in> set (jobs_of r db)" "jb_node j = s" by auto
  have "s \<in> set (map wn_id (wd_nodes d))" using history_path_keys [OF h(1) assms(6)] j by auto
  then have "safePart s" using definition_keys_safe [OF assms(6)] by blast
  with j h(2,3) assms(11) show ?thesis using result_read by blast
qed

theorem results_available_at_step_witness:
  "resolveWorkflowValue (xr_context (advance sample_closing sample_claim)) (WvRef ''steps.a.x'') = Inr (JStr ''1'')"
proof -
  let ?r = "advance sample_closing sample_claim"
  have r: "?r \<in> set (nd_runs sample_stepped)" "xr_node ?r = Some ''b''"
    by (simp_all add: sample_stepped_eq advance_def sample_closing_def)
  have d: "run_definition ?r sample_stepped = Some sample_definition"
    using sample_lookup by (simp add: run_definition_def sample_stepped_eq sample_claimed_def sample_db_def advance_def sample_claim_fields)
  have n: "find_step sample_definition (Some ''b'') = Some step_b" "no_text_ref step_b"
    "WvRef ''steps.a.x'' \<in> set (step_values step_b)" "''steps.a.x'' \<in> set (wrefs (WvRef ''steps.a.x''))"
    "split_dots ''steps.a.x'' = ''steps'' # ''a'' # [''x'']"
    by (simp_all add: find_step_def sample_definition_def step_a_def step_b_def no_text_ref_def step_values_def)
  obtain j where j: "j \<in> set (jobs_of ?r sample_stepped)"
    "resolveWorkflowValue (xr_context ?r) (WvRef ''steps.a.x'') = lookup_path ''steps.a.x'' [''x''] (jb_output j)"
    using results_available_at_step [OF sample_empty sample_stepped_reached r d sample_ok n] by blast
  have "nd_jobs sample_stepped = [fs_job sample_closing]" by (simp add: sample_stepped_eq)
  then have "j = fs_job sample_closing" using j(1) by (simp add: jobs_of_def split: if_splits)
  then have "jb_output j = JObj [(''x'', JStr ''1'')]" by (simp add: sample_closing_def)
  with j(2) show ?thesis by (simp add: safePart_def)
qed

text \<open>C27: A claimed execution, a cancel, a retry, a manual start and the schedule change the
  tables by the transactions of the step relation only, whatever steps others make in between.\<close>
theorem native_service_steps:
  assumes "env_steps env" "others_step itf" "(token, run) \<in> set (nd_claims db)"
  shows "nsteps db (snd (process_run env run token now db)) \<and> nsteps db (snd (cancel ws i itf db)) \<and>
    nsteps db (snd (retry ws i itf db)) \<and> nsteps db (snd (start env x ws i data initiator key itf db)) \<and>
    nsteps db (snd (schedule env ids itf now db))"
  using process_run_steps [OF assms(1,3)] cancel_steps [OF assms(2)] retry_steps [OF assms(2)]
    start_steps [OF assms(2)] schedule_steps [OF assms(2)] by blast

theorem native_service_steps_witness:
  "sample_stepped \<noteq> sample_claimed \<and> nsteps sample_claimed sample_stepped"
proof -
  have "others_step (\<lambda>k db. db)" "(''t'', sample_claim) \<in> set (nd_claims sample_claimed)"
    by (simp_all add: others_step_def sample_claimed_def)
  from native_service_steps [OF sample_env_steps this] have "nsteps sample_claimed sample_stepped"
    unfolding sample_stepped_def by blast
  moreover have "nd_jobs sample_stepped \<noteq> nd_jobs sample_claimed" by (simp add: sample_stepped_eq sample_claimed_def sample_db_def)
  ultimately show ?thesis by auto
qed

section \<open>Turns of the worker\<close>

text \<open>C28: A worker that no longer holds the lease of its execution, because another worker took it
  over or a user cancelled, changes nothing, whatever others do meanwhile short of giving the lease
  back: in any set of tables without its lease that the others do not leave, its turn ends in a
  table that only the others made, and if they do nothing, in the table it started from. It may
  still call the policy: when one is bound, admits the run and lets it take a step, and the step is
  a plain one (no record is created or updated, no webhook called) that would have succeeded, the
  worker releases the reservation of the execution as finished.\<close>
theorem lost_lease_harmless:
  assumes "lease_lost P run token" "db \<in> P" "stays_in P (ne_itf env)" "stays_in P (hk_itf (ne_webhook env))"
  shows "snd (process_run env run token now db) \<in> P \<and>
    ((\<forall>k. ne_itf env k db = db \<and> hk_itf (ne_webhook env) k db = db) \<longrightarrow> snd (process_run env run token now db) = db) \<and>
    (runnable env run d db \<longrightarrow> step_ready env run now d p f \<longrightarrow> ne_policy env = Some pol \<longrightarrow>
     np_admit pol = Inr (True, reason) \<longrightarrow> np_consume pol = None \<longrightarrow>
     fst (process_run env run token now db) = [CallAdmit, CallConsume, CallRelease True])"
proof -
  have "snd (process_run env run token now db) = db"
    if "\<forall>k. ne_itf env k db = db \<and> hk_itf (ne_webhook env) k db = db"
    using no_lease_process [of "{db}" run token env db now] that lease_lostD [OF assms(1,2)]
    by (simp add: lease_lost_def stays_in_def)
  then show ?thesis
    using no_lease_process [OF assms(1,3,4,2)] no_lease_calls [OF lease_lostD [OF assms(1) stays_inD [OF assms(3,2)]]]
    by blast
qed

theorem lost_lease_harmless_witness:
  "process_run (native_sample_env (Some metered)) sample_claim ''old'' 2000 sample_claimed =
     ([CallAdmit, CallConsume, CallRelease True], sample_claimed)"
proof -
  have no: "\<not> has_lease sample_claim ''old'' sample_claimed"
    by (simp add: has_lease_def sample_claimed_def holds_lease_def sample_claim_fields)
  have v: "nd_versions sample_claimed = [sample_version]" by (simp add: sample_claimed_def sample_db_def)
  have lost: "lease_lost {sample_claimed} sample_claim ''old''" using no by (simp add: lease_lost_def)
  have stay: "stays_in {sample_claimed} (ne_itf (native_sample_env (Some metered)))"
    "stays_in {sample_claimed} (hk_itf (ne_webhook (native_sample_env (Some metered))))"
    by (simp_all add: stays_in_def sample_env_fields)
  note all = lost_lease_harmless [where env = "native_sample_env (Some metered)" and now = 2000, OF lost singletonI stay]
  have m: "np_admit metered = Inr (True, None)" "np_consume metered = None" by (simp_all add: metered_def)
  have "snd (process_run (native_sample_env (Some metered)) sample_claim ''old'' 2000 sample_claimed) = sample_claimed"
    using conjunct1 [OF all] by simp
  moreover have "fst (process_run (native_sample_env (Some metered)) sample_claim ''old'' 2000 sample_claimed) =
      [CallAdmit, CallConsume, CallRelease True]"
    by (rule conjunct2 [OF conjunct2 [OF all], rule_format, OF sample_runnable [OF v] sample_step_ready sample_env_fields(6) m])
  ultimately show ?thesis by (simp add: prod_eq_iff)
qed

text \<open>C29: An execution that the policy refuses for good is not blocked with the reason: the
  statement binds null to a column that is not null, so its error is handled as a failure of the
  step. The execution is queued again while it had fewer than three attempts, and fails with the
  text of the constraint after that.\<close>
theorem refused_not_blocked:
  assumes "runnable env run d db" "\<And>k. ne_itf env k db = db" "ne_policy env = Some p"
    and "np_admit p = Inr (False, reason)" "\<not> deferred reason"
    and "list_ex (running_lease run token) (nd_runs db)"
    and "e = \<lparr>th_text = ne_texts env ''workflow_executions.wake_at'', th_status = 0\<rparr>"
    and "\<not> permanent_quota e" "\<not> policy_unavailable e"
  shows "process_run env run token now db = ([CallAdmit], update_runs (running_lease run token)
    (\<lambda>r. r\<lparr>xr_status := if xr_attempts run < 3 then SQueued else SFailed, xr_error := Some (take 1000 (th_text e)),
       xr_wake := now + int (xr_attempts run) * 5000, xr_attempts := xr_attempts run, xr_token := None\<rparr>) db)"
  using assms by (rule refused_process)

theorem refused_not_blocked_witness:
  "map xr_status (nd_runs (snd (process_run (native_sample_env (Some refusing)) sample_claim ''t'' 2000 sample_claimed))) = [SQueued]"
proof -
  let ?e = "\<lparr>th_text = ne_texts (native_sample_env (Some refusing)) ''workflow_executions.wake_at'', th_status = 0\<rparr>"
  have v: "nd_versions sample_claimed = [sample_version]" by (simp add: sample_claimed_def sample_db_def)
  have p: "np_admit refusing = Inr (False, Some ''Daily execution limit reached'')" by (simp add: refusing_def)
  have final: "\<not> deferred (Some ''Daily execution limit reached'')"
    by (simp add: deferred_def defer_indefinitely_def mentions_def js_lower_def lower_char_def)
  have held: "list_ex (running_lease sample_claim ''t'') (nd_runs sample_claimed)"
    by (simp add: sample_claimed_def running_lease_def holds_lease_def same_run_def is_run_def sample_claim_fields)
  have msg: "\<not> permanent_quota ?e" "\<not> policy_unavailable ?e"
    by (simp_all add: permanent_quota_def policy_unavailable_def mentions_def sample_env_fields no_texts_def
        js_lower_def lower_char_def)
  show ?thesis
    using refused_not_blocked [where now = 2000, OF sample_runnable [OF v] sample_env_fields(7,6) p final held refl msg]
    by (simp add: sample_claimed_def running_lease_def holds_lease_def same_run_def is_run_def sample_claim_fields)
qed

end
