(* ===== verification/Access_Policy.thy ===== *)
theory Access_Policy
  imports Js_Value "HOL-Library.Char_ord" "HOL-Library.List_Lexorder"
begin

text \<open>
  Access policies of the collections: \<open>packages/studio-shared/src/access-control.ts\<close> (the
  types and the bounds of their schemas) and \<open>access-evaluator.ts\<close> (which grants cover a
  record, what of it they show and which writes they allow). Names inherited from
  \<open>Object.prototype\<close> are read as absent.
\<close>

section \<open>Types\<close>

datatype scalar = ScStr string | ScNum rat | ScBool bool | ScNull

datatype access_scope = Platform | Tenant nat

datatype access_action =
    ActRead | ActCreate | ActUpdate | ActDelete | ActRestore | ActImport | ActExport
  | ActExecute | ActConfigure | ActManage

datatype operand = Literal scalar | PrincipalId | TenantId

datatype compare_op = CmpEq | CmpLt | CmpLte | CmpGt | CmpGte

datatype predicate =
    PAll bool
  | PAnd "predicate list"
  | POr "predicate list"
  | PCompare string compare_op operand
  | PIn string "operand list"

record access_grant =
  ag_id :: string
  ag_role :: string
  ag_resource :: string
  ag_action :: access_action
  ag_predicate :: predicate
  ag_fields :: "string list"

record access_policy =
  ap_principal :: string
  ap_scope :: access_scope
  ap_revision :: nat
  ap_grants :: "access_grant list"

record access_record =
  ar_id :: string
  ar_createdBy :: "string option"
  ar_values :: "jv jmap"

record access_decision =
  ad_allowed :: bool
  ad_fields :: "string list"
  ad_grantIds :: "string list"

definition denied :: access_decision where
  "denied = \<lparr>ad_allowed = False, ad_fields = [], ad_grantIds = []\<rparr>"

definition protectedAccessFields :: "string list" where
  "protectedAccessFields = [''id'', ''tenant_id'', ''tenantId'', ''agency_id'', ''created_by'', ''createdBy'',
     ''$createdBy'', ''created_at'', ''updated_at'', ''deleted_at'', ''_version'', ''__proto__'',
     ''prototype'', ''constructor'']"

section \<open>The bounds of a predicate\<close>

text \<open>
  The schema bounds a predicate before it parses it: the number of its nodes, their depth and
  the number of children of each. \<open>pending\<close> is the code's stack, its top last; a predicate
  that is a tree never repeats an object. Each turn takes one node, so the code stops after at
  most 201 turns: \<open>fuel\<close> is what is left of them.
\<close>

fun children :: "predicate \<Rightarrow> predicate list" where
  "children (PAnd ps) = ps"
| "children (POr ps) = ps"
| "children _ = []"

fun bounded_scan :: "nat \<Rightarrow> nat \<Rightarrow> (predicate \<times> nat) list \<Rightarrow> bool" where
  "bounded_scan 0 nodes pending = False"
| "bounded_scan (Suc fuel) nodes [] = True"
| "bounded_scan (Suc fuel) nodes (p # pending) =
     (let (v, depth) = last (p # pending) in
      if 200 < nodes + 1 \<or> 16 < depth then False
      else if 200 < length (children v) then False
      else bounded_scan fuel (nodes + 1) (butlast (p # pending) @ map (\<lambda>c. (c, depth + 1)) (children v)))"

definition bounded_predicate :: "predicate \<Rightarrow> bool" where
  "bounded_predicate p = bounded_scan 202 0 [(p, 1)]"

text \<open>The scan accepts exactly the predicates of at most 200 nodes and 16 levels.\<close>

fun node_count :: "predicate \<Rightarrow> nat" where
  "node_count (PAnd ps) = 1 + sum_list (map node_count ps)"
| "node_count (POr ps) = 1 + sum_list (map node_count ps)"
| "node_count _ = 1"

fun nested_in :: "nat \<Rightarrow> predicate \<Rightarrow> bool" where
  "nested_in 0 p = False"
| "nested_in (Suc d) (PAnd ps) = list_all (nested_in d) ps"
| "nested_in (Suc d) (POr ps) = list_all (nested_in d) ps"
| "nested_in (Suc d) _ = True"

lemma node_count_children: "node_count p = 1 + sum_list (map node_count (children p))"
  by (cases p) simp_all

lemma nested_children: "nested_in (Suc d) p \<longleftrightarrow> list_all (nested_in d) (children p)"
  by (cases p) simp_all

lemma length_counts: "length ps \<le> sum_list (map node_count ps)"
  by (induction ps) (simp_all add: node_count_children)

lemma bounded_scan_exact:
  assumes "200 - nodes < fuel" "nodes \<le> 200" "list_all (\<lambda>(p, d). 1 \<le> d) pending" "201 < fuel + nodes"
  shows "bounded_scan fuel nodes pending \<longleftrightarrow>
    nodes + sum_list (map (node_count \<circ> fst) pending) \<le> 200 \<and> list_all (\<lambda>(p, d). nested_in (17 - d) p) pending"
  using assms
proof (induction fuel arbitrary: nodes pending)
  case (Suc fuel)
  show ?case
  proof (cases pending rule: rev_cases)
    case Nil
    with Suc.prems show ?thesis by simp
  next
    case (snoc rest x)
    obtain v d where x: "x = (v, d)" by (cases x)
    have d: "1 \<le> d" using Suc.prems snoc x by simp
    obtain y ys where c: "pending = y # ys" using snoc by (metis neq_Nil_conv snoc_eq_iff_butlast)
    have ends: "last (y # ys) = (v, d)" "butlast (y # ys) = rest" using snoc x c by (metis last_snoc, metis butlast_snoc)
    have step: "bounded_scan (Suc fuel) nodes pending \<longleftrightarrow> nodes + 1 \<le> 200 \<and> d \<le> 16 \<and> length (children v) \<le> 200 \<and>
        bounded_scan fuel (nodes + 1) (rest @ map (\<lambda>c. (c, d + 1)) (children v))"
      unfolding c bounded_scan.simps ends Let_def prod.case by auto
    have total: "sum_list (map (node_count \<circ> fst) pending) = sum_list (map (node_count \<circ> fst) rest) + node_count v"
      using snoc x by simp
    have nest: "nested_in (17 - d) v \<longleftrightarrow> list_all (nested_in (16 - d)) (children v)" if "d \<le> 16"
    proof -
      have "17 - d = Suc (16 - d)" using that by simp
      with nested_children [of "16 - d" v] show ?thesis by (simp only:)
    qed
    show ?thesis
    proof (cases "nodes + 1 \<le> 200 \<and> d \<le> 16")
      case False
      have "0 < node_count v" by (simp add: node_count_children)
      moreover have "\<not> nested_in (17 - d) v" if "\<not> d \<le> 16" using that by simp
      ultimately show ?thesis unfolding step total using False snoc x by auto
    next
      case True
      have IH: "bounded_scan fuel (nodes + 1) (rest @ map (\<lambda>c. (c, d + 1)) (children v)) \<longleftrightarrow>
          nodes + 1 + sum_list (map (node_count \<circ> fst) (rest @ map (\<lambda>c. (c, d + 1)) (children v))) \<le> 200 \<and>
          list_all (\<lambda>(p, d). nested_in (17 - d) p) (rest @ map (\<lambda>c. (c, d + 1)) (children v))"
        using Suc.prems True snoc by (intro Suc.IH) (auto simp: list_all_iff)
      have sum: "sum_list (map (node_count \<circ> fst) (map (\<lambda>c. (c, d + 1)) (children v))) = sum_list (map node_count (children v))"
        by (simp add: o_def)
      have nests: "list_all (\<lambda>(p, d). nested_in (17 - d) p) (rest @ map (\<lambda>c. (c, d + 1)) (children v)) \<longleftrightarrow>
          list_all (\<lambda>(p, d). nested_in (17 - d) p) pending"
        using True nest snoc x by (simp add: list.pred_map o_def)
      have "length (children v) \<le> sum_list (map node_count (children v))" by (rule length_counts)
      then show ?thesis unfolding step IH total nests
        map_append sum_list_append sum node_count_children [of v]
        using True by auto
    qed
  qed
qed simp

lemma bounded_predicate_exact: "bounded_predicate p \<longleftrightarrow> node_count p \<le> 200 \<and> nested_in 16 p"
  using bounded_scan_exact [of 0 202 "[(p, 1)]"] by (simp add: bounded_predicate_def numeral_eq_Suc)

section \<open>Evaluation\<close>

definition scalar_jv :: "scalar \<Rightarrow> jv" where
  "scalar_jv s = (case s of ScStr t \<Rightarrow> JStr t | ScNum n \<Rightarrow> JNum (Fin n) | ScBool b \<Rightarrow> JBool b | ScNull \<Rightarrow> JNull)"

definition operand_value :: "operand \<Rightarrow> access_policy \<Rightarrow> scalar" where
  "operand_value v pol = (case v of
     Literal s \<Rightarrow> s
   | PrincipalId \<Rightarrow> ScStr (ap_principal pol)
   | TenantId \<Rightarrow> (case ap_scope pol of Tenant n \<Rightarrow> ScNum (of_nat n) | Platform \<Rightarrow> ScNull))"

text \<open>\<open>TextEncoder\<close> on the code units of the model, and the comparison of the bytes.\<close>

definition utf8 :: "string \<Rightarrow> nat list" where
  "utf8 s = concat (map (\<lambda>c. let n = of_char c in if n < 128 then [n] else [192 + n div 64, 128 + n mod 64]) s)"

fun compare_bytes :: "nat list \<Rightarrow> nat list \<Rightarrow> int" where
  "compare_bytes (a # xs) (b # ys) = (if a \<noteq> b then int a - int b else compare_bytes xs ys)"
| "compare_bytes xs ys = int (length xs) - int (length ys)"

definition compareStrings :: "string \<Rightarrow> string \<Rightarrow> int" where
  "compareStrings a b = compare_bytes (utf8 a) (utf8 b)"

text \<open>The value a predicate looks at; an absent one is null.\<close>

definition field_value :: "string \<Rightarrow> access_record \<Rightarrow> jv" where
  "field_value f r =
     (if f = ''$createdBy'' then (case ar_createdBy r of None \<Rightarrow> JNull | Some s \<Rightarrow> JStr s)
      else (case jget (ar_values r) f of None \<Rightarrow> JNull | Some JUndef \<Rightarrow> JNull | Some v \<Rightarrow> v))"

text \<open>The comparison of two values against zero: \<open>None\<close> when the code compares \<open>NaN\<close>
  or does not compare at all.\<close>

fun order_ok :: "compare_op \<Rightarrow> int \<Rightarrow> bool" where
  "order_ok CmpLt c = (c < 0)"
| "order_ok CmpLte c = (c \<le> 0)"
| "order_ok CmpGt c = (0 < c)"
| "order_ok CmpGte c = (0 \<le> c)"
| "order_ok CmpEq c = False"

fun number_order :: "jnum \<Rightarrow> rat \<Rightarrow> int option" where
  "number_order (Fin a) b = Some (if a < b then -1 else if a = b then 0 else 1)"
| "number_order PInf b = Some 1"
| "number_order NInf b = Some (-1)"
| "number_order NaN b = None"

fun compared :: "jv \<Rightarrow> scalar \<Rightarrow> int option" where
  "compared (JNum a) (ScNum b) = number_order a b"
| "compared (JStr a) (ScStr b) = Some (compareStrings a b)"
| "compared _ _ = None"

definition compare_values :: "compare_op \<Rightarrow> jv \<Rightarrow> scalar \<Rightarrow> bool" where
  "compare_values op l r =
     (if op = CmpEq then strict_eq l (scalar_jv r)
      else (case compared l r of None \<Rightarrow> False | Some c \<Rightarrow> order_ok op c))"

fun matchesPredicate :: "predicate \<Rightarrow> access_policy \<Rightarrow> access_record \<Rightarrow> bool" where
  "matchesPredicate (PAll b) pol r = b"
| "matchesPredicate (PAnd ps) pol r = (ps \<noteq> [] \<and> list_all (\<lambda>p. matchesPredicate p pol r) ps)"
| "matchesPredicate (POr ps) pol r = list_ex (\<lambda>p. matchesPredicate p pol r) ps"
| "matchesPredicate (PIn f vs) pol r = list_ex (\<lambda>v. strict_eq (field_value f r) (scalar_jv (operand_value v pol))) vs"
| "matchesPredicate (PCompare f op v) pol r = compare_values op (field_value f r) (operand_value v pol)"

section \<open>Decisions\<close>

definition decision :: "access_grant list \<Rightarrow> access_decision" where
  "decision gs = \<lparr>ad_allowed = (0 < length gs), ad_fields = sort (js_set (concat (map ag_fields gs))),
     ad_grantIds = sort (js_set (map ag_id gs))\<rparr>"

definition decideRecord :: "access_policy \<Rightarrow> string \<Rightarrow> access_action \<Rightarrow> access_record \<Rightarrow> access_decision" where
  "decideRecord pol resource action r = decision (filter (\<lambda>g. ag_resource g = resource \<and> ag_action g = action
     \<and> matchesPredicate (ag_predicate g) pol r) (ap_grants pol))"

definition projectRecord :: "access_record \<Rightarrow> access_decision \<Rightarrow> access_record" where
  "projectRecord r d = \<lparr>ar_id = ar_id r, ar_createdBy = ar_createdBy r,
     ar_values = jmap_of_list (if ad_allowed d
       then map (\<lambda>f. (f, read_prop (ar_values r) f)) (filter (has_own (ar_values r)) (ad_fields d)) else [])\<rparr>"

definition values_of :: "access_record option \<Rightarrow> jv jmap" where
  "values_of r = (case r of None \<Rightarrow> [] | Some x \<Rightarrow> ar_values x)"

text \<open>\<open>Object.keys({...before, ...after})\<close> whose JSON differs.\<close>

definition json_changed :: "jv jmap \<Rightarrow> jv jmap \<Rightarrow> string \<Rightarrow> bool" where
  "json_changed m m' k \<longleftrightarrow> json_units (read_prop m k) \<noteq> json_units (read_prop m' k)"

definition actual_changes :: "jv jmap \<Rightarrow> jv jmap \<Rightarrow> string list" where
  "actual_changes m m' = filter (json_changed m m') (js_set (jkeys m @ jkeys m'))"

definition decideWrite :: "access_policy \<Rightarrow> string \<Rightarrow> access_action \<Rightarrow> access_record option \<Rightarrow> access_record
    \<Rightarrow> string list \<Rightarrow> access_decision" where
  "decideWrite pol resource action before aft changedFields =
     (if (if action = ActCreate then before \<noteq> None \<or> ar_createdBy aft \<noteq> Some (ap_principal pol)
          else (case before of None \<Rightarrow> True
            | Some b \<Rightarrow> ar_id b \<noteq> ar_id aft \<or> ar_createdBy b \<noteq> ar_createdBy aft))
      then denied
      else (let fields = js_set (changedFields @ actual_changes (values_of before) (ar_values aft)) in
        if list_ex (\<lambda>f. f \<in> set protectedAccessFields) fields then denied
        else decision (filter (\<lambda>g. ag_resource g = resource \<and> ag_action g = action
            \<and> list_all (\<lambda>f. f \<in> set (ag_fields g)) fields
            \<and> matchesPredicate (ag_predicate g) pol aft
            \<and> (case before of None \<Rightarrow> True | Some b \<Rightarrow> matchesPredicate (ag_predicate g) pol b))
          (ap_grants pol))))"

section \<open>What an allowed write keeps\<close>

lemma decision_allowed [simp]: "ad_allowed (decision gs) \<longleftrightarrow> gs \<noteq> []"
  by (simp add: decision_def)

lemma decision_fields [simp]: "set (ad_fields (decision gs)) = (\<Union>g \<in> set gs. set (ag_fields g))"
  by (simp add: decision_def)

lemma denied_simps [simp]: "\<not> ad_allowed denied" "ad_fields denied = []"
  by (simp_all add: denied_def)

lemma changed_listed: "json_changed m m' f \<Longrightarrow> f \<in> set (actual_changes m m')"
proof -
  assume c: "json_changed m m' f"
  then have "f \<in> set (jkeys m) \<or> f \<in> set (jkeys m')"
    unfolding json_changed_def read_prop_def by (metis jget_None_iff)
  with c show ?thesis by (simp add: actual_changes_def)
qed

lemma unchanged_trans: "\<not> json_changed a b f \<Longrightarrow> \<not> json_changed b c f \<Longrightarrow> \<not> json_changed a c f"
  by (simp add: json_changed_def)

text \<open>One grant covers an allowed update as a whole.\<close>

lemma update_granted:
  assumes "ad_allowed (decideWrite pol resource ActUpdate (Some b) a changed)"
  obtains g where "g \<in> set (ap_grants pol)" "ag_resource g = resource" "ag_action g = ActUpdate"
    "matchesPredicate (ag_predicate g) pol b" "matchesPredicate (ag_predicate g) pol a"
    "\<And>f. f \<in> set changed \<or> json_changed (ar_values b) (ar_values a) f \<Longrightarrow> f \<in> set (ag_fields g) \<and> f \<notin> set protectedAccessFields"
    "ar_id a = ar_id b" "ar_createdBy a = ar_createdBy b"
proof -
  let ?fs = "js_set (changed @ actual_changes (ar_values b) (ar_values a))"
  have same: "ar_id b = ar_id a" "ar_createdBy b = ar_createdBy a"
    using assms by (auto simp: decideWrite_def split: if_splits)
  have free: "\<not> list_ex (\<lambda>f. f \<in> set protectedAccessFields) ?fs"
    using assms by (auto simp: decideWrite_def values_of_def Let_def split: if_splits)
  obtain g where g: "g \<in> set (ap_grants pol)" "ag_resource g = resource" "ag_action g = ActUpdate"
    "list_all (\<lambda>f. f \<in> set (ag_fields g)) ?fs" "matchesPredicate (ag_predicate g) pol a" "matchesPredicate (ag_predicate g) pol b"
    using assms same free by (auto simp: decideWrite_def values_of_def Let_def filter_empty_conv)
  have "f \<in> set (ag_fields g) \<and> f \<notin> set protectedAccessFields"
    if "f \<in> set changed \<or> json_changed (ar_values b) (ar_values a) f" for f
  proof -
    have "f \<in> set ?fs" using that changed_listed by auto
    with g(4) free show ?thesis by (auto simp: list_all_iff list_ex_iff)
  qed
  with that g same show ?thesis by metis
qed

lemma create_owned:
  "ad_allowed (decideWrite pol resource ActCreate before a changed) \<Longrightarrow>
     before = None \<and> ar_createdBy a = Some (ap_principal pol)"
  by (auto simp: decideWrite_def split: if_splits)

text \<open>Updates one after the other, each allowed on what the one before it left.\<close>

fun allowed_updates :: "access_policy \<Rightarrow> string \<Rightarrow> access_record \<Rightarrow> (access_record \<times> string list) list \<Rightarrow> bool" where
  "allowed_updates pol resource r [] = True"
| "allowed_updates pol resource r ((a, changed) # ws) =
     (ad_allowed (decideWrite pol resource ActUpdate (Some r) a changed) \<and> allowed_updates pol resource a ws)"

definition last_record :: "access_record \<Rightarrow> (access_record \<times> string list) list \<Rightarrow> access_record" where
  "last_record r ws = (if ws = [] then r else fst (last ws))"

definition update_granted_field :: "access_policy \<Rightarrow> string \<Rightarrow> string \<Rightarrow> bool" where
  "update_granted_field pol resource f \<longleftrightarrow> f \<notin> set protectedAccessFields \<and>
     (\<exists>g \<in> set (ap_grants pol). ag_resource g = resource \<and> ag_action g = ActUpdate \<and> f \<in> set (ag_fields g))"

lemma last_record_Cons: "last_record r ((a, c) # ws) = last_record a ws"
  by (simp add: last_record_def)

lemma updates_keep:
  assumes "allowed_updates pol resource r ws"
  shows "ar_id (last_record r ws) = ar_id r \<and> ar_createdBy (last_record r ws) = ar_createdBy r \<and>
    (\<forall>f. json_changed (ar_values r) (ar_values (last_record r ws)) f \<longrightarrow> update_granted_field pol resource f)"
  using assms
proof (induction ws arbitrary: r)
  case Nil
  then show ?case by (simp add: last_record_def json_changed_def)
next
  case (Cons w ws)
  obtain a c where w: "w = (a, c)" by (cases w)
  with Cons.prems have one: "ad_allowed (decideWrite pol resource ActUpdate (Some r) a c)"
    and rest: "allowed_updates pol resource a ws" by simp_all
  obtain g where g: "g \<in> set (ap_grants pol)" "ag_resource g = resource" "ag_action g = ActUpdate"
    "\<And>f. f \<in> set c \<or> json_changed (ar_values r) (ar_values a) f \<Longrightarrow> f \<in> set (ag_fields g) \<and> f \<notin> set protectedAccessFields"
    "ar_id a = ar_id r" "ar_createdBy a = ar_createdBy r"
    using update_granted [OF one] by metis
  note IH = Cons.IH [OF rest]
  have "update_granted_field pol resource f" if "json_changed (ar_values r) (ar_values (last_record a ws)) f" for f
  proof (cases "json_changed (ar_values r) (ar_values a) f")
    case True
    with g show ?thesis by (auto simp: update_granted_field_def)
  next
    case False
    with that unchanged_trans have "json_changed (ar_values a) (ar_values (last_record a ws)) f" by blast
    with IH show ?thesis by blast
  qed
  with IH g(5,6) show ?case by (simp add: w last_record_Cons)
qed

lemma updates_covered:
  assumes "allowed_updates pol resource r ws" "ws \<noteq> []"
  shows "\<exists>g \<in> set (ap_grants pol). ag_resource g = resource \<and> ag_action g = ActUpdate \<and>
    matchesPredicate (ag_predicate g) pol (last_record r ws)"
  using assms
proof (induction ws arbitrary: r)
  case (Cons w ws)
  obtain a c where w: "w = (a, c)" by (cases w)
  show ?case
  proof (cases "ws = []")
    case True
    with w Cons.prems have "ad_allowed (decideWrite pol resource ActUpdate (Some r) a c)" by simp
    then obtain g where "g \<in> set (ap_grants pol)" "ag_resource g = resource" "ag_action g = ActUpdate"
      "matchesPredicate (ag_predicate g) pol a" using update_granted by metis
    with True w show ?thesis by (auto simp: last_record_def)
  next
    case False
    with w Cons show ?thesis by (simp add: last_record_Cons)
  qed
qed simp

text \<open>What a reader sees of a record comes from a grant that covers it.\<close>

lemma projected_granted:
  assumes "f \<in> set (jkeys (ar_values (projectRecord r (decideRecord pol resource action r))))"
  shows "\<exists>g \<in> set (ap_grants pol). ag_resource g = resource \<and> ag_action g = action \<and>
    matchesPredicate (ag_predicate g) pol r \<and> f \<in> set (ag_fields g)"
proof -
  let ?d = "decideRecord pol resource action r"
  have keys: "set (jkeys (fold (\<lambda>(k, v) m. jset m k v) ps m)) = set (map fst ps) \<union> set (jkeys m)" for ps :: "jv jmap" and m
    by (induction ps arbitrary: m) auto
  have "f \<in> set (ad_fields ?d)"
    using assms by (auto simp: projectRecord_def jmap_of_list_def keys split: if_splits)
  then show ?thesis by (auto simp: decideRecord_def)
qed

end
