(* ===== verification/Access_Query.thy ===== *)
theory Access_Query
  imports Access_Policy
begin

text \<open>
  \<open>packages/studio-server/src/access-query.ts\<close>: the policy as a condition of a query. The
  condition is built as a tree that prints to the text the code concatenates
  (\<open>cond_text\<close>), with its bindings in the order of the placeholders; \<open>sql_eval\<close> is what
  SQLite makes of it on a row, in three-valued logic. The dialect is the SQLite one of
  \<open>packages/db/src/dialect.ts\<close>, for fields whose names are identifiers. An error is the
  message of the 403.
\<close>

section \<open>Expressions and conditions\<close>

text \<open>A column, or a field of a JSON document.\<close>

datatype sql_expr = SqlColumn string | JsonExtract string string

datatype sql_op = SIs | SLt | SLte | SGt | SGte

datatype sql_cond =
    SqlConst bool
  | SqlAll "sql_cond list"
  | SqlAny "sql_cond list"
  | SqlIsNull sql_expr
  | SqlTest "string list" sql_expr sql_op

definition starts_with :: "string \<Rightarrow> string \<Rightarrow> bool" where
  "starts_with s p \<longleftrightarrow> take (length p) s = p"

fun expr_text :: "sql_expr \<Rightarrow> string" where
  "expr_text (SqlColumn c) = c"
| "expr_text (JsonExtract d f) = ''json_extract('' @ d @ '','' @ [CHR 0x27] @ ''$.'' @ f @ [CHR 0x27] @ '')''"

fun type_text :: "sql_expr \<Rightarrow> string" where
  "type_text (SqlColumn c) = (if starts_with c ''json_extract('' then ''json_type('' @ drop 13 c
     else ''typeof('' @ c @ '')'')"
| "type_text (JsonExtract d f) = ''json_type('' @ d @ '','' @ [CHR 0x27] @ ''$.'' @ f @ [CHR 0x27] @ '')''"

fun op_text :: "sql_op \<Rightarrow> string" where
  "op_text SIs = ''IS''" | "op_text SLt = ''<''" | "op_text SLte = ''<=''"
| "op_text SGt = ''>''" | "op_text SGte = ''>=''"

fun join_with :: "string \<Rightarrow> string list \<Rightarrow> string" where
  "join_with sep [] = []"
| "join_with sep [x] = x"
| "join_with sep (x # y # ys) = x @ sep @ join_with sep (y # ys)"

definition quoted :: "string \<Rightarrow> string" where
  "quoted s = [CHR 0x27] @ s @ [CHR 0x27]"

fun cond_text :: "sql_cond \<Rightarrow> string" where
  "cond_text (SqlConst b) = (if b then ''1=1'' else ''1=0'')"
| "cond_text (SqlAll cs) = ''('' @ join_with '' AND '' (map cond_text cs) @ '')''"
| "cond_text (SqlAny cs) = ''('' @ join_with '' OR '' (map cond_text cs) @ '')''"
| "cond_text (SqlIsNull e) = ''('' @ expr_text e @ '' IS NULL)''"
| "cond_text (SqlTest types e op) = ''('' @ type_text e @ '' IN ('' @ join_with '','' (map quoted types)
     @ '') AND '' @ expr_text e @ '' '' @ op_text op @ '' ?)''"

section \<open>Compilation\<close>

type_synonym access_columns = "sql_expr jmap"

type_synonym compiled = "string + (sql_cond \<times> scalar list)"

definition compare_cond :: "access_policy \<Rightarrow> sql_expr \<Rightarrow> operand \<Rightarrow> sql_op \<Rightarrow> sql_cond \<times> scalar list" where
  "compare_cond pol e v op = (case operand_value v pol of
     ScNull \<Rightarrow> (if op \<noteq> SIs then SqlConst False else SqlIsNull e, [])
   | ScBool b \<Rightarrow> if op \<noteq> SIs then (SqlConst False, [])
       else (SqlTest [''true'', ''false''] e op, [ScNum (if b then 1 else 0)])
   | ScNum n \<Rightarrow> (SqlTest [''integer'', ''real''] e op, [ScNum n])
   | ScStr s \<Rightarrow> (SqlTest [''text''] e op, [ScStr s]))"

fun sql_op_of :: "compare_op \<Rightarrow> sql_op" where
  "sql_op_of CmpEq = SIs" | "sql_op_of CmpLt = SLt" | "sql_op_of CmpLte = SLte"
| "sql_op_of CmpGt = SGt" | "sql_op_of CmpGte = SGte"

definition column_of :: "access_columns \<Rightarrow> string \<Rightarrow> string + sql_expr" where
  "column_of cols f = (case jget cols f of
     None \<Rightarrow> Inl ''Unsupported permission predicate field.''
   | Some e \<Rightarrow> if expr_text e = [] then Inl ''Unsupported permission predicate field.'' else Inr e)"

text \<open>The conditions of a list and their bindings, one after the other, until one fails.\<close>

fun gather_conds :: "compiled list \<Rightarrow> string + (sql_cond list \<times> scalar list)" where
  "gather_conds [] = Inr ([], [])"
| "gather_conds (Inl e # xs) = Inl e"
| "gather_conds (Inr (c, bs) # xs) = (case gather_conds xs of Inl e \<Rightarrow> Inl e
     | Inr (cs, bs') \<Rightarrow> Inr (c # cs, bs @ bs'))"

definition join_conds :: "(sql_cond list \<Rightarrow> sql_cond) \<Rightarrow> compiled list \<Rightarrow> compiled" where
  "join_conds J xs = (if xs = [] then Inr (SqlConst False, []) else
     (case gather_conds xs of Inl e \<Rightarrow> Inl e | Inr (cs, bs) \<Rightarrow> Inr (J cs, bs)))"

fun emit :: "access_policy \<Rightarrow> access_columns \<Rightarrow> predicate \<Rightarrow> compiled" where
  "emit pol cols (PAll b) = Inr (SqlConst b, [])"
| "emit pol cols (PAnd ps) = join_conds SqlAll (map (emit pol cols) ps)"
| "emit pol cols (POr ps) = join_conds SqlAny (map (emit pol cols) ps)"
| "emit pol cols (PIn f vs) = (case column_of cols f of Inl e \<Rightarrow> Inl e
     | Inr e \<Rightarrow> join_conds SqlAny (map (\<lambda>v. Inr (compare_cond pol e v SIs)) vs))"
| "emit pol cols (PCompare f op v) = (case column_of cols f of Inl e \<Rightarrow> Inl e
     | Inr e \<Rightarrow> Inr (compare_cond pol e v (sql_op_of op)))"

definition compileAccessWhere :: "access_policy \<Rightarrow> string \<Rightarrow> access_action \<Rightarrow> access_columns \<Rightarrow> compiled" where
  "compileAccessWhere pol resource action cols = join_conds SqlAny (map (\<lambda>g. emit pol cols (ag_predicate g))
     (filter (\<lambda>g. ag_resource g = resource \<and> ag_action g = action) (ap_grants pol)))"

section \<open>The meaning of a condition\<close>

datatype sqlv = QNull | QNum rat | QText string

record sql_row =
  rw_column :: "string \<Rightarrow> sqlv"
  rw_document :: "string \<Rightarrow> jv jmap"

text \<open>\<open>json_extract\<close> and \<open>json_type\<close> of what stands at a path.\<close>

definition json_sql :: "jv \<Rightarrow> sqlv" where
  "json_sql v = (case v of
     JBool b \<Rightarrow> QNum (if b then 1 else 0)
   | JNum (Fin q) \<Rightarrow> QNum q
   | JStr s \<Rightarrow> QText s
   | JArr xs \<Rightarrow> (case json_string v of None \<Rightarrow> QNull | Some t \<Rightarrow> QText t)
   | JObj m \<Rightarrow> (case json_string v of None \<Rightarrow> QNull | Some t \<Rightarrow> QText t)
   | _ \<Rightarrow> QNull)"

definition number_type :: "rat \<Rightarrow> string" where
  "number_type q = (if q = of_int \<lfloor>q\<rfloor> \<and> \<bar>q\<bar> < 2 ^ 63 then ''integer'' else ''real'')"

definition json_type :: "jv \<Rightarrow> string" where
  "json_type v = (case v of
     JBool b \<Rightarrow> (if b then ''true'' else ''false'')
   | JNum (Fin q) \<Rightarrow> number_type q
   | JStr s \<Rightarrow> ''text''
   | JArr xs \<Rightarrow> ''array''
   | JObj m \<Rightarrow> ''object''
   | _ \<Rightarrow> ''null'')"

fun expr_value :: "sql_row \<Rightarrow> sql_expr \<Rightarrow> sqlv" where
  "expr_value row (SqlColumn c) = rw_column row c"
| "expr_value row (JsonExtract d f) = (case jget (rw_document row d) f of None \<Rightarrow> QNull | Some v \<Rightarrow> json_sql v)"

fun expr_type :: "sql_row \<Rightarrow> sql_expr \<Rightarrow> string option" where
  "expr_type row (SqlColumn c) = Some (case rw_column row c of QNull \<Rightarrow> ''null'' | QNum q \<Rightarrow> number_type q | QText s \<Rightarrow> ''text'')"
| "expr_type row (JsonExtract d f) = map_option json_type (jget (rw_document row d) f)"

text \<open>Comparison: null-safe equality, or the order of the storage classes, numbers and bytes.\<close>

fun sql_order :: "sqlv \<Rightarrow> sqlv \<Rightarrow> int option" where
  "sql_order QNull b = None"
| "sql_order a QNull = None"
| "sql_order (QNum a) (QNum b) = Some (if a < b then -1 else if a = b then 0 else 1)"
| "sql_order (QNum a) (QText t) = Some (-1)"
| "sql_order (QText s) (QNum b) = Some 1"
| "sql_order (QText s) (QText t) = Some (compare_bytes (utf8 s) (utf8 t))"

fun sql_compare :: "sql_op \<Rightarrow> sqlv \<Rightarrow> sqlv \<Rightarrow> bool option" where
  "sql_compare SIs a b = Some (a = b)"
| "sql_compare SLt a b = map_option (\<lambda>c. c < 0) (sql_order a b)"
| "sql_compare SLte a b = map_option (\<lambda>c. c \<le> 0) (sql_order a b)"
| "sql_compare SGt a b = map_option (\<lambda>c. 0 < c) (sql_order a b)"
| "sql_compare SGte a b = map_option (\<lambda>c. 0 \<le> c) (sql_order a b)"

text \<open>Three-valued logic; \<open>None\<close> is NULL.\<close>

fun and3 :: "bool option \<Rightarrow> bool option \<Rightarrow> bool option" where
  "and3 (Some False) y = Some False"
| "and3 (Some True) y = y"
| "and3 None y = (if y = Some False then Some False else None)"

fun or3 :: "bool option \<Rightarrow> bool option \<Rightarrow> bool option" where
  "or3 (Some True) y = Some True"
| "or3 (Some False) y = y"
| "or3 None y = (if y = Some True then Some True else None)"

text \<open>The conditions of a list take their bindings from left to right.\<close>

fun thread :: "('a \<Rightarrow> 'b \<Rightarrow> 'c \<times> 'b) \<Rightarrow> 'a list \<Rightarrow> 'b \<Rightarrow> 'c list \<times> 'b" where
  "thread f [] s = ([], s)"
| "thread f (x # xs) s = (let (y, s) = f x s; (ys, s) = thread f xs s in (y # ys, s))"

lemma thread_cong [fundef_cong]:
  "xs = ys \<Longrightarrow> s = t \<Longrightarrow> (\<And>x u. x \<in> set ys \<Longrightarrow> f x u = g x u) \<Longrightarrow> thread f xs s = thread g ys t"
  by (induction ys arbitrary: xs s t) (auto split: prod.split)

definition in_types :: "string option \<Rightarrow> string list \<Rightarrow> bool option" where
  "in_types t ts = map_option (\<lambda>x. x \<in> set ts) t"

fun sql_eval :: "sql_row \<Rightarrow> sql_cond \<Rightarrow> sqlv list \<Rightarrow> bool option \<times> sqlv list" where
  "sql_eval row (SqlConst b) bs = (Some b, bs)"
| "sql_eval row (SqlAll cs) bs = (let (vs, bs) = thread (sql_eval row) cs bs in (foldr and3 vs (Some True), bs))"
| "sql_eval row (SqlAny cs) bs = (let (vs, bs) = thread (sql_eval row) cs bs in (foldr or3 vs (Some False), bs))"
| "sql_eval row (SqlIsNull e) bs = (Some (expr_value row e = QNull), bs)"
| "sql_eval row (SqlTest types e op) bs = (case bs of
     [] \<Rightarrow> (None, [])
   | b # bs \<Rightarrow> (and3 (in_types (expr_type row e) types) (sql_compare op (expr_value row e) b), bs))"

definition bound :: "scalar \<Rightarrow> sqlv" where
  "bound s = (case s of ScNull \<Rightarrow> QNull | ScBool b \<Rightarrow> QNum (if b then 1 else 0) | ScNum n \<Rightarrow> QNum n | ScStr t \<Rightarrow> QText t)"

lemma and3_true [simp]: "and3 x y = Some True \<longleftrightarrow> x = Some True \<and> y = Some True"
  by (cases "(x, y)" rule: and3.cases) auto

lemma or3_true [simp]: "or3 x y = Some True \<longleftrightarrow> x = Some True \<or> y = Some True"
  by (cases "(x, y)" rule: or3.cases) auto

lemma foldr_and3_true: "foldr and3 vs (Some True) = Some True \<longleftrightarrow> list_all (\<lambda>v. v = Some True) vs"
  by (induction vs) auto

lemma foldr_or3_true: "foldr or3 vs (Some False) = Some True \<longleftrightarrow> list_ex (\<lambda>v. v = Some True) vs"
  by (induction vs) auto

section \<open>The condition and the evaluator agree\<close>

text \<open>A value as JSON has it.\<close>

definition json_value :: "jv \<Rightarrow> bool" where
  "json_value v = (case v of JUndef \<Rightarrow> False | JNum n \<Rightarrow> is_finite n | JDate _ \<Rightarrow> False | JBytes _ \<Rightarrow> False | _ \<Rightarrow> True)"

text \<open>An expression that reads a value: an absent one is null.\<close>

definition reads :: "sql_row \<Rightarrow> sql_expr \<Rightarrow> jv \<Rightarrow> bool" where
  "reads row e v \<longleftrightarrow> json_value v \<and> expr_value row e = json_sql v \<and>
     (expr_type row e = Some (json_type v) \<or> v = JNull \<and> expr_type row e = None)"

lemma number_type_cases: "number_type q = ''integer'' \<or> number_type q = ''real''"
  by (simp add: number_type_def)

lemma number_type_other [simp]: "number_type q \<noteq> ''text''" "number_type q \<noteq> ''true''" "number_type q \<noteq> ''false''"
  using number_type_cases [of q] by auto

lemma sql_null_iff: "json_value v \<Longrightarrow> json_sql v = QNull \<longleftrightarrow> v = JNull"
  by (cases v) (auto simp: json_sql_def json_value_def json_string_def split: jnum.splits option.splits)

fun cmp_of :: "sql_op \<Rightarrow> compare_op" where
  "cmp_of SIs = CmpEq" | "cmp_of SLt = CmpLt" | "cmp_of SLte = CmpLte"
| "cmp_of SGt = CmpGt" | "cmp_of SGte = CmpGte"

lemma cmp_of_sql_op [simp]: "cmp_of (sql_op_of op) = op"
  by (cases op) simp_all

lemma test_number:
  assumes "reads row e v"
  shows "fst (sql_eval row (SqlTest [''integer'', ''real''] e op) (QNum n # bs)) = Some True \<longleftrightarrow>
    compare_values (cmp_of op) v (ScNum n)"
proof (cases v)
  case (JNum x)
  then obtain q where "x = Fin q" using assms by (cases x) (auto simp: reads_def json_value_def)
  with JNum assms show ?thesis using number_type_cases [of q]
    by (cases op) (auto simp: reads_def compare_values_def scalar_jv_def in_types_def json_type_def json_sql_def)
qed (use assms in \<open>auto simp: reads_def json_value_def compare_values_def scalar_jv_def in_types_def json_type_def\<close>)

lemma test_text:
  assumes "reads row e v"
  shows "fst (sql_eval row (SqlTest [''text''] e op) (QText s # bs)) = Some True \<longleftrightarrow>
    compare_values (cmp_of op) v (ScStr s)"
proof (cases v)
  case (JStr t)
  with assms show ?thesis
    by (cases op) (auto simp: reads_def compare_values_def scalar_jv_def in_types_def json_type_def json_sql_def
        compareStrings_def)
next
  case (JNum x)
  with assms show ?thesis by (cases x)
      (auto simp: reads_def json_value_def compare_values_def scalar_jv_def in_types_def json_type_def)
qed (use assms in \<open>auto simp: reads_def json_value_def compare_values_def scalar_jv_def in_types_def json_type_def\<close>)

lemma test_bool:
  assumes "reads row e v"
  shows "fst (sql_eval row (SqlTest [''true'', ''false''] e SIs) (QNum (if b then 1 else 0) # bs)) = Some True \<longleftrightarrow>
    compare_values CmpEq v (ScBool b)"
proof (cases v)
  case (JBool c)
  with assms show ?thesis
    by (auto simp: reads_def compare_values_def scalar_jv_def in_types_def json_type_def json_sql_def)
next
  case (JNum x)
  with assms show ?thesis by (cases x)
      (auto simp: reads_def json_value_def compare_values_def scalar_jv_def in_types_def json_type_def)
qed (use assms in \<open>auto simp: reads_def json_value_def compare_values_def scalar_jv_def in_types_def json_type_def\<close>)

text \<open>A condition stands for a test when it holds exactly then and uses up its bindings.\<close>

definition stands_for :: "sql_row \<Rightarrow> sql_cond \<times> scalar list \<Rightarrow> bool \<Rightarrow> bool" where
  "stands_for row c P \<longleftrightarrow> (\<forall>rest. snd (sql_eval row (fst c) (map bound (snd c) @ rest)) = rest \<and>
     (fst (sql_eval row (fst c) (map bound (snd c) @ rest)) = Some True \<longleftrightarrow> P))"

lemma compare_cond_stands:
  assumes "reads row e v"
  shows "stands_for row (compare_cond pol e x op) (compare_values (cmp_of op) v (operand_value x pol))"
proof (cases "operand_value x pol")
  case (ScStr s)
  with test_text [OF assms] show ?thesis by (simp add: stands_for_def compare_cond_def bound_def)
next
  case (ScNum n)
  with test_number [OF assms] show ?thesis by (simp add: stands_for_def compare_cond_def bound_def)
next
  case (ScBool b)
  show ?thesis
  proof (cases "op = SIs")
    case True
    with ScBool test_bool [OF assms] show ?thesis by (simp add: stands_for_def compare_cond_def bound_def)
  next
    case False
    then have "cmp_of op \<noteq> CmpEq" by (cases op) simp_all
    with False ScBool show ?thesis by (cases v) (simp_all add: stands_for_def compare_cond_def compare_values_def)
  qed
next
  case ScNull
  have null: "strict_eq v JNull \<longleftrightarrow> v = JNull" by (cases v) simp_all
  show ?thesis
  proof (cases "op = SIs")
    case True
    with ScNull null assms sql_null_iff [of v] show ?thesis
      by (simp add: stands_for_def compare_cond_def compare_values_def scalar_jv_def reads_def)
  next
    case False
    then have "cmp_of op \<noteq> CmpEq" by (cases op) simp_all
    with False ScNull show ?thesis by (cases v) (simp_all add: stands_for_def compare_cond_def compare_values_def)
  qed
qed

text \<open>A compiled predicate stands for what the evaluator says.\<close>

definition compiles_to :: "sql_row \<Rightarrow> compiled \<Rightarrow> bool \<Rightarrow> bool" where
  "compiles_to row x P \<longleftrightarrow> (case x of Inl e \<Rightarrow> False | Inr c \<Rightarrow> stands_for row c P)"

lemma gather_thread:
  assumes "list_all2 (compiles_to row) xs Ps"
  shows "\<exists>cs bs. gather_conds xs = Inr (cs, bs) \<and> (\<forall>rest. snd (thread (sql_eval row) cs (map bound bs @ rest)) = rest \<and>
    map (\<lambda>v. v = Some True) (fst (thread (sql_eval row) cs (map bound bs @ rest))) = Ps)"
  using assms
proof (induction rule: list_all2_induct)
  case Nil
  then show ?case by simp
next
  case (Cons x xs P Ps)
  then obtain cs bs where IH: "gather_conds xs = Inr (cs, bs)"
    "\<And>rest. snd (thread (sql_eval row) cs (map bound bs @ rest)) = rest"
    "\<And>rest. map (\<lambda>v. v = Some True) (fst (thread (sql_eval row) cs (map bound bs @ rest))) = Ps"
    by blast
  obtain c b where x: "x = Inr (c, b)" and st: "stands_for row (c, b) P"
    using Cons(1) by (auto simp: compiles_to_def split: sum.splits)
  have one: "sql_eval row c (map bound b @ rest) = (fst (sql_eval row c (map bound b @ rest)), rest)" for rest
    using st by (simp add: stands_for_def prod_eq_iff)
  have val: "(fst (sql_eval row c (map bound b @ rest)) = Some True) = P" for rest
    using st by (simp add: stands_for_def)
  have all: "thread (sql_eval row) (c # cs) (map bound (b @ bs) @ rest) =
      (fst (sql_eval row c (map bound b @ map bound bs @ rest)) # fst (thread (sql_eval row) cs (map bound bs @ rest)), rest)"
    for rest
    using one [of "map bound bs @ rest"] IH(2) [of rest]
    by (simp add: split_beta prod_eq_iff)
  show ?case
    by (rule exI [of _ "c # cs"], rule exI [of _ "b @ bs"]) (simp only: x gather_conds.simps IH(1) sum.case prod.case
        all fst_conv snd_conv list.map val IH(3) simp_thms)
qed

lemma all_flags: "map (\<lambda>v. v = Some True) vs = Ps \<Longrightarrow> list_all (\<lambda>v. v = Some True) vs \<longleftrightarrow> list_all id Ps"
  by (drule sym, simp only: list.pred_map o_def id_apply)

lemma any_flags: "map (\<lambda>v. v = Some True) vs = Ps \<Longrightarrow> list_ex (\<lambda>v. v = Some True) vs \<longleftrightarrow> list_ex id Ps"
  by (drule sym, simp only: list_ex_iff set_map id_apply bex_simps)

lemma join_all:
  assumes "list_all2 (compiles_to row) xs Ps"
  shows "compiles_to row (join_conds SqlAll xs) (Ps \<noteq> [] \<and> list_all id Ps)"
proof (cases "xs = []")
  case True
  with assms show ?thesis by (simp add: join_conds_def compiles_to_def stands_for_def)
next
  case False
  obtain cs bs where g: "gather_conds xs = Inr (cs, bs)"
    "\<And>rest. snd (thread (sql_eval row) cs (map bound bs @ rest)) = rest"
    "\<And>rest. map (\<lambda>v. v = Some True) (fst (thread (sql_eval row) cs (map bound bs @ rest))) = Ps"
    using gather_thread [OF assms] by blast
  have "Ps \<noteq> []" using False assms by auto
  with False g(1,2) all_flags [OF g(3)] show ?thesis
    by (simp add: join_conds_def compiles_to_def stands_for_def split_beta foldr_and3_true)
qed

lemma join_any:
  assumes "list_all2 (compiles_to row) xs Ps"
  shows "compiles_to row (join_conds SqlAny xs) (list_ex id Ps)"
proof (cases "xs = []")
  case True
  with assms show ?thesis by (simp add: join_conds_def compiles_to_def stands_for_def)
next
  case False
  obtain cs bs where g: "gather_conds xs = Inr (cs, bs)"
    "\<And>rest. snd (thread (sql_eval row) cs (map bound bs @ rest)) = rest"
    "\<And>rest. map (\<lambda>v. v = Some True) (fst (thread (sql_eval row) cs (map bound bs @ rest))) = Ps"
    using gather_thread [OF assms] by blast
  with False any_flags [OF g(3)] show ?thesis
    by (simp add: join_conds_def compiles_to_def stands_for_def split_beta foldr_or3_true)
qed

text \<open>The fields of a predicate, and columns that have them.\<close>

fun predicate_fields :: "predicate \<Rightarrow> string list" where
  "predicate_fields (PAll b) = []"
| "predicate_fields (PAnd ps) = concat (map predicate_fields ps)"
| "predicate_fields (POr ps) = concat (map predicate_fields ps)"
| "predicate_fields (PIn f vs) = [f]"
| "predicate_fields (PCompare f op v) = [f]"

definition reads_fields :: "sql_row \<Rightarrow> access_columns \<Rightarrow> access_record \<Rightarrow> string list \<Rightarrow> bool" where
  "reads_fields row cols r fs \<longleftrightarrow> (\<forall>f \<in> set fs. \<exists>e. column_of cols f = Inr e \<and> reads row e (field_value f r))"

lemma map_compiles: "(\<And>p. p \<in> set ps \<Longrightarrow> compiles_to row (f p) (Q p)) \<Longrightarrow>
    list_all2 (compiles_to row) (map f ps) (map Q ps)"
  unfolding list_all2_conv_all_nth by simp

lemma emit_agrees:
  assumes "reads_fields row cols r (predicate_fields p)"
  shows "compiles_to row (emit pol cols p) (matchesPredicate p pol r)"
  using assms
proof (induction p)
  case (PAll b)
  then show ?case by (simp add: compiles_to_def stands_for_def)
next
  case (PAnd ps)
  then have "p \<in> set ps \<Longrightarrow> compiles_to row (emit pol cols p) (matchesPredicate p pol r)" for p
    by (auto simp: reads_fields_def)
  from join_all [OF map_compiles, OF this] show ?case by (simp add: list_all_iff)
next
  case (POr ps)
  then have "p \<in> set ps \<Longrightarrow> compiles_to row (emit pol cols p) (matchesPredicate p pol r)" for p
    by (auto simp: reads_fields_def)
  from join_any [OF map_compiles, OF this] show ?case by (simp add: list_ex_iff)
next
  case (PCompare f op v)
  then obtain e where e: "column_of cols f = Inr e" "reads row e (field_value f r)" by (auto simp: reads_fields_def)
  from compare_cond_stands [OF e(2), of pol v "sql_op_of op"] e(1) show ?case
    by (simp add: compiles_to_def)
next
  case (PIn f vs)
  then obtain e where e: "column_of cols f = Inr e" "reads row e (field_value f r)" by (auto simp: reads_fields_def)
  have "compiles_to row (Inr (compare_cond pol e v SIs)) (strict_eq (field_value f r) (scalar_jv (operand_value v pol)))" for v
    using compare_cond_stands [OF e(2), of pol v SIs] by (simp add: compiles_to_def compare_values_def)
  from join_any [OF map_compiles, OF this] e(1) show ?case by (simp add: list_ex_iff)
qed

section \<open>The fields a condition reads\<close>

fun expr_fields :: "sql_expr \<Rightarrow> string list" where
  "expr_fields (SqlColumn c) = []"
| "expr_fields (JsonExtract d f) = [f]"

fun cond_fields :: "sql_cond \<Rightarrow> string list" where
  "cond_fields (SqlConst b) = []"
| "cond_fields (SqlAll cs) = concat (map cond_fields cs)"
| "cond_fields (SqlAny cs) = concat (map cond_fields cs)"
| "cond_fields (SqlIsNull e) = expr_fields e"
| "cond_fields (SqlTest types e op) = expr_fields e"

text \<open>The columns are named after what they read.\<close>

definition own_names :: "access_columns \<Rightarrow> bool" where
  "own_names cols \<longleftrightarrow> (\<forall>f e. column_of cols f = Inr e \<longrightarrow> set (expr_fields e) \<subseteq> {f})"

lemma compare_cond_fields: "set (cond_fields (fst (compare_cond pol e v op))) \<subseteq> set (expr_fields e)"
  by (simp add: compare_cond_def split: scalar.split)

definition fields_within :: "string set \<Rightarrow> compiled \<Rightarrow> bool" where
  "fields_within F x \<longleftrightarrow> (case x of Inl e \<Rightarrow> True | Inr (c, bs) \<Rightarrow> set (cond_fields c) \<subseteq> F)"

lemma fields_within_simps [simp]:
  "fields_within F (Inl e)" "fields_within F (Inr (c, bs)) \<longleftrightarrow> set (cond_fields c) \<subseteq> F"
  by (simp_all add: fields_within_def)

lemma gather_conds_fields:
  "gather_conds xs = Inr (cs, bs) \<Longrightarrow> list_all (fields_within F) xs \<Longrightarrow> (\<Union>c \<in> set cs. set (cond_fields c)) \<subseteq> F"
proof (induction xs arbitrary: cs bs rule: gather_conds.induct)
  case (3 c b xs)
  then obtain cs' bs' where g: "gather_conds xs = Inr (cs', bs')" "cs = c # cs'"
    by (auto split: sum.splits)
  have "(\<Union>c \<in> set cs'. set (cond_fields c)) \<subseteq> F" by (rule "3.IH" [OF g(1)]) (use "3.prems"(2) in simp)
  with "3.prems"(2) show ?case by (simp add: g(2))
qed simp_all

lemma join_conds_fields:
  assumes "J \<in> {SqlAll, SqlAny}" and "list_all (fields_within F) xs"
  shows "fields_within F (join_conds J xs)"
proof (cases "gather_conds xs")
  case (Inl e)
  then show ?thesis by (simp add: join_conds_def)
next
  case (Inr p)
  then obtain cs bs where "gather_conds xs = Inr (cs, bs)" by (cases p) simp
  with gather_conds_fields [OF this assms(2)] assms(1) show ?thesis by (auto simp: join_conds_def)
qed

lemma fields_within_mono: "fields_within F x \<Longrightarrow> F \<subseteq> G \<Longrightarrow> fields_within G x"
  by (auto simp: fields_within_def split: sum.splits)

lemma compared_fields: "fields_within (set (expr_fields e)) (Inr (compare_cond pol e v op))"
  using compare_cond_fields [of pol e v op] by (cases "compare_cond pol e v op") simp

lemma emit_fields:
  assumes "own_names cols"
  shows "fields_within (set (predicate_fields p)) (emit pol cols p)"
proof (induction p)
  case (PAnd ps)
  then have "list_all (fields_within (set (predicate_fields (PAnd ps)))) (map (emit pol cols) ps)"
    by (auto simp: list_all_iff intro: fields_within_mono)
  then show ?case by (simp add: join_conds_fields)
next
  case (POr ps)
  then have "list_all (fields_within (set (predicate_fields (POr ps)))) (map (emit pol cols) ps)"
    by (auto simp: list_all_iff intro: fields_within_mono)
  then show ?case by (simp add: join_conds_fields)
next
  case (PIn f vs)
  have "fields_within (set (expr_fields e)) (join_conds SqlAny (map (\<lambda>v. Inr (compare_cond pol e v SIs)) vs))" for e
    by (rule join_conds_fields) (simp_all add: list_all_iff compared_fields)
  then have "fields_within {f} (join_conds SqlAny (map (\<lambda>v. Inr (compare_cond pol e v SIs)) vs))"
    if "column_of cols f = Inr e" for e
    by (rule fields_within_mono) (use that assms in \<open>simp add: own_names_def\<close>)
  then show ?case by (simp split: sum.split)
next
  case (PCompare f op v)
  have "fields_within {f} (Inr (compare_cond pol e v (sql_op_of op)))" if "column_of cols f = Inr e" for e
    by (rule fields_within_mono [OF compared_fields]) (use that assms in \<open>simp add: own_names_def\<close>)
  then show ?case by (simp split: sum.split)
qed simp

lemma compiled_fields:
  assumes "own_names cols" and "compileAccessWhere pol resource action cols = Inr (c, bs)"
  shows "set (cond_fields c) \<subseteq> (\<Union>g \<in> {g \<in> set (ap_grants pol). ag_resource g = resource \<and> ag_action g = action}.
    set (predicate_fields (ag_predicate g)))"
proof -
  let ?F = "\<Union>g \<in> {g \<in> set (ap_grants pol). ag_resource g = resource \<and> ag_action g = action}.
    set (predicate_fields (ag_predicate g))"
  have "fields_within ?F (emit pol cols (ag_predicate g))"
    if "g \<in> set (ap_grants pol)" "ag_resource g = resource" "ag_action g = action" for g
    by (rule fields_within_mono [OF emit_fields [OF assms(1)]]) (use that in blast)
  then have "fields_within ?F (compileAccessWhere pol resource action cols)"
    unfolding compileAccessWhere_def by (intro join_conds_fields) (simp_all add: list_all_iff)
  then show ?thesis by (simp add: assms(2))
qed

end
