(* ===== verification/Access_Records.thy ===== *)
theory Access_Records
  imports Access_Query
begin

text \<open>
  The policy at the stored records: \<open>parseRecord\<close> of
  \<open>packages/studio-server/src/services.ts\<close> and the record functions of
  \<open>access-authorization.ts\<close>. A database without a policy (\<open>None\<close>) allows everything. The
  document of a row is the object its JSON column parses to. An error is its message and its
  status.
\<close>

type_synonym http_error = "string \<times> int"

record studio_row =
  sr_id :: string
  sr_data :: "jv jmap"
  sr_created_at :: string
  sr_updated_at :: string
  sr_version :: nat
  sr_deleted_at :: "string option"
  sr_created_by :: "string option"

definition opt_text :: "string option \<Rightarrow> jv" where
  "opt_text x = (case x of None \<Rightarrow> JNull | Some s \<Rightarrow> JStr s)"

text \<open>A creator that is missing or empty is not copied, so a member of the data stays.\<close>

definition parseRecord :: "studio_row \<Rightarrow> jv jmap" where
  "parseRecord row =
     (let m = jset (sr_data row) ''id'' (JStr (sr_id row));
          m = jset m ''created_at'' (JStr (sr_created_at row));
          m = jset m ''updated_at'' (JStr (sr_updated_at row));
          m = jset m ''_version'' (JInt (int (sr_version row)));
          m = jset m ''deleted_at'' (opt_text (sr_deleted_at row)) in
      case sr_created_by row of None \<Rightarrow> m | Some s \<Rightarrow> if s = [] then m else jset m ''created_by'' (JStr s))"

definition record_columns :: "string list" where
  "record_columns = [''id'', ''created_at'', ''updated_at'', ''deleted_at'', ''_version'', ''created_by'']"

definition text_member :: "jv jmap \<Rightarrow> string \<Rightarrow> string option" where
  "text_member m k = (case read_prop m k of JStr s \<Rightarrow> Some s | _ \<Rightarrow> None)"

definition accessRecord :: "jv jmap \<Rightarrow> access_record" where
  "accessRecord m = \<lparr>ar_id = (case text_member m ''id'' of None \<Rightarrow> [] | Some s \<Rightarrow> s),
     ar_createdBy = text_member m ''created_by'',
     ar_values = filter (\<lambda>kv. fst kv \<notin> set record_columns) m\<rparr>"

definition accessDenied :: http_error where
  "accessDenied = (''You do not have permission for this operation.'', 403)"

definition collection_resource :: "string \<Rightarrow> string" where
  "collection_resource name = ''collection:'' @ name"

definition requireRecordAccess :: "access_policy option \<Rightarrow> string \<Rightarrow> access_action \<Rightarrow> jv jmap \<Rightarrow> http_error option" where
  "requireRecordAccess policy name action m = (case policy of
     None \<Rightarrow> None
   | Some pol \<Rightarrow> if \<not> ad_allowed (decideRecord pol (collection_resource name) action (accessRecord m))
       then Some accessDenied else None)"

definition requireWriteAccess :: "access_policy option \<Rightarrow> string \<Rightarrow> access_action \<Rightarrow> jv jmap option \<Rightarrow> jv jmap
    \<Rightarrow> string list \<Rightarrow> http_error option" where
  "requireWriteAccess policy name action before aft changed = (case policy of
     None \<Rightarrow> None
   | Some pol \<Rightarrow> if \<not> ad_allowed (decideWrite pol (collection_resource name) action (map_option accessRecord before)
         (accessRecord aft) changed)
       then Some accessDenied else None)"

text \<open>What a reader gets: the fields of the decision and the columns of the row.\<close>

definition projectCrmRecord :: "access_policy \<Rightarrow> string \<Rightarrow> jv jmap \<Rightarrow> access_action \<Rightarrow> jv jmap" where
  "projectCrmRecord pol name m action =
     fold (\<lambda>k acc. jset acc k (read_prop m k)) [''id'', ''created_at'', ''updated_at'', ''_version'', ''deleted_at'']
       (ar_values (projectRecord (accessRecord m)
          (decideRecord pol (collection_resource name) action (accessRecord m))))"

text \<open>\<open>/^[a-zA-Z_][a-zA-Z0-9_]*$/\<close>\<close>

definition identifier_name :: "string \<Rightarrow> bool" where
  "identifier_name f = (case f of [] \<Rightarrow> False
     | c # cs \<Rightarrow> (lower_letter c \<or> upper_letter c \<or> c = CHR ''_'') \<and> list_all word_char cs)"

definition accessColumns :: "string list \<Rightarrow> access_columns" where
  "accessColumns names = jmap_of_list ((''$createdBy'', SqlColumn ''created_by'')
     # map (\<lambda>f. (f, JsonExtract ''data'' f)) (filter identifier_name names))"

section \<open>The row a query reads\<close>

definition stored_row :: "studio_row \<Rightarrow> sql_row" where
  "stored_row row = \<lparr>rw_column = (\<lambda>c. if c = ''created_by''
       then (case sr_created_by row of None \<Rightarrow> QNull | Some s \<Rightarrow> QText s) else QNull),
     rw_document = (\<lambda>d. if d = ''data'' then sr_data row else [])\<rparr>"

text \<open>Data as JSON has it.\<close>

definition json_row :: "studio_row \<Rightarrow> bool" where
  "json_row row \<longleftrightarrow> list_all (\<lambda>kv. json_value (snd kv)) (sr_data row)"

text \<open>The record of a row with the creator its column has. The record that \<open>parseRecord\<close> makes has
  the same one when the row has a creator, or none and no text member \<open>created_by\<close> in its data.\<close>

definition stored_record :: "studio_row \<Rightarrow> access_record" where
  "stored_record row = (accessRecord (parseRecord row))\<lparr>ar_createdBy := sr_created_by row\<rparr>"

definition no_creator :: "studio_row \<Rightarrow> bool" where
  "no_creator row \<longleftrightarrow> sr_created_by row \<in> {None, Some []}"

definition own_creator :: "studio_row \<Rightarrow> bool" where
  "own_creator row \<longleftrightarrow> (no_creator row \<longrightarrow> text_member (sr_data row) ''created_by'' = sr_created_by row)"

lemma jget_filter: "P k \<Longrightarrow> jget (filter (\<lambda>kv. P (fst kv)) m) k = jget m k"
  by (induction m) auto

lemma read_prop_jset: "read_prop (jset m k v) k' = (if k' = k then v else read_prop m k')"
  by (simp add: read_prop_def jget_jset)

lemma record_value:
  assumes "f \<notin> set record_columns"
  shows "jget (ar_values (accessRecord (parseRecord row))) f = jget (sr_data row) f"
proof -
  have f: "f \<noteq> ''id''" "f \<noteq> ''created_at''" "f \<noteq> ''updated_at''" "f \<noteq> ''_version''" "f \<noteq> ''deleted_at''" "f \<noteq> ''created_by''"
    using assms by (simp_all add: record_columns_def)
  have "jget (ar_values (accessRecord (parseRecord row))) f = jget (parseRecord row) f"
    using jget_filter [of "\<lambda>k. k \<notin> set record_columns" f] assms by (simp add: accessRecord_def)
  also have "\<dots> = jget (sr_data row) f"
    using f by (simp add: parseRecord_def Let_def jget_jset split: option.split)
  finally show ?thesis .
qed

lemma record_creator:
  "ar_createdBy (accessRecord (parseRecord row)) =
     (if no_creator row then text_member (sr_data row) ''created_by'' else sr_created_by row)"
  by (auto simp: accessRecord_def parseRecord_def Let_def no_creator_def text_member_def read_prop_jset split: option.split)

lemma stored_record_parsed:
  "accessRecord (parseRecord row) = (stored_record row)\<lparr>ar_createdBy :=
     if no_creator row then text_member (sr_data row) ''created_by'' else sr_created_by row\<rparr>"
  unfolding stored_record_def record_creator [symmetric] by simp

lemma own_creator_record:
  assumes "own_creator row"
  shows "accessRecord (parseRecord row) = stored_record row"
proof -
  have "sr_created_by row = ar_createdBy (accessRecord (parseRecord row))"
    using assms by (simp add: record_creator own_creator_def)
  then show ?thesis by (simp add: stored_record_def)
qed

lemma stored_creator [simp]: "ar_createdBy (stored_record row) = sr_created_by row"
  by (simp add: stored_record_def)

lemma stored_values [simp]: "ar_values (stored_record row) = ar_values (accessRecord (parseRecord row))"
  by (simp add: stored_record_def)

lemma jget_map_of_list:
  "jget (fold (\<lambda>(k, v) m. jset m k v) ps m) f = (case jget (rev ps) f of None \<Rightarrow> jget m f | Some v \<Rightarrow> Some v)"
proof (induction ps arbitrary: m)
  case (Cons p ps)
  then show ?case by (cases p) (auto simp: jget_def map_add_def jset_def update_conv' split: option.splits)
qed simp

lemma column_createdBy: "column_of (accessColumns names) ''$createdBy'' = Inr (SqlColumn ''created_by'')"
proof -
  have "''$createdBy'' \<notin> set (filter identifier_name names)" by (auto simp: identifier_name_def lower_letter_def upper_letter_def)
  then have "jget (rev (map (\<lambda>f. (f, JsonExtract ''data'' f)) (filter identifier_name names))) ''$createdBy'' = None"
    by (simp add: jget_None_iff jkeys_def image_iff)
  then show ?thesis
    by (simp add: column_of_def accessColumns_def jmap_of_list_def jget_map_of_list)
qed

lemma column_field:
  assumes "f \<in> set names" "identifier_name f"
  shows "column_of (accessColumns names) f = Inr (JsonExtract ''data'' f)"
proof -
  have "map_of (rev (map (\<lambda>f. (f, JsonExtract ''data'' f)) (filter identifier_name names))) f = Some (JsonExtract ''data'' f)"
    using assms map_of_map_restrict [of "JsonExtract ''data''" "rev (filter identifier_name names)"]
    by (simp add: rev_map [symmetric] restrict_map_def)
  then show ?thesis
    by (simp add: column_of_def accessColumns_def jmap_of_list_def jget_map_of_list jget_def [of "rev _"])
qed

text \<open>The fields a condition can be about.\<close>

definition supported_field :: "string list \<Rightarrow> string \<Rightarrow> bool" where
  "supported_field names f \<longleftrightarrow> f = ''$createdBy'' \<or> f \<in> set names \<and> identifier_name f \<and> f \<notin> set record_columns"

lemma row_reads:
  assumes "json_row row" "supported_field names f"
  shows "\<exists>e. column_of (accessColumns names) f = Inr e \<and>
    reads (stored_row row) e (field_value f (stored_record row))"
proof (cases "f = ''$createdBy''")
  case True
  have "reads (stored_row row) (SqlColumn ''created_by'') (field_value f (stored_record row))"
    using True
    by (auto simp: reads_def field_value_def stored_row_def json_value_def json_sql_def json_type_def split: option.split)
  with column_createdBy True show ?thesis by blast
next
  case False
  then have f: "f \<in> set names" "identifier_name f" "f \<notin> set record_columns"
    using assms(2) by (auto simp: supported_field_def)
  have v: "field_value f (stored_record row) =
      (case jget (sr_data row) f of None \<Rightarrow> JNull | Some JUndef \<Rightarrow> JNull | Some v \<Rightarrow> v)"
    using False record_value [OF f(3)] by (simp add: field_value_def)
  have "reads (stored_row row) (JsonExtract ''data'' f) (field_value f (stored_record row))"
  proof (cases "jget (sr_data row) f")
    case None
    then show ?thesis unfolding v by (simp add: reads_def stored_row_def json_value_def json_sql_def)
  next
    case (Some x)
    then have "json_value x" using assms(1) jget_Some_mem [OF Some] by (auto simp: json_row_def list_all_iff)
    with Some show ?thesis unfolding v by (cases x) (simp_all add: reads_def stored_row_def json_value_def)
  qed
  with column_field [OF f(1,2)] show ?thesis by blast
qed

text \<open>The query of a policy selects the rows the evaluator allows.\<close>

lemma compiled_policy:
  assumes "json_row row"
    and "\<And>g. g \<in> set (ap_grants pol) \<Longrightarrow> ag_resource g = resource \<Longrightarrow> ag_action g = action \<Longrightarrow>
      list_all (supported_field names) (predicate_fields (ag_predicate g))"
  shows "compiles_to (stored_row row) (compileAccessWhere pol resource action (accessColumns names))
    (ad_allowed (decideRecord pol resource action (stored_record row)))"
proof -
  let ?r = "stored_record row"
  let ?gs = "filter (\<lambda>g. ag_resource g = resource \<and> ag_action g = action) (ap_grants pol)"
  have "compiles_to (stored_row row) (emit pol (accessColumns names) (ag_predicate g)) (matchesPredicate (ag_predicate g) pol ?r)"
    if "g \<in> set ?gs" for g
    using that assms(2) [of g] row_reads [OF assms(1)]
    by (intro emit_agrees) (auto simp: reads_fields_def list_all_iff)
  from join_any [OF map_compiles, OF this]
  have "compiles_to (stored_row row) (compileAccessWhere pol resource action (accessColumns names))
      (list_ex id (map (\<lambda>g. matchesPredicate (ag_predicate g) pol ?r) ?gs))"
    unfolding compileAccessWhere_def .
  moreover have "list_ex id (map (\<lambda>g. matchesPredicate (ag_predicate g) pol ?r) ?gs) \<longleftrightarrow>
      ad_allowed (decideRecord pol resource action ?r)"
    by (auto simp: decideRecord_def decision_def list_ex_iff filter_empty_conv)
  ultimately show ?thesis by simp
qed

lemma columns_own_names: "own_names (accessColumns names)"
  unfolding own_names_def
proof (intro allI impI)
  fix f e assume "column_of (accessColumns names) f = Inr e"
  then have "jget (accessColumns names) f = Some e"
    by (auto simp: column_of_def split: option.splits if_splits)
  moreover define l where "l = (''$createdBy'', SqlColumn ''created_by'')
      # map (\<lambda>f. (f, JsonExtract ''data'' f)) (filter identifier_name names)"
  moreover have "jget (accessColumns names) f = (case jget (rev l) f of None \<Rightarrow> jget [] f | Some v \<Rightarrow> Some v)"
    unfolding accessColumns_def jmap_of_list_def l_def by (rule jget_map_of_list)
  ultimately have "jget (rev l) f = Some e" by (simp add: jget_def [of "[]"] split: option.splits)
  then have "(f, e) \<in> set l" by (metis jget_Some_mem set_rev)
  then have "(f, e) \<in> set ((''$createdBy'', SqlColumn ''created_by'')
      # map (\<lambda>f. (f, JsonExtract ''data'' f)) (filter identifier_name names))" unfolding l_def .
  then show "set (expr_fields e) \<subseteq> {f}" by auto
qed

end
