(* ===== verification/Access_Search.thy ===== *)
theory Access_Search
  imports Access_Records
begin

text \<open>
  Queries on a collection under a policy: \<open>queryAccessFields\<close> and \<open>requireQueryAccess\<close> of
  \<open>packages/studio-server/src/access-authorization.ts\<close>, \<open>buildWhere\<close> of \<open>query.ts\<close>
  and \<open>recordSearchCandidate\<close> of \<open>record-search.ts\<close>. The parameters of a request are a
  map of texts; \<open>parse\<close> is \<open>JSON.parse\<close>. The condition of the query is a list of parts
  joined by \<open>AND\<close>, with the values bound to its placeholders in their order. The names of
  the fields of a collection are identifiers, as its schema asks.
\<close>

datatype query_error = HttpError http_error | SchemaError | TypeErr

type_synonym query_params = "string jmap"

definition param :: "query_params \<Rightarrow> string \<Rightarrow> string" where
  "param ps k = (case jget ps k of None \<Rightarrow> [] | Some s \<Rightarrow> s)"

fun split_commas :: "string \<Rightarrow> string list" where
  "split_commas [] = [[]]"
| "split_commas (c # cs) =
     (if c = CHR '','' then [] # split_commas cs
      else (case split_commas cs of p # ps \<Rightarrow> (c # p) # ps | [] \<Rightarrow> [[c]]))"

text \<open>\<open>params.searchFields?.split(",") ?? []\<close>\<close>

definition search_names :: "query_params \<Rightarrow> string list" where
  "search_names ps = (case jget ps ''searchFields'' of None \<Rightarrow> [] | Some s \<Rightarrow> split_commas s)"

section \<open>What a policy lets a query look at\<close>

definition read_grants :: "access_policy \<Rightarrow> string \<Rightarrow> access_grant list" where
  "read_grants pol name = filter (\<lambda>g. ag_resource g = collection_resource name \<and> ag_action g = ActRead) (ap_grants pol)"

definition queryAccessFields :: "access_policy \<Rightarrow> string \<Rightarrow> string list" where
  "queryAccessFields pol name = (case read_grants pol name of
     [] \<Rightarrow> []
   | g # gs \<Rightarrow> filter (\<lambda>f. list_all (\<lambda>h. f \<in> set (ag_fields h)) (g # gs)) (ag_fields g))"

text \<open>The fields named by the conditions of parsed filters; a field is any value.\<close>

definition filter_fields :: "jv \<Rightarrow> query_error + jv list" where
  "filter_fields v = (case v of
     JObj m \<Rightarrow> (case read_prop m ''conditions'' of
         JUndef \<Rightarrow> Inr []
       | JNull \<Rightarrow> Inr []
       | JArr cs \<Rightarrow> if list_ex (\<lambda>c. c = JNull) cs then Inl TypeErr
           else Inr (map (\<lambda>c. case c of JObj m \<Rightarrow> read_prop m ''field'' | _ \<Rightarrow> JUndef) cs)
       | JStr s \<Rightarrow> Inr (map (\<lambda>_. JUndef) s)
       | _ \<Rightarrow> Inl TypeErr)
   | JNull \<Rightarrow> Inl TypeErr
   | _ \<Rightarrow> Inr [])"

definition queried_fields :: "(string \<Rightarrow> jv option) \<Rightarrow> query_params \<Rightarrow> string \<Rightarrow> query_error + jv list" where
  "queried_fields parse ps pipeline =
     (let named = map JStr (filter (\<lambda>s. s \<noteq> []) ([param ps ''sort'', param ps ''group'', param ps ''amountField'',
            param ps ''searchField''] @ search_names ps));
          staged = (if param ps ''stage'' \<noteq> [] \<or> param ps ''emptyStage'' \<noteq> [] then [JStr pipeline] else []) in
      if param ps ''filters'' = [] then Inr (named @ staged)
      else (case parse (param ps ''filters'') of
          None \<Rightarrow> Inl (HttpError (''Invalid filters.'', 422))
        | Some v \<Rightarrow> (case filter_fields v of Inl e \<Rightarrow> Inl e | Inr fs \<Rightarrow> Inr (named @ staged @ fs))))"

definition is_among :: "string list \<Rightarrow> jv \<Rightarrow> bool" where
  "is_among names v = (case v of JStr s \<Rightarrow> s \<in> set names | _ \<Rightarrow> False)"

fun join_commas :: "string list \<Rightarrow> string" where
  "join_commas [] = []"
| "join_commas [x] = x"
| "join_commas (x # y # ys) = x @ CHR '','' # join_commas (y # ys)"

text \<open>The parameters as the check leaves them.\<close>

definition requireQueryAccess :: "(string \<Rightarrow> jv option) \<Rightarrow> access_policy \<Rightarrow> string \<Rightarrow> string \<Rightarrow> query_params
    \<Rightarrow> query_error + query_params" where
  "requireQueryAccess parse pol name pipeline ps =
     (let searchable = queryAccessFields pol name;
          allowed = searchable @ [''id'', ''created_at'', ''updated_at''] in
      if list_ex (\<lambda>f. f \<noteq> [] \<and> f \<notin> set searchable) (param ps ''searchField'' # search_names ps)
      then Inl (HttpError accessDenied)
      else (case queried_fields parse ps pipeline of
          Inl e \<Rightarrow> Inl e
        | Inr qs \<Rightarrow>
            if list_ex (\<lambda>f. \<not> is_among allowed f) qs then Inl (HttpError accessDenied)
            else if param ps ''q'' \<noteq> [] \<and> param ps ''searchField'' = [] \<and> param ps ''searchFields'' = []
            then (if searchable = [] then Inl (HttpError accessDenied)
                  else Inr (jset ps ''searchFields'' (join_commas searchable)))
            else Inr ps))"

section \<open>The condition of a query\<close>

record query_object =
  qo_name :: string
  qo_fields :: "string list"
  qo_pipeline :: string
  qo_indexed :: bool

datatype filter_op = FoEq | FoNe | FoGt | FoGte | FoLt | FoLte | FoContains | FoStartsWith | FoEndsWith | FoEmpty | FoIn

record filter_condition =
  qc_field :: string
  qc_op :: filter_op
  qc_value :: jv

record query_filters =
  qf_all :: bool
  qf_conditions :: "filter_condition list"

datatype filter_part =
    FilterEmpty string
  | FilterIn string nat
  | FilterLike string
  | FilterCompare string filter_op

datatype where_part =
    WhereBase bool
  | WhereLiteral string string
  | WhereAccess sql_cond
  | WhereCandidate
  | WhereLike "string list"
  | WhereLikeAny
  | WhereEquals string
  | WhereEmptyStage string
  | WhereFilters bool "filter_part list"

type_synonym segment = "query_error + (where_part list \<times> scalar list)"

text \<open>\<open>object.config.fields[name]\<close> is truthy.\<close>

definition config_has :: "query_object \<Rightarrow> string \<Rightarrow> bool" where
  "config_has ob f \<longleftrightarrow> f \<in> set (qo_fields ob) \<or> f \<in> set object_prototype_keys"

definition resolveSearchFields :: "query_object \<Rightarrow> query_params \<Rightarrow> string list" where
  "resolveSearchFields ob ps =
     (if param ps ''searchFields'' \<noteq> []
      then take 20 (filter (config_has ob) (map js_trim (split_commas (param ps ''searchFields''))))
      else if param ps ''searchField'' \<noteq> [] \<and> config_has ob (param ps ''searchField'')
      then [param ps ''searchField''] else [])"

text \<open>\<open>replace(/[\\%_]/g, "\\$&")\<close>\<close>

definition escape_like :: "string \<Rightarrow> string" where
  "escape_like s = concat (map (\<lambda>c. if c \<in> set [CHR 0x5C, CHR ''%'', CHR ''_''] then [CHR 0x5C, c] else [c]) s)"

text \<open>At least three characters and no NUL; the code units of the model are never surrogates.\<close>

definition recordSearchCandidate :: "string \<Rightarrow> string option" where
  "recordSearchCandidate query =
     (if CHR 0x00 \<in> set query \<or> length query < 3 then None
      else Some ([CHR 0x22] @ concat (map (\<lambda>c. if c = CHR 0x22 then [c, c] else [c]) query) @ [CHR 0x22]))"

definition search_segment :: "query_object \<Rightarrow> string \<Rightarrow> query_params \<Rightarrow> where_part list \<times> scalar list" where
  "search_segment ob tenant ps =
     (if param ps ''q'' = [] then ([], [])
      else (let query = take 200 (param ps ''q'');
                pattern = ''%'' @ escape_like query @ ''%'';
                names = resolveSearchFields ob ps;
                (cs, cargs) = (case recordSearchCandidate query of None \<Rightarrow> ([], [])
                  | Some c \<Rightarrow> ([WhereCandidate], [ScStr c, ScStr tenant, ScStr (qo_name ob)])) in
        if names \<noteq> [] then (cs @ [WhereLike names], cargs @ map (\<lambda>_. ScStr pattern) names)
        else (cs @ [WhereLikeAny], cargs @ [ScStr pattern])))"

definition stage_segment :: "query_object \<Rightarrow> query_params \<Rightarrow> where_part list \<times> scalar list" where
  "stage_segment ob ps =
     (let eq = (param ps ''stage'' \<noteq> [] \<and> config_has ob (qo_pipeline ob));
          empty = (param ps ''emptyStage'' = ''true'' \<and> config_has ob (qo_pipeline ob)) in
      ((if eq then [WhereEquals (qo_pipeline ob)] else []) @ (if empty then [WhereEmptyStage (qo_pipeline ob)] else []),
       if eq then [ScStr (param ps ''stage'')] else []))"

text \<open>A scalar as a comparison binds it.\<close>

fun bind_compare :: "jv \<Rightarrow> scalar option" where
  "bind_compare (JStr s) = Some (ScStr s)"
| "bind_compare (JNum (Fin q)) = Some (ScNum q)"
| "bind_compare (JBool b) = Some (ScNum (if b then 1 else 0))"
| "bind_compare _ = None"

text \<open>\<open>String(value ?? "")\<close> of a scalar.\<close>

fun scalar_text :: "jv \<Rightarrow> string" where
  "scalar_text (JStr s) = s"
| "scalar_text (JNum n) = num_to_string n"
| "scalar_text (JBool b) = (if b then ''true'' else ''false'')"
| "scalar_text _ = []"

definition filter_part_of :: "query_object \<Rightarrow> filter_condition \<Rightarrow> query_error + (filter_part \<times> scalar list)" where
  "filter_part_of ob c =
     (let f = qc_field c; v = qc_value c in
      if \<not> config_has ob f then Inl (HttpError (''Campo de filtro desconocido.'', 422))
      else if qc_op c = FoEmpty then Inr (FilterEmpty f, [])
      else if qc_op c = FoIn then (case v of
          JArr vs \<Rightarrow> (case traverse bind_compare vs of
              Some bs \<Rightarrow> if bs = [] \<or> 100 < length bs
                then Inl (HttpError ((''Filtro de lista inv'' @ [CHR 0xE1] @ ''lido.''), 422))
                else Inr (FilterIn f (length bs), bs)
            | None \<Rightarrow> Inl (HttpError ((''Filtro de lista inv'' @ [CHR 0xE1] @ ''lido.''), 422)))
        | _ \<Rightarrow> Inl (HttpError ((''Filtro de lista inv'' @ [CHR 0xE1] @ ''lido.''), 422)))
      else if v \<noteq> JNull \<and> bind_compare v = None then Inl (HttpError ((''Valor de filtro inv'' @ [CHR 0xE1] @ ''lido.''), 422))
      else if qc_op c \<in> {FoContains, FoStartsWith, FoEndsWith}
      then Inr (FilterLike f, [ScStr ((if qc_op c = FoStartsWith then [] else ''%'') @ escape_like (scalar_text v)
             @ (if qc_op c = FoEndsWith then [] else ''%''))])
      else Inr (FilterCompare f (qc_op c), [case bind_compare v of None \<Rightarrow> ScNull | Some b \<Rightarrow> b]))"

fun gather_filters :: "query_object \<Rightarrow> filter_condition list \<Rightarrow> query_error + (filter_part list \<times> scalar list)" where
  "gather_filters ob [] = Inr ([], [])"
| "gather_filters ob (c # cs) = (case filter_part_of ob c of
     Inl e \<Rightarrow> Inl e
   | Inr (p, bs) \<Rightarrow> (case gather_filters ob cs of Inl e \<Rightarrow> Inl e | Inr (ps, bs') \<Rightarrow> Inr (p # ps, bs @ bs')))"

text \<open>The schema of the filters.\<close>

definition filter_op_of :: "string \<Rightarrow> filter_op option" where
  "filter_op_of s = map_of [(''eq'', FoEq), (''ne'', FoNe), (''gt'', FoGt), (''gte'', FoGte), (''lt'', FoLt),
     (''lte'', FoLte), (''contains'', FoContains), (''startsWith'', FoStartsWith), (''endsWith'', FoEndsWith),
     (''empty'', FoEmpty), (''in'', FoIn)] s"

definition parse_condition :: "jv \<Rightarrow> filter_condition option" where
  "parse_condition v = (case v of
     JObj m \<Rightarrow> (case (read_prop m ''field'', read_prop m ''op'') of
         (JStr f, JStr s) \<Rightarrow> map_option (\<lambda>op. \<lparr>qc_field = f, qc_op = op, qc_value = read_prop m ''value''\<rparr>) (filter_op_of s)
       | _ \<Rightarrow> None)
   | _ \<Rightarrow> None)"

definition parse_filters :: "jv \<Rightarrow> query_filters option" where
  "parse_filters v = (case v of
     JObj m \<Rightarrow>
       (let logic = read_prop m ''logic'' in
        if logic \<noteq> JUndef \<and> logic \<noteq> JStr ''and'' \<and> logic \<noteq> JStr ''or'' then None
        else (case read_prop m ''conditions'' of
            JArr cs \<Rightarrow> if 20 < length cs then None
              else map_option (\<lambda>xs. \<lparr>qf_all = (logic \<noteq> JStr ''or''), qf_conditions = xs\<rparr>) (traverse parse_condition cs)
          | _ \<Rightarrow> None))
   | _ \<Rightarrow> None)"

definition filter_segment :: "(string \<Rightarrow> jv option) \<Rightarrow> query_object \<Rightarrow> query_params \<Rightarrow> segment" where
  "filter_segment parse ob ps =
     (if param ps ''filters'' = [] then Inr ([], [])
      else (case parse (param ps ''filters'') of
          None \<Rightarrow> Inl (HttpError ((''Filtros inv'' @ [CHR 0xE1] @ ''lidos.''), 422))
        | Some v \<Rightarrow> (case parse_filters v of
            None \<Rightarrow> Inl SchemaError
          | Some fs \<Rightarrow> (case gather_filters ob (qf_conditions fs) of
              Inl e \<Rightarrow> Inl e
            | Inr (parts, bs) \<Rightarrow> Inr (if parts = [] then [] else [WhereFilters (qf_all fs) parts], bs)))))"

definition access_segment :: "access_policy option \<Rightarrow> query_object \<Rightarrow> segment" where
  "access_segment policy ob = (case policy of
     None \<Rightarrow> Inr ([], [])
   | Some pol \<Rightarrow> (case compileAccessWhere pol (collection_resource (qo_name ob)) ActRead (accessColumns (qo_fields ob)) of
       Inl e \<Rightarrow> Inl (HttpError (e, 403))
     | Inr (c, bs) \<Rightarrow> Inr ([WhereAccess c], bs)))"

definition base_segment :: "query_object \<Rightarrow> string \<Rightarrow> query_params \<Rightarrow> where_part list \<times> scalar list" where
  "base_segment ob tenant ps = (WhereBase (param ps ''trash'' = ''true'')
     # (if qo_indexed ob then [WhereLiteral tenant (qo_name ob)] else []), [ScStr tenant, ScStr (qo_name ob)])"

definition check_query :: "(string \<Rightarrow> jv option) \<Rightarrow> access_policy option \<Rightarrow> query_object \<Rightarrow> query_params
    \<Rightarrow> query_error + query_params" where
  "check_query parse policy ob ps = (case policy of None \<Rightarrow> Inr ps
     | Some pol \<Rightarrow> requireQueryAccess parse pol (qo_name ob) (qo_pipeline ob) ps)"

definition buildWhere :: "(string \<Rightarrow> jv option) \<Rightarrow> query_object \<Rightarrow> string \<Rightarrow> query_params \<Rightarrow> access_policy option \<Rightarrow> segment" where
  "buildWhere parse ob tenant ps policy =
     (case check_query parse policy ob ps of
        Inl e \<Rightarrow> Inl e
      | Inr ps \<Rightarrow> (case access_segment policy ob of
          Inl e \<Rightarrow> Inl e
        | Inr (aparts, aargs) \<Rightarrow> (case filter_segment parse ob ps of
            Inl e \<Rightarrow> Inl e
          | Inr (fparts, fargs) \<Rightarrow>
              Inr (fst (base_segment ob tenant ps) @ aparts @ fst (search_segment ob tenant ps)
                     @ fst (stage_segment ob ps) @ fparts,
                   snd (base_segment ob tenant ps) @ aargs @ snd (search_segment ob tenant ps)
                     @ snd (stage_segment ob ps) @ fargs))))"

end
