(* ===== verification/Access_Select.thy ===== *)
theory Access_Select
  imports Access_Search
begin

text \<open>
  What the condition of \<open>buildWhere\<close> selects. \<open>LIKE\<close> follows SQLite: \<open>%\<close> and \<open>_\<close>
  are wildcards, the backslash escapes, ASCII letters match in either case. The text of a number
  and the index that narrows a search are the outside (\<open>sqlite\<close>).
\<close>

record sqlite =
  sl_number_text :: "rat \<Rightarrow> string"
  sl_candidate :: "string \<Rightarrow> studio_row \<Rightarrow> bool"

record placed_row =
  pr_tenant :: string
  pr_object :: string
  pr_row :: studio_row

section \<open>LIKE\<close>

definition ascii_lower :: "char \<Rightarrow> char" where
  "ascii_lower c = (let n = of_char c :: nat in if 65 \<le> n \<and> n \<le> 90 then char_of (n + 32) else c)"

definition same_letter :: "char \<Rightarrow> char \<Rightarrow> bool" where
  "same_letter a b \<longleftrightarrow> ascii_lower a = ascii_lower b"

fun like :: "string \<Rightarrow> string \<Rightarrow> bool" where
  "like [] t = (t = [])"
| "like (p # ps) t =
     (if p = CHR ''%'' then like ps t \<or> (case t of [] \<Rightarrow> False | _ # ts \<Rightarrow> like (p # ps) ts)
      else if p = CHR ''_'' then (case t of [] \<Rightarrow> False | _ # ts \<Rightarrow> like ps ts)
      else if p = CHR 0x5C then (case ps of [] \<Rightarrow> False
        | q # qs \<Rightarrow> (case t of [] \<Rightarrow> False | c # ts \<Rightarrow> same_letter q c \<and> like qs ts))
      else (case t of [] \<Rightarrow> False | c # ts \<Rightarrow> same_letter p c \<and> like ps ts))"

text \<open>The text holds the other one, up to the case of ASCII letters.\<close>

definition holds_text :: "string \<Rightarrow> string \<Rightarrow> bool" where
  "holds_text s t \<longleftrightarrow> (\<exists>a m b. t = a @ m @ b \<and> list_all2 same_letter s m)"

lemma like_all [simp]: "like ''%'' t"
  by (induction t) auto

lemma like_any: "like (CHR ''%'' # ps) t \<longleftrightarrow> (\<exists>a b. t = a @ b \<and> like ps b)"
proof (induction t)
  case (Cons c t)
  have "(\<exists>a b. c # t = a @ b \<and> like ps b) \<longleftrightarrow> like ps (c # t) \<or> (\<exists>a b. t = a @ b \<and> like ps b)"
    by (auto simp: Cons_eq_append_conv)
  with Cons show ?case by simp
qed simp

lemma like_escaped: "like (escape_like s @ ps) t \<longleftrightarrow> (\<exists>m b. t = m @ b \<and> list_all2 same_letter s m \<and> like ps b)"
proof (induction s arbitrary: t)
  case (Cons c s)
  have one: "like (escape_like (c # s) @ ps) t \<longleftrightarrow> (\<exists>d u. t = d # u \<and> same_letter c d \<and> like (escape_like s @ ps) u)"
    by (cases t) (auto simp: escape_like_def)
  show ?case unfolding one Cons
    by (auto simp: list_all2_Cons1) (metis append_Cons)+
qed (simp add: escape_like_def)

lemma like_pattern: "like (''%'' @ escape_like s @ ''%'') t \<longleftrightarrow> holds_text s t"
proof -
  have "like (CHR ''%'' # (escape_like s @ ''%'')) t \<longleftrightarrow> holds_text s t"
    unfolding like_any like_escaped holds_text_def by auto
  then show ?thesis by (simp only: append_Cons append_Nil)
qed

section \<open>Evaluation\<close>

definition as_text :: "sqlite \<Rightarrow> sqlv \<Rightarrow> string option" where
  "as_text sl v = (case v of QNull \<Rightarrow> None | QNum q \<Rightarrow> Some (sl_number_text sl q) | QText s \<Rightarrow> Some s)"

definition field_sql :: "placed_row \<Rightarrow> string \<Rightarrow> sqlv" where
  "field_sql r f = expr_value (stored_row (pr_row r)) (JsonExtract ''data'' f)"

definition like_value :: "sqlite \<Rightarrow> sqlv \<Rightarrow> sqlv \<Rightarrow> bool option" where
  "like_value sl v pattern = (case (as_text sl v, as_text sl pattern) of
     (Some t, Some p) \<Rightarrow> Some (like p t) | _ \<Rightarrow> None)"

definition equals_text :: "sqlite \<Rightarrow> sqlv \<Rightarrow> string \<Rightarrow> bool option" where
  "equals_text sl v s = map_option (\<lambda>t. t = s) (as_text sl v)"

fun compare_filter :: "filter_op \<Rightarrow> sqlv \<Rightarrow> sqlv \<Rightarrow> bool option" where
  "compare_filter FoEq a b = sql_compare SIs a b"
| "compare_filter FoNe a b = map_option Not (sql_compare SIs a b)"
| "compare_filter FoGt a b = sql_compare SGt a b"
| "compare_filter FoGte a b = sql_compare SGte a b"
| "compare_filter FoLt a b = sql_compare SLt a b"
| "compare_filter FoLte a b = sql_compare SLte a b"
| "compare_filter _ a b = None"

text \<open>The test of the next binding.\<close>

definition next_binding :: "(sqlv \<Rightarrow> bool option) \<Rightarrow> sqlv list \<Rightarrow> bool option \<times> sqlv list" where
  "next_binding f bs = (case bs of [] \<Rightarrow> (None, []) | b # bs \<Rightarrow> (f b, bs))"

definition any3 :: "bool option list \<times> 'a \<Rightarrow> bool option \<times> 'a" where
  "any3 x = (foldr or3 (fst x) (Some False), snd x)"

definition all3 :: "bool option list \<times> 'a \<Rightarrow> bool option \<times> 'a" where
  "all3 x = (foldr and3 (fst x) (Some True), snd x)"

fun eval_filter :: "sqlite \<Rightarrow> placed_row \<Rightarrow> filter_part \<Rightarrow> sqlv list \<Rightarrow> bool option \<times> sqlv list" where
  "eval_filter sl r (FilterEmpty f) bs = (or3 (Some (as_text sl (field_sql r f) = None))
     (or3 (equals_text sl (field_sql r f) []) (equals_text sl (field_sql r f) ''[]'')), bs)"
| "eval_filter sl r (FilterIn f n) bs =
     any3 (thread (\<lambda>_. next_binding (sql_compare SIs (field_sql r f))) (replicate n ()) bs)"
| "eval_filter sl r (FilterLike f) bs = next_binding (like_value sl (field_sql r f)) bs"
| "eval_filter sl r (FilterCompare f op) bs = next_binding (compare_filter op (field_sql r f)) bs"

fun eval_part :: "sqlite \<Rightarrow> placed_row \<Rightarrow> where_part \<Rightarrow> sqlv list \<Rightarrow> bool option \<times> sqlv list" where
  "eval_part sl r (WhereBase trash) bs = (case bs of
     a # b # bs \<Rightarrow> (and3 (Some (QText (pr_tenant r) = a)) (and3 (Some (QText (pr_object r) = b))
        (Some ((sr_deleted_at (pr_row r) \<noteq> None) = trash))), bs)
   | _ \<Rightarrow> (None, []))"
| "eval_part sl r (WhereLiteral t n) bs = (and3 (Some (pr_tenant r = t)) (Some (pr_object r = n)), bs)"
| "eval_part sl r (WhereAccess c) bs = sql_eval (stored_row (pr_row r)) c bs"
| "eval_part sl r WhereCandidate bs = (case bs of
     a # b # c # bs \<Rightarrow> (Some (\<exists>s. a = QText s \<and> sl_candidate sl s (pr_row r) \<and> b = QText (pr_tenant r)
        \<and> c = QText (pr_object r)), bs)
   | _ \<Rightarrow> (None, []))"
| "eval_part sl r (WhereLike fs) bs = any3 (thread (\<lambda>f. next_binding (like_value sl (field_sql r f))) fs bs)"
| "eval_part sl r WhereLikeAny bs = next_binding (\<lambda>p. Some (list_ex
     (\<lambda>kv. like_value sl (json_sql (snd kv)) p = Some True) (sr_data (pr_row r)))) bs"
| "eval_part sl r (WhereEquals f) bs = next_binding (sql_compare SIs (field_sql r f)) bs"
| "eval_part sl r (WhereEmptyStage f) bs = (or3 (Some (as_text sl (field_sql r f) = None))
     (equals_text sl (field_sql r f) []), bs)"
| "eval_part sl r (WhereFilters every parts) bs =
     (if every then all3 (thread (eval_filter sl r) parts bs) else any3 (thread (eval_filter sl r) parts bs))"

definition selects :: "sqlite \<Rightarrow> placed_row \<Rightarrow> where_part list \<Rightarrow> scalar list \<Rightarrow> bool" where
  "selects sl r parts args \<longleftrightarrow> fst (all3 (thread (eval_part sl r) parts (map bound args))) = Some True"

section \<open>Parts take their own bindings\<close>

lemma thread_append:
  "thread f (xs @ ys) s = (fst (thread f xs s) @ fst (thread f ys (snd (thread f xs s))), snd (thread f ys (snd (thread f xs s))))"
  by (induction xs arbitrary: s) (simp_all add: split_beta)

definition splits :: "sqlite \<Rightarrow> placed_row \<Rightarrow> where_part list \<times> scalar list \<Rightarrow> bool \<Rightarrow> bool" where
  "splits sl r x P \<longleftrightarrow> (\<forall>rest. snd (thread (eval_part sl r) (fst x) (map bound (snd x) @ rest)) = rest \<and>
     (list_all (\<lambda>v. v = Some True) (fst (thread (eval_part sl r) (fst x) (map bound (snd x) @ rest))) \<longleftrightarrow> P))"

lemma splits_append:
  "splits sl r (p, a) P \<Longrightarrow> splits sl r (q, b) Q \<Longrightarrow> splits sl r (p @ q, a @ b) (P \<and> Q)"
  unfolding splits_def
proof (intro allI)
  fix rest
  let ?t = "thread (eval_part sl r)"
  assume 1: "\<forall>rest. snd (?t (fst (p, a)) (map bound (snd (p, a)) @ rest)) = rest \<and>
      list_all (\<lambda>v. v = Some True) (fst (?t (fst (p, a)) (map bound (snd (p, a)) @ rest))) = P"
    and 2: "\<forall>rest. snd (?t (fst (q, b)) (map bound (snd (q, b)) @ rest)) = rest \<and>
      list_all (\<lambda>v. v = Some True) (fst (?t (fst (q, b)) (map bound (snd (q, b)) @ rest))) = Q"
  have p: "snd (?t p (map bound a @ (map bound b @ rest))) = map bound b @ rest"
    "list_all (\<lambda>v. v = Some True) (fst (?t p (map bound a @ (map bound b @ rest)))) = P"
    using spec [OF 1, of "map bound b @ rest"] by simp_all
  have q: "snd (?t q (map bound b @ rest)) = rest" "list_all (\<lambda>v. v = Some True) (fst (?t q (map bound b @ rest))) = Q"
    using spec [OF 2, of rest] by simp_all
  show "snd (?t (fst (p @ q, a @ b)) (map bound (snd (p @ q, a @ b)) @ rest)) = rest \<and>
      list_all (\<lambda>v. v = Some True) (fst (?t (fst (p @ q, a @ b)) (map bound (snd (p @ q, a @ b)) @ rest))) = (P \<and> Q)"
    by (simp only: fst_conv snd_conv map_append append_assoc thread_append p q list_all_append simp_thms)
qed

lemma splits_none: "splits sl r ([], []) True"
  by (simp add: splits_def)

lemma splits_selects: "splits sl r (p, a) P \<Longrightarrow> selects sl r p a \<longleftrightarrow> P"
  unfolding splits_def selects_def all3_def fst_conv snd_conv foldr_and3_true
  by (drule spec [of _ "[]"]) (simp only: append_Nil2 simp_thms)

lemma splits_base:
  "splits sl r (base_segment ob tenant ps) (pr_tenant r = tenant \<and> pr_object r = qo_name ob \<and>
     ((sr_deleted_at (pr_row r) \<noteq> None) \<longleftrightarrow> param ps ''trash'' = ''true''))"
  by (auto simp: splits_def base_segment_def bound_def)

lemma splits_access:
  assumes "compiles_to (stored_row (pr_row r)) (Inr (c, bs)) P"
  shows "splits sl r ([WhereAccess c], bs) P"
  using assms by (simp add: splits_def compiles_to_def stands_for_def split_beta)

lemma thread_likes:
  "thread (\<lambda>f. next_binding (like_value sl (field_sql r f))) fs (map (\<lambda>_. QText p) fs @ rest) =
     (map (\<lambda>f. like_value sl (field_sql r f) (QText p)) fs, rest)"
  by (induction fs) (simp_all add: next_binding_def)

lemma like_text:
  "like_value sl v (QText (''%'' @ escape_like q @ ''%'')) = Some True \<longleftrightarrow>
     (\<exists>t. as_text sl v = Some t \<and> holds_text q t)"
  unfolding like_value_def by (auto simp: as_text_def [of sl "QText _"] like_pattern [simplified] split: option.split)

lemma splits_like:
  "splits sl r ([WhereLike fs], map (\<lambda>_. ScStr (''%'' @ escape_like q @ ''%'')) fs)
     (\<exists>f \<in> set fs. \<exists>t. as_text sl (field_sql r f) = Some t \<and> holds_text q t)"
proof -
  let ?p = "''%'' @ escape_like q @ ''%''"
  have b: "map bound (map (\<lambda>_. ScStr ?p) fs) = map (\<lambda>_. QText ?p) fs" by (simp add: bound_def)
  have "thread (eval_part sl r) [WhereLike fs] (map bound (map (\<lambda>_. ScStr ?p) fs) @ rest) =
      ([foldr or3 (map (\<lambda>f. like_value sl (field_sql r f) (QText ?p)) fs) (Some False)], rest)" for rest
    unfolding b by (simp only: thread.simps eval_part.simps any3_def thread_likes Let_def split_beta fst_conv snd_conv)
  then show ?thesis
    unfolding splits_def fst_conv snd_conv
    by (simp only: list.pred_inject foldr_or3_true list_ex_iff set_map bex_simps like_text simp_thms fst_conv snd_conv)
qed

lemma splits_like_any:
  "splits sl r ([WhereLikeAny], [ScStr (''%'' @ escape_like q @ ''%'')])
     (\<exists>kv \<in> set (sr_data (pr_row r)). \<exists>t. as_text sl (json_sql (snd kv)) = Some t \<and> holds_text q t)"
proof -
  let ?p = "''%'' @ escape_like q @ ''%''"
  have "thread (eval_part sl r) [WhereLikeAny] (map bound [ScStr ?p] @ rest) =
      ([Some (list_ex (\<lambda>kv. like_value sl (json_sql (snd kv)) (QText ?p) = Some True) (sr_data (pr_row r)))], rest)" for rest
    by (simp only: thread.simps eval_part.simps next_binding_def list.map append.simps list.case bound_def scalar.case
        Let_def split_beta fst_conv snd_conv)
  then show ?thesis
    unfolding splits_def fst_conv snd_conv
    by (simp only: list.pred_inject option.inject like_text list_ex_iff simp_thms fst_conv snd_conv)
qed

text \<open>The index of the search finds every record the search is about.\<close>

definition candidate_sound :: "sqlite \<Rightarrow> studio_row \<Rightarrow> bool" where
  "candidate_sound sl row \<longleftrightarrow> (\<forall>q c k v t. recordSearchCandidate q = Some c \<longrightarrow> (k, v) \<in> set (sr_data row) \<longrightarrow>
     as_text sl (json_sql v) = Some t \<longrightarrow> holds_text q t \<longrightarrow> sl_candidate sl c row)"

text \<open>What a search is about: the members of the data that it looks through.\<close>

definition searched :: "query_object \<Rightarrow> query_params \<Rightarrow> studio_row \<Rightarrow> (string \<times> jv) list" where
  "searched ob ps row = (if resolveSearchFields ob ps = [] then sr_data row
     else filter (\<lambda>kv. fst kv \<in> set (resolveSearchFields ob ps)) (sr_data row))"

definition search_hit :: "sqlite \<Rightarrow> query_object \<Rightarrow> query_params \<Rightarrow> studio_row \<Rightarrow> bool" where
  "search_hit sl ob ps row \<longleftrightarrow> (\<exists>kv \<in> set (searched ob ps row). \<exists>t. as_text sl (json_sql (snd kv)) = Some t \<and>
     holds_text (take 200 (param ps ''q'')) t)"

lemma field_member:
  assumes "distinct (jkeys (sr_data (pr_row r)))"
  shows "as_text sl (field_sql r f) = Some t \<longleftrightarrow>
    (\<exists>v. (f, v) \<in> set (sr_data (pr_row r)) \<and> as_text sl (json_sql v) = Some t)"
proof -
  have mem: "(f, v) \<in> set (sr_data (pr_row r)) \<longleftrightarrow> jget (sr_data (pr_row r)) f = Some v" for v
    using assms by (simp add: jget_def jkeys_def)
  show ?thesis unfolding mem
    by (cases "jget (sr_data (pr_row r)) f") (simp_all add: field_sql_def stored_row_def as_text_def [of sl QNull])
qed

lemma splits_candidate:
  "splits sl r ([WhereCandidate], [ScStr c, ScStr tenant, ScStr name])
     (sl_candidate sl c (pr_row r) \<and> tenant = pr_tenant r \<and> name = pr_object r)"
  by (simp add: splits_def bound_def)

lemma splits_search:
  assumes "distinct (jkeys (sr_data (pr_row r)))" "candidate_sound sl (pr_row r)"
    and "pr_tenant r = tenant" "pr_object r = qo_name ob" "param ps ''q'' \<noteq> []"
  shows "splits sl r (search_segment ob tenant ps) (search_hit sl ob ps (pr_row r))"
proof -
  let ?q = "take 200 (param ps ''q'')"
  let ?text = "(\<lambda>kv. \<exists>t. as_text sl (json_sql (snd kv)) = Some t \<and> holds_text ?q t)"
  define tail where "tail = (if resolveSearchFields ob ps \<noteq> []
     then ([WhereLike (resolveSearchFields ob ps)], map (\<lambda>_. ScStr (''%'' @ escape_like ?q @ ''%'')) (resolveSearchFields ob ps))
     else ([WhereLikeAny], [ScStr (''%'' @ escape_like ?q @ ''%'')]))"
  have hit: "search_hit sl ob ps (pr_row r) \<longleftrightarrow> (\<exists>kv \<in> set (searched ob ps (pr_row r)). ?text kv)"
    unfolding search_hit_def ..
  have tail: "splits sl r tail (search_hit sl ob ps (pr_row r))"
  proof (cases "resolveSearchFields ob ps = []")
    case True
    with splits_like_any [of sl r ?q] show ?thesis unfolding hit searched_def by (simp only: tail_def if_True if_False simp_thms)
  next
    case False
    have "(\<exists>f \<in> set (resolveSearchFields ob ps). \<exists>t. as_text sl (field_sql r f) = Some t \<and> holds_text ?q t) \<longleftrightarrow>
        search_hit sl ob ps (pr_row r)"
      unfolding hit searched_def field_member [OF assms(1)] using False by force
    with False splits_like [of sl r "resolveSearchFields ob ps" ?q] show ?thesis by (simp add: tail_def)
  qed
  show ?thesis
  proof (cases "recordSearchCandidate ?q")
    case None
    then have "search_segment ob tenant ps = tail" using assms(5) by (simp add: search_segment_def tail_def Let_def)
    with tail show ?thesis by simp
  next
    case (Some c)
    have found: "search_hit sl ob ps (pr_row r) \<Longrightarrow> sl_candidate sl c (pr_row r)"
      unfolding hit searched_def using assms(2) Some by (fastforce simp: candidate_sound_def split: if_splits)
    have "search_segment ob tenant ps = ([WhereCandidate] @ fst tail, [ScStr c, ScStr tenant, ScStr (qo_name ob)] @ snd tail)"
      using Some assms(5) by (simp add: search_segment_def tail_def Let_def)
    then show ?thesis
      using splits_append [OF splits_candidate [of sl r c tenant "qo_name ob"], of "fst tail" "snd tail"] tail found assms(3,4)
      by (auto simp: splits_def)
  qed
qed

section \<open>The query of a policy\<close>

text \<open>The rows a policy is about and the predicates it may use on a collection; whether it allows to
  read the record of a row, its creator the one the column has.\<close>

definition readable_row :: "access_policy \<Rightarrow> query_object \<Rightarrow> studio_row \<Rightarrow> bool" where
  "readable_row pol ob row \<longleftrightarrow> json_row row \<and> distinct (jkeys (sr_data row)) \<and>
     list_all (\<lambda>g. list_all (supported_field (qo_fields ob)) (predicate_fields (ag_predicate g))) (read_grants pol (qo_name ob))"

definition read_allowed :: "access_policy \<Rightarrow> query_object \<Rightarrow> studio_row \<Rightarrow> bool" where
  "read_allowed pol ob row \<longleftrightarrow> ad_allowed (decideRecord pol (collection_resource (qo_name ob)) ActRead (stored_record row))"

definition right_place :: "query_object \<Rightarrow> string \<Rightarrow> query_params \<Rightarrow> placed_row \<Rightarrow> bool" where
  "right_place ob tenant ps r \<longleftrightarrow> pr_tenant r = tenant \<and> pr_object r = qo_name ob \<and>
     ((sr_deleted_at (pr_row r) \<noteq> None) \<longleftrightarrow> param ps ''trash'' = ''true'')"

lemma access_part:
  assumes "readable_row pol ob (pr_row r)"
  obtains c bs where "access_segment (Some pol) ob = Inr ([WhereAccess c], bs)"
    "splits sl r ([WhereAccess c], bs) (read_allowed pol ob (pr_row r))"
proof -
  have "compiles_to (stored_row (pr_row r)) (compileAccessWhere pol (collection_resource (qo_name ob)) ActRead (accessColumns (qo_fields ob)))
      (read_allowed pol ob (pr_row r))"
    unfolding read_allowed_def using assms
    by (intro compiled_policy) (auto simp: readable_row_def read_grants_def list_all_iff)
  then obtain c bs where cb: "compileAccessWhere pol (collection_resource (qo_name ob)) ActRead (accessColumns (qo_fields ob)) = Inr (c, bs)"
    "compiles_to (stored_row (pr_row r)) (Inr (c, bs)) (read_allowed pol ob (pr_row r))"
    by (auto simp: compiles_to_def split: sum.splits)
  have "access_segment (Some pol) ob = Inr ([WhereAccess c], bs)" using cb(1) by (simp add: access_segment_def)
  with splits_access [OF cb(2)] show ?thesis using that by blast
qed

lemma trash_checked:
  "requireQueryAccess parse pol name pipeline ps = Inr ps' \<Longrightarrow> k \<noteq> ''searchFields'' \<Longrightarrow> param ps' k = param ps k"
  by (auto simp: requireQueryAccess_def Let_def param_def jget_jset split: if_splits sum.splits)

lemma build_where_split:
  assumes "buildWhere parse ob tenant ps (Some pol) = Inr (parts, args)" "readable_row pol ob (pr_row r)"
  obtains ps' p0 a0 fparts fargs where "requireQueryAccess parse pol (qo_name ob) (qo_pipeline ob) ps = Inr ps'"
    "filter_segment parse ob ps' = Inr (fparts, fargs)"
    "splits sl r (p0, a0) (right_place ob tenant ps r \<and> read_allowed pol ob (pr_row r))"
    "parts = p0 @ fst (search_segment ob tenant ps') @ fst (stage_segment ob ps') @ fparts"
    "args = a0 @ snd (search_segment ob tenant ps') @ snd (stage_segment ob ps') @ fargs"
proof -
  obtain c bs where ac: "access_segment (Some pol) ob = Inr ([WhereAccess c], bs)"
    "splits sl r ([WhereAccess c], bs) (read_allowed pol ob (pr_row r))"
    using access_part [OF assms(2)] by blast
  obtain ps' where ps': "requireQueryAccess parse pol (qo_name ob) (qo_pipeline ob) ps = Inr ps'"
    using assms(1) by (auto simp: buildWhere_def check_query_def split: sum.splits)
  obtain fparts fargs where fs: "filter_segment parse ob ps' = Inr (fparts, fargs)"
    using assms(1) ps' ac(1) by (auto simp: buildWhere_def check_query_def split: sum.splits)
  let ?b = "base_segment ob tenant ps'"
  have trash: "param ps' ''trash'' = param ps ''trash''" using trash_checked [OF ps'] by simp
  have "splits sl r (fst ?b @ [WhereAccess c], snd ?b @ bs) (right_place ob tenant ps r \<and> read_allowed pol ob (pr_row r))"
    using splits_append [of sl r "fst ?b" "snd ?b", unfolded prod.collapse, OF splits_base ac(2)]
    unfolding right_place_def trash by (simp only: conj_assoc)
  from that [OF ps' fs this] show ?thesis
    using assms(1) ps' ac(1) fs by (simp add: buildWhere_def check_query_def)
qed

lemma selects_prefix:
  assumes "splits sl r (p, a) P" "selects sl r (p @ q) (a @ b)"
  shows "P"
proof -
  have one: "snd (thread (eval_part sl r) p (map bound a @ map bound b)) = map bound b"
    "list_all (\<lambda>v. v = Some True) (fst (thread (eval_part sl r) p (map bound a @ map bound b))) = P"
    using assms(1) unfolding splits_def by (simp_all only: fst_conv snd_conv simp_thms)
  show ?thesis
    using assms(2) unfolding selects_def all3_def fst_conv foldr_and3_true map_append thread_append list_all_append one by blast
qed

text \<open>Whatever else a query asks, it selects rows the policy allows to read.\<close>

lemma selected_allowed:
  assumes "buildWhere parse ob tenant ps (Some pol) = Inr (parts, args)" "readable_row pol ob (pr_row r)" "selects sl r parts args"
  shows "right_place ob tenant ps r \<and> read_allowed pol ob (pr_row r)"
proof -
  obtain ps' p0 a0 fparts fargs where w: "splits sl r (p0, a0) (right_place ob tenant ps r \<and> read_allowed pol ob (pr_row r))"
    "parts = p0 @ (fst (search_segment ob tenant ps') @ fst (stage_segment ob ps') @ fparts)"
    "args = a0 @ (snd (search_segment ob tenant ps') @ snd (stage_segment ob ps') @ fargs)"
    using build_where_split [OF assms(1,2)] by metis
  from selects_prefix [OF w(1)] assms(3) show ?thesis unfolding w(2,3) by blast
qed

text \<open>A query that only searches selects exactly the rows with a hit.\<close>

lemma searched_rows:
  assumes "buildWhere parse ob tenant ps (Some pol) = Inr (parts, args)" "readable_row pol ob (pr_row r)"
    and "candidate_sound sl (pr_row r)"
    and "requireQueryAccess parse pol (qo_name ob) (qo_pipeline ob) ps = Inr ps'"
    and "param ps ''q'' \<noteq> []" "param ps ''stage'' = []" "param ps ''emptyStage'' = []" "param ps ''filters'' = []"
  shows "selects sl r parts args \<longleftrightarrow> right_place ob tenant ps r \<and> read_allowed pol ob (pr_row r) \<and> search_hit sl ob ps' (pr_row r)"
proof -
  note same = trash_checked [OF assms(4)]
  have none: "stage_segment ob ps' = ([], [])" "filter_segment parse ob ps' = Inr ([], [])"
    using same assms(6-8) by (simp_all add: stage_segment_def filter_segment_def)
  obtain p0 a0 where w: "splits sl r (p0, a0) (right_place ob tenant ps r \<and> read_allowed pol ob (pr_row r))"
    "parts = p0 @ fst (search_segment ob tenant ps')" "args = a0 @ snd (search_segment ob tenant ps')"
    using build_where_split [OF assms(1,2), where sl = sl] assms(4) none by (metis Inr_inject append_Nil2 fst_conv prod.inject snd_conv)
  show ?thesis
  proof (cases "right_place ob tenant ps r")
    case False
    with selected_allowed [OF assms(1,2)] show ?thesis by blast
  next
    case True
    then have "splits sl r (search_segment ob tenant ps') (search_hit sl ob ps' (pr_row r))"
      using assms(2,3,5) same by (intro splits_search) (simp_all add: right_place_def readable_row_def)
    then have hit: "splits sl r (fst (search_segment ob tenant ps'), snd (search_segment ob tenant ps')) (search_hit sl ob ps' (pr_row r))"
      by (simp only: prod.collapse)
    show ?thesis
      unfolding w(2,3) splits_selects [OF splits_append [OF w(1) hit]] by (rule conj_assoc)
  qed
qed

section \<open>What a query names\<close>

text \<open>The fields of the data that a part looks at. A search without fields looks at all members of
  the data. A candidate looks at none: it is only there to make a search faster.\<close>

fun filter_part_field :: "filter_part \<Rightarrow> string" where
  "filter_part_field (FilterEmpty f) = f"
| "filter_part_field (FilterIn f n) = f"
| "filter_part_field (FilterLike f) = f"
| "filter_part_field (FilterCompare f op) = f"

fun part_fields :: "where_part \<Rightarrow> string set" where
  "part_fields (WhereBase trash) = {}"
| "part_fields (WhereLiteral tenant name) = {}"
| "part_fields (WhereAccess c) = set (cond_fields c)"
| "part_fields WhereCandidate = {}"
| "part_fields (WhereLike fs) = set fs"
| "part_fields WhereLikeAny = UNIV"
| "part_fields (WhereEquals f) = {f}"
| "part_fields (WhereEmptyStage f) = {f}"
| "part_fields (WhereFilters every parts) = set (map filter_part_field parts)"

text \<open>The names a search looks in, and a search that gives none of a field of the collection.\<close>

definition search_given :: "access_policy \<Rightarrow> query_object \<Rightarrow> query_params \<Rightarrow> string list" where
  "search_given pol ob ps =
     (if param ps ''searchFields'' \<noteq> [] then map js_trim (split_commas (param ps ''searchFields''))
      else if param ps ''searchField'' \<noteq> [] then [param ps ''searchField'']
      else queryAccessFields pol (qo_name ob))"

definition unfielded_search :: "access_policy \<Rightarrow> query_object \<Rightarrow> query_params \<Rightarrow> bool" where
  "unfielded_search pol ob ps \<longleftrightarrow> param ps ''q'' \<noteq> [] \<and> list_all (\<lambda>f. \<not> config_has ob f) (search_given pol ob ps)"

lemma gather_filters_fields:
  "gather_filters ob cs = Inr (parts, bs) \<Longrightarrow> map filter_part_field parts = map qc_field cs"
proof (induction cs arbitrary: parts bs)
  case (Cons c cs)
  then obtain p b ps bs' where p: "filter_part_of ob c = Inr (p, b)" "gather_filters ob cs = Inr (ps, bs')" "parts = p # ps"
    by (auto split: sum.splits)
  have "filter_part_field p = qc_field c"
    using p(1) by (auto simp: filter_part_of_def Let_def split: if_splits jv.splits option.splits)
  with p Cons.IH show ?case by simp
qed simp

lemma parsed_condition_field:
  "parse_condition v = Some c \<Longrightarrow> (case v of JObj m \<Rightarrow> read_prop m ''field'' | _ \<Rightarrow> JUndef) = JStr (qc_field c)"
  by (auto simp: parse_condition_def split: jv.splits)

lemma parsed_filters_fields:
  assumes "parse_filters v = Some fs" "c \<in> set (qf_conditions fs)"
  shows "\<exists>xs. filter_fields v = Inr xs \<and> JStr (qc_field c) \<in> set xs"
proof -
  obtain m where m: "v = JObj m" using assms(1) by (cases v) (simp_all add: parse_filters_def)
  obtain cs where cs: "read_prop m ''conditions'' = JArr cs" "traverse parse_condition cs = Some (qf_conditions fs)"
    using assms(1) by (auto simp: m parse_filters_def Let_def split: if_splits jv.splits)
  have all: "map parse_condition cs = map Some (qf_conditions fs)" using cs(2) by (simp add: traverse_Some_iff)
  have "x \<noteq> JNull" if "x \<in> set cs" for x
  proof -
    have "parse_condition x \<in> set (map Some (qf_conditions fs))" using that all by (metis image_eqI set_map)
    then show ?thesis by (auto simp: parse_condition_def)
  qed
  then have ok: "\<not> list_ex (\<lambda>c. c = JNull) cs" by (auto simp: list_ex_iff)
  have "Some c \<in> set (map parse_condition cs)" using all assms(2) by simp
  then obtain x where x: "x \<in> set cs" "parse_condition x = Some c" by auto
  have "JStr (qc_field c) \<in> set (map (\<lambda>c. case c of JObj m \<Rightarrow> read_prop m ''field'' | _ \<Rightarrow> JUndef) cs)"
    using x parsed_condition_field [OF x(2)] by (metis (no_types, lifting) image_eqI set_map)
  with ok cs(1) m show ?thesis by (simp add: filter_fields_def)
qed

text \<open>Identifiers have neither commas nor white space, so a list of them splits again.\<close>

lemma identifier_chars:
  assumes "identifier_name f" "c \<in> set f"
  shows "c \<noteq> CHR '','' \<and> \<not> js_space c"
proof -
  have word: "word_char c" using assms by (cases f) (auto simp: identifier_name_def word_char_def list_all_iff)
  show ?thesis using word
    by (auto simp: word_char_def lower_letter_def upper_letter_def is_digit_def js_space_def)
qed

lemma split_one: "CHR '','' \<notin> set x \<Longrightarrow> split_commas x = [x]"
  by (induction x) auto

lemma split_first: "CHR '','' \<notin> set x \<Longrightarrow> split_commas (x @ CHR '','' # y) = x # split_commas y"
  by (induction x) auto

lemma split_join: "xs \<noteq> [] \<Longrightarrow> list_all (\<lambda>x. CHR '','' \<notin> set x) xs \<Longrightarrow> split_commas (join_commas xs) = xs"
  by (induction xs rule: join_commas.induct) (simp_all add: split_one split_first)

lemma trim_id: "\<forall>c \<in> set f. \<not> js_space c \<Longrightarrow> js_trim f = f"
proof -
  assume free: "\<forall>c \<in> set f. \<not> js_space c"
  have keep: "dropWhile js_space xs = xs" if "\<forall>c \<in> set xs. \<not> js_space c" for xs
    using that by (cases xs) auto
  have "dropWhile js_space (rev f) = rev f" by (rule keep) (simp add: free)
  with keep [OF free] show ?thesis by (simp add: js_trim_def)
qed

section \<open>What the check allows to name\<close>

definition grants_identifiers :: "access_policy \<Rightarrow> string \<Rightarrow> bool" where
  "grants_identifiers pol name \<longleftrightarrow> list_all (\<lambda>g. list_all identifier_name (ag_fields g)) (read_grants pol name)"

definition queryable :: "access_policy \<Rightarrow> string \<Rightarrow> string list" where
  "queryable pol name = queryAccessFields pol name @ [''id'', ''created_at'', ''updated_at'']"

lemma query_field_granted:
  "f \<in> set (queryAccessFields pol name) \<longleftrightarrow> read_grants pol name \<noteq> [] \<and> (\<forall>g \<in> set (read_grants pol name). f \<in> set (ag_fields g))"
  by (cases "read_grants pol name") (auto simp: queryAccessFields_def list_all_iff)

lemma query_field_identifier:
  assumes "grants_identifiers pol name" "f \<in> set (queryAccessFields pol name)"
  shows "identifier_name f \<and> js_trim f = f \<and> CHR '','' \<notin> set f \<and> f \<noteq> []"
proof -
  obtain g where "g \<in> set (read_grants pol name)" "f \<in> set (ag_fields g)"
    using assms(2) unfolding query_field_granted by (metis list.set_sel(1))
  then have f: "identifier_name f" using assms(1) by (auto simp: grants_identifiers_def list_all_iff)
  with identifier_chars [OF f] trim_id show ?thesis by (auto simp: identifier_name_def)
qed

lemma query_check:
  assumes "requireQueryAccess parse pol name pipeline ps = Inr ps'"
  obtains qs where "queried_fields parse ps pipeline = Inr qs" "\<And>v. v \<in> set qs \<Longrightarrow> is_among (queryable pol name) v"
    "\<And>s. s \<in> set (param ps ''searchField'' # search_names ps) \<Longrightarrow> s \<noteq> [] \<Longrightarrow> s \<in> set (queryAccessFields pol name)"
    "ps' = ps \<or> queryAccessFields pol name \<noteq> [] \<and> ps' = jset ps ''searchFields'' (join_commas (queryAccessFields pol name))"
  using assms by (auto simp: requireQueryAccess_def Let_def queryable_def list_ex_iff split: if_splits sum.splits)

lemma resolved_granted:
  assumes "requireQueryAccess parse pol (qo_name ob) pipeline ps = Inr ps'" "grants_identifiers pol (qo_name ob)"
    and "[] \<notin> set (qo_fields ob)" "f \<in> set (resolveSearchFields ob ps')"
  shows "f \<in> set (queryAccessFields pol (qo_name ob))"
proof -
  let ?F = "queryAccessFields pol (qo_name ob)"
  obtain qs where q: "\<And>s. s \<in> set (param ps ''searchField'' # search_names ps) \<Longrightarrow> s \<noteq> [] \<Longrightarrow> s \<in> set ?F"
    "ps' = ps \<or> ?F \<noteq> [] \<and> ps' = jset ps ''searchFields'' (join_commas ?F)"
    using query_check [OF assms(1)] by metis
  note ident = query_field_identifier [OF assms(2)]
  have nil: "\<not> config_has ob []" using assms(3) by (simp add: config_has_def object_prototype_keys_def)
  have names: "s = [] \<or> s \<in> set ?F" if "s \<in> set (search_names ps')" for s
  proof (cases "ps' = ps")
    case True
    with that q(1) show ?thesis by auto
  next
    case False
    then have F: "?F \<noteq> []" "ps' = jset ps ''searchFields'' (join_commas ?F)" using q(2) by auto
    then have "search_names ps' = split_commas (join_commas ?F)" by (simp add: search_names_def)
    then have "search_names ps' = ?F" using split_join F(1) ident by (simp add: list_all_iff)
    with that show ?thesis by simp
  qed
  have field: "param ps' ''searchField'' = param ps ''searchField''"
    using trash_checked [OF assms(1), of "''searchField''"] by simp
  show ?thesis
  proof (cases "param ps' ''searchFields'' = []")
    case True
    then have "f = param ps ''searchField''" "f \<noteq> []"
      using assms(4) field by (auto simp: resolveSearchFields_def split: if_splits)
    with q(1) show ?thesis by auto
  next
    case False
    then have s: "search_names ps' = split_commas (param ps' ''searchFields'')"
      by (simp add: search_names_def param_def split: option.splits)
    have "f \<in> set (filter (config_has ob) (map js_trim (search_names ps')))"
      using assms(4) False unfolding resolveSearchFields_def s by (simp only: simp_thms if_True if_False) (rule in_set_takeD)
    then obtain x where x: "x \<in> set (search_names ps')" "f = js_trim x" "config_has ob f" by auto
    have "x \<noteq> []" using x nil by (auto simp: js_trim_def)
    with names [OF x(1)] ident x(2) show ?thesis by auto
  qed
qed

lemma named_granted:
  assumes "buildWhere parse ob tenant ps (Some pol) = Inr (parts, args)" "grants_identifiers pol (qo_name ob)"
    and "[] \<notin> set (qo_fields ob)" "p \<in> set parts" "f \<in> part_fields p" "p \<noteq> WhereLikeAny"
  shows "f \<in> set (queryable pol (qo_name ob)) \<or>
    (\<exists>c. p = WhereAccess c \<and> (\<exists>g \<in> set (read_grants pol (qo_name ob)). f \<in> set (predicate_fields (ag_predicate g))))"
proof -
  obtain ps' where ps': "requireQueryAccess parse pol (qo_name ob) (qo_pipeline ob) ps = Inr ps'"
    using assms(1) by (auto simp: buildWhere_def check_query_def split: sum.splits)
  obtain aparts aargs where ac: "access_segment (Some pol) ob = Inr (aparts, aargs)"
    using assms(1) ps' by (auto simp: buildWhere_def check_query_def split: sum.splits)
  obtain fparts fargs where fs: "filter_segment parse ob ps' = Inr (fparts, fargs)"
    using assms(1) ps' ac by (auto simp: buildWhere_def check_query_def split: sum.splits)
  note same = trash_checked [OF ps']
  obtain qs where q: "queried_fields parse ps (qo_pipeline ob) = Inr qs" "\<And>v. v \<in> set qs \<Longrightarrow> is_among (queryable pol (qo_name ob)) v"
    using query_check [OF ps'] by metis
  have "p \<in> set (fst (base_segment ob tenant ps')) \<or> p \<in> set aparts \<or> p \<in> set (fst (search_segment ob tenant ps'))
      \<or> p \<in> set (fst (stage_segment ob ps')) \<or> p \<in> set fparts"
    using assms(1,4) ps' ac fs by (auto simp: buildWhere_def check_query_def)
  then consider (base) "p \<in> set (fst (base_segment ob tenant ps')) \<or> p \<in> set aparts"
    | (search) "p \<in> set (fst (search_segment ob tenant ps'))"
    | (stage) "p \<in> set (fst (stage_segment ob ps'))" | (filters) "p \<in> set fparts" by blast
  then show ?thesis
  proof cases
    case base
    then obtain c bs where p: "p = WhereAccess c"
      "compileAccessWhere pol (collection_resource (qo_name ob)) ActRead (accessColumns (qo_fields ob)) = Inr (c, bs)"
      using ac assms(5) by (auto simp: base_segment_def access_segment_def split: if_splits sum.splits)
    with compiled_fields [OF columns_own_names p(2)] assms(5) show ?thesis
      by (auto simp: read_grants_def)
  next
    case search
    then have "p = WhereLike (resolveSearchFields ob ps') \<or> p = WhereCandidate \<or> p = WhereLikeAny"
      by (auto simp: search_segment_def Let_def split: if_splits option.splits)
    with assms(5,6) have "f \<in> set (resolveSearchFields ob ps')" by auto
    from resolved_granted [OF ps' assms(2,3) this] show ?thesis by (simp add: queryable_def)
  next
    case stage
    then have f: "f = qo_pipeline ob" "param ps ''stage'' \<noteq> [] \<or> param ps ''emptyStage'' \<noteq> []"
      using assms(5) same by (auto simp: stage_segment_def Let_def split: if_splits)
    then have "JStr f \<in> set qs" using q(1) by (auto simp: queried_fields_def Let_def split: if_splits option.splits sum.splits)
    from q(2) [OF this] show ?thesis by (simp add: is_among_def)
  next
    case filters
    have given: "param ps ''filters'' \<noteq> []" using filters fs same by (auto simp: filter_segment_def split: if_splits)
    then obtain v qf where v: "parse (param ps ''filters'') = Some v" "parse_filters v = Some qf"
      using fs same by (auto simp: filter_segment_def split: if_splits option.splits)
    obtain parts' bs where g: "gather_filters ob (qf_conditions qf) = Inr (parts', bs)" "p = WhereFilters (qf_all qf) parts'"
      using fs filters given v same by (auto simp: filter_segment_def split: if_splits sum.splits)
    then obtain c where c: "c \<in> set (qf_conditions qf)" "f = qc_field c"
      using assms(5) gather_filters_fields [OF g(1)] by (auto dest!: arg_cong [of _ _ set])
    obtain xs where "filter_fields v = Inr xs" "JStr f \<in> set xs" using parsed_filters_fields [OF v(2) c(1)] c(2) by blast
    then have "JStr f \<in> set qs" using q(1) given v(1) by (auto simp: queried_fields_def Let_def)
    from q(2) [OF this] show ?thesis by (simp add: is_among_def)
  qed
qed

text \<open>When a search looks through everything.\<close>

lemma resolved_none:
  assumes "requireQueryAccess parse pol (qo_name ob) pipeline ps = Inr ps'" "grants_identifiers pol (qo_name ob)"
    and "[] \<notin> set (qo_fields ob)" "param ps ''q'' \<noteq> []"
  shows "resolveSearchFields ob ps' = [] \<longleftrightarrow> list_all (\<lambda>f. \<not> config_has ob f) (search_given pol ob ps)"
proof -
  let ?F = "queryAccessFields pol (qo_name ob)"
  have none: "take 20 xs = [] \<longleftrightarrow> xs = []" for xs :: "string list" by simp
  note ident = query_field_identifier [OF assms(2)]
  consider (given) "ps' = ps" "param ps ''searchField'' \<noteq> [] \<or> param ps ''searchFields'' \<noteq> []"
    | (granted) "?F \<noteq> []" "ps' = jset ps ''searchFields'' (join_commas ?F)"
        "param ps ''searchField'' = []" "param ps ''searchFields'' = []"
    using assms(1,4) by (auto simp: requireQueryAccess_def Let_def split: if_splits sum.splits)
  then show ?thesis
  proof cases
    case given
    then show ?thesis
      by (auto simp: resolveSearchFields_def search_given_def none filter_empty_conv list_all_iff)
  next
    case granted
    have "join_commas ?F \<noteq> []" using granted(1) ident by (cases ?F rule: join_commas.cases) auto
    then have "resolveSearchFields ob ps' =
        take 20 (filter (config_has ob) (map js_trim (split_commas (join_commas ?F))))"
      using granted(2) by (simp add: resolveSearchFields_def param_def)
    also have "split_commas (join_commas ?F) = ?F"
      using granted(1) ident by (intro split_join) (simp_all add: list_all_iff)
    also have "map js_trim ?F = ?F" using ident by (simp add: map_idI)
    finally show ?thesis using granted
      by (simp add: search_given_def none filter_empty_conv list_all_iff)
  qed
qed

lemma like_any_part:
  assumes "buildWhere parse ob tenant ps (Some pol) = Inr (parts, args)" "grants_identifiers pol (qo_name ob)"
    and "[] \<notin> set (qo_fields ob)"
  shows "WhereLikeAny \<in> set parts \<longleftrightarrow> unfielded_search pol ob ps"
proof -
  obtain ps' where ps': "requireQueryAccess parse pol (qo_name ob) (qo_pipeline ob) ps = Inr ps'"
    using assms(1) by (auto simp: buildWhere_def check_query_def split: sum.splits)
  obtain aparts aargs where ac: "access_segment (Some pol) ob = Inr (aparts, aargs)"
    using assms(1) ps' by (auto simp: buildWhere_def check_query_def split: sum.splits)
  obtain fparts fargs where fs: "filter_segment parse ob ps' = Inr (fparts, fargs)"
    using assms(1) ps' ac by (auto simp: buildWhere_def check_query_def split: sum.splits)
  have q: "param ps' ''q'' = param ps ''q''" using trash_checked [OF ps'] by simp
  have "WhereLikeAny \<notin> set (fst (base_segment ob tenant ps'))" "WhereLikeAny \<notin> set aparts"
    "WhereLikeAny \<notin> set (fst (stage_segment ob ps'))" "WhereLikeAny \<notin> set fparts"
    using ac fs by (auto simp: base_segment_def access_segment_def stage_segment_def filter_segment_def Let_def
        split: if_splits sum.splits option.splits)
  then have "WhereLikeAny \<in> set parts \<longleftrightarrow> WhereLikeAny \<in> set (fst (search_segment ob tenant ps'))"
    using assms(1) ps' ac fs by (auto simp: buildWhere_def check_query_def)
  also have "\<dots> \<longleftrightarrow> param ps ''q'' \<noteq> [] \<and> resolveSearchFields ob ps' = []"
    using q by (auto simp: search_segment_def Let_def split: if_splits option.splits)
  also have "\<dots> \<longleftrightarrow> unfielded_search pol ob ps"
    using resolved_none [OF ps' assms(2,3)] by (auto simp: unfielded_search_def)
  finally show ?thesis .
qed

end
