(* ===== verification/Access_Properties.thy ===== *)
theory Access_Properties
  imports Access_Select
begin

text \<open>
  The properties of the access policies: a query under a policy selects the records the evaluator
  allows, what a query may name, how a search gets around that, and what a sequence of allowed
  writes leaves alone.
\<close>

section \<open>Samples\<close>

definition sample_grant :: access_grant where
  "sample_grant = \<lparr>ag_id = ''g'', ag_role = ''r'', ag_resource = ''collection:deals'', ag_action = ActRead,
     ag_predicate = PCompare ''$createdBy'' CmpEq PrincipalId, ag_fields = [''name'']\<rparr>"

definition sample_edit :: access_grant where
  "sample_edit = sample_grant\<lparr>ag_id := ''e'', ag_action := ActUpdate\<rparr>"

definition sample_policy :: access_policy where
  "sample_policy = \<lparr>ap_principal = ''u'', ap_scope = Tenant 1, ap_revision = 1, ap_grants = [sample_grant, sample_edit]\<rparr>"

definition sample_row :: studio_row where
  "sample_row = \<lparr>sr_id = ''d1'', sr_data = [(''name'', JStr ''A''), (''secret'', JStr ''xyz'')], sr_created_at = ''t0'',
     sr_updated_at = ''t1'', sr_version = 1, sr_deleted_at = None, sr_created_by = Some ''u''\<rparr>"

definition sample_placed :: placed_row where
  "sample_placed = \<lparr>pr_tenant = ''t'', pr_object = ''deals'', pr_row = sample_row\<rparr>"

definition sample_object :: query_object where
  "sample_object = \<lparr>qo_name = ''deals'', qo_fields = [''name'', ''secret''], qo_pipeline = ''stage'', qo_indexed = False\<rparr>"

definition sample_sqlite :: sqlite where
  "sample_sqlite = \<lparr>sl_number_text = (\<lambda>q. num_to_string (Fin q)), sl_candidate = (\<lambda>c row. True)\<rparr>"

definition no_json :: "string \<Rightarrow> jv option" where
  "no_json s = None"

lemma sample_row_json: "json_row sample_row" "own_creator sample_row"
  by (simp_all add: json_row_def own_creator_def no_creator_def sample_row_def json_value_def)

lemma sample_read_grants: "read_grants sample_policy ''deals'' = [sample_grant]"
  by (simp add: read_grants_def sample_policy_def sample_grant_def sample_edit_def collection_resource_def)

lemma sample_readable: "readable_row sample_policy sample_object (pr_row sample_placed)"
  using sample_row_json
  by (simp add: readable_row_def sample_placed_def sample_object_def sample_read_grants supported_field_def sample_grant_def)
    (simp add: sample_row_def)

lemma sample_candidate: "candidate_sound sample_sqlite row"
  by (simp add: candidate_sound_def sample_sqlite_def)

section \<open>Reading\<close>

text \<open>C30: For a policy whose conditions on the action name the creator or fields of the collection that
  have an identifier for a name and do not share it with a column of the record, the condition it
  is compiled to reads its bindings in order and uses them all, and holds of a row with JSON data
  exactly when the evaluator allows the action on the record of that row with the creator of the
  row's column; nulls, missing fields, and values of other types included. The evaluator is run on
  the record that \<open>parseRecord\<close> makes, which is this record, but for one case: a row without
  creator whose data has a text member \<open>created_by\<close>, which then stands for the creator.\<close>
theorem access_rows_exact:
  assumes "json_row row"
    and "\<forall>g \<in> set (ap_grants pol). ag_resource g = resource \<longrightarrow> ag_action g = action \<longrightarrow>
      list_all (supported_field names) (predicate_fields (ag_predicate g))"
  shows "(\<exists>c bs v. compileAccessWhere pol resource action (accessColumns names) = Inr (c, bs) \<and>
      sql_eval (stored_row row) c (map bound bs) = (v, []) \<and>
      (v = Some True \<longleftrightarrow> ad_allowed (decideRecord pol resource action (stored_record row)))) \<and>
    accessRecord (parseRecord row) = (stored_record row)\<lparr>ar_createdBy :=
      if no_creator row then text_member (sr_data row) ''created_by'' else sr_created_by row\<rparr> \<and>
    (own_creator row \<longrightarrow> accessRecord (parseRecord row) = stored_record row)"
proof -
  have "compiles_to (stored_row row) (compileAccessWhere pol resource action (accessColumns names))
      (ad_allowed (decideRecord pol resource action (stored_record row)))"
    using assms by (intro compiled_policy) blast+
  then obtain c bs where c: "compileAccessWhere pol resource action (accessColumns names) = Inr (c, bs)"
    "stands_for (stored_row row) (c, bs) (ad_allowed (decideRecord pol resource action (stored_record row)))"
    by (auto simp: compiles_to_def split: sum.splits)
  from c(2) have "snd (sql_eval (stored_row row) c (map bound bs)) = []"
    "fst (sql_eval (stored_row row) c (map bound bs)) = Some True \<longleftrightarrow>
      ad_allowed (decideRecord pol resource action (stored_record row))"
    unfolding stands_for_def by (metis append_Nil2 fst_conv snd_conv)+
  with c(1) have "\<exists>c bs v. compileAccessWhere pol resource action (accessColumns names) = Inr (c, bs) \<and>
      sql_eval (stored_row row) c (map bound bs) = (v, []) \<and>
      (v = Some True \<longleftrightarrow> ad_allowed (decideRecord pol resource action (stored_record row)))"
    by (metis prod.collapse)
  then show ?thesis using stored_record_parsed [of row] own_creator_record [of row] by blast
qed

theorem access_rows_exact_witness:
  "ad_allowed (decideRecord sample_policy ''collection:deals'' ActRead (accessRecord (parseRecord sample_row))) \<and>
   (\<exists>c bs. compileAccessWhere sample_policy ''collection:deals'' ActRead (accessColumns [''name'']) = Inr (c, bs) \<and>
     sql_eval (stored_row sample_row) c (map bound bs) = (Some True, []))"
proof -
  have fields: "\<forall>g \<in> set (ap_grants sample_policy). ag_resource g = ''collection:deals'' \<longrightarrow> ag_action g = ActRead \<longrightarrow>
      list_all (supported_field [''name'']) (predicate_fields (ag_predicate g))"
    by (simp add: sample_policy_def sample_grant_def sample_edit_def supported_field_def)
  have ok: "ad_allowed (decideRecord sample_policy ''collection:deals'' ActRead (stored_record sample_row))"
    by (simp add: decideRecord_def sample_policy_def sample_grant_def compare_values_def field_value_def
        operand_value_def scalar_jv_def) (simp add: sample_row_def)
  from access_rows_exact [OF sample_row_json(1) fields] ok sample_row_json(2) show ?thesis by metis
qed

text \<open>The case where the two differ: a row without creator whose data names the user as its creator is
  the user's own to the evaluator, and nobody's to the query.\<close>

definition posed_row :: studio_row where
  "posed_row = sample_row\<lparr>sr_data := [(''created_by'', JStr ''u'')], sr_created_by := None\<rparr>"

lemma posed_creator:
  "ad_allowed (decideRecord sample_policy ''collection:deals'' ActRead (accessRecord (parseRecord posed_row))) \<and>
   \<not> ad_allowed (decideRecord sample_policy ''collection:deals'' ActRead (stored_record posed_row))"
proof -
  have "ar_createdBy (accessRecord (parseRecord posed_row)) = Some ''u''" "sr_created_by posed_row = None"
    by (simp_all add: record_creator no_creator_def posed_row_def text_member_def read_prop_def)
  then show ?thesis
    by (simp add: decideRecord_def sample_policy_def sample_grant_def sample_edit_def compare_values_def
        field_value_def operand_value_def scalar_jv_def)
qed

text \<open>C31: Whatever a request asks under a policy whose read grants hold identifiers, the query it leads
  to selects, among the rows with JSON data, only rows of the collection and tenant that the policy,
  its conditions being on fields of the collection and the creator, allows to read, the creator
  being the row's column and, but for a creator posed by the data, the evaluator's own. Beside the
  fields of the policy's own conditions it looks only at fields that every read grant holds and at
  the columns id, created_at and updated_at, with one exception: a search looks through all members
  of the data, whether a grant holds them or not, exactly when none of the names it is to look in
  (those of searchFields, the one of searchField, or else those every read grant holds) is a field
  of the collection.\<close>
theorem query_confined:
  assumes "buildWhere parse ob tenant ps (Some pol) = Inr (parts, args)"
    and "grants_identifiers pol (qo_name ob)" "[] \<notin> set (qo_fields ob)"
  shows "(\<forall>r sl. readable_row pol ob (pr_row r) \<longrightarrow> selects sl r parts args \<longrightarrow>
      right_place ob tenant ps r \<and> read_allowed pol ob (pr_row r) \<and>
      (own_creator (pr_row r) \<longrightarrow> ad_allowed (decideRecord pol (collection_resource (qo_name ob)) ActRead
         (accessRecord (parseRecord (pr_row r)))))) \<and>
    (\<forall>p \<in> set parts. \<forall>f \<in> part_fields p. p = WhereLikeAny \<or>
      f \<in> {''id'', ''created_at'', ''updated_at''} \<or> (\<forall>g \<in> set (read_grants pol (qo_name ob)). f \<in> set (ag_fields g)) \<or>
      (\<exists>c. p = WhereAccess c \<and> (\<exists>g \<in> set (read_grants pol (qo_name ob)). f \<in> set (predicate_fields (ag_predicate g))))) \<and>
    (WhereLikeAny \<in> set parts \<longleftrightarrow> unfielded_search pol ob ps)"
proof -
  have "right_place ob tenant ps r \<and> read_allowed pol ob (pr_row r) \<and>
      (own_creator (pr_row r) \<longrightarrow> ad_allowed (decideRecord pol (collection_resource (qo_name ob)) ActRead
         (accessRecord (parseRecord (pr_row r)))))"
    if "readable_row pol ob (pr_row r)" "selects sl r parts args" for r sl
    using selected_allowed [OF assms(1) that] own_creator_record by (simp add: read_allowed_def)
  moreover have "p = WhereLikeAny \<or> f \<in> {''id'', ''created_at'', ''updated_at''} \<or>
      (\<forall>g \<in> set (read_grants pol (qo_name ob)). f \<in> set (ag_fields g)) \<or>
      (\<exists>c. p = WhereAccess c \<and> (\<exists>g \<in> set (read_grants pol (qo_name ob)). f \<in> set (predicate_fields (ag_predicate g))))"
    if "p \<in> set parts" "f \<in> part_fields p" for p f
    using named_granted [OF assms that] by (auto simp: queryable_def query_field_granted)
  ultimately show ?thesis using like_any_part [OF assms] by blast
qed

definition sample_search :: query_params where
  "sample_search = [(''q'', ''A''), (''searchField'', ''name'')]"

theorem query_confined_witness:
  "\<exists>parts args. buildWhere no_json sample_object ''t'' sample_search (Some sample_policy) = Inr (parts, args) \<and>
     WhereLike [''name''] \<in> set parts \<and> (\<forall>p \<in> set parts. ''secret'' \<notin> part_fields p)"
proof -
  have granted: "queryAccessFields sample_policy ''deals'' = [''name'']"
    by (simp add: queryAccessFields_def sample_read_grants sample_grant_def)
  have check: "requireQueryAccess no_json sample_policy ''deals'' ''stage'' sample_search = Inr sample_search"
    by (simp add: requireQueryAccess_def granted sample_search_def param_def search_names_def queried_fields_def is_among_def)
  obtain c bs where ac: "access_segment (Some sample_policy) sample_object = Inr ([WhereAccess c], bs)"
    using access_part [OF sample_readable] by blast
  obtain parts args where b: "buildWhere no_json sample_object ''t'' sample_search (Some sample_policy) = Inr (parts, args)"
    "parts = [WhereBase False, WhereAccess c, WhereLike [''name'']]"
    using check ac
    by (simp add: buildWhere_def check_query_def sample_object_def base_segment_def search_segment_def
        stage_segment_def filter_segment_def sample_search_def param_def recordSearchCandidate_def
        resolveSearchFields_def config_has_def)
  have "grants_identifiers sample_policy (qo_name sample_object)"
    by (simp add: grants_identifiers_def sample_object_def sample_read_grants sample_grant_def identifier_name_def
        word_char_def lower_letter_def)
  from query_confined [OF b(1) this] b(1) show ?thesis
    by (force simp: b(2) sample_object_def sample_read_grants sample_grant_def)
qed

text \<open>A search whose \<open>searchFields\<close> is a comma passes the check of every policy and looks
  through all members of the data, those no grant holds included: a readable row is selected
  exactly when one of them has the text. Without that parameter a policy that lets nothing be
  queried refuses the search.\<close>
theorem hidden_fields_searched:
  assumes "readable_row pol ob (pr_row r)" "candidate_sound sl (pr_row r)" "[] \<notin> set (qo_fields ob)" "q \<noteq> []"
  shows "(\<exists>parts args. buildWhere parse ob tenant [(''q'', q), (''searchFields'', '','')] (Some pol) = Inr (parts, args) \<and>
      (selects sl r parts args \<longleftrightarrow> right_place ob tenant [] r \<and> read_allowed pol ob (pr_row r) \<and>
        (\<exists>(k, v) \<in> set (sr_data (pr_row r)). \<exists>t. as_text sl (json_sql v) = Some t \<and> holds_text (take 200 q) t))) \<and>
    (queryAccessFields pol (qo_name ob) = [] \<longrightarrow>
      buildWhere parse ob tenant [(''q'', q)] (Some pol) = Inl (HttpError accessDenied))"
proof -
  let ?ps = "[(''q'', q), (''searchFields'', '','')]"
  have p: "param ?ps ''q'' = q" "param ?ps ''stage'' = []" "param ?ps ''emptyStage'' = []" "param ?ps ''filters'' = []"
    "param ?ps ''trash'' = []"
    by (simp_all add: param_def)
  have check: "requireQueryAccess parse pol (qo_name ob) (qo_pipeline ob) ?ps = Inr ?ps"
    by (simp add: requireQueryAccess_def param_def search_names_def queried_fields_def)
  have none: "resolveSearchFields ob ?ps = []"
    using assms(3) by (simp add: resolveSearchFields_def param_def js_trim_def config_has_def object_prototype_keys_def)
  obtain c bs where ac: "access_segment (Some pol) ob = Inr ([WhereAccess c], bs)"
    using access_part [OF assms(1)] by blast
  obtain parts args where b: "buildWhere parse ob tenant ?ps (Some pol) = Inr (parts, args)"
    using check ac by (simp add: buildWhere_def check_query_def filter_segment_def p)
  have hit: "search_hit sl ob ?ps (pr_row r) \<longleftrightarrow>
      (\<exists>(k, v) \<in> set (sr_data (pr_row r)). \<exists>t. as_text sl (json_sql v) = Some t \<and> holds_text (take 200 q) t)"
    by (simp add: search_hit_def searched_def none p split_beta)
  have place: "right_place ob tenant ?ps r \<longleftrightarrow> right_place ob tenant [] r"
    by (simp add: right_place_def param_def)
  have "selects sl r parts args \<longleftrightarrow> right_place ob tenant [] r \<and> read_allowed pol ob (pr_row r) \<and>
      (\<exists>(k, v) \<in> set (sr_data (pr_row r)). \<exists>t. as_text sl (json_sql v) = Some t \<and> holds_text (take 200 q) t)"
    using searched_rows [OF b assms(1,2) check] p assms(4) unfolding hit place by simp
  moreover have "buildWhere parse ob tenant [(''q'', q)] (Some pol) = Inl (HttpError accessDenied)"
    if "queryAccessFields pol (qo_name ob) = []"
    using that assms(4)
    by (simp add: buildWhere_def check_query_def requireQueryAccess_def param_def search_names_def queried_fields_def is_among_def)
  ultimately show ?thesis using b by blast
qed

theorem hidden_fields_searched_witness:
  "''secret'' \<notin> set (queryAccessFields sample_policy ''deals'') \<and>
   (\<exists>parts args. buildWhere no_json sample_object ''t'' [(''q'', ''xyz''), (''searchFields'', '','')] (Some sample_policy) =
     Inr (parts, args) \<and> selects sample_sqlite sample_placed parts args)"
proof -
  have names: "[] \<notin> set (qo_fields sample_object)" by (simp add: sample_object_def)
  obtain parts args where b: "buildWhere no_json sample_object ''t'' [(''q'', ''xyz''), (''searchFields'', '','')] (Some sample_policy) =
      Inr (parts, args)"
    "selects sample_sqlite sample_placed parts args \<longleftrightarrow> right_place sample_object ''t'' [] sample_placed \<and>
      read_allowed sample_policy sample_object (pr_row sample_placed) \<and>
      (\<exists>(k, v) \<in> set (sr_data (pr_row sample_placed)). \<exists>t. as_text sample_sqlite (json_sql v) = Some t \<and>
        holds_text (take 200 ''xyz'') t)"
    using hidden_fields_searched [OF sample_readable sample_candidate names, of "''xyz''"] by blast
  have place: "right_place sample_object ''t'' [] sample_placed"
    by (simp add: right_place_def sample_placed_def sample_object_def sample_row_def param_def)
  have allowed: "read_allowed sample_policy sample_object (pr_row sample_placed)"
    by (simp add: read_allowed_def sample_placed_def sample_object_def decideRecord_def sample_policy_def sample_grant_def
        compare_values_def field_value_def operand_value_def scalar_jv_def collection_resource_def) (simp add: sample_row_def)
  have "holds_text ''xyz'' ''xyz''"
    unfolding holds_text_def by (rule exI [of _ "[]"], rule exI [of _ "''xyz''"], rule exI [of _ "[]"]) (simp add: same_letter_def)
  then have "\<exists>(k, v) \<in> set (sr_data (pr_row sample_placed)). \<exists>t. as_text sample_sqlite (json_sql v) = Some t \<and>
      holds_text (take 200 ''xyz'') t"
    by (simp add: sample_placed_def sample_row_def as_text_def json_sql_def)
  with b place allowed show ?thesis
    by (auto simp: queryAccessFields_def sample_read_grants sample_grant_def)
qed

section \<open>Writing\<close>

text \<open>C32: A user who may only write what the policy allows creates records as their own; and
  however many updates they make, each allowed on what the one before it left, the record keeps
  its identity and creator, every field whose JSON has changed is unprotected and held by an
  update grant of the collection, and the record still satisfies an update grant.\<close>
theorem writes_confined:
  assumes "allowed_updates pol resource r ws"
  defines "r' \<equiv> last_record r ws"
  shows "ar_id r' = ar_id r \<and> ar_createdBy r' = ar_createdBy r \<and>
    (\<forall>f. json_changed (ar_values r) (ar_values r') f \<longrightarrow> update_granted_field pol resource f) \<and>
    (ws \<noteq> [] \<longrightarrow> (\<exists>g \<in> set (ap_grants pol). ag_resource g = resource \<and> ag_action g = ActUpdate \<and>
      matchesPredicate (ag_predicate g) pol r')) \<and>
    (\<forall>b changed. ad_allowed (decideWrite pol resource ActCreate b r changed) \<longrightarrow>
      ar_createdBy r' = Some (ap_principal pol))"
  using updates_keep [OF assms(1)] updates_covered [OF assms(1)] create_owned unfolding r'_def by metis

definition sample_before :: access_record where
  "sample_before = \<lparr>ar_id = ''d1'', ar_createdBy = Some ''u'', ar_values = [(''name'', JStr ''A''), (''secret'', JStr ''x'')]\<rparr>"

definition sample_after :: access_record where
  "sample_after = sample_before\<lparr>ar_values := [(''name'', JStr ''B''), (''secret'', JStr ''x'')]\<rparr>"

theorem writes_confined_witness:
  "allowed_updates sample_policy ''collection:deals'' sample_before [(sample_after, [''name''])] \<and>
   \<not> json_changed (ar_values sample_before) (ar_values sample_after) ''secret''"
proof -
  have ok: "allowed_updates sample_policy ''collection:deals'' sample_before [(sample_after, [''name''])]"
    by (simp add: decideWrite_def sample_before_def sample_after_def sample_policy_def sample_grant_def sample_edit_def
        values_of_def actual_changes_def json_changed_def js_set_def set_add_def json_quote_def units_def esc_unit_def
        protectedAccessFields_def compare_values_def field_value_def operand_value_def scalar_jv_def filter_empty_conv)
  have "\<not> update_granted_field sample_policy ''collection:deals'' ''secret''"
    by (simp add: update_granted_field_def sample_policy_def sample_grant_def sample_edit_def)
  with writes_confined [OF ok] ok show ?thesis by (auto simp: last_record_def)
qed

end
