(* ===== verification/Studio_Csv.thy ===== *)
theory Studio_Csv
  imports Js_Value
begin

text \<open>
  \<open>packages/studio-shared/src/csv.ts\<close>: reading a CSV text and writing a line. The byte order
  mark, which is no code unit of the model, is taken to be gone from the text. An error is a
  constructor with the numbers of its message.
\<close>

datatype csv_error =
    TooManyRows nat
  | QuoteOutsideCell
  | TextAfterQuote
  | MissingQuote
  | EmptyHeader
  | DuplicateHeader
  | TooManyColumns
  | RowWidth nat nat nat

abbreviation quote_char :: char where "quote_char \<equiv> CHR 0x22"
abbreviation line_feed :: char where "line_feed \<equiv> CHR 0x0A"
abbreviation carriage_return :: char where "carriage_return \<equiv> CHR 0x0D"

section \<open>Reading\<close>

text \<open>\<open>text.split(/\r?\n/, 1)[0]\<close>\<close>

definition firstLine :: "string \<Rightarrow> string" where
  "firstLine t = (let l = takeWhile (\<lambda>c. c \<noteq> line_feed) t in
     if line_feed \<in> set t \<and> l \<noteq> [] \<and> last l = carriage_return then butlast l else l)"

definition delimiter :: "string \<Rightarrow> char" where
  "delimiter t = (if CHR '','' \<notin> set (firstLine t) \<and> CHR '';'' \<in> set (firstLine t) then CHR '';'' else CHR '','')"

record csv_state =
  cs_rows :: "string list list"
  cs_row :: "string list"
  cs_cell :: string
  cs_quoted :: bool
  cs_endedQuote :: bool

definition csv_start :: csv_state where
  "csv_start = \<lparr>cs_rows = [], cs_row = [], cs_cell = [], cs_quoted = False, cs_endedQuote = False\<rparr>"

definition finishCell :: "csv_state \<Rightarrow> csv_state" where
  "finishCell s = s\<lparr>cs_row := cs_row s @ [cs_cell s], cs_cell := [], cs_endedQuote := False\<rparr>"

definition finishRow :: "nat \<Rightarrow> csv_state \<Rightarrow> csv_error + csv_state" where
  "finishRow maxRows s =
     (let s = finishCell s;
          rows = (if list_ex (\<lambda>v. v \<noteq> []) (cs_row s) then cs_rows s @ [cs_row s] else cs_rows s);
          s = s\<lparr>cs_rows := rows, cs_row := []\<rparr> in
      if maxRows + 1 < length rows then Inl (TooManyRows maxRows) else Inr s)"

definition add_char :: "char \<Rightarrow> csv_state \<Rightarrow> csv_state" where
  "add_char c s = s\<lparr>cs_cell := cs_cell s @ [c]\<rparr>"

text \<open>What a carriage return takes with it.\<close>

definition skip_feed :: "char \<Rightarrow> string \<Rightarrow> string" where
  "skip_feed c cs = (if c = carriage_return \<and> cs \<noteq> [] \<and> hd cs = line_feed then tl cs else cs)"

lemma skip_feed_length: "length (skip_feed c cs) \<le> length cs"
  by (simp add: skip_feed_def)

function scan_csv :: "nat \<Rightarrow> char \<Rightarrow> string \<Rightarrow> csv_state \<Rightarrow> csv_error + csv_state" where
  "scan_csv mx d [] s = Inr s"
| "scan_csv mx d (c # cs) s =
     (if cs_quoted s then
        (if c = quote_char then
           (if cs \<noteq> [] \<and> hd cs = quote_char then scan_csv mx d (tl cs) (add_char quote_char s)
            else scan_csv mx d cs (s\<lparr>cs_quoted := False, cs_endedQuote := True\<rparr>))
         else scan_csv mx d cs (add_char c s))
      else if c = quote_char then
        (if cs_cell s \<noteq> [] \<or> cs_endedQuote s then Inl QuoteOutsideCell else scan_csv mx d cs (s\<lparr>cs_quoted := True\<rparr>))
      else if c = d then scan_csv mx d cs (finishCell s)
      else if c = line_feed \<or> c = carriage_return then
        (case finishRow mx s of Inl e \<Rightarrow> Inl e | Inr s' \<Rightarrow> scan_csv mx d (skip_feed c cs) s')
      else if cs_endedQuote s then Inl TextAfterQuote
      else scan_csv mx d cs (add_char c s))"
  by pat_completeness auto
termination
  by (relation "measure (\<lambda>(mx, d, cs, s). length cs)") (auto simp: less_Suc_eq_le skip_feed_length)

text \<open>Every row has one value for each header; \<open>i\<close> counts the rows.\<close>

fun check_widths :: "nat \<Rightarrow> nat \<Rightarrow> string list list \<Rightarrow> csv_error option" where
  "check_widths n i [] = None"
| "check_widths n i (r # rs) = (if length r \<noteq> n then Some (RowWidth (i + 2) n (length r)) else check_widths n (i + 1) rs)"

definition check_table :: "string list list \<Rightarrow> csv_error + (string list \<times> string list list)" where
  "check_table rows =
     (let headers = map js_trim (case rows of [] \<Rightarrow> [] | h # _ \<Rightarrow> h); rest = drop 1 rows in
      if headers = [] \<or> [] \<in> set headers then Inl EmptyHeader
      else if \<not> distinct headers then Inl DuplicateHeader
      else if 105 < length headers then Inl TooManyColumns
      else (case check_widths (length headers) 0 rest of Some e \<Rightarrow> Inl e | None \<Rightarrow> Inr (headers, rest)))"

definition parseCsv :: "string \<Rightarrow> nat \<Rightarrow> csv_error + (string list \<times> string list list)" where
  "parseCsv text maxRows =
     (case scan_csv maxRows (delimiter text) text csv_start of
        Inl e \<Rightarrow> Inl e
      | Inr s \<Rightarrow>
          if cs_quoted s then Inl MissingQuote
          else if cs_cell s \<noteq> [] \<or> cs_row s \<noteq> [] \<or> cs_endedQuote s
          then (case finishRow maxRows s of Inl e \<Rightarrow> Inl e | Inr s' \<Rightarrow> check_table (cs_rows s'))
          else check_table (cs_rows s))"

section \<open>Writing\<close>

text \<open>\<open>/^[\s]*[=+\-@\t\r]/\<close>: some prefix of white space is followed by one of the signs; the
  signs include white space themselves.\<close>

fun formula_like :: "string \<Rightarrow> bool" where
  "formula_like [] = False"
| "formula_like (c # cs) = (c \<in> set [CHR ''='', CHR ''+'', CHR ''-'', CHR ''@'', CHR 0x09, CHR 0x0D] \<or>
     js_space c \<and> formula_like cs)"

definition cell_text :: "jv \<Rightarrow> string" where
  "cell_text v = (case v of
     JNull \<Rightarrow> [] | JUndef \<Rightarrow> []
   | JStr s \<Rightarrow> if formula_like s then CHR 0x27 # s else s
   | JNum n \<Rightarrow> num_to_string n
   | JBool b \<Rightarrow> (if b then ''true'' else ''false'')
   | _ \<Rightarrow> (case json_string v of None \<Rightarrow> [] | Some t \<Rightarrow> t))"

definition double_quotes :: "string \<Rightarrow> string" where
  "double_quotes s = concat (map (\<lambda>c. if c = quote_char then [c, c] else [c]) s)"

definition csvCell :: "jv \<Rightarrow> string" where
  "csvCell v = [quote_char] @ double_quotes (cell_text v) @ [quote_char]"

fun join_cells :: "string list \<Rightarrow> string" where
  "join_cells [] = []"
| "join_cells [x] = x"
| "join_cells (x # y # ys) = x @ CHR '','' # join_cells (y # ys)"

definition csvLine :: "jv list \<Rightarrow> string" where
  "csvLine vs = join_cells (map csvCell vs) @ [carriage_return, line_feed]"

section \<open>A written line is read back\<close>

definition cell_done :: "csv_state \<Rightarrow> string \<Rightarrow> csv_state" where
  "cell_done s t = s\<lparr>cs_cell := t, cs_endedQuote := True\<rparr>"

definition between_cells :: "csv_state \<Rightarrow> bool" where
  "between_cells s \<longleftrightarrow> cs_cell s = [] \<and> \<not> cs_quoted s \<and> \<not> cs_endedQuote s"

lemma scan_quoted:
  assumes "cs_quoted s" "rest = [] \<or> hd rest \<noteq> quote_char"
  shows "scan_csv mx d (double_quotes t @ [quote_char] @ rest) s =
    scan_csv mx d rest (s\<lparr>cs_cell := cs_cell s @ t, cs_quoted := False, cs_endedQuote := True\<rparr>)"
  using assms
proof (induction t arbitrary: s)
  case Nil
  then show ?case by (auto simp: double_quotes_def)
next
  case (Cons c t)
  have IH: "scan_csv mx d (double_quotes t @ [quote_char] @ rest) (add_char c s) =
      scan_csv mx d rest ((add_char c s)\<lparr>cs_cell := cs_cell (add_char c s) @ t, cs_quoted := False, cs_endedQuote := True\<rparr>)"
    using Cons.prems by (intro Cons.IH) (simp_all add: add_char_def)
  have "scan_csv mx d (double_quotes (c # t) @ [quote_char] @ rest) s =
      scan_csv mx d (double_quotes t @ [quote_char] @ rest) (add_char c s)"
    using Cons.prems by (simp add: double_quotes_def)
  then show ?case unfolding IH by (simp add: add_char_def)
qed

lemma scan_cell:
  assumes "between_cells s" "rest = [] \<or> hd rest \<noteq> quote_char"
  shows "scan_csv mx d (csvCell v @ rest) s = scan_csv mx d rest (cell_done s (cell_text v))"
proof -
  have "scan_csv mx d (csvCell v @ rest) s =
      scan_csv mx d (double_quotes (cell_text v) @ [quote_char] @ rest) (s\<lparr>cs_quoted := True\<rparr>)"
    using assms(1) by (simp add: csvCell_def between_cells_def)
  also have "\<dots> = scan_csv mx d rest (cell_done s (cell_text v))"
    using assms by (cases s) (subst scan_quoted, simp_all add: between_cells_def cell_done_def)
  finally show ?thesis .
qed

lemma finish_done: "between_cells s \<Longrightarrow> finishCell (cell_done s t) = s\<lparr>cs_row := cs_row s @ [t]\<rparr>"
  by (simp add: finishCell_def cell_done_def between_cells_def)

text \<open>A line of more than one cell needs the comma to be the delimiter.\<close>

lemma scan_line:
  assumes "between_cells s" "vs \<noteq> []" "d = CHR '','' \<or> length vs = 1" "d \<in> {CHR '','', CHR '';''}"
    and "list_ex (\<lambda>v. v \<noteq> []) (cs_row s @ map cell_text vs)" "length (cs_rows s) \<le> mx"
  shows "scan_csv mx d (csvLine vs @ rest) s =
    scan_csv mx d rest (s\<lparr>cs_rows := cs_rows s @ [cs_row s @ map cell_text vs], cs_row := []\<rparr>)"
  using assms
proof (induction vs arbitrary: s)
  case (Cons v vs)
  show ?case
  proof (cases vs)
    case Nil
    have row: "finishRow mx (cell_done s (cell_text v)) = Inr (s\<lparr>cs_rows := cs_rows s @ [cs_row s @ [cell_text v]], cs_row := []\<rparr>)"
      using Cons.prems Nil by (simp add: finishRow_def finish_done Let_def)
    have "scan_csv mx d (csvLine [v] @ rest) s =
        scan_csv mx d ([carriage_return, line_feed] @ rest) (cell_done s (cell_text v))"
      using scan_cell [OF Cons.prems(1), of "[carriage_return, line_feed] @ rest" mx d v] by (simp add: csvLine_def)
    also have "\<dots> = scan_csv mx d rest (s\<lparr>cs_rows := cs_rows s @ [cs_row s @ [cell_text v]], cs_row := []\<rparr>)"
    proof -
      have "\<not> cs_quoted (cell_done s (cell_text v))" using Cons.prems(1) by (simp add: cell_done_def between_cells_def)
      moreover have "carriage_return \<noteq> d" using Cons.prems(4) by auto
      ultimately show ?thesis by (simp add: row skip_feed_def)
    qed
    finally show ?thesis using Nil by simp
  next
    case (Cons w ws)
    then have d: "d = CHR '',''" using Cons.prems(3) by simp
    let ?s = "s\<lparr>cs_row := cs_row s @ [cell_text v]\<rparr>"
    have line: "csvLine (v # vs) @ rest = csvCell v @ CHR '','' # (csvLine vs @ rest)"
      using Cons by (simp add: csvLine_def)
    have "scan_csv mx d (csvLine (v # vs) @ rest) s = scan_csv mx d (CHR '','' # (csvLine vs @ rest)) (cell_done s (cell_text v))"
      unfolding line using scan_cell [OF Cons.prems(1)] by simp
    also have "\<dots> = scan_csv mx d (csvLine vs @ rest) ?s"
      using Cons.prems(1) d by (simp add: finish_done) (simp add: cell_done_def between_cells_def)
    also have "\<dots> = scan_csv mx d rest (?s\<lparr>cs_rows := cs_rows ?s @ [cs_row ?s @ map cell_text vs], cs_row := []\<rparr>)"
      using Cons.prems Cons d by (intro Cons.IH) (simp_all add: between_cells_def)
    finally show ?thesis by simp
  qed
qed simp

lemma scan_lines:
  assumes "between_cells s" "cs_row s = []" "d \<in> {CHR '','', CHR '';''}"
    and "\<And>vs. vs \<in> set vss \<Longrightarrow> vs \<noteq> [] \<and> (d = CHR '','' \<or> length vs = 1) \<and> list_ex (\<lambda>v. cell_text v \<noteq> []) vs"
    and "length (cs_rows s) + length vss \<le> mx + 1"
  shows "scan_csv mx d (concat (map csvLine vss)) s = Inr (s\<lparr>cs_rows := cs_rows s @ map (map cell_text) vss\<rparr>)"
  using assms
proof (induction vss arbitrary: s)
  case (Cons vs vss)
  have some: "list_ex (\<lambda>v. v \<noteq> []) (cs_row s @ map cell_text vs)"
    using Cons.prems(2,4) by (simp add: list_ex_iff)
  have "scan_csv mx d (concat (map csvLine (vs # vss))) s =
      scan_csv mx d (concat (map csvLine vss)) (s\<lparr>cs_rows := cs_rows s @ [cs_row s @ map cell_text vs], cs_row := []\<rparr>)"
    using scan_line [OF Cons.prems(1) _ _ Cons.prems(3) some, of mx "concat (map csvLine vss)"] Cons.prems by simp
  also have "\<dots> = Inr (s\<lparr>cs_rows := cs_rows s @ map (map cell_text) (vs # vss)\<rparr>)"
    using Cons.prems by (subst Cons.IH) (simp_all add: between_cells_def)
  finally show ?case .
qed simp

lemma scan_table:
  assumes "\<And>vs. vs \<in> set vss \<Longrightarrow> vs \<noteq> [] \<and> (delimiter (concat (map csvLine vss)) = CHR '','' \<or> length vs = 1) \<and>
      list_ex (\<lambda>v. cell_text v \<noteq> []) vs"
    and "length vss \<le> mx + 1"
  shows "parseCsv (concat (map csvLine vss)) mx = check_table (map (map cell_text) vss)"
proof -
  let ?t = "concat (map csvLine vss)"
  have "scan_csv mx (delimiter ?t) ?t csv_start = Inr (csv_start\<lparr>cs_rows := cs_rows csv_start @ map (map cell_text) vss\<rparr>)"
    using assms by (intro scan_lines) (auto simp: between_cells_def csv_start_def delimiter_def)
  then show ?thesis by (simp add: parseCsv_def csv_start_def)
qed

text \<open>A first line of at least two cells without line feeds has a comma.\<close>

lemma first_line_comma:
  assumes "2 \<le> length vs" "\<And>v. v \<in> set vs \<Longrightarrow> line_feed \<notin> set (cell_text v)"
  shows "delimiter (csvLine vs @ rest) = CHR '',''"
proof -
  have double: "set (double_quotes t) = set t" for t by (induction t) (auto simp: double_quotes_def)
  have cell: "line_feed \<notin> set (csvCell v)" if "v \<in> set vs" for v
    using assms(2) [OF that] by (simp add: csvCell_def double)
  have no: "line_feed \<notin> set (join_cells (map csvCell us))" if "set us \<subseteq> set vs" for us
    using that cell by (induction us rule: induct_list012) auto
  have comma: "CHR '','' \<in> set (join_cells (map csvCell vs))"
    using assms(1) by (cases vs rule: remdups_adj.cases) auto
  let ?l = "join_cells (map csvCell vs) @ [carriage_return]"
  have "csvLine vs @ rest = ?l @ line_feed # rest" by (simp add: csvLine_def)
  moreover have "takeWhile (\<lambda>c. c \<noteq> line_feed) (?l @ line_feed # rest) = ?l"
    using no [of vs] by (subst takeWhile_append2) auto
  ultimately have "firstLine (csvLine vs @ rest) = join_cells (map csvCell vs)"
    by (simp only: firstLine_def Let_def) simp
  with comma show ?thesis by (simp add: delimiter_def)
qed

lemma widths_ok: "list_all (\<lambda>r. length r = n) rs \<Longrightarrow> check_widths n i rs = None"
  by (induction rs arbitrary: i) simp_all

end
