(* ===== verification/Studio_Rules.thy ===== *)
theory Studio_Rules
  imports Js_Value
begin

text \<open>
  \<open>prepareRecord\<close> of \<open>packages/studio-shared/src/rules.ts\<close>: the defaults of a record and its
  computed fields, each computed after the fields it reads. The code's recursion carries a fuel
  that is shown to be enough: \<open>None\<close> is out of fuel, \<open>Inl\<close> the error of a circular
  dependency.
\<close>

record field_formula =
  fo_op :: string
  fo_fields :: "string list"

record studio_field =
  sf_default :: jv
  sf_formula :: "field_formula option"

type_synonym studio_fields = "studio_field jmap"

section \<open>One computed field\<close>

text \<open>\<open>Math.round\<close> of a number of the model.\<close>

fun math_round :: "jnum \<Rightarrow> jnum" where
  "math_round (Fin q) = Fin (of_int \<lfloor>q + 1 / 2\<rfloor>)"
| "math_round n = n"

definition finite_number :: "jv \<Rightarrow> jnum option" where
  "finite_number v = (case v of JNum n \<Rightarrow> if is_finite n then Some n else None | _ \<Rightarrow> None)"

text \<open>\<open>None\<close> is null; a missing operand makes the result \<open>NaN\<close>.\<close>

definition formula_result :: "string \<Rightarrow> jnum list \<Rightarrow> jnum option" where
  "formula_result op ns =
     (if op = ''sum'' then Some (foldl js_add (Fin 0) ns)
      else if op = ''product'' then Some (foldl js_mul (Fin 1) ns)
      else (case ns of
          a # b # _ \<Rightarrow> if op = ''difference'' then Some (js_sub a b) else if num_eq b (Fin 0) then None else Some (js_div_nz a b)
        | _ \<Rightarrow> Some NaN))"

definition formula_value :: "field_formula \<Rightarrow> jv list \<Rightarrow> jv" where
  "formula_value f raw = (case traverse finite_number raw of
     None \<Rightarrow> JNull
   | Some ns \<Rightarrow> (case formula_result (fo_op f) ns of
       None \<Rightarrow> JNull
     | Some r \<Rightarrow> if is_finite r then JNum (js_div_nz (math_round (js_mul r (Fin 100000000))) (Fin 100000000)) else JNull))"

section \<open>All computed fields\<close>

record calc =
  ca_done :: "string list"
  ca_visiting :: "string list"
  ca_data :: "jv jmap"

definition formula_of :: "studio_fields \<Rightarrow> string \<Rightarrow> field_formula option" where
  "formula_of fs name = (case jget fs name of None \<Rightarrow> None | Some d \<Rightarrow> sf_formula d)"

definition circular :: string where
  "circular = ''Dependencia circular en los c'' @ [CHR 0xE1] @ ''lculos.''"

text \<open>\<open>formula.fields.forEach(compute)\<close>; \<open>go\<close> is the recursive call.\<close>

fun for_each :: "(string \<Rightarrow> calc \<Rightarrow> (string + calc) option) \<Rightarrow> string list \<Rightarrow> calc \<Rightarrow> (string + calc) option" where
  "for_each go [] s = Some (Inr s)"
| "for_each go (f # fs) s = (case go f s of
     None \<Rightarrow> None
   | Some (Inl e) \<Rightarrow> Some (Inl e)
   | Some (Inr s') \<Rightarrow> for_each go fs s')"

definition store :: "string \<Rightarrow> field_formula \<Rightarrow> calc \<Rightarrow> calc" where
  "store name f s = s\<lparr>ca_data := jset (ca_data s) name (formula_value f (map (read_prop (ca_data s)) (fo_fields f))),
     ca_visiting := filter (\<lambda>x. x \<noteq> name) (ca_visiting s), ca_done := set_add name (ca_done s)\<rparr>"

fun compute :: "nat \<Rightarrow> studio_fields \<Rightarrow> string \<Rightarrow> calc \<Rightarrow> (string + calc) option" where
  "compute 0 fs name s = None"
| "compute (Suc n) fs name s =
     (if name \<in> set (ca_done s) then Some (Inr s)
      else (case formula_of fs name of
          None \<Rightarrow> Some (Inr s)
        | Some f \<Rightarrow>
            if name \<in> set (ca_visiting s) then Some (Inl circular)
            else (case for_each (compute n fs) (fo_fields f) (s\<lparr>ca_visiting := set_add name (ca_visiting s)\<rparr>) of
                None \<Rightarrow> None
              | Some (Inl e) \<Rightarrow> Some (Inl e)
              | Some (Inr s') \<Rightarrow> Some (Inr (store name f s')))))"

text \<open>A value that is missing, and not inherited from \<open>Object.prototype\<close>, takes the default of its
  field.\<close>

definition with_default :: "string \<times> studio_field \<Rightarrow> jv jmap \<Rightarrow> jv jmap" where
  "with_default = (\<lambda>(name, d) m.
     if read_prop m name = JUndef \<and> name \<notin> set object_prototype_keys \<and> sf_default d \<noteq> JUndef
     then jset m name (sf_default d) else m)"

definition prepareRecord :: "studio_fields \<Rightarrow> jv jmap \<Rightarrow> (string + jv jmap) option" where
  "prepareRecord fs values =
     (case for_each (compute (Suc (length fs)) fs) (jkeys fs)
             \<lparr>ca_done = [], ca_visiting = [], ca_data = fold with_default fs values\<rparr> of
        None \<Rightarrow> None
      | Some (Inl e) \<Rightarrow> Some (Inl e)
      | Some (Inr s) \<Rightarrow> Some (Inr (ca_data s)))"

section \<open>The fuel is enough\<close>

definition computed_names :: "studio_fields \<Rightarrow> string set" where
  "computed_names fs = {x. formula_of fs x \<noteq> None}"

lemma computed_finite: "finite (computed_names fs)" "card (computed_names fs) \<le> length fs"
proof -
  have sub: "computed_names fs \<subseteq> set (jkeys fs)"
    by (auto simp: computed_names_def formula_of_def split: option.splits dest: jget_Some_key)
  then show "finite (computed_names fs)" by (rule finite_subset) simp
  have "card (computed_names fs) \<le> card (set (jkeys fs))" using sub by (intro card_mono) simp_all
  also have "\<dots> \<le> length fs" using card_length [of "jkeys fs"] by (simp add: jkeys_def)
  finally show "card (computed_names fs) \<le> length fs" .
qed

text \<open>A call leaves the names being visited as they were.\<close>

lemma for_each_visiting:
  assumes "\<And>f s s'. go f s = Some (Inr s') \<Longrightarrow> ca_visiting s' = ca_visiting s"
  shows "for_each go fs s = Some (Inr s') \<Longrightarrow> ca_visiting s' = ca_visiting s"
  by (induction fs arbitrary: s) (auto split: option.splits sum.splits dest: assms)

lemma visit_back: "name \<notin> set vs \<Longrightarrow> filter (\<lambda>x. x \<noteq> name) (set_add name vs) = vs"
  by (auto simp: set_add_def intro!: filter_True)

lemma compute_visiting: "compute n fs name s = Some (Inr s') \<Longrightarrow> ca_visiting s' = ca_visiting s"
proof (induction n arbitrary: name s s')
  case (Suc n)
  show ?case
  proof (cases "name \<in> set (ca_done s) \<or> formula_of fs name = None")
    case True
    with Suc.prems show ?thesis by (auto split: if_splits)
  next
    case False
    then obtain f s1 where f: "formula_of fs name = Some f" "name \<notin> set (ca_visiting s)"
      "for_each (compute n fs) (fo_fields f) (s\<lparr>ca_visiting := set_add name (ca_visiting s)\<rparr>) = Some (Inr s1)" "s' = store name f s1"
      using Suc.prems by (auto split: if_splits option.splits sum.splits)
    from for_each_visiting [OF Suc.IH f(3)] have "ca_visiting s1 = set_add name (ca_visiting s)" by simp
    with f show ?thesis by (simp add: store_def visit_back)
  qed
qed simp

lemma for_each_total:
  assumes "\<And>f s. f \<in> set fs \<Longrightarrow> P (ca_visiting s) \<Longrightarrow> go f s \<noteq> None"
    and "\<And>f s s'. go f s = Some (Inr s') \<Longrightarrow> ca_visiting s' = ca_visiting s" "P (ca_visiting s)"
  shows "for_each go fs s \<noteq> None"
  using assms(1,3)
proof (induction fs arbitrary: s)
  case (Cons f fs)
  then have "go f s \<noteq> None" by simp
  then obtain r where r: "go f s = Some r" by blast
  show ?case
  proof (cases r)
    case (Inr s')
    with r assms(2) have "P (ca_visiting s')" using Cons.prems(2) by metis
    with Cons.IH [of s'] Cons.prems(1) r Inr show ?thesis by simp
  qed (simp add: r)
qed simp

lemma compute_total:
  "card (computed_names fs - set (ca_visiting s)) < n \<Longrightarrow> compute n fs name s \<noteq> None"
proof (induction n arbitrary: name s)
  case (Suc n)
  show ?case
  proof (cases "name \<in> set (ca_done s) \<or> formula_of fs name = None \<or> name \<in> set (ca_visiting s)")
    case True
    then show ?thesis by (auto split: option.splits)
  next
    case False
    then obtain f where f: "formula_of fs name = Some f" "name \<notin> set (ca_visiting s)" "name \<notin> set (ca_done s)" by auto
    let ?P = "\<lambda>vs. card (computed_names fs - set vs) < n"
    have "name \<in> computed_names fs - set (ca_visiting s)" using f by (simp add: computed_names_def)
    moreover have "computed_names fs - set (set_add name (ca_visiting s)) = computed_names fs - set (ca_visiting s) - {name}" by auto
    ultimately have "card (computed_names fs - set (set_add name (ca_visiting s))) < card (computed_names fs - set (ca_visiting s))"
      using computed_finite(1) [of fs] by (simp only: card_Diff1_less finite_Diff)
    with Suc.prems have "?P (set_add name (ca_visiting s))" by linarith
    then have "for_each (compute n fs) (fo_fields f) (s\<lparr>ca_visiting := set_add name (ca_visiting s)\<rparr>) \<noteq> None"
      using Suc.IH compute_visiting by (intro for_each_total [where P = ?P]) simp_all
    with f show ?thesis by (auto split: option.splits sum.splits)
  qed
qed simp

lemma prepare_total: "prepareRecord fs values \<noteq> None"
proof -
  have "for_each (compute (Suc (length fs)) fs) (jkeys fs) \<lparr>ca_done = [], ca_visiting = [], ca_data = fold with_default fs values\<rparr> \<noteq> None"
  proof (rule for_each_total [where P = "\<lambda>vs. vs = []"])
    fix f and s :: calc
    assume "ca_visiting s = []"
    then show "compute (Suc (length fs)) fs f s \<noteq> None"
      using computed_finite(2) [of fs] by (intro compute_total) (simp add: less_Suc_eq_le)
  qed (simp_all add: compute_visiting del: compute.simps)
  then show ?thesis by (auto simp: prepareRecord_def split: option.splits sum.splits)
qed

section \<open>What a computation leaves\<close>

text \<open>A field that reads another computed field.\<close>

definition reads_computed :: "studio_fields \<Rightarrow> (string \<times> string) set" where
  "reads_computed fs = {(a, b). \<exists>f. formula_of fs a = Some f \<and> b \<in> set (fo_fields f) \<and> formula_of fs b \<noteq> None}"

text \<open>The fields that are done hold their value, and what they read was done before them.\<close>

definition settled :: "studio_fields \<Rightarrow> calc \<Rightarrow> bool" where
  "settled fs s \<longleftrightarrow> set (ca_done s) \<inter> set (ca_visiting s) = {} \<and>
     (\<forall>x \<in> set (ca_done s). \<exists>f. formula_of fs x = Some f \<and>
        read_prop (ca_data s) x = formula_value f (map (read_prop (ca_data s)) (fo_fields f))) \<and>
     (\<forall>xs x ys. ca_done s = xs @ x # ys \<longrightarrow> (\<forall>y. (x, y) \<in> reads_computed fs \<longrightarrow> y \<in> set xs))"

text \<open>What a call does: done grows at its end, and only the fields that became done change.\<close>

definition extends :: "calc \<Rightarrow> calc \<Rightarrow> bool" where
  "extends s s' \<longleftrightarrow> (\<exists>zs. ca_done s' = ca_done s @ zs \<and> (\<forall>k. k \<notin> set zs \<longrightarrow> read_prop (ca_data s') k = read_prop (ca_data s) k))
     \<and> ca_visiting s' = ca_visiting s"

lemma extends_refl: "extends s s"
  by (simp add: extends_def)

lemma extends_trans: "extends s t \<Longrightarrow> extends t u \<Longrightarrow> extends s u"
  by (auto simp: extends_def)

definition good_call :: "studio_fields \<Rightarrow> (string \<Rightarrow> calc \<Rightarrow> (string + calc) option) \<Rightarrow> bool" where
  "good_call fs go \<longleftrightarrow> (\<forall>f s s'. settled fs s \<longrightarrow> go f s = Some (Inr s') \<longrightarrow>
     settled fs s' \<and> extends s s' \<and> (formula_of fs f \<noteq> None \<longrightarrow> f \<in> set (ca_done s')))"

lemma for_each_good:
  assumes "good_call fs go"
  shows "settled fs s \<Longrightarrow> for_each go names s = Some (Inr s') \<Longrightarrow>
    settled fs s' \<and> extends s s' \<and> (\<forall>f \<in> set names. formula_of fs f \<noteq> None \<longrightarrow> f \<in> set (ca_done s'))"
proof (induction names arbitrary: s)
  case (Cons f names)
  then obtain s1 where s1: "go f s = Some (Inr s1)" "for_each go names s1 = Some (Inr s')"
    by (auto split: option.splits sum.splits)
  with assms Cons.prems(1) have one: "settled fs s1" "extends s s1" "formula_of fs f \<noteq> None \<longrightarrow> f \<in> set (ca_done s1)"
    unfolding good_call_def by blast+
  from Cons.IH [OF one(1) s1(2)] have rest: "settled fs s'" "extends s1 s'"
    "\<forall>f \<in> set names. formula_of fs f \<noteq> None \<longrightarrow> f \<in> set (ca_done s')" by blast+
  have "f \<in> set (ca_done s')" if "formula_of fs f \<noteq> None" using one(3) that rest(2) by (auto simp: extends_def)
  with rest extends_trans [OF one(2) rest(2)] show ?case by simp
qed (simp add: extends_refl)

lemma settled_start: "settled fs s \<Longrightarrow> name \<notin> set (ca_done s) \<Longrightarrow> settled fs (s\<lparr>ca_visiting := set_add name (ca_visiting s)\<rparr>)"
  by (auto simp: settled_def)

lemma store_settled:
  assumes s: "settled fs s" and f: "formula_of fs name = Some f" and new: "name \<notin> set (ca_done s)"
    and inputs: "\<forall>y \<in> set (fo_fields f). formula_of fs y \<noteq> None \<longrightarrow> y \<in> set (ca_done s)"
  shows "settled fs (store name f s)"
proof -
  let ?v = "formula_value f (map (read_prop (ca_data s)) (fo_fields f))"
  have read: "read_prop (ca_data (store name f s)) y = (if y = name then ?v else read_prop (ca_data s) y)" for y
    by (simp add: store_def read_prop_def jget_jset)
  have dne: "ca_done (store name f s) = ca_done s @ [name]" using new by (simp add: store_def set_add_def)
  have before: "(x, y) \<in> reads_computed fs \<Longrightarrow> x \<in> set (ca_done s) \<Longrightarrow> y \<in> set (ca_done s)" for x y
    using s unfolding settled_def by (metis in_set_conv_decomp Un_iff set_append)
  have other: "y \<noteq> name" if "x \<in> set (ca_done s)" "formula_of fs x = Some g" "y \<in> set (fo_fields g)" for x g y
    using before [of x y] that f new by (auto simp: reads_computed_def)
  have own: "y \<noteq> name" if "y \<in> set (fo_fields f)" for y using that inputs f new by auto
  have holds: "\<exists>g. formula_of fs x = Some g \<and> read_prop (ca_data (store name f s)) x =
      formula_value g (map (read_prop (ca_data (store name f s))) (fo_fields g))" if "x \<in> set (ca_done s @ [name])" for x
  proof (cases "x = name")
    case True
    have same: "map (read_prop (ca_data (store name f s))) (fo_fields f) = map (read_prop (ca_data s)) (fo_fields f)"
      using own by (intro map_cong) (auto simp: read)
    have "read_prop (ca_data (store name f s)) x = formula_value f (map (read_prop (ca_data (store name f s))) (fo_fields f))"
      unfolding same using True by (simp add: read)
    with True f show ?thesis by blast
  next
    case False
    then have x: "x \<in> set (ca_done s)" using that by simp
    then obtain g where g: "formula_of fs x = Some g" "read_prop (ca_data s) x = formula_value g (map (read_prop (ca_data s)) (fo_fields g))"
      using s unfolding settled_def by blast
    have same: "map (read_prop (ca_data (store name f s))) (fo_fields g) = map (read_prop (ca_data s)) (fo_fields g)"
      using other [OF x g(1)] by (intro map_cong) (auto simp: read)
    have "read_prop (ca_data (store name f s)) x = formula_value g (map (read_prop (ca_data (store name f s))) (fo_fields g))"
      unfolding same using False g(2) by (simp add: read)
    with g(1) show ?thesis by blast
  qed
  have order: "y \<in> set xs" if "ca_done s @ [name] = xs @ x # ys" "(x, y) \<in> reads_computed fs" for xs x ys y
  proof (cases "ys = []")
    case True
    with that have "x = name" "xs = ca_done s" by auto
    with that(2) f inputs show ?thesis by (auto simp: reads_computed_def)
  next
    case False
    then have "ca_done s = xs @ x # butlast ys" using that(1) by (metis butlast.simps(2) butlast_append butlast_snoc list.distinct(1))
    with s that(2) show ?thesis unfolding settled_def by blast
  qed
  have "set (ca_done s @ [name]) \<inter> set (ca_visiting (store name f s)) = {}"
    using s by (auto simp: settled_def store_def)
  then show ?thesis unfolding settled_def dne using holds order by blast
qed

lemma compute_good: "good_call fs (compute n fs)"
proof (induction n)
  case (Suc n)
  show ?case unfolding good_call_def
  proof (intro allI impI)
    fix name s s'
    assume s: "settled fs s" and run: "compute (Suc n) fs name s = Some (Inr s')"
    show "settled fs s' \<and> extends s s' \<and> (formula_of fs name \<noteq> None \<longrightarrow> name \<in> set (ca_done s'))"
    proof (cases "name \<in> set (ca_done s) \<or> formula_of fs name = None")
      case True
      with run s show ?thesis by (auto simp: extends_refl split: if_splits)
    next
      case False
      let ?s = "s\<lparr>ca_visiting := set_add name (ca_visiting s)\<rparr>"
      obtain f s1 where f: "formula_of fs name = Some f" "name \<notin> set (ca_visiting s)"
        "for_each (compute n fs) (fo_fields f) ?s = Some (Inr s1)" "s' = store name f s1"
        using run False by (auto split: if_splits option.splits sum.splits)
      have s1: "settled fs s1" "extends ?s s1" "\<forall>y \<in> set (fo_fields f). formula_of fs y \<noteq> None \<longrightarrow> y \<in> set (ca_done s1)"
        using for_each_good [OF Suc.IH settled_start f(3)] s False by blast+
      have vis: "ca_visiting s1 = set_add name (ca_visiting s)" using s1(2) by (simp add: extends_def)
      have new: "name \<notin> set (ca_done s1)" using s1(1) vis by (auto simp: settled_def)
      obtain zs where zs: "ca_done s1 = ca_done s @ zs" "\<And>k. k \<notin> set zs \<Longrightarrow> read_prop (ca_data s1) k = read_prop (ca_data s) k"
        using s1(2) by (auto simp: extends_def)
      have "ca_visiting s' = ca_visiting s" using vis visit_back [OF f(2)] by (simp add: f(4) store_def)
      moreover have "ca_done s' = ca_done s @ (zs @ [name])" using new zs(1) by (simp add: f(4) store_def set_add_def)
      moreover have "read_prop (ca_data s') k = read_prop (ca_data s) k" if "k \<notin> set (zs @ [name])" for k
        using that zs(2) by (simp add: f(4) store_def read_prop_def jget_jset)
      ultimately have "extends s s'" unfolding extends_def by blast
      moreover have "name \<in> set (ca_done s')" by (simp add: f(4) store_def)
      ultimately show ?thesis using store_settled [OF s1(1) f(1) new s1(3)] f(4) by blast
    qed
  qed
qed (simp add: good_call_def)

section \<open>Circular dependencies\<close>

text \<open>The names being visited form a chain, each reading the next.\<close>

definition chain_to :: "studio_fields \<Rightarrow> string list \<Rightarrow> string \<Rightarrow> bool" where
  "chain_to fs vs name \<longleftrightarrow> (\<forall>v \<in> set vs. formula_of fs name \<noteq> None \<longrightarrow> (v, name) \<in> (reads_computed fs)\<^sup>+)"

lemma compute_throws:
  "compute n fs name s = Some (Inl e) \<Longrightarrow> chain_to fs (ca_visiting s) name \<Longrightarrow> \<exists>x. (x, x) \<in> (reads_computed fs)\<^sup>+"
proof (induction n arbitrary: name s)
  case (Suc n)
  then obtain f where f: "formula_of fs name = Some f" "name \<notin> set (ca_done s)"
    by (auto split: if_splits option.splits)
  show ?case
  proof (cases "name \<in> set (ca_visiting s)")
    case True
    with Suc.prems(2) f show ?thesis by (auto simp: chain_to_def)
  next
    case False
    let ?vs = "set_add name (ca_visiting s)"
    have run: "for_each (compute n fs) (fo_fields f) (s\<lparr>ca_visiting := ?vs\<rparr>) = Some (Inl e)"
      using Suc.prems(1) f False by (auto split: option.splits sum.splits)
    have chain: "chain_to fs ?vs y" if "y \<in> set (fo_fields f)" for y
      unfolding chain_to_def
    proof (intro ballI impI)
      fix v
      assume v: "v \<in> set ?vs" and y: "formula_of fs y \<noteq> None"
      have step: "(name, y) \<in> reads_computed fs" using f(1) that y by (simp add: reads_computed_def)
      show "(v, y) \<in> (reads_computed fs)\<^sup>+"
      proof (cases "v = name")
        case False
        with v Suc.prems(2) f(1) have "(v, name) \<in> (reads_computed fs)\<^sup>+" by (auto simp: chain_to_def)
        with step show ?thesis by simp
      qed (use step in blast)
    qed
    have "\<exists>x. (x, x) \<in> (reads_computed fs)\<^sup>+"
      if "for_each (compute n fs) names t = Some (Inl e)" "set names \<subseteq> set (fo_fields f)" "ca_visiting t = ?vs" for names t
      using that
    proof (induction names arbitrary: t)
      case (Cons y names)
      show ?case
      proof (cases "compute n fs y t")
        case (Some r)
        show ?thesis
        proof (cases r)
          case (Inl e')
          with Some Cons.prems have "compute n fs y t = Some (Inl e)" by simp
          from Suc.IH [OF this] chain Cons.prems show ?thesis by simp
        next
          case (Inr t')
          with Some compute_visiting have "ca_visiting t' = ca_visiting t" by metis
          with Cons.IH [of t'] Cons.prems Some Inr show ?thesis by simp
        qed
      qed (use Cons.prems in simp)
    qed simp
    from this [OF run] show ?thesis by simp
  qed
qed simp

lemma for_each_throws:
  "for_each go names s = Some (Inl e) \<Longrightarrow> \<exists>f t. go f t = Some (Inl e) \<and>
     ((\<forall>f s s'. go f s = Some (Inr s') \<longrightarrow> ca_visiting s' = ca_visiting s) \<longrightarrow> ca_visiting t = ca_visiting s)"
proof (induction names arbitrary: s)
  case (Cons f names)
  show ?case
  proof (cases "go f s")
    case (Some r)
    show ?thesis
    proof (cases r)
      case (Inl e')
      with Some Cons.prems show ?thesis by auto
    next
      case (Inr s')
      with Some Cons.prems have "for_each go names s' = Some (Inl e)" by simp
      from Cons.IH [OF this] obtain g t where g: "go g t = Some (Inl e)"
        "(\<forall>f s s'. go f s = Some (Inr s') \<longrightarrow> ca_visiting s' = ca_visiting s) \<longrightarrow> ca_visiting t = ca_visiting s'"
        by blast
      with Some Inr show ?thesis by metis
    qed
  qed (use Cons.prems in simp)
qed simp

lemma compute_error: "compute n fs name s = Some (Inl e) \<Longrightarrow> e = circular"
proof (induction n arbitrary: name s)
  case (Suc n)
  show ?case
  proof (cases "\<exists>names (s1 :: calc). for_each (compute n fs) names s1 = Some (Inl e)")
    case True
    with for_each_throws Suc.IH show ?thesis by metis
  next
    case False
    with Suc.prems show ?thesis by (auto split: if_splits option.splits sum.splits)
  qed
qed simp

text \<open>An order in which every field comes after what it reads has no cycle.\<close>

lemma ordered_acyclic:
  assumes "\<And>xs x ys y. ds = xs @ x # ys \<Longrightarrow> (x, y) \<in> R \<Longrightarrow> y \<in> set xs" "\<And>x y. (x, y) \<in> R \<Longrightarrow> x \<in> set ds"
  shows "(a, a) \<notin> R\<^sup>+"
proof
  assume loop: "(a, a) \<in> R\<^sup>+"
  have down: "y \<in> set xs" if "(x, y) \<in> R\<^sup>+" "ds = xs @ x # ys" for x y xs ys
    using that
  proof (induction rule: trancl_induct)
    case (base y)
    then show ?case using assms(1) by blast
  next
    case (step y z)
    then obtain us vs where us: "xs = us @ y # vs" by (metis split_list)
    then have "ds = us @ y # (vs @ x # ys)" using step.prems by simp
    from assms(1) [OF this step.hyps(2)] us show ?case by simp
  qed
  obtain y where "(a, y) \<in> R" using loop by (meson tranclD)
  then have "a \<in> set ds" using assms(2) by blast
  then obtain xs ys where ds: "ds = xs @ a # ys" "a \<notin> set xs" by (metis split_list_first)
  from down [OF loop ds(1)] ds(2) show False by blast
qed

section \<open>The prepared record\<close>

text \<open>The defaults: a field with its own value keeps it.\<close>

definition default_of :: "studio_fields \<Rightarrow> string \<Rightarrow> jv" where
  "default_of fs k = (if k \<in> set object_prototype_keys then JUndef
     else case filter (\<lambda>v. v \<noteq> JUndef) (map (sf_default \<circ> snd) (filter (\<lambda>p. fst p = k) fs)) of [] \<Rightarrow> JUndef | v # _ \<Rightarrow> v)"

lemma defaults_read:
  "read_prop (fold with_default fs given) k =
     (if read_prop given k \<noteq> JUndef then read_prop given k else default_of fs k)"
proof (induction fs arbitrary: given)
  case (Cons p fs)
  obtain n d where p: "p = (n, d)" by (cases p)
  have "read_prop (with_default (n, d) given) k =
      (if read_prop given k = JUndef \<and> n = k \<and> k \<notin> set object_prototype_keys \<and> sf_default d \<noteq> JUndef
       then sf_default d else read_prop given k)"
    by (auto simp: with_default_def read_prop_def jget_jset)
  then show ?case using Cons [of "with_default (n, d) given"] by (auto simp: p default_of_def)
qed (simp add: default_of_def)

lemma prepare_settles:
  assumes "prepareRecord fs values = Some (Inr data)"
  obtains s where "settled fs s" "ca_data s = data" "set (ca_done s) = computed_names fs"
    "\<And>k. formula_of fs k = None \<Longrightarrow> read_prop data k = read_prop (fold with_default fs values) k"
proof -
  let ?s = "\<lparr>ca_done = [], ca_visiting = [], ca_data = fold with_default fs values\<rparr>"
  obtain s where s: "for_each (compute (Suc (length fs)) fs) (jkeys fs) ?s = Some (Inr s)" "ca_data s = data"
    using assms by (auto simp: prepareRecord_def split: option.splits sum.splits)
  have "settled fs ?s" by (simp add: settled_def)
  from for_each_good [OF compute_good this s(1)]
  have g: "settled fs s" "extends ?s s" "\<forall>f \<in> set (jkeys fs). formula_of fs f \<noteq> None \<longrightarrow> f \<in> set (ca_done s)" by blast+
  have key: "formula_of fs x \<noteq> None \<Longrightarrow> x \<in> set (jkeys fs)" for x
    by (auto simp: formula_of_def split: option.splits dest: jget_Some_key)
  have done_computed: "formula_of fs x \<noteq> None" if "x \<in> set (ca_done s)" for x
    using g(1) that unfolding settled_def by fastforce
  have "set (ca_done s) = computed_names fs" using g(3) key done_computed by (auto simp: computed_names_def)
  moreover have "read_prop data k = read_prop (fold with_default fs values) k" if "formula_of fs k = None" for k
  proof -
    have "k \<notin> set (ca_done s)" using done_computed that by blast
    with g(2) s(2) show ?thesis by (auto simp: extends_def)
  qed
  ultimately show ?thesis using that [OF g(1) s(2)] by blast
qed

lemma prepare_error: "prepareRecord fs values = Some (Inl e) \<Longrightarrow> e = circular"
  by (auto simp: prepareRecord_def split: option.splits sum.splits dest!: for_each_throws dest: compute_error simp del: compute.simps)

lemma prepare_throws_iff:
  "(\<exists>e. prepareRecord fs values = Some (Inl e)) \<longleftrightarrow> (\<exists>x. (x, x) \<in> (reads_computed fs)\<^sup>+)"
proof
  let ?s = "\<lparr>ca_done = [], ca_visiting = [], ca_data = fold with_default fs values\<rparr>"
  assume "\<exists>e. prepareRecord fs values = Some (Inl e)"
  then obtain e where "for_each (compute (Suc (length fs)) fs) (jkeys fs) ?s = Some (Inl e)"
    by (auto simp: prepareRecord_def split: option.splits sum.splits)
  from for_each_throws [OF this] obtain f t where t: "compute (Suc (length fs)) fs f t = Some (Inl e)" "ca_visiting t = ca_visiting ?s"
    using compute_visiting by blast
  have "chain_to fs (ca_visiting t) f" using t(2) by (simp add: chain_to_def)
  from compute_throws [OF t(1) this] show "\<exists>x. (x, x) \<in> (reads_computed fs)\<^sup>+" .
next
  assume loop: "\<exists>x. (x, x) \<in> (reads_computed fs)\<^sup>+"
  show "\<exists>e. prepareRecord fs values = Some (Inl e)"
  proof (cases "prepareRecord fs values")
    case (Some r)
    show ?thesis
    proof (cases r)
      case (Inr data)
      with Some obtain s where s: "settled fs s" "set (ca_done s) = computed_names fs" using prepare_settles by metis
      have "x \<in> set (ca_done s)" if "(x, y) \<in> reads_computed fs" for x y
        using that s(2) by (auto simp: reads_computed_def computed_names_def)
      then have "(a, a) \<notin> (reads_computed fs)\<^sup>+" for a
        using s(1) by (intro ordered_acyclic [of "ca_done s"]) (auto simp: settled_def)
      with loop show ?thesis by blast
    qed (simp add: Some)
  qed (use prepare_total in blast)
qed

end
