(* ===== verification/Studio_Properties.thy ===== *)
theory Studio_Properties
  imports Studio_Csv Studio_Rules
begin

text \<open>
  The properties of the shared record functions of the studio.
\<close>

section \<open>Tables as text\<close>

text \<open>C33: A table that is written as lines is read back: with headers that are not blank, distinct
  once trimmed and free of line feeds, and rows of the same width with something in them, the
  reader returns the trimmed headers and the text of every cell, whatever commas, quotes, line
  ends or semicolons the cells hold. The text of a string is the string, behind an apostrophe
  when a spreadsheet would take it for a formula.\<close>
theorem csv_roundtrip:
  assumes "hs \<noteq> []" "length hs \<le> 105" "length rs \<le> mx" "distinct (map (js_trim \<circ> cell_text) hs)"
    and "\<forall>v \<in> set hs. js_trim (cell_text v) \<noteq> [] \<and> line_feed \<notin> set (cell_text v)"
    and "\<forall>r \<in> set rs. length r = length hs \<and> (\<exists>v \<in> set r. cell_text v \<noteq> [])"
  shows "parseCsv (concat (map csvLine (hs # rs))) mx = Inr (map (js_trim \<circ> cell_text) hs, map (map cell_text) rs) \<and>
    (\<forall>s. cell_text (JStr s) = (if formula_like s then CHR 0x27 # s else s))"
proof
  have shape: "vs \<noteq> [] \<and> (delimiter (concat (map csvLine (hs # rs))) = CHR '','' \<or> length vs = 1) \<and>
      list_ex (\<lambda>v. cell_text v \<noteq> []) vs" if "vs \<in> set (hs # rs)" for vs
  proof (intro conjI)
    have len: "length vs = length hs" using that assms(6) by auto
    with assms(1) show "vs \<noteq> []" by auto
    have "\<exists>v \<in> set hs. cell_text v \<noteq> []"
      using assms(1,5) by (cases hs) (auto simp: js_trim_def)
    with that assms(6) show "list_ex (\<lambda>v. cell_text v \<noteq> []) vs" by (auto simp: list_ex_iff)
    show "delimiter (concat (map csvLine (hs # rs))) = CHR '','' \<or> length vs = 1"
    proof (cases "2 \<le> length hs")
      case True
      with assms(5) first_line_comma [of hs "concat (map csvLine rs)"] show ?thesis by auto
    next
      case False
      moreover have "length hs \<noteq> 0" using assms(1) by simp
      ultimately have "length vs = 1" using len by linarith
      then show ?thesis ..
    qed
  qed
  have "parseCsv (concat (map csvLine (hs # rs))) mx = check_table (map (map cell_text) (hs # rs))"
    using shape assms(3) by (intro scan_table) simp_all
  moreover have "check_widths (length hs) 0 (map (map cell_text) rs) = None"
    using assms(6) by (intro widths_ok) (auto simp: list_all_iff)
  ultimately show "parseCsv (concat (map csvLine (hs # rs))) mx = Inr (map (js_trim \<circ> cell_text) hs, map (map cell_text) rs)"
    using assms(1,2,4,5) by (auto simp: check_table_def Let_def)
qed (simp add: cell_text_def)

theorem csv_roundtrip_witness:
  "parseCsv (concat (map csvLine [[JStr ''a'', JStr ''b''], [JStr ''x,;'', JNull], [JStr ''=1'', JStr [quote_char, line_feed]]])) 5 =
     Inr ([''a'', ''b''], [[''x,;'', []], [CHR 0x27 # ''=1'', [quote_char, line_feed]]])"
proof -
  have trim: "js_trim ''a'' = ''a''" "js_trim ''b'' = ''b''" by (simp_all add: js_trim_def js_space_def)
  show ?thesis
    using csv_roundtrip [of "[JStr ''a'', JStr ''b'']" "[[JStr ''x,;'', JNull], [JStr ''=1'', JStr [quote_char, line_feed]]]" 5]
    by (simp add: cell_text_def trim js_space_def)
qed

text \<open>The first line decides the delimiter even where it ends inside a quoted header.\<close>

lemma quoted_header_splits:
  "parseCsv (csvLine [JStr (''x;'' @ [line_feed] @ ''y''), JStr ''b'']) 5 = Inl TextAfterQuote"
  by (simp add: csvLine_def csvCell_def cell_text_def double_quotes_def js_space_def parseCsv_def delimiter_def firstLine_def
      csv_start_def add_char_def finishCell_def)

section \<open>Computed fields\<close>

text \<open>C34: Preparing a record always ends. It throws exactly when the computed fields read each other
  in a cycle, whatever the values are, and the error is the one of a circular dependency; otherwise
  every computed field holds the value of its formula on the prepared record, so the order of the
  fields does not matter, and every other field keeps its value or takes its default.\<close>
theorem computed_fields:
  "prepareRecord fs values \<noteq> None \<and>
   (prepareRecord fs values = Some (Inl circular) \<longleftrightarrow> (\<exists>x. (x, x) \<in> (reads_computed fs)\<^sup>+)) \<and>
   (\<forall>e. prepareRecord fs values = Some (Inl e) \<longrightarrow> e = circular) \<and>
   (\<forall>data. prepareRecord fs values = Some (Inr data) \<longrightarrow>
     (\<forall>x. read_prop data x = (case formula_of fs x of
        Some f \<Rightarrow> formula_value f (map (read_prop data) (fo_fields f))
      | None \<Rightarrow> if read_prop values x \<noteq> JUndef then read_prop values x else default_of fs x)))"
proof (intro conjI allI impI)
  fix data x
  assume "prepareRecord fs values = Some (Inr data)"
  then obtain s where s: "settled fs s" "ca_data s = data" "set (ca_done s) = computed_names fs"
    "\<And>k. formula_of fs k = None \<Longrightarrow> read_prop data k = read_prop (fold with_default fs values) k"
    by (rule prepare_settles) blast
  show "read_prop data x = (case formula_of fs x of
        Some f \<Rightarrow> formula_value f (map (read_prop data) (fo_fields f))
      | None \<Rightarrow> if read_prop values x \<noteq> JUndef then read_prop values x else default_of fs x)"
  proof (cases "formula_of fs x")
    case None
    with s(4) [OF None] show ?thesis by (simp only: defaults_read option.case)
  next
    case (Some f)
    then have "x \<in> set (ca_done s)" using s(3) by (simp add: computed_names_def)
    with s(1,2) Some show ?thesis unfolding settled_def by fastforce
  qed
qed (use prepare_total prepare_throws_iff prepare_error in blast)+

definition sample_fields :: studio_fields where
  "sample_fields =
     [(''double'', \<lparr>sf_default = JUndef, sf_formula = Some \<lparr>fo_op = ''product'', fo_fields = [''total'', ''two'']\<rparr>\<rparr>),
      (''total'', \<lparr>sf_default = JUndef, sf_formula = Some \<lparr>fo_op = ''sum'', fo_fields = [''a'', ''missing'']\<rparr>\<rparr>),
      (''two'', \<lparr>sf_default = JNum (Fin 2), sf_formula = None\<rparr>)]"

definition sample_ring :: studio_fields where
  "sample_ring =
     [(''x'', \<lparr>sf_default = JUndef, sf_formula = Some \<lparr>fo_op = ''sum'', fo_fields = [''y'']\<rparr>\<rparr>),
      (''y'', \<lparr>sf_default = JUndef, sf_formula = Some \<lparr>fo_op = ''sum'', fo_fields = [''x'']\<rparr>\<rparr>)]"

theorem computed_fields_witness:
  "prepareRecord sample_ring [] = Some (Inl circular) \<and>
   (\<exists>data. prepareRecord sample_fields [(''a'', JNum (Fin 1))] = Some (Inr data) \<and>
     read_prop data ''a'' = JNum (Fin 1) \<and> read_prop data ''two'' = JNum (Fin 2) \<and>
     read_prop data ''total'' = JNull \<and> read_prop data ''double'' = JNull)"
proof
  have "(''x'', ''y'') \<in> reads_computed sample_ring" "(''y'', ''x'') \<in> reads_computed sample_ring"
    by (simp_all add: reads_computed_def formula_of_def sample_ring_def jget_Cons)
  then have "\<exists>x. (x, x) \<in> (reads_computed sample_ring)\<^sup>+" by (meson r_into_trancl' trancl.trancl_into_trancl)
  then show "prepareRecord sample_ring [] = Some (Inl circular)" using computed_fields [of sample_ring "[]"] by blast
  let ?vs = "[(''a'', JNum (Fin 1))]"
  have "\<exists>data. prepareRecord sample_fields ?vs = Some (Inr data)"
    by (simp add: prepareRecord_def sample_fields_def with_default_def object_prototype_keys_def formula_of_def jget_Cons
        set_add_def store_def read_prop_def)
  then obtain data where data: "prepareRecord sample_fields ?vs = Some (Inr data)" by blast
  then have read: "read_prop data x = (case formula_of sample_fields x of
        Some f \<Rightarrow> formula_value f (map (read_prop data) (fo_fields f))
      | None \<Rightarrow> if read_prop ?vs x \<noteq> JUndef then read_prop ?vs x else default_of sample_fields x)" for x
    using computed_fields [of sample_fields ?vs] by blast
  have plain: "read_prop data ''a'' = JNum (Fin 1)" "read_prop data ''two'' = JNum (Fin 2)" "read_prop data ''missing'' = JUndef"
    by (subst read, simp add: formula_of_def sample_fields_def jget_Cons default_of_def object_prototype_keys_def)+
  have "read_prop data ''total'' = JNull"
    by (subst read) (simp add: formula_of_def sample_fields_def jget_Cons formula_value_def plain finite_number_def)
  moreover from this have "read_prop data ''double'' = JNull"
    by (subst read) (simp add: formula_of_def sample_fields_def jget_Cons formula_value_def finite_number_def)
  ultimately show "\<exists>data. prepareRecord sample_fields ?vs = Some (Inr data) \<and>
     read_prop data ''a'' = JNum (Fin 1) \<and> read_prop data ''two'' = JNum (Fin 2) \<and>
     read_prop data ''total'' = JNull \<and> read_prop data ''double'' = JNull"
    using data plain by blast
qed

end
