(* ===== verification/Studio_Validate.thy ===== *)
theory Studio_Validate
  imports Studio_Rules
begin

text \<open>
  \<open>validateRecord\<close> of \<open>packages/studio-shared/src/metadata.ts\<close> with the conditions of \<open>rules.ts\<close>
  and the options of \<open>dependent-options.ts\<close>: every field of a collection is checked on the prepared
  record, a value is normalised or an error is noted under the name of its field. A collection is
  taken as \<open>configSchema\<close> leaves it, and values are those of JSON; the texts of the messages are
  constructors.
\<close>

section \<open>Texts and numbers of values\<close>

text \<open>\<open>String(value)\<close>; an element of an array that is null or undefined gives the empty text.\<close>

fun js_text :: "jv \<Rightarrow> string" and array_text :: "jv list \<Rightarrow> string" where
  "js_text JUndef = ''undefined''"
| "js_text JNull = ''null''"
| "js_text (JBool b) = (if b then ''true'' else ''false'')"
| "js_text (JNum n) = num_to_string n"
| "js_text (JStr s) = s"
| "js_text (JArr vs) = array_text vs"
| "js_text _ = ''[object Object]''"
| "array_text [] = []"
| "array_text (v # vs) = (if v = JUndef \<or> v = JNull then [] else js_text v) @ (if vs = [] then [] else '','' @ array_text vs)"

text \<open>\<open>Number(value)\<close>, with the reading of a text as a parameter.\<close>

definition js_number :: "(string \<Rightarrow> jnum) \<Rightarrow> jv \<Rightarrow> jnum" where
  "js_number num v = (case v of
     JUndef \<Rightarrow> NaN | JNull \<Rightarrow> Fin 0 | JBool b \<Rightarrow> Fin (if b then 1 else 0) | JNum n \<Rightarrow> n | v \<Rightarrow> num (js_text v))"

text \<open>\<open>Array.prototype.includes\<close> finds \<open>NaN\<close>.\<close>

definition same_value :: "jv \<Rightarrow> jv \<Rightarrow> bool" where
  "same_value a b \<longleftrightarrow> strict_eq a b \<or> a = JNum NaN \<and> b = JNum NaN"

definition is_integer :: "jnum \<Rightarrow> bool" where
  "is_integer n = (case n of Fin q \<Rightarrow> q = of_int \<lfloor>q\<rfloor> | _ \<Rightarrow> False)"

fun js_abs :: "jnum \<Rightarrow> jnum" where
  "js_abs (Fin q) = Fin \<bar>q\<bar>"
| "js_abs NInf = PInf"
| "js_abs n = n"

section \<open>Conditions and options\<close>

datatype condition_op = CoEq | CoNe | CoGt | CoGte | CoLt | CoLte | CoContains | CoEmpty | CoIn

record condition =
  co_field :: string
  co_op :: condition_op
  co_value :: jv

definition number_test :: "(string \<Rightarrow> jnum) \<Rightarrow> (jnum \<Rightarrow> jnum \<Rightarrow> bool) \<Rightarrow> jv \<Rightarrow> jv \<Rightarrow> bool" where
  "number_test num r actual expected = (case actual of JNum n \<Rightarrow> r n (js_number num expected) | _ \<Rightarrow> False)"

definition or_blank :: "jv \<Rightarrow> string" where
  "or_blank v = (if v = JUndef \<or> v = JNull then [] else js_text v)"

definition evaluateCondition :: "(string \<Rightarrow> jnum) \<Rightarrow> condition option \<Rightarrow> jv jmap \<Rightarrow> bool" where
  "evaluateCondition num cond values = (case cond of None \<Rightarrow> True | Some c \<Rightarrow>
     (let actual = read_prop values (co_field c); expected = co_value c in
      case co_op c of
        CoEq \<Rightarrow> strict_eq actual expected
      | CoNe \<Rightarrow> \<not> strict_eq actual expected
      | CoGt \<Rightarrow> number_test num (\<lambda>a b. js_lt b a) actual expected
      | CoGte \<Rightarrow> number_test num (\<lambda>a b. js_le b a) actual expected
      | CoLt \<Rightarrow> number_test num js_lt actual expected
      | CoLte \<Rightarrow> number_test num js_le actual expected
      | CoContains \<Rightarrow> (case actual of
            JArr vs \<Rightarrow> list_ex (\<lambda>v. same_value v expected) vs
          | _ \<Rightarrow> js_includes (js_lower (or_blank actual)) (js_lower (or_blank expected)))
      | CoEmpty \<Rightarrow> actual = JUndef \<or> actual = JNull \<or> actual = JStr [] \<or> actual = JArr []
      | CoIn \<Rightarrow> (case expected of JArr vs \<Rightarrow> list_ex (\<lambda>v. same_value v actual) vs | _ \<Rightarrow> False)))"

text \<open>A section is its condition; \<open>None\<close> is \<open>undefined\<close>.\<close>

definition isSectionVisible :: "(string \<Rightarrow> jnum) \<Rightarrow> condition option option \<Rightarrow> jv jmap \<Rightarrow> bool" where
  "isSectionVisible num section values = evaluateCondition num (Option.bind section id) values"

record option_dependency =
  od_field :: string
  od_cases :: "string list jmap"

text \<open>Options are strings by their schema.\<close>

definition availableOptions :: "string list option \<Rightarrow> option_dependency option \<Rightarrow> jv jmap \<Rightarrow> string list" where
  "availableOptions opts dep values = (case dep of
     None \<Rightarrow> case_option [] id opts
   | Some d \<Rightarrow> (let parent = read_prop values (od_field d) in
       if parent = JUndef \<or> parent = JNull \<or> parent = JStr [] then []
       else (let allowed = case_option [] id (jget (od_cases d) (js_text parent)) in
         filter (\<lambda>v. v \<in> set allowed) (case_option [] id opts))))"

section \<open>Fields\<close>

datatype field_type =
    Textbox | Textarea | RichText | EmailField | PhoneField | UrlField | AddressField | MapLocation | FormHtml | DisplayText
  | NumberField | Currency | Percentage | Rating | Dropdown | MultiSelect | Autocomplete | Toggle | DateControl | DateTime
  | TimeField | R2Attachment

datatype text_format = FmtEmail | FmtUrl | FmtCurrency | FmtPhone

text \<open>The members of a field's configuration that the check reads; \<open>JUndef\<close> is a schema that is
  not given.\<close>

record field_config =
  fc_section :: "string option"
  fc_visibleWhen :: "condition option"
  fc_requiredWhen :: "condition option"
  fc_multiple :: bool
  fc_dateTime :: bool
  fc_integer :: bool
  fc_minimum :: "jnum option"
  fc_maximum :: "jnum option"
  fc_decimals :: "nat option"
  fc_minLength :: "nat option"
  fc_maxLength :: "nat option"
  fc_pattern :: "string option"
  fc_format :: "text_format option"
  fc_unique :: bool
  fc_relation :: "string option"
  fc_collectionRelation :: bool
  fc_collectionOptions :: bool
  fc_optionsWhen :: "option_dependency option"
  fc_formula :: "field_formula option"
  fc_jsonSchema :: jv
  fc_validationSchema :: jv

datatype locale_name = LocEs | LocEn | LocPt

record form_field =
  ff_type :: field_type
  ff_label :: string
  ff_labels :: "locale_name \<Rightarrow> string option"
  ff_required :: bool
  ff_hidden :: bool
  ff_options :: "string list option"
  ff_default :: jv
  ff_config :: field_config

record form_object =
  fob_fields :: "form_field jmap"
  fob_order :: "string list option"
  fob_sections :: "(string \<times> condition option) list"

definition isStaticOptionField :: "field_type \<Rightarrow> bool" where
  "isStaticOptionField t \<longleftrightarrow> t = Dropdown \<or> t = Autocomplete"

definition fieldTextFormat :: "form_field \<Rightarrow> text_format option" where
  "fieldTextFormat f = (case ff_type f of
     EmailField \<Rightarrow> Some FmtEmail | PhoneField \<Rightarrow> Some FmtPhone | UrlField \<Rightarrow> Some FmtUrl | _ \<Rightarrow> fc_format (ff_config f))"

definition resolveFieldLabel :: "form_field \<Rightarrow> locale_name \<Rightarrow> string" where
  "resolveFieldLabel f loc = (case map_option js_trim (ff_labels f loc) of
     Some (c # s) \<Rightarrow> c # s | _ \<Rightarrow> ff_label f)"

definition fieldEntries :: "form_object \<Rightarrow> (string \<times> form_field option) list" where
  "fieldEntries ob = map (\<lambda>name. (name, jget (fob_fields ob) name))
     (case fob_order ob of Some ns \<Rightarrow> ns | None \<Rightarrow> jkeys (fob_fields ob))"

definition rule_fields :: "form_object \<Rightarrow> studio_fields" where
  "rule_fields ob = map (\<lambda>(name, f). (name, \<lparr>sf_default = ff_default f, sf_formula = fc_formula (ff_config f)\<rparr>)) (fob_fields ob)"

section \<open>Formats\<close>

definition plain_char :: "char \<Rightarrow> bool" where
  "plain_char c \<longleftrightarrow> \<not> js_space c \<and> c \<noteq> CHR ''@''"

text \<open>\<open>/^[^\\s@]+@[^\\s@]+\\.[^\\s@]+$/\<close>: the only at sign is the one that is written out.\<close>

definition email_text :: "string \<Rightarrow> bool" where
  "email_text s = (let name = takeWhile plain_char s; host = tl (dropWhile plain_char s) in
     name \<noteq> [] \<and> take 1 (dropWhile plain_char s) = ''@'' \<and> list_all plain_char host \<and>
     list_ex (\<lambda>i. 0 < i \<and> Suc i < length host \<and> host ! i = CHR ''.'') [0..<length host])"

text \<open>\<open>/^\\+?[\\d ()-]{5,30}$/\<close>\<close>

definition phone_text :: "string \<Rightarrow> bool" where
  "phone_text s = (let t = (if take 1 s = ''+'' then tl s else s) in
     5 \<le> length t \<and> length t \<le> 30 \<and> list_all (\<lambda>c. is_digit c \<or> c \<in> set '' ()-'') t)"

text \<open>\<open>/^([01]\\d|2[0-3]):[0-5]\\d$/\<close>\<close>

definition time_text :: "string \<Rightarrow> bool" where
  "time_text s = (case s of
     [h, h', c, m, m'] \<Rightarrow> (h \<in> set ''01'' \<and> is_digit h' \<or> h = CHR ''2'' \<and> h' \<in> set ''0123'') \<and>
       c = CHR '':'' \<and> m \<in> set ''012345'' \<and> is_digit m'
   | _ \<Rightarrow> False)"

definition date_digits :: "string \<Rightarrow> int" where
  "date_digits s = foldl (\<lambda>n c. 10 * n + (of_char c - 48)) 0 s"

text \<open>\<open>/^\\d{4}-\\d{2}-\\d{2}$/\<close>, and the day it parses to is written the same way: \<open>Date.parse\<close>
  is \<open>NaN\<close> for a month past 12 or a day past 31 and carries a day past the month's end over.\<close>

definition date_text :: "string \<Rightarrow> bool" where
  "date_text s = (let y = take 4 s; m = take 2 (drop 5 s); d = drop 8 s in
     length s = 10 \<and> list_all is_digit (y @ m @ d) \<and> s ! 4 = CHR ''-'' \<and> s ! 7 = CHR ''-'' \<and>
     1 \<le> date_digits m \<and> date_digits m \<le> 12 \<and> 1 \<le> date_digits d \<and> date_digits d \<le> 31 \<and>
     iso_date (days_of_civil (date_digits y) (date_digits m) (date_digits d)) = s)"

section \<open>One field\<close>

text \<open>
  What the check takes from outside: the time-zoned date and time of the schema library, the time
  in milliseconds a text denotes (\<open>None\<close> is an invalid date), the number a text denotes,
  \<open>new RegExp(pattern, "u").test\<close> (\<open>None\<close> when the pattern is refused), the protocol of a URL,
  \<open>JSON.parse\<close>, and the issues of a value under a JSON schema (\<open>Inl\<close> the message that was
  thrown).
\<close>

record form_env =
  fe_datetime :: "string \<Rightarrow> bool"
  fe_date :: "string \<Rightarrow> int option"
  fe_number :: "string \<Rightarrow> jnum"
  fe_regexp :: "string \<Rightarrow> (string \<Rightarrow> bool) option"
  fe_protocol :: "string \<Rightarrow> string option"
  fe_parse :: "string \<Rightarrow> string + jv"
  fe_schema :: "jv \<Rightarrow> jv \<Rightarrow> string + string list"

datatype message =
    MRequired | MNumber | MInteger | MBoolean | MText | MOptions | MRecords | MOption | MDate | MDateTime | MTime | MEmail
  | MPhone | MUrl | MRange | MLength nat nat | MPattern | MMap | MIntegerRange jnum jnum | MNumberRange jnum jnum
  | MDecimals nat | MJson string | MIssues "string list" | MThrown string

text \<open>A number of the location's schema: \<open>z.number()\<close> refuses \<open>NaN\<close> and the infinities.\<close>

definition coordinate :: "rat \<Rightarrow> jv \<Rightarrow> bool" where
  "coordinate bound v = (case v of JNum (Fin q) \<Rightarrow> - bound \<le> q \<and> q \<le> bound | _ \<Rightarrow> False)"

definition location_text :: "nat \<Rightarrow> string \<Rightarrow> jv jmap \<Rightarrow> jv jmap option" where
  "location_text mx k m = (case read_prop m k of
     JUndef \<Rightarrow> Some []
   | JStr s \<Rightarrow> if length (js_trim s) \<le> mx then Some [(k, JStr (js_trim s))] else None
   | _ \<Rightarrow> None)"

definition parseMapLocation :: "form_env \<Rightarrow> jv \<Rightarrow> jv option" where
  "parseMapLocation env v =
     (if v = JUndef \<or> v = JNull \<or> v = JStr [] then None
      else (case (case v of JStr s \<Rightarrow> (case fe_parse env s of Inl _ \<Rightarrow> JNull | Inr w \<Rightarrow> w) | _ \<Rightarrow> v) of
          JObj m \<Rightarrow> (if coordinate 90 (read_prop m ''lat'') \<and> coordinate 180 (read_prop m ''lng'')
            then (case (location_text 200 ''label'' m, location_text 500 ''address'' m) of
                (Some l, Some a) \<Rightarrow> Some (JObj ([(''lat'', read_prop m ''lat''), (''lng'', read_prop m ''lng'')] @ l @ a))
              | _ \<Rightarrow> None)
            else None)
        | _ \<Rightarrow> None))"

text \<open>The outcome of one field: the error noted under its name, and what it stores.\<close>

datatype outcome = Throws | Outcome "message option" "jv option"

definition accept :: "message \<Rightarrow> bool \<Rightarrow> jv \<Rightarrow> outcome" where
  "accept msg ok v = (if ok then Outcome None (Some v) else Outcome (Some msg) None)"

definition empty_value :: "form_field \<Rightarrow> jv \<Rightarrow> bool" where
  "empty_value f v \<longleftrightarrow> v = JUndef \<or> v = JNull \<or> v = JStr [] \<or> v = JArr [] \<or>
     ff_type f = RichText \<and> (case v of JStr s \<Rightarrow> js_trim s = [] | _ \<Rightarrow> False)"

definition visible :: "form_env \<Rightarrow> form_object \<Rightarrow> jv jmap \<Rightarrow> form_field \<Rightarrow> bool" where
  "visible env ob data f =
     ((case fc_section (ff_config f) of None \<Rightarrow> True
       | Some i \<Rightarrow> isSectionVisible (fe_number env) (map_option snd (find (\<lambda>s. fst s = i) (fob_sections ob))) data) \<and>
      \<not> ff_hidden f \<and> evaluateCondition (fe_number env) (fc_visibleWhen (ff_config f)) data)"

definition required :: "form_env \<Rightarrow> form_object \<Rightarrow> jv jmap \<Rightarrow> form_field \<Rightarrow> bool" where
  "required env ob data f = (visible env ob data f \<and>
     (ff_required f \<or> fc_requiredWhen (ff_config f) \<noteq> None \<and>
        evaluateCondition (fe_number env) (fc_requiredWhen (ff_config f)) data))"

definition check_empty :: "bool \<Rightarrow> form_field \<Rightarrow> jv \<Rightarrow> outcome" where
  "check_empty req f v = Outcome (if req then Some MRequired else None)
     (Some (if fc_multiple (ff_config f) \<or> ff_type f = MultiSelect then JArr []
            else if v = JUndef \<and> ff_type f = Toggle then JBool False else JNull))"

definition check_datetime :: "form_env \<Rightarrow> jv \<Rightarrow> outcome" where
  "check_datetime env v = (case v of
     JStr s \<Rightarrow> if fe_datetime env s
       then (case fe_date env s of None \<Rightarrow> Throws | Some t \<Rightarrow> Outcome None (Some (JStr (iso_of_ms t))))
       else Outcome (Some MDateTime) None
   | _ \<Rightarrow> Outcome (Some MDateTime) None)"

definition js_within :: "jnum \<Rightarrow> jnum \<Rightarrow> jnum \<Rightarrow> bool" where
  "js_within lo hi n \<longleftrightarrow> is_finite n \<and> \<not> js_lt n lo \<and> \<not> js_lt hi n"

definition too_precise :: "nat \<Rightarrow> jnum \<Rightarrow> bool" where
  "too_precise d n = (let scaled = js_mul n (Fin (10 ^ d)) in
     \<not> is_finite scaled \<or>
     js_lt (js_mul (js_mul (Fin (1 / 2 ^ 52)) (if js_lt (Fin 1) (js_abs scaled) then js_abs scaled else Fin 1)) (Fin 8))
           (js_abs (js_sub scaled (math_round scaled))))"

definition scale_bounds :: "form_field \<Rightarrow> jnum \<times> jnum" where
  "scale_bounds f = (if ff_type f = Rating then Fin 1 else case_option (Fin 0) id (fc_minimum (ff_config f)),
     case_option (Fin (if ff_type f = Rating then 5 else 100)) id (fc_maximum (ff_config f)))"

definition scale_issue :: "form_field \<Rightarrow> jv \<Rightarrow> message option" where
  "scale_issue f v = (let rating = (ff_type f = Rating); d = case_option 2 id (fc_decimals (ff_config f)) in
     case scale_bounds f of (lo, hi) \<Rightarrow>
       if \<not> (case v of JNum n \<Rightarrow> js_within lo hi n \<and> (rating \<longrightarrow> is_integer n) | _ \<Rightarrow> False)
       then Some (if rating then MIntegerRange lo hi else MNumberRange lo hi)
       else if \<not> rating \<and> (case v of JNum n \<Rightarrow> too_precise d n | _ \<Rightarrow> False) then Some (MDecimals d)
       else None)"

text \<open>\<open>Percentage\<close> and \<open>Rating\<close>; the value is stored whatever the error.\<close>

definition check_scale :: "form_field \<Rightarrow> jv \<Rightarrow> outcome" where
  "check_scale f v = Outcome (scale_issue f v) (Some v)"

definition string_items :: "(string \<Rightarrow> bool) \<Rightarrow> jv list \<Rightarrow> string list option" where
  "string_items ok vs = traverse (\<lambda>v. case v of JStr s \<Rightarrow> if ok s then Some s else None | _ \<Rightarrow> None) vs"

definition check_strings :: "message \<Rightarrow> (string \<Rightarrow> bool) \<Rightarrow> jv \<Rightarrow> outcome" where
  "check_strings msg ok v = (case v of
     JArr vs \<Rightarrow> (case string_items ok vs of
         Some ss \<Rightarrow> if length vs \<le> 500 then Outcome None (Some (JArr (map JStr (js_set ss)))) else Outcome (Some msg) None
       | None \<Rightarrow> Outcome (Some msg) None)
   | _ \<Rightarrow> Outcome (Some msg) None)"

text \<open>The chain of tests of a single value; the types of the first four exclude each other.\<close>

definition scalar_issue :: "form_env \<Rightarrow> jv jmap \<Rightarrow> form_field \<Rightarrow> jv \<Rightarrow> message option" where
  "scalar_issue env data f v = (let t = ff_type f; c = ff_config f in
     if (t = NumberField \<or> t = Currency) \<and> \<not> (case v of JNum n \<Rightarrow> is_finite n | _ \<Rightarrow> False) then Some MNumber
     else if (t = NumberField \<or> t = Currency) \<and> fc_integer c \<and> \<not> (case v of JNum n \<Rightarrow> is_integer n | _ \<Rightarrow> False)
       then Some MInteger
     else if t = Toggle \<and> typeof v \<noteq> ''boolean'' then Some MBoolean
     else if t \<notin> {NumberField, Currency, Toggle, MapLocation} \<and> typeof v \<noteq> ''string'' then Some MText
     else if isStaticOptionField t \<and> fc_relation c = None \<and> \<not> fc_collectionRelation c \<and> \<not> fc_collectionOptions c \<and>
         \<not> list_ex (\<lambda>w. JStr w = v) (availableOptions (ff_options f) (fc_optionsWhen c) data) then Some MOption
     else if t = DateControl \<and> \<not> (case v of JStr s \<Rightarrow> date_text s | _ \<Rightarrow> False) then Some MDate
     else if fieldTextFormat f = Some FmtEmail \<and> \<not> email_text (js_text v) then Some MEmail
     else if fieldTextFormat f = Some FmtPhone \<and> \<not> phone_text (js_text v) then Some MPhone
     else if fieldTextFormat f = Some FmtUrl \<and>
         fe_protocol env (js_text v) \<notin> {Some ''https:'', Some ''http:''} then Some MUrl
     else None)"

definition range_issue :: "field_config \<Rightarrow> jv \<Rightarrow> message option" where
  "range_issue c v = (case v of
     JNum n \<Rightarrow> if (case fc_minimum c of Some lo \<Rightarrow> js_lt n lo | None \<Rightarrow> False) \<or>
         (case fc_maximum c of Some hi \<Rightarrow> js_lt hi n | None \<Rightarrow> False) then Some MRange else None
   | _ \<Rightarrow> None)"

definition length_bounds :: "form_field \<Rightarrow> nat \<times> nat" where
  "length_bounds f = (case_option 0 id (fc_minLength (ff_config f)),
     case_option (if ff_type f = RichText then 100000 else 10000) id (fc_maxLength (ff_config f)))"

definition length_issue :: "form_field \<Rightarrow> jv \<Rightarrow> message option" where
  "length_issue f v = (case v of
     JStr s \<Rightarrow> (case length_bounds f of (lo, hi) \<Rightarrow>
       if length s < lo \<or> hi < length s then Some (MLength lo hi) else None)
   | _ \<Rightarrow> None)"

text \<open>\<open>Inl ()\<close> is the error of a pattern that is refused.\<close>

definition pattern_issue :: "form_env \<Rightarrow> field_config \<Rightarrow> jv \<Rightarrow> unit + message option" where
  "pattern_issue env c v = (case (v, fc_pattern c) of
     (JStr s, Some (ch # p)) \<Rightarrow> (case fe_regexp env (ch # p) of
         None \<Rightarrow> Inl ()
       | Some matches \<Rightarrow> Inr (if matches s then None else Some MPattern))
   | _ \<Rightarrow> Inr None)"

text \<open>A later message replaces an earlier one.\<close>

definition last_issue :: "message option \<Rightarrow> message option \<Rightarrow> message option" where
  "last_issue e e' = (case e' of None \<Rightarrow> e | Some _ \<Rightarrow> e')"

text \<open>\<open>JSON.stringify\<close> as a value.\<close>

definition json_text :: "jv \<Rightarrow> jv" where
  "json_text w = case_option JUndef JStr (json_string w)"

definition check_schemas :: "form_env \<Rightarrow> field_config \<Rightarrow> message option \<Rightarrow> jv \<Rightarrow> outcome" where
  "check_schemas env c e v =
     (if truthy (fc_jsonSchema c) \<and> typeof v = ''string''
      then (case fe_parse env (js_text v) of
          Inl m \<Rightarrow> Outcome (Some (MJson m)) (Some v)
        | Inr w \<Rightarrow> (case fe_schema env (fc_jsonSchema c) w of
            Inl m \<Rightarrow> Outcome (Some (MJson m)) (Some v)
          | Inr [] \<Rightarrow> Outcome e (Some (json_text w))
          | Inr is \<Rightarrow> Outcome (Some (MIssues is)) (Some v)))
      else if truthy (fc_validationSchema c) \<and> \<not> truthy (fc_jsonSchema c)
      then (case fe_schema env (fc_validationSchema c) v of
          Inl m \<Rightarrow> Outcome (Some (MThrown m)) (Some v)
        | Inr [] \<Rightarrow> Outcome e (Some v)
        | Inr is \<Rightarrow> Outcome (Some (MIssues is)) (Some v))
      else Outcome e (Some v))"

definition check_scalar :: "form_env \<Rightarrow> jv jmap \<Rightarrow> form_field \<Rightarrow> jv \<Rightarrow> outcome" where
  "check_scalar env data f v =
     (let e = last_issue (last_issue (scalar_issue env data f v) (range_issue (ff_config f) v)) (length_issue f v) in
      case pattern_issue env (ff_config f) v of
        Inl _ \<Rightarrow> Throws
      | Inr e' \<Rightarrow> check_schemas env (ff_config f) (last_issue e e') v)"

definition check_field :: "form_env \<Rightarrow> form_object \<Rightarrow> jv jmap \<Rightarrow> form_field \<Rightarrow> jv \<Rightarrow> outcome" where
  "check_field env ob data f v = (let t = ff_type f; c = ff_config f in
     if empty_value f v then check_empty (required env ob data f) f v
     else if t = DateTime \<or> fc_dateTime c then check_datetime env v
     else if t = TimeField then accept MTime (case v of JStr s \<Rightarrow> time_text s | _ \<Rightarrow> False) v
     else if t = Percentage \<or> t = Rating then check_scale f v
     else if t = MultiSelect then check_strings MOptions (\<lambda>s. s \<in> set (case_option [] id (ff_options f))) v
     else if fc_multiple c then check_strings MRecords (\<lambda>_. True) v
     else if t = MapLocation then (case parseMapLocation env v of
         None \<Rightarrow> Outcome (Some MMap) None | Some w \<Rightarrow> Outcome None (Some w))
     else check_scalar env data f v)"

section \<open>A record\<close>

text \<open>An error names the field it is about by its label, or a name that is no field.\<close>

datatype record_error = FieldError string message | UnknownField string | FormError string

datatype validated = Thrown | Validated "record_error jmap" "jv jmap"

definition stores_nothing :: "form_field \<Rightarrow> bool" where
  "stores_nothing f \<longleftrightarrow> ff_type f \<in> {R2Attachment, FormHtml, DisplayText}"

definition field_label :: "locale_name option \<Rightarrow> form_field \<Rightarrow> string" where
  "field_label loc f = (case loc of None \<Rightarrow> ff_label f | Some l \<Rightarrow> resolveFieldLabel f l)"

definition note_outcome :: "string \<Rightarrow> string \<Rightarrow> message option \<Rightarrow> jv option \<Rightarrow> record_error jmap \<times> jv jmap \<Rightarrow> record_error jmap \<times> jv jmap"
  where "note_outcome name label e w = (\<lambda>(errors, clean).
     (case e of None \<Rightarrow> errors | Some m \<Rightarrow> jset errors name (FieldError label m),
      case w of None \<Rightarrow> clean | Some x \<Rightarrow> jset clean name x))"

text \<open>The loop over the fields; a name of the order that is no field makes the code throw. Names that
  objects inherit are not in the order of a collection.\<close>

fun check_fields :: "form_env \<Rightarrow> locale_name option \<Rightarrow> form_object \<Rightarrow> jv jmap \<Rightarrow> (string \<times> form_field option) list
    \<Rightarrow> record_error jmap \<times> jv jmap \<Rightarrow> (record_error jmap \<times> jv jmap) option" where
  "check_fields env loc ob data [] acc = Some acc"
| "check_fields env loc ob data ((name, None) # es) acc = None"
| "check_fields env loc ob data ((name, Some f) # es) acc =
     (if stores_nothing f then check_fields env loc ob data es acc
      else (case check_field env ob data f (read_prop data name) of
          Throws \<Rightarrow> None
        | Outcome e w \<Rightarrow> check_fields env loc ob data es (note_outcome name (field_label loc f) e w acc)))"

definition unknown_errors :: "form_object \<Rightarrow> jv jmap \<Rightarrow> record_error jmap \<Rightarrow> record_error jmap" where
  "unknown_errors ob input errors = fold (\<lambda>name errs. if js_in name (fob_fields ob) then errs
     else jset errs name (UnknownField name)) (jkeys input) errors"

text \<open>\<open>prepareRecord\<close> always returns (\<open>prepare_total\<close>).\<close>

definition validateRecord :: "form_env \<Rightarrow> form_object \<Rightarrow> jv jmap \<Rightarrow> locale_name option \<Rightarrow> validated" where
  "validateRecord env ob input loc = (case the (prepareRecord (rule_fields ob) input) of
     Inl m \<Rightarrow> Validated [(''_form'', FormError m)] input
   | Inr data \<Rightarrow> (case check_fields env loc ob data (fieldEntries ob) ([], []) of
       None \<Rightarrow> Thrown
     | Some (errors, clean) \<Rightarrow> Validated (unknown_errors ob input errors) clean))"

end
