(* ===== verification/Studio_Accept.thy ===== *)
theory Studio_Accept
  imports Studio_Validate
begin

text \<open>
  What the check of a record promises: \<open>well_typed\<close> says, type by type, which values a field may
  store, and a record that is accepted stores nothing else.
\<close>

section \<open>The values of a field\<close>

datatype value_kind = KMoment | KTime | KScale | KOptions | KRecords | KLocation | KNumber | KToggle | KText

definition kind_of :: "form_field \<Rightarrow> value_kind" where
  "kind_of f = (if ff_type f = DateTime \<or> fc_dateTime (ff_config f) then KMoment
     else case ff_type f of
       TimeField \<Rightarrow> KTime | Percentage \<Rightarrow> KScale | Rating \<Rightarrow> KScale | MultiSelect \<Rightarrow> KOptions
     | t \<Rightarrow> if fc_multiple (ff_config f) then KRecords
       else case t of MapLocation \<Rightarrow> KLocation | NumberField \<Rightarrow> KNumber | Currency \<Rightarrow> KNumber | Toggle \<Rightarrow> KToggle | _ \<Rightarrow> KText)"

definition at_least :: "jnum option \<Rightarrow> rat \<Rightarrow> bool" where
  "at_least b q \<longleftrightarrow> (case b of Some (Fin lo) \<Rightarrow> lo \<le> q | Some PInf \<Rightarrow> False | _ \<Rightarrow> True)"

definition at_most :: "jnum option \<Rightarrow> rat \<Rightarrow> bool" where
  "at_most b q \<longleftrightarrow> (case b of Some (Fin hi) \<Rightarrow> q \<le> hi | Some NInf \<Rightarrow> False | _ \<Rightarrow> True)"

definition choices :: "form_field \<Rightarrow> string set" where
  "choices f = set (case_option [] id (ff_options f))"

definition free_choice :: "form_field \<Rightarrow> bool" where
  "free_choice f \<longleftrightarrow> fc_relation (ff_config f) \<noteq> None \<or> fc_collectionRelation (ff_config f) \<or> fc_collectionOptions (ff_config f)"

definition plain_text :: "form_env \<Rightarrow> jv jmap \<Rightarrow> form_field \<Rightarrow> string \<Rightarrow> bool" where
  "plain_text env data f s \<longleftrightarrow>
     fst (length_bounds f) \<le> length s \<and> length s \<le> snd (length_bounds f) \<and>
     (isStaticOptionField (ff_type f) \<and> \<not> free_choice f \<longrightarrow>
        s \<in> choices f \<and> s \<in> set (availableOptions (ff_options f) (fc_optionsWhen (ff_config f)) data)) \<and>
     (ff_type f = DateControl \<longrightarrow> date_text s) \<and>
     (fieldTextFormat f = Some FmtEmail \<longrightarrow> email_text s) \<and>
     (fieldTextFormat f = Some FmtPhone \<longrightarrow> phone_text s) \<and>
     (fieldTextFormat f = Some FmtUrl \<longrightarrow> fe_protocol env s \<in> {Some ''https:'', Some ''http:''}) \<and>
     (\<forall>p. fc_pattern (ff_config f) = Some p \<and> p \<noteq> [] \<longrightarrow> (\<exists>matches. fe_regexp env p = Some matches \<and> matches s))"

text \<open>The text that is stored under a JSON schema is the text of a value the schema accepts.\<close>

definition text_value :: "form_env \<Rightarrow> jv jmap \<Rightarrow> form_field \<Rightarrow> jv \<Rightarrow> bool" where
  "text_value env data f v \<longleftrightarrow> (\<exists>s. plain_text env data f s \<and>
     (if truthy (fc_jsonSchema (ff_config f))
      then \<exists>w. fe_parse env s = Inr w \<and> fe_schema env (fc_jsonSchema (ff_config f)) w = Inr [] \<and> v = json_text w
      else v = JStr s))"

definition schema_holds :: "form_env \<Rightarrow> form_field \<Rightarrow> jv \<Rightarrow> bool" where
  "schema_holds env f v \<longleftrightarrow> (truthy (fc_validationSchema (ff_config f)) \<and> \<not> truthy (fc_jsonSchema (ff_config f)) \<longrightarrow>
     fe_schema env (fc_validationSchema (ff_config f)) v = Inr [])"

definition well_typed :: "form_env \<Rightarrow> jv jmap \<Rightarrow> form_field \<Rightarrow> jv \<Rightarrow> bool" where
  "well_typed env data f v = (case kind_of f of
     KMoment \<Rightarrow> (\<exists>s t. fe_datetime env s \<and> fe_date env s = Some t \<and> v = JStr (iso_of_ms t))
   | KTime \<Rightarrow> (\<exists>s. v = JStr s \<and> time_text s)
   | KScale \<Rightarrow> (\<exists>q. v = JNum (Fin q) \<and> at_least (Some (fst (scale_bounds f))) q \<and> at_most (Some (snd (scale_bounds f))) q \<and>
       (if ff_type f = Rating then is_integer (Fin q) else \<not> too_precise (case_option 2 id (fc_decimals (ff_config f))) (Fin q)))
   | KOptions \<Rightarrow> (\<exists>ss. v = JArr (map JStr ss) \<and> ss \<noteq> [] \<and> distinct ss \<and> length ss \<le> 500 \<and> set ss \<subseteq> choices f)
   | KRecords \<Rightarrow> (\<exists>ss. v = JArr (map JStr ss) \<and> ss \<noteq> [] \<and> distinct ss \<and> length ss \<le> 500)
   | KLocation \<Rightarrow> (\<exists>m. v = JObj m \<and> coordinate 90 (read_prop m ''lat'') \<and> coordinate 180 (read_prop m ''lng''))
   | KNumber \<Rightarrow> (\<exists>q. v = JNum (Fin q) \<and> (fc_integer (ff_config f) \<longrightarrow> is_integer (Fin q)) \<and>
       at_least (fc_minimum (ff_config f)) q \<and> at_most (fc_maximum (ff_config f)) q) \<and> schema_holds env f v
   | KToggle \<Rightarrow> (\<exists>b. v = JBool b) \<and> schema_holds env f v
   | KText \<Rightarrow> text_value env data f v \<and> schema_holds env f v)"

section \<open>An outcome without an error\<close>

lemma last_issue_None [simp]: "last_issue e e' = None \<longleftrightarrow> e = None \<and> e' = None"
  by (simp add: last_issue_def split: option.split)

lemma within_bounds: "js_within lo hi n \<longleftrightarrow> (\<exists>q. n = Fin q \<and> at_least (Some lo) q \<and> at_most (Some hi) q)"
  by (cases n; cases lo; cases hi) (auto simp: js_within_def at_least_def at_most_def)

lemma range_None: "range_issue c (JNum (Fin q)) = None \<Longrightarrow> at_least (fc_minimum c) q \<and> at_most (fc_maximum c) q"
  by (auto simp: range_issue_def at_least_def at_most_def split: if_splits option.splits jnum.splits)

lemma string_items_Some: "string_items ok vs = Some ss \<Longrightarrow> vs = map JStr ss \<and> (\<forall>s \<in> set ss. ok s)"
  unfolding string_items_def
  by (induction vs arbitrary: ss) (auto split: option.splits jv.splits if_splits)

lemma length_js_set: "length (js_set xs) \<le> length xs"
by (metis card_length distinct_card distinct_js_set set_js_set)

lemma check_strings_ok:
  assumes "check_strings msg ok v = Outcome None w" "v \<noteq> JArr []"
  shows "\<exists>ss. w = Some (JArr (map JStr ss)) \<and> ss \<noteq> [] \<and> distinct ss \<and> length ss \<le> 500 \<and> (\<forall>s \<in> set ss. ok s)"
proof -
  from assms(1) obtain vs ss where v: "v = JArr vs" "string_items ok vs = Some ss" "length vs \<le> 500"
    "w = Some (JArr (map JStr (js_set ss)))"
    by (auto simp: check_strings_def split: jv.splits option.splits if_splits)
  from string_items_Some [OF v(2)] have ss: "vs = map JStr ss" "\<forall>s \<in> set ss. ok s" by blast+
  with v(1) assms(2) have "ss \<noteq> []" by auto
  then have "js_set ss \<noteq> []" by (metis set_empty set_js_set)
  moreover have "length (js_set ss) \<le> 500" using length_js_set [of ss] ss(1) v(3) by simp
  ultimately show ?thesis using v(4) ss(2) by (intro exI [of _ "js_set ss"]) simp
qed

lemma schemas_ok:
  assumes "check_schemas env c e v = Outcome None w"
  shows "e = None \<and> (truthy (fc_jsonSchema c) \<and> typeof v = ''string'' \<longrightarrow>
      (\<exists>x. fe_parse env (js_text v) = Inr x \<and> fe_schema env (fc_jsonSchema c) x = Inr [] \<and> w = Some (json_text x))) \<and>
    (\<not> (truthy (fc_jsonSchema c) \<and> typeof v = ''string'') \<longrightarrow> w = Some v \<and>
      (truthy (fc_validationSchema c) \<and> \<not> truthy (fc_jsonSchema c) \<longrightarrow> fe_schema env (fc_validationSchema c) v = Inr []))"
  using assms by (auto simp: check_schemas_def split: if_splits sum.splits list.splits)

lemma scalar_ok:
  assumes "check_scalar env data f v = Outcome None w"
  shows "scalar_issue env data f v = None \<and> range_issue (ff_config f) v = None \<and> length_issue f v = None \<and>
    pattern_issue env (ff_config f) v = Inr None \<and> check_schemas env (ff_config f) None v = Outcome None w"
proof -
  from assms obtain e where p: "pattern_issue env (ff_config f) v = Inr e"
    and c: "check_schemas env (ff_config f) (last_issue (last_issue (last_issue (scalar_issue env data f v) (range_issue (ff_config f) v))
       (length_issue f v)) e) v = Outcome None w"
    by (auto simp: check_scalar_def split: sum.splits)
  from schemas_ok [OF c] have "scalar_issue env data f v = None" "range_issue (ff_config f) v = None"
    "length_issue f v = None" "e = None" by simp_all
  with p c show ?thesis by (simp add: last_issue_def)
qed

lemma number_ok:
  assumes "check_scalar env data f v = Outcome None w" "kind_of f = KNumber"
  shows "\<exists>v'. w = Some v' \<and> well_typed env data f v'"
proof -
  note ok = scalar_ok [OF assms(1)]
  have t: "ff_type f = NumberField \<or> ff_type f = Currency"
    using assms(2) by (auto simp: kind_of_def split: if_splits field_type.splits)
  with ok obtain q where v: "v = JNum (Fin q)" "fc_integer (ff_config f) \<longrightarrow> is_integer (Fin q)"
    by (auto simp: scalar_issue_def Let_def is_finite_def split: if_splits jv.splits jnum.splits)
  with ok have "at_least (fc_minimum (ff_config f)) q \<and> at_most (fc_maximum (ff_config f)) q" using range_None by blast
  moreover have "w = Some v \<and> schema_holds env f v"
    using ok schemas_ok [of env "ff_config f" None v w] v(1) by (auto simp: schema_holds_def)
  ultimately show ?thesis using v assms(2) by (auto simp: well_typed_def)
qed

lemma toggle_ok:
  assumes "check_scalar env data f v = Outcome None w" "kind_of f = KToggle"
  shows "\<exists>v'. w = Some v' \<and> well_typed env data f v'"
proof -
  note ok = scalar_ok [OF assms(1)]
  have t: "ff_type f = Toggle"
    using assms(2) by (auto simp: kind_of_def split: if_splits field_type.splits)
  with ok obtain b where v: "v = JBool b"
    by (cases v) (auto simp: scalar_issue_def Let_def split: if_splits)
  moreover have "w = Some v \<and> schema_holds env f v"
    using ok schemas_ok [of env "ff_config f" None v w] v by (auto simp: schema_holds_def)
  ultimately show ?thesis using assms(2) by (auto simp: well_typed_def)
qed

lemma text_ok:
  assumes "check_scalar env data f v = Outcome None w" "kind_of f = KText"
  shows "\<exists>v'. w = Some v' \<and> well_typed env data f v'"
proof -
  note ok = scalar_ok [OF assms(1)]
  have t: "ff_type f \<notin> {NumberField, Currency, Toggle, MapLocation}"
    using assms(2) by (auto simp: kind_of_def split: if_splits field_type.splits)
  with ok obtain s where v: "v = JStr s"
    by (cases v) (auto simp: scalar_issue_def Let_def split: if_splits)
  have sub: "set (availableOptions os d data) \<subseteq> set (case_option [] id os)" for os d
    by (auto simp: availableOptions_def Let_def split: option.splits if_splits)
  have "plain_text env data f s"
    using ok v t sub
    by (auto simp: plain_text_def scalar_issue_def Let_def length_issue_def pattern_issue_def free_choice_def choices_def
        list_ex_iff split: if_splits option.splits prod.splits list.splits)
  then show ?thesis
    using ok schemas_ok [of env "ff_config f" None v w] v assms(2)
    by (cases "truthy (fc_jsonSchema (ff_config f))") (auto simp: well_typed_def text_value_def schema_holds_def)
qed

lemma location_ok:
  assumes "parseMapLocation env v = Some w"
  shows "\<exists>m. w = JObj m \<and> coordinate 90 (read_prop m ''lat'') \<and> coordinate 180 (read_prop m ''lng'')"
  using assms by (auto simp: parseMapLocation_def Let_def split: if_splits jv.splits option.splits sum.splits)

lemma datetime_ok:
  assumes "check_datetime env v = Outcome None w"
  shows "\<exists>s t. fe_datetime env s \<and> fe_date env s = Some t \<and> w = Some (JStr (iso_of_ms t))"
  using assms by (auto simp: check_datetime_def split: jv.splits if_splits option.splits)

lemma scale_ok:
  assumes "scale_issue f v = None"
  shows "\<exists>q. v = JNum (Fin q) \<and> at_least (Some (fst (scale_bounds f))) q \<and> at_most (Some (snd (scale_bounds f))) q \<and>
     (if ff_type f = Rating then is_integer (Fin q) else \<not> too_precise (case_option 2 id (fc_decimals (ff_config f))) (Fin q))"
proof -
  obtain lo hi where b: "scale_bounds f = (lo, hi)" by fastforce
  with assms obtain n where n: "v = JNum n" "js_within lo hi n" "ff_type f = Rating \<longrightarrow> is_integer n"
    by (auto simp: scale_issue_def Let_def split: if_splits jv.splits)
  then obtain q where q: "n = Fin q" "at_least (Some lo) q" "at_most (Some hi) q" by (auto simp: within_bounds)
  moreover have "ff_type f \<noteq> Rating \<longrightarrow> \<not> too_precise (case_option 2 id (fc_decimals (ff_config f))) (Fin q)"
    using assms b n q(1) by (simp add: scale_issue_def Let_def split: if_splits) blast
  ultimately show ?thesis using n b by simp
qed

text \<open>What a field without a value stores.\<close>

definition blank_value :: "form_field \<Rightarrow> jv \<Rightarrow> bool" where
  "blank_value f v \<longleftrightarrow> v = JNull \<or> v = JArr [] \<and> (fc_multiple (ff_config f) \<or> ff_type f = MultiSelect) \<or>
     v = JBool False \<and> ff_type f = Toggle"

definition stored_value :: "form_env \<Rightarrow> form_object \<Rightarrow> jv jmap \<Rightarrow> string \<Rightarrow> form_field \<Rightarrow> jv \<Rightarrow> bool" where
  "stored_value env ob data name f v \<longleftrightarrow>
     (if empty_value f (read_prop data name) then \<not> required env ob data f \<and> blank_value f v else well_typed env data f v)"

lemma check_field_ok:
  assumes "check_field env ob data f (read_prop data name) = Outcome None w"
  shows "\<exists>v. w = Some v \<and> stored_value env ob data name f v"
proof (cases "empty_value f (read_prop data name)")
  case True
  with assms show ?thesis
    by (auto simp: check_field_def check_empty_def stored_value_def blank_value_def Let_def split: if_splits)
next
  case False
  let ?v = "read_prop data name"
  have arr: "?v \<noteq> JArr []" using False by (auto simp: empty_value_def)
  have "\<exists>v. w = Some v \<and> well_typed env data f v"
  proof (cases "kind_of f")
    case KMoment
    with assms False have "check_datetime env ?v = Outcome None w"
      by (auto simp: check_field_def kind_of_def Let_def split: if_splits field_type.splits)
    from datetime_ok [OF this] KMoment show ?thesis by (auto simp: well_typed_def)
  next
    case KTime
    with assms False have "accept MTime (case ?v of JStr s \<Rightarrow> time_text s | _ \<Rightarrow> False) ?v = Outcome None w"
      by (auto simp: check_field_def kind_of_def Let_def split: if_splits field_type.splits)
    with KTime show ?thesis by (auto simp: accept_def well_typed_def split: if_splits jv.splits)
  next
    case KScale
    with assms False have "check_scale f ?v = Outcome None w"
      by (auto simp: check_field_def kind_of_def Let_def split: if_splits field_type.splits)
    then have "scale_issue f ?v = None" "w = Some ?v" by (simp_all add: check_scale_def)
    with scale_ok [of f ?v] KScale show ?thesis by (auto simp: well_typed_def)
  next
    case KOptions
    with assms False have "check_strings MOptions (\<lambda>s. s \<in> set (case_option [] id (ff_options f))) ?v = Outcome None w"
      by (auto simp: check_field_def kind_of_def Let_def split: if_splits field_type.splits)
    from check_strings_ok [OF this arr] KOptions show ?thesis by (auto simp: well_typed_def choices_def)
  next
    case KRecords
    with assms False have "check_strings MRecords (\<lambda>_. True) ?v = Outcome None w"
      by (auto simp: check_field_def kind_of_def Let_def split: if_splits field_type.splits)
    from check_strings_ok [OF this arr] KRecords show ?thesis by (auto simp: well_typed_def)
  next
    case KLocation
    with assms False obtain x where "parseMapLocation env ?v = Some x" "w = Some x"
      by (auto simp: check_field_def kind_of_def Let_def split: if_splits field_type.splits option.splits)
    with location_ok KLocation show ?thesis by (auto simp: well_typed_def)
  next
    case KNumber
    with assms False have "check_scalar env data f ?v = Outcome None w"
      by (auto simp: check_field_def kind_of_def Let_def split: if_splits field_type.splits)
    then show ?thesis using number_ok KNumber by blast
  next
    case KToggle
    with assms False have "check_scalar env data f ?v = Outcome None w"
      by (auto simp: check_field_def kind_of_def Let_def split: if_splits field_type.splits)
    then show ?thesis using toggle_ok KToggle by blast
  next
    case KText
    with assms False have "check_scalar env data f ?v = Outcome None w"
      by (auto simp: check_field_def kind_of_def Let_def split: if_splits field_type.splits)
    then show ?thesis using text_ok KText by blast
  qed
  with False show ?thesis by (simp add: stored_value_def)
qed

section \<open>A record without an error\<close>

lemma jset_not_empty [simp]: "jset m k v \<noteq> []"
  by (cases m) (auto simp: jset_def)

definition stored_fields :: "form_env \<Rightarrow> form_object \<Rightarrow> jv jmap \<Rightarrow> jv jmap \<Rightarrow> bool" where
  "stored_fields env ob data clean \<longleftrightarrow> (\<forall>name v. jget clean name = Some v \<longrightarrow>
     (\<exists>f. jget (fob_fields ob) name = Some f \<and> stored_value env ob data name f v))"

lemma errors_stay:
  "check_fields env loc ob data es acc = Some (errs', clean') \<Longrightarrow> fst acc \<noteq> [] \<Longrightarrow> errs' \<noteq> []"
proof (induction env loc ob data es acc rule: check_fields.induct)
  case (3 env loc ob data name f es acc)
  show ?case
  proof (cases "stores_nothing f")
    case True
    with 3 show ?thesis by simp
  next
    case False
    with "3.prems"(1) obtain e w where o: "check_field env ob data f (read_prop data name) = Outcome e w"
      by (auto split: outcome.splits)
    have "fst (note_outcome name (field_label loc f) e w acc) \<noteq> []"
      using "3.prems"(2) by (cases acc) (simp add: note_outcome_def split: option.split)
    with "3.IH"(2) [OF False o] "3.prems"(1) False o show ?thesis by simp
  qed
qed simp_all

lemma check_fields_ok:
  assumes "check_fields env loc ob data es (errs, clean) = Some ([], clean')"
    and "\<forall>(name, fo) \<in> set es. fo = jget (fob_fields ob) name" "stored_fields env ob data clean"
  shows "errs = [] \<and> stored_fields env ob data clean' \<and>
    set (jkeys clean') = set (jkeys clean) \<union> {name. \<exists>f. (name, Some f) \<in> set es \<and> \<not> stores_nothing f}"
  using assms
proof (induction es arbitrary: errs clean)
  case (Cons e es)
  obtain name fo where e: "e = (name, fo)" by (cases e)
  with Cons.prems obtain f where f: "fo = Some f" "jget (fob_fields ob) name = Some f" by (cases fo) auto
  show ?case
  proof (cases "stores_nothing f")
    case True
    with Cons e f show ?thesis by auto
  next
    case False
    with Cons.prems(1) e f obtain er w where o: "check_field env ob data f (read_prop data name) = Outcome er w"
      by (auto split: outcome.splits)
    define errs1 where "errs1 = (case er of None \<Rightarrow> errs | Some m \<Rightarrow> jset errs name (FieldError (field_label loc f) m))"
    define clean1 where "clean1 = (case w of None \<Rightarrow> clean | Some x \<Rightarrow> jset clean name x)"
    have step: "check_fields env loc ob data es (errs1, clean1) = Some ([], clean')"
      using Cons.prems(1) e f False o by (simp add: note_outcome_def errs1_def clean1_def)
    have es: "\<forall>(name, fo) \<in> set es. fo = jget (fob_fields ob) name" using Cons.prems(2) by simp
    have sane: "stored_fields env ob data clean1 \<and> (\<exists>v. w = Some v)" if "er = None"
    proof -
      from o that obtain v where v: "w = Some v" "stored_value env ob data name f v"
        using check_field_ok [of env ob data f name w] by blast
      with Cons.prems(3) f(2) show ?thesis by (auto simp: stored_fields_def clean1_def jget_jset)
    qed
    have er: "er = None"
    proof (rule ccontr)
      assume "er \<noteq> None"
      then have "errs1 \<noteq> []" by (auto simp: errs1_def)
      with errors_stay [OF step] show False by simp
    qed
    with sane obtain v where "w = Some v" by blast
    with Cons.IH [OF step es] sane er e f False show ?thesis by (auto simp: errs1_def clean1_def)
  qed
qed simp

lemma unknown_none: "unknown_errors ob input errors = [] \<longleftrightarrow> errors = [] \<and> (\<forall>name \<in> set (jkeys input). js_in name (fob_fields ob))"
proof -
  have "fold (\<lambda>name errs. if js_in name (fob_fields ob) then errs else jset errs name (UnknownField name)) ns errors = [] \<longleftrightarrow>
    errors = [] \<and> (\<forall>name \<in> set ns. js_in name (fob_fields ob))" for ns
    by (induction ns arbitrary: errors) auto
  then show ?thesis by (simp add: unknown_errors_def)
qed

lemma accepted_fields:
  assumes "validateRecord env ob input loc = Validated [] clean"
  obtains data where "prepareRecord (rule_fields ob) input = Some (Inr data)" "stored_fields env ob data clean"
    "set (jkeys clean) = {name. \<exists>f. (name, Some f) \<in> set (fieldEntries ob) \<and> \<not> stores_nothing f}"
    "\<forall>name \<in> set (jkeys input). js_in name (fob_fields ob)"
proof -
  from prepare_total obtain r where r: "prepareRecord (rule_fields ob) input = Some r" by blast
  with assms obtain data errors where d: "r = Inr data"
    "check_fields env loc ob data (fieldEntries ob) ([], []) = Some (errors, clean)" "unknown_errors ob input errors = []"
    by (cases r) (auto simp: validateRecord_def split: option.splits)
  then have e: "errors = []" "\<forall>name \<in> set (jkeys input). js_in name (fob_fields ob)" by (simp_all add: unknown_none)
  have "\<forall>(name, fo) \<in> set (fieldEntries ob). fo = jget (fob_fields ob) name" by (auto simp: fieldEntries_def)
  moreover have "stored_fields env ob data []" by (simp add: stored_fields_def)
  ultimately show thesis
    using check_fields_ok [of env loc ob data "fieldEntries ob" "[]" "[]" clean] that [of data] r d e by simp
qed

end
