(* ===== verification/Studio_Import.thy ===== *)
theory Studio_Import
  imports Studio_Accept Studio_Csv Access_Policy
begin

text \<open>
  Importing a table: \<open>mapCsvRow\<close> and \<open>csvHeaders\<close> of \<open>packages/studio-shared/src/csv.ts\<close> and the
  loop over the rows of \<open>importRows\<close> (\<open>packages/studio-server/src/operations.ts\<close>).
\<close>

section \<open>A row becomes a record\<close>

datatype conversion_error = UnknownTarget string | NotAnArray string | NotANumber string | NotAToggle string

datatype import_error = RecordIssue record_error | ConversionIssue conversion_error

text \<open>\<open>String\<close> of what a plain object inherits under a name.\<close>

definition inherited_text :: "string \<Rightarrow> string" where
  "inherited_text k = (if k = ''__proto__'' then ''[object Object]''
     else ''function '' @ (if k = ''constructor'' then ''Object'' else k) @ ''() { [native code] }'')"

text \<open>\<open>mapping[header]\<close> as a key; \<open>None\<close> is a column that is not imported.\<close>

definition target :: "string jmap \<Rightarrow> string \<Rightarrow> string option" where
  "target mapping header = (case jget mapping header of
     Some [] \<Rightarrow> None
   | Some k \<Rightarrow> Some k
   | None \<Rightarrow> if header \<in> set object_prototype_keys then Some (inherited_text header) else None)"

text \<open>The words for a toggle, in any case; yes is written with or without its accent.\<close>

definition toggle_cell :: "string \<Rightarrow> bool option" where
  "toggle_cell raw = (if js_lower raw \<in> {''true'', ''1'', [CHR ''s'', CHR 0xED], ''si''} then Some True
     else if js_lower raw \<in> {''false'', ''0'', ''no''} then Some False else None)"

text \<open>A cell that is not empty: the error that is noted, and what the record gets.\<close>

definition convert_cell :: "form_env \<Rightarrow> form_field \<Rightarrow> string \<Rightarrow> conversion_error option \<times> jv option" where
  "convert_cell env f raw = (let t = ff_type f in
     if fc_multiple (ff_config f) \<or> t = MultiSelect
     then (case fe_parse env raw of
         Inr (JArr vs) \<Rightarrow> (None, Some (JArr vs))
       | _ \<Rightarrow> (Some (NotAnArray (ff_label f)), None))
     else if t \<in> {NumberField, Currency, Percentage, Rating}
     then (if is_finite (fe_number env raw) then None else Some (NotANumber (ff_label f)), Some (JNum (fe_number env raw)))
     else if t = Toggle
     then (case toggle_cell raw of
         Some b \<Rightarrow> (None, Some (JBool b))
       | None \<Rightarrow> (Some (NotAToggle (ff_label f)), None))
     else (None, Some (JStr raw)))"

record row_state =
  rs_input :: "jv jmap"
  rs_errors :: "conversion_error jmap"

definition note_cell :: "string \<Rightarrow> conversion_error option \<times> jv option \<Rightarrow> row_state \<Rightarrow> row_state" where
  "note_cell key = (\<lambda>(e, w) s. s\<lparr>rs_input := (case w of None \<Rightarrow> rs_input s | Some v \<Rightarrow> jset (rs_input s) key v),
     rs_errors := (case e of None \<Rightarrow> rs_errors s | Some m \<Rightarrow> jset (rs_errors s) key m)\<rparr>)"

text \<open>One column; a key that objects inherit is taken for a field without a type.\<close>

definition map_cell :: "form_env \<Rightarrow> form_object \<Rightarrow> string jmap \<Rightarrow> string \<times> string \<Rightarrow> row_state \<Rightarrow> row_state" where
  "map_cell env ob mapping = (\<lambda>(header, raw) s. case target mapping header of
     None \<Rightarrow> s
   | Some key \<Rightarrow> (case jget (fob_fields ob) key of
       None \<Rightarrow> if key \<in> set object_prototype_keys
         then (if key = ''__proto__'' then s else note_cell key (None, Some (if raw = [] then JNull else JStr raw)) s)
         else note_cell key (Some (UnknownTarget key), None) s
     | Some f \<Rightarrow> if raw = [] then (if ff_default f = JUndef then note_cell key (None, Some JNull) s else s)
         else note_cell key (convert_cell env f raw) s))"

text \<open>\<open>values[index] ?? ""\<close>\<close>

fun cells :: "string list \<Rightarrow> string list \<Rightarrow> (string \<times> string) list" where
  "cells [] vs = []"
| "cells (h # hs) [] = (h, []) # cells hs []"
| "cells (h # hs) (v # vs) = (h, v) # cells hs vs"

definition row_input :: "form_env \<Rightarrow> form_object \<Rightarrow> string list \<Rightarrow> string list \<Rightarrow> string jmap \<Rightarrow> row_state" where
  "row_input env ob headers vs mapping =
     fold (map_cell env ob mapping) (cells headers vs) \<lparr>rs_input = [], rs_errors = []\<rparr>"

text \<open>\<open>None\<close> when the check of the record throws; a conversion error replaces the record's.\<close>

definition mapCsvRow :: "form_env \<Rightarrow> form_object \<Rightarrow> string list \<Rightarrow> string list \<Rightarrow> string jmap \<Rightarrow> (jv jmap \<times> import_error jmap) option" where
  "mapCsvRow env ob headers vs mapping =
     (let s = row_input env ob headers vs mapping in
      case validateRecord env ob (rs_input s) None of
        Thrown \<Rightarrow> None
      | Validated errors data \<Rightarrow> Some (data,
          fold (\<lambda>(k, e) m. jset m k (ConversionIssue e)) (rs_errors s) (map (\<lambda>(k, e). (k, RecordIssue e)) errors)))"

definition csvHeaders :: "form_object \<Rightarrow> string list" where
  "csvHeaders ob = ''id'' # map fst (filter (\<lambda>(k, f). case f of Some g \<Rightarrow> ff_type g \<noteq> R2Attachment | None \<Rightarrow> True) (fieldEntries ob))
     @ [''created_at'', ''updated_at'']"

section \<open>Importing the rows\<close>

text \<open>
  What the loop over the rows takes from the services: the access policy of the request, whether
  \<open>getRecord\<close> gives a related record or throws, whether a stored record has the text of a value,
  whether a related record exists, and what \<open>createRecord\<close> and the automations answer. Every answer is
  for the row that asks, and for the creations the request has called for before: the rows and
  the data that \<open>createRecord\<close> was given, in order. So what the import writes itself can change
  what the later rows are told.
\<close>

type_synonym creations = "(nat \<times> jv jmap) list"

record import_env =
  ie_form :: form_env
  ie_policy :: "access_policy option"
  ie_readable :: "creations \<Rightarrow> nat \<Rightarrow> string \<Rightarrow> string \<Rightarrow> bool"
  ie_stored :: "creations \<Rightarrow> nat \<Rightarrow> string \<Rightarrow> string \<Rightarrow> bool"
  ie_related :: "creations \<Rightarrow> nat \<Rightarrow> string \<Rightarrow> string \<Rightarrow> bool"
  ie_create :: "creations \<Rightarrow> nat \<Rightarrow> jv jmap \<Rightarrow> string + string"
  ie_warning :: "creations \<Rightarrow> nat \<Rightarrow> string option"

record import_request =
  iq_object :: string
  iq_csv :: string
  iq_mapping :: "string jmap"
  iq_duplicateField :: string
  iq_skip :: bool
  iq_importId :: "string option"

datatype row_status = RsReady | RsCreated | RsSkipped | RsError

datatype row_note =
    NoNote | RowErrors "import_error jmap" | MissingRelated "string jmap" | Duplicate string jv | NotCreated string
  | FollowUpFailed string

record row_result =
  rr_row :: nat
  rr_status :: row_status
  rr_data :: "jv jmap"
  rr_note :: row_note
  rr_id :: "string option"

text \<open>\<open>im_calls\<close>: the rows that \<open>createRecord\<close> was called for, with the data it was given.\<close>

record import_state =
  im_seen :: "string list"
  im_results :: "row_result list"
  im_calls :: creations

definition no_value :: "jv \<Rightarrow> bool" where
  "no_value v \<longleftrightarrow> v = JNull \<or> v = JUndef \<or> v = JStr []"

definition normal_value :: "jv \<Rightarrow> jv" where
  "normal_value v = (case v of JStr s \<Rightarrow> JStr (js_lower (js_trim s)) | _ \<Rightarrow> v)"

definition seen_key :: "string \<Rightarrow> jv \<Rightarrow> string" where
  "seen_key field v = field @ '':'' @ js_text (json_text (normal_value v))"

text \<open>The text that is compared with the stored one.\<close>

definition stored_text :: "jv \<Rightarrow> string" where
  "stored_text v = js_lower (js_trim (case v of
     JBool b \<Rightarrow> if b then ''1'' else ''0'' | JNum n \<Rightarrow> num_to_string n | JStr s \<Rightarrow> s | _ \<Rightarrow> js_text (json_text v)))"

definition duplicate_fields :: "form_object \<Rightarrow> string \<Rightarrow> string list" where
  "duplicate_fields ob field = js_set ((if field = [] then [] else [field]) @
     map fst (filter (\<lambda>(name, f). fc_unique (ff_config f)) (fob_fields ob)))"

text \<open>\<open>data[field]\<close> of a name that the data lack and every object inherits is a function, and for
  \<open>__proto__\<close> an object without members: neither is taken for a missing value. A function has no
  JSON text.\<close>

definition inherits :: "jv jmap \<Rightarrow> string \<Rightarrow> bool" where
  "inherits data field \<longleftrightarrow> field \<notin> set (jkeys data) \<and> field \<in> set object_prototype_keys"

definition has_value :: "jv jmap \<Rightarrow> string \<Rightarrow> bool" where
  "has_value data field \<longleftrightarrow> inherits data field \<or> \<not> no_value (read_prop data field)"

definition value_key :: "jv jmap \<Rightarrow> string \<Rightarrow> string" where
  "value_key data field = (if inherits data field
     then field @ (if field = ''__proto__'' then '':{}'' else '':undefined'')
     else seen_key field (read_prop data field))"

definition value_text :: "jv jmap \<Rightarrow> string \<Rightarrow> string" where
  "value_text data field = (if inherits data field
     then (if field = ''__proto__'' then ''{}'' else js_lower (inherited_text field))
     else stored_text (read_prop data field))"

text \<open>The value that the message of a duplicate shows.\<close>

definition shown_value :: "jv jmap \<Rightarrow> string \<Rightarrow> jv" where
  "shown_value data field = (if inherits data field then JStr (inherited_text field) else read_prop data field)"

definition duplicate_in :: "import_env \<Rightarrow> creations \<Rightarrow> nat \<Rightarrow> string list \<Rightarrow> string list \<Rightarrow> jv jmap \<Rightarrow> string option" where
  "duplicate_in env calls i seen dups data = find (\<lambda>field. has_value data field \<and>
     (value_key data field \<in> set seen \<or> ie_stored env calls i field (value_text data field))) dups"

text \<open>The related records a row names: field, collection and id.\<close>

definition related_ids :: "form_object \<Rightarrow> jv jmap \<Rightarrow> (string \<times> string \<times> string) list" where
  "related_ids ob data = concat (map (\<lambda>(name, f). case fc_relation (ff_config f) of
       None \<Rightarrow> []
     | Some coll \<Rightarrow> if inherits data name then [(name, coll, inherited_text name)]
         else if truthy (read_prop data name)
         then map (\<lambda>x. (name, coll, js_text x)) (case read_prop data name of JArr vs \<Rightarrow> vs | v \<Rightarrow> [v]) else []) (fob_fields ob))"

text \<open>The last missing record of every relation.\<close>

definition missing_related :: "import_env \<Rightarrow> creations \<Rightarrow> nat \<Rightarrow> form_object \<Rightarrow> jv jmap \<Rightarrow> string jmap" where
  "missing_related env calls i ob data =
     fold (\<lambda>(name, coll, x) m. if ie_related env calls i coll x then m else jset m name x) (related_ids ob data) []"

text \<open>Under a policy its import grants decide, taken as grants to create.\<close>

definition import_policy :: "access_policy \<Rightarrow> access_policy" where
  "import_policy pol = pol\<lparr>ap_grants := map (\<lambda>g. g\<lparr>ag_action := ActCreate\<rparr>) (filter (\<lambda>g. ag_action g = ActImport) (ap_grants pol))\<rparr>"

definition preview_record :: "access_policy \<Rightarrow> jv jmap \<Rightarrow> access_record" where
  "preview_record pol data = \<lparr>ar_id = ''import-preview'', ar_createdBy = Some (ap_principal pol), ar_values = data\<rparr>"

definition import_denied :: "import_env \<Rightarrow> creations \<Rightarrow> form_object \<Rightarrow> import_request \<Rightarrow> nat \<Rightarrow> jv jmap \<Rightarrow> bool" where
  "import_denied env calls ob req i data = (case ie_policy env of
     None \<Rightarrow> False
   | Some pol \<Rightarrow>
       \<not> ad_allowed (decideWrite (import_policy pol) (''collection:'' @ iq_object req) ActCreate None (preview_record pol data) (jkeys data)) \<or>
       \<not> list_all (\<lambda>(name, coll, x). ie_readable env calls i coll x) (related_ids ob data))"

definition row_keys :: "string list \<Rightarrow> jv jmap \<Rightarrow> string list" where
  "row_keys dups data = map (value_key data) (filter (has_value data) dups)"

definition created :: "import_env \<Rightarrow> creations \<Rightarrow> nat \<Rightarrow> jv jmap \<Rightarrow> row_result" where
  "created env calls i data = (case ie_create env calls i data of
     Inl m \<Rightarrow> \<lparr>rr_row = i + 2, rr_status = RsError, rr_data = data, rr_note = NotCreated m, rr_id = None\<rparr>
   | Inr new \<Rightarrow> \<lparr>rr_row = i + 2, rr_status = RsCreated, rr_data = data,
       rr_note = (case ie_warning env calls i of None \<Rightarrow> NoNote | Some w \<Rightarrow> FollowUpFailed w), rr_id = Some new\<rparr>)"

definition create_row :: "import_env \<Rightarrow> nat \<Rightarrow> jv jmap \<Rightarrow> import_state \<Rightarrow> import_state" where
  "create_row env i data s = s\<lparr>im_results := im_results s @ [created env (im_calls s) i data],
     im_calls := im_calls s @ [(i, data)]\<rparr>"

text \<open>What the checks of a row say: an exception ends the request, a refused row has its result, a
  row that is taken is created, or ready in a preview.\<close>

datatype verdict = Ended | Refused row_result | Taken "jv jmap"

definition refusal :: "nat \<Rightarrow> row_status \<Rightarrow> jv jmap \<Rightarrow> row_note \<Rightarrow> verdict" where
  "refusal i st data msg = Refused \<lparr>rr_row = i + 2, rr_status = st, rr_data = data, rr_note = msg, rr_id = None\<rparr>"

definition row_verdict :: "import_env \<Rightarrow> form_object \<Rightarrow> import_request \<Rightarrow> string list \<Rightarrow> string list \<Rightarrow> creations \<Rightarrow> nat
    \<Rightarrow> string list \<Rightarrow> string list \<Rightarrow> verdict"
  where "row_verdict env ob req headers dups calls i seen vs =
     (case mapCsvRow (ie_form env) ob headers vs (iq_mapping req) of
        None \<Rightarrow> Ended
      | Some (data, errors) \<Rightarrow>
          if import_denied env calls ob req i data then Ended
          else if errors \<noteq> [] then refusal i RsError data (RowErrors errors)
          else if missing_related env calls i ob data \<noteq> []
          then refusal i RsError data (MissingRelated (missing_related env calls i ob data))
          else (case duplicate_in env calls i seen dups data of
              Some field \<Rightarrow> refusal i (if iq_skip req then RsSkipped else RsError) data (Duplicate field (shown_value data field))
            | None \<Rightarrow> Taken data))"

definition ready :: "nat \<Rightarrow> jv jmap \<Rightarrow> row_result" where
  "ready i data = \<lparr>rr_row = i + 2, rr_status = RsReady, rr_data = data, rr_note = NoNote, rr_id = None\<rparr>"

text \<open>One row; \<open>True\<close> is an exception that ends the request.\<close>

definition import_row :: "import_env \<Rightarrow> form_object \<Rightarrow> import_request \<Rightarrow> bool \<Rightarrow> string list \<Rightarrow> string list \<Rightarrow> nat \<Rightarrow> string list
    \<Rightarrow> import_state \<Rightarrow> import_state \<times> bool" where
  "import_row env ob req commit headers dups i vs s =
     (case row_verdict env ob req headers dups (im_calls s) i (im_seen s) vs of
        Ended \<Rightarrow> (s, True)
      | Refused r \<Rightarrow> (s\<lparr>im_results := im_results s @ [r]\<rparr>, False)
      | Taken data \<Rightarrow> (let s' = s\<lparr>im_seen := fold set_add (row_keys dups data) (im_seen s)\<rparr> in
          (if commit then create_row env i data s' else s'\<lparr>im_results := im_results s' @ [ready i data]\<rparr>, False)))"

fun import_loop :: "import_env \<Rightarrow> form_object \<Rightarrow> import_request \<Rightarrow> bool \<Rightarrow> string list \<Rightarrow> string list \<Rightarrow> nat \<Rightarrow> string list list
    \<Rightarrow> import_state \<Rightarrow> import_state \<times> bool" where
  "import_loop env ob req commit headers dups i [] s = (s, False)"
| "import_loop env ob req commit headers dups i (vs # rows) s = (case import_row env ob req commit headers dups i vs s of
     (s', True) \<Rightarrow> (s', True)
   | (s', False) \<Rightarrow> import_loop env ob req commit headers dups (Suc i) rows s')"

datatype import_refusal = BadCsv csv_error | BadMapping | BadDuplicateField | NoImportId

definition importRows :: "import_env \<Rightarrow> form_object \<Rightarrow> import_request \<Rightarrow> bool \<Rightarrow> import_refusal + import_state \<times> bool" where
  "importRows env ob req commit =
     (case parseCsv (iq_csv req) 1000 of
        Inl e \<Rightarrow> Inl (BadCsv e)
      | Inr (headers, rows) \<Rightarrow>
          (let mapped = filter (\<lambda>k. k \<noteq> []) (map snd (iq_mapping req)) in
           if mapped = [] \<or> \<not> distinct mapped \<or> list_ex (\<lambda>k. \<not> js_in k (fob_fields ob)) mapped then Inl BadMapping
           else if iq_duplicateField req \<noteq> [] \<and> \<not> js_in (iq_duplicateField req) (fob_fields ob) then Inl BadDuplicateField
           else if commit \<and> iq_importId req = None then Inl NoImportId
           else Inr (import_loop env ob req commit headers (duplicate_fields ob (iq_duplicateField req)) 0 rows
             \<lparr>im_seen = [], im_results = [], im_calls = []\<rparr>)))"

section \<open>What a verdict says\<close>

definition refused_result :: "nat \<Rightarrow> row_result \<Rightarrow> bool" where
  "refused_result i r \<longleftrightarrow> rr_row r = i + 2 \<and> rr_status r \<in> {RsSkipped, RsError} \<and> (\<forall>m. rr_note r \<noteq> NotCreated m)"

lemma verdict_refused: "row_verdict env ob req headers dups calls i seen vs = Refused r \<Longrightarrow> refused_result i r"
  by (auto simp: row_verdict_def refusal_def refused_result_def split: option.splits prod.splits if_splits)

lemma verdict_taken:
  assumes "row_verdict env ob req headers dups calls i seen vs = Taken data"
  shows "mapCsvRow (ie_form env) ob headers vs (iq_mapping req) = Some (data, [])" "missing_related env calls i ob data = []"
    "duplicate_in env calls i seen dups data = None" "\<not> import_denied env calls ob req i data"
  using assms by (auto simp: row_verdict_def refusal_def split: option.splits prod.splits if_splits)

lemma conversion_errors_empty:
  "fold (\<lambda>(k, e) m. jset m k (ConversionIssue e)) es m = [] \<longleftrightarrow> es = [] \<and> m = []"
  by (induction es arbitrary: m) (auto simp: split_def)

lemma mapped_row_accepted:
  assumes "mapCsvRow env ob headers vs mapping = Some (data, [])"
  shows "validateRecord env ob (rs_input (row_input env ob headers vs mapping)) None = Validated [] data \<and>
    rs_errors (row_input env ob headers vs mapping) = []"
  using assms by (auto simp: mapCsvRow_def Let_def conversion_errors_empty split: validated.splits)

text \<open>Values that are the same once normalised have the same key, and a row without a duplicate has
  no key of an earlier one and no text that a stored record has.\<close>

lemma seen_key_normal: "normal_value v = normal_value w \<Longrightarrow> seen_key field v = seen_key field w"
  by (simp add: seen_key_def)

lemma own_value:
  assumes "\<not> no_value (read_prop data field)"
  shows "has_value data field" "value_key data field = seen_key field (read_prop data field)"
    "value_text data field = stored_text (read_prop data field)"
proof -
  have "jget data field \<noteq> None" using assms by (auto simp: read_prop_def no_value_def split: option.splits)
  then have "\<not> inherits data field" by (auto simp: inherits_def jget_None_iff)
  then show "has_value data field" "value_key data field = seen_key field (read_prop data field)"
    "value_text data field = stored_text (read_prop data field)"
    using assms by (simp_all add: has_value_def value_key_def value_text_def)
qed

lemma new_keys:
  assumes "duplicate_in env calls i seen dups data = None"
  shows "set (row_keys dups data) \<inter> set seen = {}"
    "field \<in> set dups \<Longrightarrow> has_value data field \<Longrightarrow> \<not> ie_stored env calls i field (value_text data field)"
  using assms by (auto simp: duplicate_in_def row_keys_def find_None_iff)

lemma row_key_member: "field \<in> set dups \<Longrightarrow> has_value data field \<Longrightarrow> value_key data field \<in> set (row_keys dups data)"
  by (auto simp: row_keys_def)

section \<open>What the loop keeps\<close>

definition passed :: "row_result \<Rightarrow> bool" where
  "passed r \<longleftrightarrow> rr_status r \<in> {RsReady, RsCreated}"

text \<open>The creations called for before a row.\<close>

definition calls_before :: "nat \<Rightarrow> creations \<Rightarrow> creations" where
  "calls_before i calls = filter (\<lambda>c. fst c < i) calls"

lemma calls_before_all: "list_all (\<lambda>c. fst c < i) calls \<Longrightarrow> calls_before i calls = calls"
  by (simp add: calls_before_def list_all_iff)

lemma calls_before_later [simp]: "i \<le> j \<Longrightarrow> calls_before i (calls @ [(j, data)]) = calls_before i calls"
  by (simp add: calls_before_def)

lemma calls_before_nested: "i \<le> j \<Longrightarrow> calls_before i (calls_before j calls) = calls_before i calls"
  unfolding calls_before_def filter_filter by (rule filter_cong) auto

lemma calls_before_Nil [simp]: "calls_before i [] = []"
  by (simp add: calls_before_def)

definition good_row :: "import_env \<Rightarrow> form_object \<Rightarrow> import_request \<Rightarrow> string list \<Rightarrow> string list list \<Rightarrow> string list
    \<Rightarrow> creations \<Rightarrow> row_result \<Rightarrow> bool" where
  "good_row env ob req headers table dups calls r \<longleftrightarrow> (let i = rr_row r - 2; before = calls_before i calls in
     mapCsvRow (ie_form env) ob headers (table ! i) (iq_mapping req) = Some (rr_data r, []) \<and>
     \<not> import_denied env before ob req i (rr_data r) \<and> missing_related env before i ob (rr_data r) = [] \<and>
     (\<forall>field \<in> set dups. has_value (rr_data r) field \<longrightarrow>
        \<not> ie_stored env before i field (value_text (rr_data r) field)))"

lemma good_rowD:
  assumes "good_row env ob req headers table dups calls r"
  shows "mapCsvRow (ie_form env) ob headers (table ! (rr_row r - 2)) (iq_mapping req) = Some (rr_data r, [])"
    "\<not> import_denied env (calls_before (rr_row r - 2) calls) ob req (rr_row r - 2) (rr_data r)"
    "missing_related env (calls_before (rr_row r - 2) calls) (rr_row r - 2) ob (rr_data r) = []"
    "field \<in> set dups \<Longrightarrow> has_value (rr_data r) field \<Longrightarrow>
      \<not> ie_stored env (calls_before (rr_row r - 2) calls) (rr_row r - 2) field (value_text (rr_data r) field)"
  using assms by (auto simp: good_row_def Let_def)

lemma good_row_stored:
  assumes "good_row env ob req headers table dups calls r" "field \<in> set dups" "\<not> no_value (read_prop (rr_data r) field)"
  shows "\<not> ie_stored env (calls_before (rr_row r - 2) calls) (rr_row r - 2) field (stored_text (read_prop (rr_data r) field))"
  using good_rowD(4) [OF assms(1,2)] own_value [OF assms(3)] by simp

definition result_keys :: "string list \<Rightarrow> row_result \<Rightarrow> string set" where
  "result_keys dups r = (if passed r then set (row_keys dups (rr_data r)) else {})"

definition results_ok :: "import_env \<Rightarrow> form_object \<Rightarrow> import_request \<Rightarrow> string list \<Rightarrow> string list list \<Rightarrow> string list
    \<Rightarrow> nat \<Rightarrow> import_state \<Rightarrow> bool" where
  "results_ok env ob req headers table dups i s \<longleftrightarrow>
     list_all (\<lambda>r. rr_row r - 2 < i \<and> (passed r \<longrightarrow> good_row env ob req headers table dups (im_calls s) r) \<and>
       result_keys dups r \<subseteq> set (im_seen s)) (im_results s) \<and>
     list_all (\<lambda>c. fst c < i) (im_calls s) \<and>
     sorted_wrt (\<lambda>r r'. result_keys dups r \<inter> result_keys dups r' = {}) (im_results s)"

lemma results_ok_append:
  assumes "results_ok env ob req headers table dups i s" "rr_row r = i + 2"
    and "passed r \<Longrightarrow> good_row env ob req headers table dups (im_calls s) r"
    and "result_keys dups r \<inter> set (im_seen s) = {}"
    and "im_results s' = im_results s @ [r]" "set (im_seen s) \<union> result_keys dups r \<subseteq> set (im_seen s')"
    and "im_calls s' = im_calls s \<or> (\<exists>data. im_calls s' = im_calls s @ [(i, data)])"
  shows "results_ok env ob req headers table dups (Suc i) s'"
proof -
  have "calls_before j (im_calls s') = calls_before j (im_calls s)" if "j \<le> i" for j
    using assms(7) that by auto
  then have same: "good_row env ob req headers table dups (im_calls s') r' \<longleftrightarrow>
      good_row env ob req headers table dups (im_calls s) r'" if "rr_row r' - 2 \<le> i" for r'
    using that by (simp add: good_row_def Let_def)
  have old: "rr_row r' - 2 < i" "passed r' \<Longrightarrow> good_row env ob req headers table dups (im_calls s) r'"
      "result_keys dups r' \<subseteq> set (im_seen s)" if "r' \<in> set (im_results s)" for r'
    using assms(1) that by (auto simp: results_ok_def list_all_iff)
  have "list_all (\<lambda>r. rr_row r - 2 < Suc i \<and> (passed r \<longrightarrow> good_row env ob req headers table dups (im_calls s') r) \<and>
      result_keys dups r \<subseteq> set (im_seen s')) (im_results s @ [r])"
    unfolding list_all_iff
  proof (intro ballI)
    fix r' assume "r' \<in> set (im_results s @ [r])"
    then consider "r' = r" | "r' \<in> set (im_results s)" by auto
    then show "rr_row r' - 2 < Suc i \<and> (passed r' \<longrightarrow> good_row env ob req headers table dups (im_calls s') r') \<and>
        result_keys dups r' \<subseteq> set (im_seen s')"
    proof cases
      case 1
      with same [of r] assms(2,3,6) show ?thesis by simp
    next
      case 2
      with same [of r'] old [OF 2] assms(6) show ?thesis by auto
    qed
  qed
  moreover have "list_all (\<lambda>c. fst c < Suc i) (im_calls s')"
  proof -
    have "\<forall>c \<in> set (im_calls s). fst c < i" using assms(1) by (simp add: results_ok_def list_all_iff)
    then have "list_all (\<lambda>c. fst c < Suc i) (im_calls s)" by (auto simp: list_all_iff dest: less_SucI)
    with assms(7) show ?thesis by auto
  qed
  moreover have "sorted_wrt (\<lambda>r r'. result_keys dups r \<inter> result_keys dups r' = {}) (im_results s @ [r])"
    using assms(1,4) old(3) by (auto simp: results_ok_def sorted_wrt_append)
  ultimately show ?thesis by (simp add: results_ok_def assms(5))
qed

lemma created_row [simp]: "rr_row (created env calls i data) = i + 2" "rr_row (ready i data) = i + 2"
  "rr_data (created env calls i data) = data" "rr_data (ready i data) = data"
  by (simp_all add: created_def ready_def split: sum.split)

lemma import_row_ok:
  assumes ok: "results_ok env ob req headers table dups i s"
    and row: "import_row env ob req commit headers dups i vs s = (s', t)" and "vs = table ! i"
  shows "(t \<longrightarrow> s' = s) \<and> (\<not> t \<longrightarrow> results_ok env ob req headers table dups (Suc i) s')"
proof (cases "row_verdict env ob req headers dups (im_calls s) i (im_seen s) vs")
  case Ended
  with row show ?thesis by (simp add: import_row_def)
next
  case (Refused r)
  then have r: "rr_row r = i + 2" "\<not> passed r" using verdict_refused by (fastforce simp: refused_result_def passed_def)+
  have s': "im_results s' = im_results s @ [r]" "im_seen s' = im_seen s" "im_calls s' = im_calls s" "\<not> t"
    using row Refused by (auto simp: import_row_def)
  have "results_ok env ob req headers table dups (Suc i) s'"
    by (rule results_ok_append [OF ok r(1)]) (simp_all add: r s' result_keys_def)
  with s'(4) show ?thesis by blast
next
  case (Taken data)
  note v = verdict_taken [OF Taken]
  define r where "r = (if commit then created env (im_calls s) i data else ready i data)"
  have r: "rr_data r = data" "rr_row r = i + 2" by (simp_all add: r_def)
  have before: "calls_before i (im_calls s) = im_calls s"
    using ok by (intro calls_before_all) (simp add: results_ok_def)
  have good: "good_row env ob req headers table dups (im_calls s) r"
    using v(1,2,4) new_keys(2) [OF v(3)] assms(3) by (simp add: good_row_def Let_def r before)
  have s': "im_results s' = im_results s @ [r]" "set (im_seen s') = set (im_seen s) \<union> set (row_keys dups data)" "\<not> t"
      "im_calls s' = im_calls s \<or> (\<exists>data. im_calls s' = im_calls s @ [(i, data)])"
    using row Taken by (cases commit; auto simp: r_def import_row_def Let_def create_row_def set_fold_set_add)+
  have keys: "result_keys dups r \<subseteq> set (row_keys dups data)" by (simp add: result_keys_def r)
  have "results_ok env ob req headers table dups (Suc i) s'"
    by (rule results_ok_append [OF ok r(2) good _ s'(1) _ s'(4)]) (use keys new_keys(1) [OF v(3)] s'(2) in blast)+
  with s'(3) show ?thesis by blast
qed

lemma results_ok_later: "results_ok env ob req headers table dups i s \<Longrightarrow> i \<le> j \<Longrightarrow> results_ok env ob req headers table dups j s"
  by (fastforce simp: results_ok_def list_all_iff)

lemma import_loop_ok:
  assumes "results_ok env ob req headers table dups i s" "import_loop env ob req commit headers dups i rows s = (s', t)"
    and "rows = drop i table"
  shows "results_ok env ob req headers table dups (i + length rows) s'"
  using assms
proof (induction rows arbitrary: i s)
  case (Cons vs rows)
  obtain s1 t1 where s1: "import_row env ob req commit headers dups i vs s = (s1, t1)" by fastforce
  have table: "vs = table ! i" "rows = drop (Suc i) table"
    using Cons.prems(3) by (metis nth_via_drop, metis Cons_nth_drop_Suc drop_eq_Nil list.distinct(1) list.inject not_le_imp_less)
  note one = import_row_ok [OF Cons.prems(1) s1 table(1)]
  show ?case
  proof (cases t1)
    case True
    with Cons.prems(2) s1 one have "s' = s" by simp
    with Cons.prems(1) show ?thesis by (auto intro: results_ok_later)
  next
    case False
    with Cons.IH [OF _ _ table(2)] Cons.prems(2) s1 one show ?thesis by simp
  qed
qed simp

lemma distinct_values:
  assumes "results_ok env ob req headers table dups n s"
  shows "\<forall>i j field. i < j \<and> j < length (im_results s) \<and> passed (im_results s ! i) \<and> passed (im_results s ! j) \<and>
     field \<in> set dups \<and> has_value (rr_data (im_results s ! i)) field \<and> has_value (rr_data (im_results s ! j)) field \<longrightarrow>
     value_key (rr_data (im_results s ! i)) field \<noteq> value_key (rr_data (im_results s ! j)) field"
proof (intro allI impI notI, elim conjE)
  fix i j field
  assume a: "i < j" "j < length (im_results s)" "passed (im_results s ! i)" "passed (im_results s ! j)" "field \<in> set dups"
    "has_value (rr_data (im_results s ! i)) field" "has_value (rr_data (im_results s ! j)) field"
    "value_key (rr_data (im_results s ! i)) field = value_key (rr_data (im_results s ! j)) field"
  have "result_keys dups (im_results s ! i) \<inter> result_keys dups (im_results s ! j) = {}"
    using assms a(1,2) by (simp add: results_ok_def sorted_wrt_iff_nth_less)
  with row_key_member [OF a(5,6)] row_key_member [OF a(5,7)] a(3,4,8) show False
    by (auto simp: result_keys_def)
qed

lemma distinct_normal:
  assumes "results_ok env ob req headers table dups n s"
  shows "\<forall>i j field. i < j \<and> j < length (im_results s) \<and> passed (im_results s ! i) \<and> passed (im_results s ! j) \<and>
     field \<in> set dups \<and> \<not> no_value (read_prop (rr_data (im_results s ! i)) field) \<and>
     \<not> no_value (read_prop (rr_data (im_results s ! j)) field) \<longrightarrow>
     normal_value (read_prop (rr_data (im_results s ! i)) field) \<noteq> normal_value (read_prop (rr_data (im_results s ! j)) field)"
proof (intro allI impI notI, elim conjE)
  fix i j field
  assume a: "i < j" "j < length (im_results s)" "passed (im_results s ! i)" "passed (im_results s ! j)" "field \<in> set dups"
    and v: "\<not> no_value (read_prop (rr_data (im_results s ! i)) field)" "\<not> no_value (read_prop (rr_data (im_results s ! j)) field)"
    and same: "normal_value (read_prop (rr_data (im_results s ! i)) field) = normal_value (read_prop (rr_data (im_results s ! j)) field)"
  from distinct_values [OF assms, rule_format, of i j field] a own_value [OF v(1)] own_value [OF v(2)] seen_key_normal [OF same]
  show False by simp
qed

text \<open>The results are numbered as the rows are, and unless the request ended there is one for each.\<close>

lemma import_row_numbered:
  assumes "import_row env ob req commit headers dups i vs s = (s', t)"
  shows "map rr_row (im_results s') = map rr_row (im_results s) @ (if t then [] else [i + 2])"
  using assms by (auto simp: import_row_def create_row_def Let_def refused_result_def
      split: verdict.splits if_splits dest!: verdict_refused)

lemma import_loop_numbered:
  assumes "import_loop env ob req commit headers dups i rows s = (s', t)" "map rr_row (im_results s) = [2..<2 + i]"
  shows "map rr_row (im_results s') = [2..<2 + length (im_results s')] \<and>
    length (im_results s') \<le> i + length rows \<and> (\<not> t \<longrightarrow> length (im_results s') = i + length rows)"
  using assms
proof (induction rows arbitrary: i s)
  case Nil
  then have "length (im_results s) = i" by (metis length_map length_upt add_diff_cancel_left')
  with Nil show ?case by simp
next
  case (Cons vs rows)
  obtain s1 t1 where s1: "import_row env ob req commit headers dups i vs s = (s1, t1)" by fastforce
  note n = import_row_numbered [OF s1]
  show ?case
  proof (cases t1)
    case True
    with Cons.prems s1 n have "s' = s1" "t" "map rr_row (im_results s1) = [2..<2 + i]" by auto
    then show ?thesis by (metis length_map length_upt add_diff_cancel_left' le_add1)
  next
    case False
    with Cons.prems n have "map rr_row (im_results s1) = [2..<2 + Suc i]" by simp
    with Cons.IH [of "Suc i" s1] Cons.prems(1) s1 False show ?thesis by simp
  qed
qed

section \<open>A preview and its import\<close>

text \<open>What the import makes of the results of a preview, and the creations it calls for.\<close>

definition commit_result :: "import_env \<Rightarrow> creations \<Rightarrow> row_result \<Rightarrow> row_result" where
  "commit_result env calls r = (if rr_status r = RsReady
     then created env (calls_before (rr_row r - 2) calls) (rr_row r - 2) (rr_data r) else r)"

definition ready_calls :: "row_result list \<Rightarrow> creations" where
  "ready_calls rs = map (\<lambda>r. (rr_row r - 2, rr_data r)) (filter (\<lambda>r. rr_status r = RsReady) rs)"

text \<open>
  The services tell the row \<open>i\<close> with \<open>data\<close> the same after \<open>calls\<close> as without them, but for a stored
  duplicate of a value that the request itself takes for one of a row in \<open>calls\<close>.
\<close>

definition same_answers :: "import_env \<Rightarrow> form_object \<Rightarrow> string list \<Rightarrow> creations \<Rightarrow> nat \<Rightarrow> jv jmap \<Rightarrow> bool" where
  "same_answers env ob dups calls i data \<longleftrightarrow>
     (\<forall>(name, coll, x) \<in> set (related_ids ob data).
        ie_readable env calls i coll x = ie_readable env [] i coll x \<and>
        ie_related env calls i coll x = ie_related env [] i coll x) \<and>
     (\<forall>field \<in> set dups. has_value data field \<longrightarrow>
        ie_stored env calls i field (value_text data field) = ie_stored env [] i field (value_text data field) \<or>
        (\<exists>c \<in> set calls. value_key data field \<in> set (row_keys dups (snd c))))"

text \<open>Seen values are those of the rows called for.\<close>

definition seen_of :: "string list \<Rightarrow> creations \<Rightarrow> string list \<Rightarrow> bool" where
  "seen_of dups calls seen \<longleftrightarrow> set seen = (\<Union>c \<in> set calls. set (row_keys dups (snd c)))"

lemma find_cong: "(\<And>x. x \<in> set xs \<Longrightarrow> P x = Q x) \<Longrightarrow> find P xs = find Q xs"
  by (induction xs) auto

lemma same_duplicate:
  assumes "same_answers env ob dups calls i data" "seen_of dups calls seen"
  shows "duplicate_in env calls i seen dups data = duplicate_in env [] i seen dups data"
  unfolding duplicate_in_def using assms by (intro find_cong) (auto simp: same_answers_def seen_of_def)

lemma same_missing:
  assumes "same_answers env ob dups calls i data"
  shows "missing_related env calls i ob data = missing_related env [] i ob data"
  unfolding missing_related_def using assms by (intro fold_cong) (auto simp: same_answers_def)

lemma same_denied:
  assumes "same_answers env ob dups calls i data"
  shows "import_denied env calls ob req i data = import_denied env [] ob req i data"
proof -
  have "list_all (\<lambda>(name, coll, x). ie_readable env calls i coll x) (related_ids ob data) =
      list_all (\<lambda>(name, coll, x). ie_readable env [] i coll x) (related_ids ob data)"
    using assms unfolding list_all_iff same_answers_def by fastforce
  then show ?thesis by (simp add: import_denied_def split: option.split)
qed

lemma same_verdict:
  assumes "\<And>data errors. mapCsvRow (ie_form env) ob headers vs (iq_mapping req) = Some (data, errors) \<Longrightarrow>
      same_answers env ob dups calls i data" and "seen_of dups calls seen"
  shows "row_verdict env ob req headers dups calls i seen vs = row_verdict env ob req headers dups [] i seen vs"
proof (cases "mapCsvRow (ie_form env) ob headers vs (iq_mapping req)")
  case (Some p)
  then obtain data errors where m: "mapCsvRow (ie_form env) ob headers vs (iq_mapping req) = Some (data, errors)"
    by (cases p) simp
  note same = assms(1) [OF m]
  show ?thesis
    by (simp add: row_verdict_def m same_denied [OF same] same_missing [OF same] same_duplicate [OF same assms(2)])
qed (simp add: row_verdict_def)

definition preview_of :: "import_env \<Rightarrow> string list \<Rightarrow> nat \<Rightarrow> import_state \<Rightarrow> import_state \<Rightarrow> bool" where
  "preview_of env dups i p s \<longleftrightarrow> im_seen p = im_seen s \<and> seen_of dups (im_calls s) (im_seen s) \<and>
     im_results s = map (commit_result env (im_calls s)) (im_results p) \<and>
     im_calls p = [] \<and> im_calls s = ready_calls (im_results p) \<and> list_all (\<lambda>r. rr_row r - 2 < i) (im_results p)"

lemma commit_result_before:
  assumes "list_all (\<lambda>r. rr_row r - 2 < i) rs"
  shows "map (commit_result env (calls @ [(i, data)])) rs = map (commit_result env calls) rs"
  using assms by (auto simp: commit_result_def list_all_iff)

lemma ready_calls_before:
  assumes "list_all (\<lambda>r. rr_row r - 2 < i) rs"
  shows "calls_before i (ready_calls rs) = ready_calls rs"
  using assms by (intro calls_before_all) (auto simp: ready_calls_def list_all_iff)

lemma preview_row:
  assumes pre: "preview_of env dups i p s" and row: "import_row env ob req False headers dups i vs p = (p', t)"
    and same: "\<And>data errors. mapCsvRow (ie_form env) ob headers vs (iq_mapping req) = Some (data, errors) \<Longrightarrow>
      same_answers env ob dups (im_calls s) i data"
  shows "\<exists>s'. import_row env ob req True headers dups i vs s = (s', t) \<and> preview_of env dups (Suc i) p' s'"
proof -
  have st: "im_seen p = im_seen s" "seen_of dups (im_calls s) (im_seen s)" "im_calls p = []"
      "im_results s = map (commit_result env (im_calls s)) (im_results p)"
      "im_calls s = ready_calls (im_results p)" "list_all (\<lambda>r. rr_row r - 2 < i) (im_results p)"
    using pre unfolding preview_of_def by blast+
  have later: "list_all (\<lambda>r. rr_row r - 2 < Suc i) (im_results p)" using st(6) by (auto simp: list_all_iff)
  have v: "row_verdict env ob req headers dups (im_calls s) i (im_seen s) vs =
      row_verdict env ob req headers dups (im_calls p) i (im_seen p) vs"
    unfolding st(1,3) using same st(2) by (rule same_verdict)
  have before: "calls_before i (im_calls s) = im_calls s"
    unfolding st(5) by (rule ready_calls_before) (rule st(6))
  show ?thesis
  proof (cases "row_verdict env ob req headers dups (im_calls p) i (im_seen p) vs")
    case Ended
    with row v pre later show ?thesis by (auto simp: import_row_def preview_of_def)
  next
    case (Refused r)
    then have r: "rr_status r \<noteq> RsReady" "rr_row r = i + 2"
      using verdict_refused by (fastforce simp: refused_result_def)+
    let ?s = "s\<lparr>im_results := im_results s @ [r]\<rparr>"
    have "import_row env ob req True headers dups i vs s = (?s, t)" "p' = p\<lparr>im_results := im_results p @ [r]\<rparr>"
      using row v Refused by (auto simp: import_row_def)
    moreover from this(2) have "preview_of env dups (Suc i) p' ?s"
      using st(1-4) later r by (simp add: preview_of_def commit_result_def ready_calls_def st(5))
    ultimately show ?thesis by blast
  next
    case (Taken data)
    let ?keys = "fold set_add (row_keys dups data) (im_seen s)"
    let ?s = "create_row env i data (s\<lparr>im_seen := ?keys\<rparr>)"
    have "import_row env ob req True headers dups i vs s = (?s, t)"
      "p' = p\<lparr>im_seen := ?keys, im_results := im_results p @ [ready i data]\<rparr>"
      using row v Taken st(1) by (auto simp: import_row_def Let_def)
    moreover have "im_results ?s = map (commit_result env (im_calls ?s)) (im_results p @ [ready i data])"
    proof -
      have "im_results ?s = map (commit_result env (im_calls s @ [(i, data)])) (im_results p) @ [created env (im_calls s) i data]"
        unfolding commit_result_before [OF st(6)] by (simp add: create_row_def st(4))
      then show ?thesis by (simp add: create_row_def commit_result_def ready_def before)
    qed
    moreover have "seen_of dups (im_calls ?s) ?keys"
      using st(2) by (auto simp: seen_of_def create_row_def set_fold_set_add)
    ultimately have "preview_of env dups (Suc i) p' ?s"
      using st(3,5) later by (simp add: preview_of_def) (simp add: create_row_def ready_calls_def ready_def)
    with \<open>import_row env ob req True headers dups i vs s = (?s, t)\<close> show ?thesis by blast
  qed
qed

text \<open>A preview calls for no creation.\<close>

lemma preview_calls:
  "import_loop env ob req False headers dups i rows s = (s', t) \<Longrightarrow> im_calls s' = im_calls s"
proof (induction rows arbitrary: i s)
  case (Cons vs rows)
  obtain s1 t1 where s1: "import_row env ob req False headers dups i vs s = (s1, t1)" by fastforce
  then have "im_calls s1 = im_calls s" by (auto simp: import_row_def Let_def split: verdict.splits)
  with Cons s1 show ?case by (cases t1) auto
qed simp

text \<open>The creations called for before a row, seen from the end of the preview.\<close>

lemma loop_results:
  assumes "import_loop env ob req commit headers dups i rows p = (p', t)" "list_all (\<lambda>r. rr_row r - 2 < i) (im_results p)"
  shows "calls_before i (ready_calls (im_results p')) = ready_calls (im_results p)"
  using assms
proof (induction rows arbitrary: i p)
  case Nil
  then show ?case by (simp add: ready_calls_before)
next
  case (Cons vs rows)
  obtain p1 t1 where p1: "import_row env ob req commit headers dups i vs p = (p1, t1)" by fastforce
  show ?case
  proof (cases t1)
    case True
    with p1 have "p1 = p" by (auto simp: import_row_def Let_def split: verdict.splits)
    with True Cons.prems p1 show ?thesis by (simp add: ready_calls_before)
  next
    case False
    then obtain r where r: "im_results p1 = im_results p @ [r]" "rr_row r = i + 2"
      using p1 by (auto simp: import_row_def Let_def create_row_def refused_result_def
          split: verdict.splits if_splits dest!: verdict_refused)
    have "calls_before (Suc i) (ready_calls (im_results p')) = ready_calls (im_results p1)"
      by (rule Cons.IH) (use Cons.prems p1 False r in \<open>auto simp: list_all_iff\<close>)
    then have "calls_before i (ready_calls (im_results p')) = calls_before i (ready_calls (im_results p1))"
      using calls_before_nested [of i "Suc i"] by (metis le_SucI order_refl)
    also have "\<dots> = ready_calls (im_results p)"
      using ready_calls_before [OF Cons.prems(2)] r by (simp add: ready_calls_def calls_before_def)
    finally show ?thesis .
  qed
qed

lemma preview_loop:
  assumes "preview_of env dups i p s" "import_loop env ob req False headers dups i rows p = (p', t)"
    and "\<And>k data errors. k < length rows \<Longrightarrow>
      mapCsvRow (ie_form env) ob headers (rows ! k) (iq_mapping req) = Some (data, errors) \<Longrightarrow>
      same_answers env ob dups (calls_before (i + k) (ready_calls (im_results p'))) (i + k) data"
  shows "\<exists>s' j. import_loop env ob req True headers dups i rows s = (s', t) \<and> preview_of env dups j p' s'"
  using assms
proof (induction rows arbitrary: i p s)
  case (Cons vs rows)
  obtain p1 t1 where p1: "import_row env ob req False headers dups i vs p = (p1, t1)" by fastforce
  have "calls_before i (ready_calls (im_results p')) = im_calls s"
    using loop_results [OF Cons.prems(2)] Cons.prems(1) by (simp add: preview_of_def)
  with Cons.prems(3) [of 0] have "same_answers env ob dups (im_calls s) i data"
    if "mapCsvRow (ie_form env) ob headers vs (iq_mapping req) = Some (data, errors)" for data errors
    using that by simp
  with preview_row [OF Cons.prems(1) p1] obtain s1
    where s1: "import_row env ob req True headers dups i vs s = (s1, t1)" "preview_of env dups (Suc i) p1 s1" by blast
  show ?case
  proof (cases t1)
    case True
    with Cons.prems(2) p1 s1 show ?thesis by auto
  next
    case False
    have "same_answers env ob dups (calls_before (Suc i + k) (ready_calls (im_results p'))) (Suc i + k) data"
      if "k < length rows" "mapCsvRow (ie_form env) ob headers (rows ! k) (iq_mapping req) = Some (data, errors)" for k data errors
      using Cons.prems(3) [of "Suc k"] that by simp
    with Cons.IH [OF s1(2), of] Cons.prems(2) p1 s1(1) False show ?thesis by simp
  qed
qed auto

section \<open>A request\<close>

lemma import_request_cases:
  assumes "importRows env ob req commit = Inr (s, ended)"
  obtains headers rows where "parseCsv (iq_csv req) 1000 = Inr (headers, rows)"
    "import_loop env ob req commit headers (duplicate_fields ob (iq_duplicateField req)) 0 rows
       \<lparr>im_seen = [], im_results = [], im_calls = []\<rparr> = (s, ended)"
    "results_ok env ob req headers rows (duplicate_fields ob (iq_duplicateField req)) (length rows) s"
proof -
  let ?dups = "duplicate_fields ob (iq_duplicateField req)"
  let ?s0 = "\<lparr>im_seen = [], im_results = [], im_calls = []\<rparr>"
  from assms obtain headers rows where csv: "parseCsv (iq_csv req) 1000 = Inr (headers, rows)"
    and loop: "import_loop env ob req commit headers ?dups 0 rows ?s0 = (s, ended)"
    by (auto simp: importRows_def Let_def split: sum.splits if_splits)
  have "results_ok env ob req headers rows ?dups (0 + length rows) s"
    by (rule import_loop_ok [OF _ loop]) (simp_all add: results_ok_def)
  with csv loop that show thesis by simp
qed

end
