(* ===== verification/Studio_Samples.thy ===== *)
theory Studio_Samples
  imports Studio_Import
begin

text \<open>
  A small collection, its services and a table, with what the functions return on them: the inputs
  of the witnesses of \<open>Studio_Guarantees\<close>.
\<close>

definition sample_config :: field_config where
  "sample_config = \<lparr>fc_section = None, fc_visibleWhen = None, fc_requiredWhen = None, fc_multiple = False, fc_dateTime = False,
     fc_integer = False, fc_minimum = None, fc_maximum = None, fc_decimals = None, fc_minLength = None, fc_maxLength = None,
     fc_pattern = None, fc_format = None, fc_unique = False, fc_relation = None, fc_collectionRelation = False,
     fc_collectionOptions = False, fc_optionsWhen = None, fc_formula = None, fc_jsonSchema = JUndef, fc_validationSchema = JUndef\<rparr>"

definition sample_field :: "field_type \<Rightarrow> string \<Rightarrow> field_config \<Rightarrow> form_field" where
  "sample_field t label c = \<lparr>ff_type = t, ff_label = label, ff_labels = (\<lambda>_. None), ff_required = (t = Textbox), ff_hidden = False,
     ff_options = Some [''a'', ''b''], ff_default = JUndef, ff_config = c\<rparr>"

definition sample_people :: form_object where
  "sample_people = \<lparr>fob_fields = [(''name'', sample_field Textbox ''Name'' (sample_config\<lparr>fc_unique := True\<rparr>)),
       (''age'', sample_field NumberField ''Age'' (sample_config\<lparr>fc_integer := True, fc_minimum := Some (Fin 0)\<rparr>)),
       (''tags'', sample_field MultiSelect ''Tags'' sample_config), (''vip'', sample_field Toggle ''VIP'' sample_config)],
     fob_order = None, fob_sections = []\<rparr>"

definition sample_form :: form_env where
  "sample_form = \<lparr>fe_datetime = (\<lambda>_. False), fe_date = (\<lambda>_. None), fe_number = (\<lambda>s. if s = ''3'' then Fin 3 else NaN),
     fe_regexp = (\<lambda>_. None), fe_protocol = (\<lambda>_. None), fe_parse = (\<lambda>_. Inl ''Unexpected token''), fe_schema = (\<lambda>_ _. Inr [])\<rparr>"

text \<open>The stored records are those the import has created.\<close>

definition sample_import :: import_env where
  "sample_import = \<lparr>ie_form = sample_form, ie_policy = None, ie_readable = (\<lambda>_ _ _ _. False),
     ie_stored = (\<lambda>calls i field t. list_ex (\<lambda>c. value_text (snd c) field = t) calls), ie_related = (\<lambda>_ _ _ _. False),
     ie_create = (\<lambda>_ i _. if i = 0 then Inr ''r1'' else Inl ''full''), ie_warning = (\<lambda>_ _. None)\<rparr>"

definition sample_request :: import_request where
  "sample_request = \<lparr>iq_object = ''people'', iq_csv = ''name,age'' @ [line_feed] @ ''Ana,3'' @ [line_feed] @ ''ANA ,'' @ [line_feed] @ '',x'' @ [line_feed] @ ''Bo,'',
     iq_mapping = [(''name'', ''name''), (''age'', ''age'')], iq_duplicateField = [], iq_skip = True, iq_importId = Some ''i1''\<rparr>"

lemma sample_field_simps [simp]:
  "ff_type (sample_field t l c) = t" "ff_label (sample_field t l c) = l" "ff_required (sample_field t l c) = (t = Textbox)"
  "ff_hidden (sample_field t l c) = False"
  "ff_options (sample_field t l c) = Some [''a'', ''b'']"
      "ff_default (sample_field t l c) = JUndef" "ff_config (sample_field t l c) = c"
  by (simp_all add: sample_field_def)

lemma sample_prepared: "prepareRecord (rule_fields sample_people) m = Some (Inr m)"
  by (simp add: prepareRecord_def rule_fields_def sample_people_def with_default_def sample_config_def formula_of_def)

lemma sample_entries: "fieldEntries sample_people = map (\<lambda>(n, f). (n, Some f)) (fob_fields sample_people)"
  by (simp add: fieldEntries_def sample_people_def)

lemma sample_people_fields: "fob_fields sample_people =
    [(''name'', sample_field Textbox ''Name'' (sample_config\<lparr>fc_unique := True\<rparr>)),
       (''age'', sample_field NumberField ''Age'' (sample_config\<lparr>fc_integer := True, fc_minimum := Some (Fin 0)\<rparr>)),
       (''tags'', sample_field MultiSelect ''Tags'' sample_config), (''vip'', sample_field Toggle ''VIP'' sample_config)]"
  by (simp add: sample_people_def)

lemmas check_defs = sample_people_fields sample_config_def stores_nothing_def check_field_def Let_def empty_value_def check_scalar_def
   scalar_issue_def last_issue_def range_issue_def length_issue_def length_bounds_def pattern_issue_def check_schemas_def is_integer_def
   check_strings_def string_items_def check_empty_def required_def visible_def evaluateCondition_def note_outcome_def field_label_def
   isStaticOptionField_def fieldTextFormat_def js_set_def set_add_def unknown_errors_def js_in_def

definition sample_person :: "jv jmap" where
  "sample_person = [(''name'', JStr ''Ana''), (''age'', JNum (Fin 3)), (''tags'', JArr [JStr ''b'', JStr ''a'', JStr ''b''])]"

definition sample_clean :: "jv jmap" where
  "sample_clean = [(''name'', JStr ''Ana''), (''age'', JNum (Fin 3)), (''tags'', JArr [JStr ''b'', JStr ''a'']), (''vip'', JBool False)]"

lemma sample_accepted: "validateRecord sample_form sample_people sample_person None = Validated [] sample_clean"
  unfolding validateRecord_def sample_prepared sample_entries
  by (simp add: check_defs sample_person_def sample_clean_def)

lemma sample_csv: "parseCsv (iq_csv sample_request) 1000 = Inr ([''name'', ''age''], [[''Ana'', ''3''],[''ANA '',[]],[[],''x''],[''Bo'',[]]])"
  by (simp add: sample_request_def parseCsv_def delimiter_def firstLine_def csv_start_def add_char_def finishCell_def finishRow_def
      skip_feed_def check_table_def Let_def js_trim_def js_space_def)

lemmas row_defs = mapCsvRow_def row_input_def map_cell_def target_def note_cell_def convert_cell_def sample_request_def
    validateRecord_def sample_prepared sample_entries

lemma sample_row1: "mapCsvRow sample_form sample_people [''name'', ''age''] [''Ana'', ''3''] (iq_mapping sample_request) =
   Some ([(''name'', JStr ''Ana''), (''age'', JNum (Fin 3)), (''tags'', JArr []), (''vip'', JBool False)], [])"
  by (simp add: row_defs check_defs sample_form_def)

lemma sample_row2: "mapCsvRow sample_form sample_people [''name'', ''age''] [''ANA '',[]] (iq_mapping sample_request) =
   Some ([(''name'', JStr ''ANA ''), (''age'', JNull), (''tags'', JArr []), (''vip'', JBool False)], [])"
  by (simp add: row_defs check_defs sample_form_def)

lemma sample_row3: "mapCsvRow sample_form sample_people [''name'', ''age''] [[],''x''] (iq_mapping sample_request) =
   Some ([(''name'', JNull), (''age'', JNum NaN), (''tags'', JArr []), (''vip'', JBool False)],
       [(''name'', RecordIssue (FieldError ''Name'' MRequired)), (''age'', ConversionIssue (NotANumber ''Age''))])"
  by (simp add: row_defs check_defs sample_form_def)

lemma sample_row4: "mapCsvRow sample_form sample_people [''name'', ''age''] [''Bo'',[]] (iq_mapping sample_request) =
   Some ([(''name'', JStr ''Bo''), (''age'', JNull), (''tags'', JArr []), (''vip'', JBool False)], [])"
  by (simp add: row_defs check_defs sample_form_def)

lemma sample_keys: "seen_key ''name'' (JStr ''Ana'') = ''name:\"ana\"''"
    "seen_key ''name'' (JStr ''ANA '') = ''name:\"ana\"''" "seen_key ''name'' (JStr ''Bo'') = ''name:\"bo\"''"
  by (simp_all add: seen_key_def normal_value_def json_text_def json_string_def js_lower_def lower_char_def js_trim_def js_space_def
      units_def json_quote_def esc_unit_def Let_def surrogate_def hi_surrogate_def lo_surrogate_def char_of_def bit_0)

lemma sample_texts: "stored_text (JStr ''Ana'') = ''ana''" "stored_text (JStr ''ANA '') = ''ana''" "stored_text (JStr ''Bo'') = ''bo''"
  by (simp_all add: stored_text_def js_lower_def lower_char_def js_trim_def js_space_def char_of_def bit_0)

lemma sample_import_simps: "ie_form sample_import = sample_form"
    "ie_policy sample_import = None" "ie_stored sample_import calls i f t = list_ex (\<lambda>c. value_text (snd c) f = t) calls"
  "ie_create sample_import calls i d = (if i = 0 then Inr ''r1'' else Inl ''full'')"
  by (simp_all add: sample_import_def)

lemma sample_duplicates: "duplicate_fields sample_people [] = [''name'']"
  by (simp add: duplicate_fields_def sample_people_fields sample_config_def js_set_def set_add_def)

lemma sample_no_relations: "related_ids sample_people d = []"
  by (simp add: related_ids_def sample_people_fields sample_config_def)

lemma sample_none_missing: "missing_related sample_import calls i sample_people d = []"
  by (simp add: missing_related_def sample_no_relations)

lemmas value_defs = has_value_def value_key_def value_text_def inherits_def object_prototype_keys_def no_value_def

lemmas verdict_defs = row_verdict_def import_denied_def sample_import_simps sample_none_missing duplicate_in_def value_defs refusal_def sample_keys sample_row1 sample_row2 sample_row3 sample_row4

lemma sample_verdict1: "row_verdict sample_import sample_people sample_request [''name'', ''age''] [''name''] [] 0 [] [''Ana'', ''3''] =
    Taken [(''name'', JStr ''Ana''), (''age'', JNum (Fin 3)), (''tags'', JArr []), (''vip'', JBool False)]"
  by (simp add: verdict_defs)

lemma sample_verdict2: "\<exists>r. row_verdict sample_import sample_people sample_request [''name'', ''age''] [''name''] [] (Suc 0) [''name:\"ana\"''] [''ANA '', []] = Refused r \<and> rr_row r = 3 \<and> rr_status r = RsSkipped"
  by (simp add: verdict_defs) (simp add: sample_request_def)

lemma sample_verdict3: "\<exists>r. row_verdict sample_import sample_people sample_request [''name'', ''age''] [''name''] [] (Suc (Suc 0)) [''name:\"ana\"''] [[], ''x''] = Refused r \<and> rr_row r = 4 \<and> rr_status r = RsError"
  by (simp add: verdict_defs)

lemma sample_verdict4: "row_verdict sample_import sample_people sample_request [''name'', ''age''] [''name''] [] (Suc (Suc (Suc 0))) [''name:\"ana\"''] [''Bo'', []] =
    Taken [(''name'', JStr ''Bo''), (''age'', JNull), (''tags'', JArr []), (''vip'', JBool False)]"
  by (simp add: verdict_defs)

lemma sample_preview: "\<exists>s. importRows sample_import sample_people sample_request False = Inr (s, False) \<and>
  map (\<lambda>r. (rr_row r, rr_status r)) (im_results s) = [(2, RsReady), (3, RsSkipped), (4, RsError), (5, RsReady)] \<and>
  rr_data (hd (im_results s)) = [(''name'', JStr ''Ana''), (''age'', JNum (Fin 3)), (''tags'', JArr []), (''vip'', JBool False)]"
proof -
  obtain r2 where r2: "row_verdict sample_import sample_people sample_request [''name'', ''age''] [''name''] [] (Suc 0) [''name:\"ana\"''] [''ANA '', []] = Refused r2" "rr_row r2 = 3" "rr_status r2 = RsSkipped"
    using sample_verdict2 by blast
  obtain r3 where r3: "row_verdict sample_import sample_people sample_request [''name'', ''age''] [''name''] [] (Suc (Suc 0)) [''name:\"ana\"''] [[], ''x''] = Refused r3" "rr_row r3 = 4" "rr_status r3 = RsError"
    using sample_verdict3 by blast
  have m: "iq_mapping sample_request = [(''name'', ''name''), (''age'', ''age'')]" "iq_duplicateField sample_request = []"
    by (simp_all add: sample_request_def)
  show ?thesis unfolding importRows_def sample_csv m
    by (simp add: Let_def js_in_def sample_people_fields sample_duplicates)
        (simp add: import_row_def sample_verdict1 r2 r3 sample_verdict4 Let_def row_keys_def value_defs sample_keys set_add_def ready_def)
qed

end
