(* ===== verification/Studio_Guarantees.thy ===== *)
theory Studio_Guarantees
  imports Studio_Samples
begin

text \<open>
  The properties of checking and importing records, and what the model shows beside them.
\<close>

section \<open>Records\<close>

text \<open>C35: A record that is accepted without an error stores, for every field of the collection that
  stores a value and for no other name, a value of the field's type within the field's bounds,
  options and formats; a field without a value stores the blank of its type, and then the record
  did not require it, neither always nor by a condition on the prepared record. Every name of the
  input is a field, or a name that objects inherit.\<close>
theorem accepted_record:
  assumes "validateRecord env ob input loc = Validated [] clean"
  shows "\<exists>data. prepareRecord (rule_fields ob) input = Some (Inr data) \<and>
    (\<forall>name v. jget clean name = Some v \<longrightarrow> (\<exists>f. jget (fob_fields ob) name = Some f \<and>
       (if empty_value f (read_prop data name) then \<not> required env ob data f \<and> blank_value f v
        else well_typed env data f v))) \<and>
    set (jkeys clean) = {name. \<exists>f. (name, Some f) \<in> set (fieldEntries ob) \<and> \<not> stores_nothing f} \<and>
    (\<forall>name \<in> set (jkeys input). js_in name (fob_fields ob))"
  using assms by (rule accepted_fields) (auto simp: stored_fields_def stored_value_def)

theorem accepted_record_witness:
  "\<exists>data. prepareRecord (rule_fields sample_people) sample_person = Some (Inr data) \<and>
     well_typed sample_form data (sample_field MultiSelect ''Tags'' sample_config) (JArr [JStr ''b'', JStr ''a'']) \<and>
     (\<forall>name \<in> set (jkeys sample_person). js_in name (fob_fields sample_people))"
proof -
  from accepted_record [OF sample_accepted] obtain data where d:
    "prepareRecord (rule_fields sample_people) sample_person = Some (Inr data)"
    "\<And>name v. jget sample_clean name = Some v \<Longrightarrow> (\<exists>f. jget (fob_fields sample_people) name = Some f \<and>
       (if empty_value f (read_prop data name) then \<not> required sample_form sample_people data f \<and> blank_value f v
        else well_typed sample_form data f v))"
    "\<forall>name \<in> set (jkeys sample_person). js_in name (fob_fields sample_people)" by blast
  have "data = sample_person" using d(1) by (simp add: sample_prepared)
  with d(2) [of "''tags''" "JArr [JStr ''b'', JStr ''a'']"]
  have "well_typed sample_form data (sample_field MultiSelect ''Tags'' sample_config) (JArr [JStr ''b'', JStr ''a''])"
    by (simp add: sample_clean_def sample_people_fields sample_person_def empty_value_def)
  with d(1,3) show ?thesis by blast
qed

text \<open>The length of a text is bounded, but under a JSON schema the text that is stored is not the one
  that was measured.\<close>

lemma json_text_unbounded:
  assumes "fe_parse env ''1e5'' = Inr (JNum (Fin 100000))" "fe_schema env (JBool True) (JNum (Fin 100000)) = Inr []"
  shows "check_field env ob data (sample_field Textbox ''N'' (sample_config\<lparr>fc_maxLength := Some 3, fc_jsonSchema := JBool True\<rparr>)) (JStr ''1e5'') =
    Outcome None (Some (json_text (JNum (Fin 100000))))"
    and "\<exists>t. json_text (JNum (Fin 100000)) = JStr t \<and> length t = 6"
proof -
  show "check_field env ob data (sample_field Textbox ''N'' (sample_config\<lparr>fc_maxLength := Some 3, fc_jsonSchema := JBool True\<rparr>)) (JStr ''1e5'') =
    Outcome None (Some (json_text (JNum (Fin 100000))))"
    using assms by (simp add: check_defs)
  show "\<exists>t. json_text (JNum (Fin 100000)) = JStr t \<and> length t = 6"
    by (simp add: json_text_def json_string_def num_to_string_def units_def dec_digits.simps)
qed

section \<open>Tables\<close>

text \<open>C36: Importing a table answers at most one result for every row, in the order and under the
  number of the rows, and exactly one unless the request ended in an exception. A row that is ready
  or created is one whose cells all converted and whose record was accepted without an error; when
  its turn came, after the creations called for before it, the import grants of the policy covered
  it, its related records existed, and no stored record had the text of its value in a unique field
  or the field chosen for duplicates; and no two such rows have the same value there, up to case and
  the white space around it.\<close>
theorem import_rows:
  assumes "importRows env ob req commit = Inr (s, ended)"
  shows "\<exists>headers rows. parseCsv (iq_csv req) 1000 = Inr (headers, rows) \<and>
    map rr_row (im_results s) = [2..<2 + length (im_results s)] \<and> length (im_results s) \<le> length rows \<and>
    (\<not> ended \<longrightarrow> length (im_results s) = length rows) \<and>
    (\<forall>r \<in> set (im_results s). passed r \<longrightarrow>
      (let i = rr_row r - 2; before = calls_before i (im_calls s);
           c = row_input (ie_form env) ob headers (rows ! i) (iq_mapping req) in
         rs_errors c = [] \<and> validateRecord (ie_form env) ob (rs_input c) None = Validated [] (rr_data r) \<and>
         \<not> import_denied env before ob req i (rr_data r) \<and> missing_related env before i ob (rr_data r) = [] \<and>
         (\<forall>field \<in> set (duplicate_fields ob (iq_duplicateField req)). \<not> no_value (read_prop (rr_data r) field) \<longrightarrow>
            \<not> ie_stored env before i field (stored_text (read_prop (rr_data r) field))))) \<and>
    (\<forall>i j field. i < j \<and> j < length (im_results s) \<and> passed (im_results s ! i) \<and> passed (im_results s ! j) \<and>
       field \<in> set (duplicate_fields ob (iq_duplicateField req)) \<and>
       \<not> no_value (read_prop (rr_data (im_results s ! i)) field) \<and> \<not> no_value (read_prop (rr_data (im_results s ! j)) field) \<longrightarrow>
       normal_value (read_prop (rr_data (im_results s ! i)) field) \<noteq> normal_value (read_prop (rr_data (im_results s ! j)) field))"
proof -
  let ?dups = "duplicate_fields ob (iq_duplicateField req)"
  obtain headers rows where csv: "parseCsv (iq_csv req) 1000 = Inr (headers, rows)"
    and loop: "import_loop env ob req commit headers ?dups 0 rows \<lparr>im_seen = [], im_results = [], im_calls = []\<rparr> = (s, ended)"
    and ok: "results_ok env ob req headers rows ?dups (length rows) s"
    by (rule import_request_cases [OF assms])
  note n = import_loop_numbered [OF loop]
  show ?thesis
  proof (intro exI conjI)
    show "\<forall>r \<in> set (im_results s). passed r \<longrightarrow>
      (let i = rr_row r - 2; before = calls_before i (im_calls s);
           c = row_input (ie_form env) ob headers (rows ! i) (iq_mapping req) in
         rs_errors c = [] \<and> validateRecord (ie_form env) ob (rs_input c) None = Validated [] (rr_data r) \<and>
         \<not> import_denied env before ob req i (rr_data r) \<and> missing_related env before i ob (rr_data r) = [] \<and>
         (\<forall>field \<in> set ?dups. \<not> no_value (read_prop (rr_data r) field) \<longrightarrow>
            \<not> ie_stored env before i field (stored_text (read_prop (rr_data r) field))))"
    proof (intro ballI impI)
      fix r assume "r \<in> set (im_results s)" "passed r"
      with ok have good: "good_row env ob req headers rows ?dups (im_calls s) r"
        by (simp add: results_ok_def list_all_iff)
      note g = good_rowD [OF good]
      show "let i = rr_row r - 2; before = calls_before i (im_calls s);
           c = row_input (ie_form env) ob headers (rows ! i) (iq_mapping req) in
         rs_errors c = [] \<and> validateRecord (ie_form env) ob (rs_input c) None = Validated [] (rr_data r) \<and>
         \<not> import_denied env before ob req i (rr_data r) \<and> missing_related env before i ob (rr_data r) = [] \<and>
         (\<forall>field \<in> set ?dups. \<not> no_value (read_prop (rr_data r) field) \<longrightarrow>
            \<not> ie_stored env before i field (stored_text (read_prop (rr_data r) field)))"
        unfolding Let_def using mapped_row_accepted [OF g(1)] g(2,3) good_row_stored [OF good] by blast
    qed
    show "\<forall>i j field. i < j \<and> j < length (im_results s) \<and> passed (im_results s ! i) \<and> passed (im_results s ! j) \<and>
       field \<in> set ?dups \<and> \<not> no_value (read_prop (rr_data (im_results s ! i)) field) \<and>
       \<not> no_value (read_prop (rr_data (im_results s ! j)) field) \<longrightarrow>
       normal_value (read_prop (rr_data (im_results s ! i)) field) \<noteq> normal_value (read_prop (rr_data (im_results s ! j)) field)"
      by (rule distinct_normal [OF ok])
  qed (use csv n in simp_all)
qed

theorem import_rows_witness:
  "\<exists>s headers rows. importRows sample_import sample_people sample_request False = Inr (s, False) \<and>
     parseCsv (iq_csv sample_request) 1000 = Inr (headers, rows) \<and> length (im_results s) = length rows \<and>
     map rr_status (im_results s) = [RsReady, RsSkipped, RsError, RsReady] \<and>
     (\<forall>r \<in> set (im_results s). passed r \<longrightarrow>
        missing_related sample_import (calls_before (rr_row r - 2) (im_calls s)) (rr_row r - 2) sample_people (rr_data r) = [])"
proof -
  obtain s where s: "importRows sample_import sample_people sample_request False = Inr (s, False)"
    "map (\<lambda>r. (rr_row r, rr_status r)) (im_results s) = [(2, RsReady), (3, RsSkipped), (4, RsError), (5, RsReady)]"
    using sample_preview by (elim exE conjE)
  have "map rr_status (im_results s) = map snd (map (\<lambda>r. (rr_row r, rr_status r)) (im_results s))" by simp
  then have st: "map rr_status (im_results s) = [RsReady, RsSkipped, RsError, RsReady]" unfolding s(2) by simp
  from import_rows [OF s(1)] obtain headers rows where t: "parseCsv (iq_csv sample_request) 1000 = Inr (headers, rows)"
    "length (im_results s) = length rows"
    "\<forall>r \<in> set (im_results s). passed r \<longrightarrow>
        missing_related sample_import (calls_before (rr_row r - 2) (im_calls s)) (rr_row r - 2) sample_people (rr_data r) = []"
    unfolding Let_def by (elim exE conjE) blast
  show ?thesis by (intro exI conjI; (rule s(1) t st)+)
qed

text \<open>C37: What a preview says is what the import does, when the two meet the same services and the
  creations of the import do not change what the services tell its later rows, but for a stored
  duplicate of a value that the import itself takes for the same as one it created before. Then the
  import ends as the preview does, gives every refused row the same result, and calls createRecord
  for exactly the rows the preview calls ready, in their order and with the data it showed; such a
  row is created, or an error when createRecord fails. The preview itself creates nothing, whatever
  the services do.\<close>
theorem import_preview:
  assumes "importRows env ob req False = Inr (p, ended)"
  shows "im_calls p = [] \<and>
    (iq_importId req \<noteq> None \<longrightarrow>
     (\<forall>headers rows i data errors. parseCsv (iq_csv req) 1000 = Inr (headers, rows) \<longrightarrow> i < length rows \<longrightarrow>
        mapCsvRow (ie_form env) ob headers (rows ! i) (iq_mapping req) = Some (data, errors) \<longrightarrow>
        same_answers env ob (duplicate_fields ob (iq_duplicateField req))
          (calls_before i (ready_calls (im_results p))) i data) \<longrightarrow>
     (\<exists>s. importRows env ob req True = Inr (s, ended) \<and> im_calls s = ready_calls (im_results p) \<and>
       im_results s = map (commit_result env (im_calls s)) (im_results p)))"
proof -
  let ?dups = "duplicate_fields ob (iq_duplicateField req)"
  let ?s0 = "\<lparr>im_seen = [], im_results = [], im_calls = []\<rparr>"
  obtain headers rows where csv: "parseCsv (iq_csv req) 1000 = Inr (headers, rows)"
    and loop: "import_loop env ob req False headers ?dups 0 rows ?s0 = (p, ended)"
    by (rule import_request_cases [OF assms])
  have none: "im_calls p = []" using preview_calls [OF loop] by simp
  have start: "preview_of env ?dups 0 ?s0 ?s0" by (simp add: preview_of_def ready_calls_def seen_of_def)
  have "\<exists>s. importRows env ob req True = Inr (s, ended) \<and> im_calls s = ready_calls (im_results p) \<and>
       im_results s = map (commit_result env (im_calls s)) (im_results p)"
    if given: "iq_importId req \<noteq> None"
      and same: "\<And>i data errors. i < length rows \<Longrightarrow>
        mapCsvRow (ie_form env) ob headers (rows ! i) (iq_mapping req) = Some (data, errors) \<Longrightarrow>
        same_answers env ob ?dups (calls_before (0 + i) (ready_calls (im_results p))) (0 + i) data"
  proof -
    have "\<exists>s j. import_loop env ob req True headers ?dups 0 rows ?s0 = (s, ended) \<and> preview_of env ?dups j p s"
      by (rule preview_loop [OF start loop]) (rule same)
    then obtain s j where s: "import_loop env ob req True headers ?dups 0 rows ?s0 = (s, ended)" "preview_of env ?dups j p s"
      by (elim exE conjE)
    have "importRows env ob req True = Inr (s, ended)"
      using assms given csv s(1) by (auto simp: importRows_def Let_def split: if_splits)
    with s(2) show ?thesis unfolding preview_of_def by blast
  qed
  with none csv show ?thesis by simp
qed

lemma map_eq_ConsE4:
  assumes "map (\<lambda>r. (f r, g r)) xs = [(a1, b1), (a2, b2), (a3, b3), (a4, b4)]"
  obtains r1 r2 r3 r4 where "xs = [r1, r2, r3, r4]" "f r1 = a1" "g r1 = b1" "f r2 = a2" "g r2 = b2" "f r3 = a3" "g r3 = b3"
    "f r4 = a4" "g r4 = b4"
  using assms by (auto simp: map_eq_Cons_conv)

text \<open>The sample import does change what later rows are told: the second row, whose value the import has
  just created, has a stored duplicate then.\<close>

lemma sample_same_answers:
  assumes "parseCsv (iq_csv sample_request) 1000 = Inr (headers, rows)" "i < length rows"
    and "mapCsvRow sample_form sample_people headers (rows ! i) (iq_mapping sample_request) = Some (data, errors)"
    and "calls = [(0, [(''name'', JStr ''Ana''), (''age'', JNum (Fin 3)), (''tags'', JArr []), (''vip'', JBool False)]), (3, d)]"
  shows "same_answers sample_import sample_people [''name''] (calls_before i calls) i data"
proof -
  have "i = 0 \<or> i = Suc 0 \<or> i = Suc (Suc 0) \<or> i = Suc (Suc (Suc 0))" using assms(1,2) by (auto simp: sample_csv)
  then show ?thesis using assms(1,3,4)
    by (elim disjE) (auto simp: sample_csv sample_row1 sample_row2 sample_row3 sample_row4 calls_before_def same_answers_def
      sample_no_relations sample_import_simps row_keys_def value_defs sample_keys sample_texts)
qed

theorem import_preview_witness:
  "\<exists>s. importRows sample_import sample_people sample_request True = Inr (s, False) \<and>
     map (\<lambda>r. (rr_row r, rr_status r)) (im_results s) = [(2, RsCreated), (3, RsSkipped), (4, RsError), (5, RsError)] \<and>
     map fst (im_calls s) = [0, 3]"
proof -
  obtain p where p: "importRows sample_import sample_people sample_request False = Inr (p, False)"
    "map (\<lambda>r. (rr_row r, rr_status r)) (im_results p) = [(2, RsReady), (3, RsSkipped), (4, RsError), (5, RsReady)]"
    "rr_data (hd (im_results p)) = [(''name'', JStr ''Ana''), (''age'', JNum (Fin 3)), (''tags'', JArr []), (''vip'', JBool False)]"
    using sample_preview by (elim exE conjE)
  have req: "iq_importId sample_request \<noteq> None" "duplicate_fields sample_people (iq_duplicateField sample_request) = [''name'']"
    by (simp_all add: sample_request_def sample_duplicates)
  obtain r1 r2 r3 r4 where r: "im_results p = [r1, r2, r3, r4]" "rr_row r1 = 2" "rr_status r1 = RsReady" "rr_row r2 = 3"
    "rr_status r2 = RsSkipped" "rr_row r3 = 4" "rr_status r3 = RsError" "rr_row r4 = 5" "rr_status r4 = RsReady"
    by (rule map_eq_ConsE4 [OF p(2)])
  have calls: "ready_calls (im_results p) =
      [(0, [(''name'', JStr ''Ana''), (''age'', JNum (Fin 3)), (''tags'', JArr []), (''vip'', JBool False)]), (3, rr_data r4)]"
    using p(3) r by (simp add: ready_calls_def)
  have "same_answers sample_import sample_people [''name''] (calls_before i (ready_calls (im_results p))) i data"
    if "parseCsv (iq_csv sample_request) 1000 = Inr (headers, rows)" "i < length rows"
      "mapCsvRow (ie_form sample_import) sample_people headers (rows ! i) (iq_mapping sample_request) = Some (data, errors)"
    for headers rows i data errors
    using that sample_same_answers [OF that(1,2) _ calls] by (simp add: sample_import_simps)
  with conjunct2 [OF import_preview [OF p(1)]] req obtain s
    where s: "importRows sample_import sample_people sample_request True = Inr (s, False)"
    "im_calls s = ready_calls (im_results p)" "im_results s = map (commit_result sample_import (im_calls s)) (im_results p)"
    by metis
  have "map (\<lambda>r. (rr_row r, rr_status r)) (im_results s) = [(2, RsCreated), (3, RsSkipped), (4, RsError), (5, RsError)]"
    "map fst (im_calls s) = [0, 3]"
    unfolding s(3) r(1) by (simp_all add: s(2) calls r(2-) commit_result_def created_def sample_import_simps)
  then show ?thesis by (intro exI conjI) (rule s(1))
qed

text \<open>The condition is not idle: two lists that differ in case are not the same to the import, but are
  the same text to the database, so that a preview calls both rows ready and the import finds the
  second one stored.\<close>

lemma lists_differ_in_case:
  "seen_key field (JArr [JStr ''A'']) \<noteq> seen_key field (JArr [JStr ''a'']) \<and>
   stored_text (JArr [JStr ''A'']) = stored_text (JArr [JStr ''a''])"
  by (simp add: seen_key_def normal_value_def stored_text_def json_text_def json_string_def js_lower_def lower_char_def
      js_trim_def js_space_def units_def json_quote_def esc_unit_def Let_def surrogate_def hi_surrogate_def lo_surrogate_def
      char_of_def bit_0)

text \<open>A name that every object inherits passes as the field for duplicates; unless the collection has
  such a field, every row has the same value there, and only one of them can pass.\<close>

lemma inherited_duplicate:
  assumes "importRows env ob req commit = Inr (s, ended)" "iq_duplicateField req \<in> set object_prototype_keys"
    and "iq_duplicateField req \<notin> fst ` set (fieldEntries ob)" "i < j" "j < length (im_results s)"
  shows "\<not> (passed (im_results s ! i) \<and> passed (im_results s ! j))"
proof
  let ?f = "iq_duplicateField req"
  assume passed: "passed (im_results s ! i) \<and> passed (im_results s ! j)"
  obtain headers rows where ok: "results_ok env ob req headers rows (duplicate_fields ob ?f) (length rows) s"
    by (rule import_request_cases [OF assms(1)])
  have "?f \<noteq> []" using assms(2) by (auto simp: object_prototype_keys_def)
  then have dup: "?f \<in> set (duplicate_fields ob ?f)" by (simp add: duplicate_fields_def)
  have inh: "inherits (rr_data (im_results s ! k)) ?f" if "k < length (im_results s)" "passed (im_results s ! k)" for k
  proof -
    have "good_row env ob req headers rows (duplicate_fields ob ?f) (im_calls s) (im_results s ! k)"
      using ok that by (simp add: results_ok_def list_all_iff)
    then obtain input where "validateRecord (ie_form env) ob input None = Validated [] (rr_data (im_results s ! k))"
      using mapped_row_accepted unfolding good_row_def Let_def by blast
    then have "set (jkeys (rr_data (im_results s ! k))) \<subseteq> fst ` set (fieldEntries ob)"
      by (rule accepted_fields) force
    with assms(2,3) show ?thesis by (auto simp: inherits_def)
  qed
  have "inherits (rr_data (im_results s ! i)) ?f" "inherits (rr_data (im_results s ! j)) ?f"
    using inh passed assms(4,5) by simp_all
  then show False
    using distinct_values [OF ok, rule_format, of i j ?f] assms(4,5) passed dup by (simp add: has_value_def value_key_def)
qed

section \<open>Grants to import\<close>

text \<open>A row names every field of the collection that stores a value, also those without a column in
  the table: only a grant over all of them lets it pass.\<close>

lemma create_granted:
  assumes "ad_allowed (decideWrite pol resource ActCreate None a changed)"
  obtains g where "g \<in> set (ap_grants pol)" "ag_resource g = resource" "ag_action g = ActCreate"
    "set changed \<subseteq> set (ag_fields g) - set protectedAccessFields" "matchesPredicate (ag_predicate g) pol a"
proof -
  let ?fs = "js_set (changed @ actual_changes (values_of None) (ar_values a))"
  have free: "\<not> list_ex (\<lambda>f. f \<in> set protectedAccessFields) ?fs"
    using assms by (auto simp: decideWrite_def Let_def split: if_splits)
  obtain g where g: "g \<in> set (ap_grants pol)" "ag_resource g = resource" "ag_action g = ActCreate"
    "list_all (\<lambda>f. f \<in> set (ag_fields g)) ?fs" "matchesPredicate (ag_predicate g) pol a"
    using assms free by (auto simp: decideWrite_def Let_def filter_empty_conv split: if_splits)
  with free have "set changed \<subseteq> set (ag_fields g) - set protectedAccessFields" by (auto simp: list_all_iff list_ex_iff)
  with g that show thesis by blast
qed

lemma import_grant_covers_all:
  assumes "importRows env ob req commit = Inr (s, ended)" "ie_policy env = Some pol" "r \<in> set (im_results s)" "passed r"
  shows "\<exists>g \<in> set (ap_grants pol). ag_action g = ActImport \<and> ag_resource g = ''collection:'' @ iq_object req \<and>
    {name. \<exists>f. (name, Some f) \<in> set (fieldEntries ob) \<and> \<not> stores_nothing f} \<subseteq> set (ag_fields g) - set protectedAccessFields \<and>
    matchesPredicate (ag_predicate g) (import_policy pol) (preview_record pol (rr_data r))"
proof -
  let ?dups = "duplicate_fields ob (iq_duplicateField req)"
  obtain headers rows where "results_ok env ob req headers rows ?dups (length rows) s"
    by (rule import_request_cases [OF assms(1)])
  with assms(3,4) have good: "good_row env ob req headers rows ?dups (im_calls s) r" by (auto simp: results_ok_def list_all_iff)
  then obtain input where "validateRecord (ie_form env) ob input None = Validated [] (rr_data r)"
    using mapped_row_accepted unfolding good_row_def Let_def by blast
  then have names: "set (jkeys (rr_data r)) = {name. \<exists>f. (name, Some f) \<in> set (fieldEntries ob) \<and> \<not> stores_nothing f}"
    by (rule accepted_fields)
  from good assms(2) have "ad_allowed (decideWrite (import_policy pol) (''collection:'' @ iq_object req) ActCreate None
      (preview_record pol (rr_data r)) (jkeys (rr_data r)))"
    by (simp add: good_row_def Let_def import_denied_def)
  then show ?thesis unfolding names [symmetric]
    by (rule create_granted) (auto simp: import_policy_def)
qed

section \<open>Headers that objects inherit\<close>

text \<open>A column whose header is a name that every object inherits, such as \<open>constructor\<close>, makes every
  row an error, although it is not mapped to a field.\<close>

lemma note_cell_keeps: "rs_errors s \<noteq> [] \<Longrightarrow> rs_errors (map_cell env ob mapping c s) \<noteq> []"
  by (auto simp: map_cell_def note_cell_def split: option.splits prod.splits)

lemma cells_header: "h \<in> set headers \<Longrightarrow> \<exists>raw. (h, raw) \<in> set (cells headers vs)"
  by (induction headers vs rule: cells.induct) auto

lemma inherited_header:
  assumes "h \<in> set headers" "h \<in> set object_prototype_keys" "jget mapping h = None"
    and "\<not> js_in (inherited_text h) (fob_fields ob)"
  shows "mapCsvRow env ob headers vs mapping \<noteq> Some (data, [])"
proof
  assume "mapCsvRow env ob headers vs mapping = Some (data, [])"
  then have none: "rs_errors (row_input env ob headers vs mapping) = []" using mapped_row_accepted by blast
  obtain raw where "(h, raw) \<in> set (cells headers vs)" using cells_header [OF assms(1)] by blast
  then obtain before after where c: "cells headers vs = before @ (h, raw) # after" by (meson split_list)
  have keeps: "rs_errors s \<noteq> [] \<Longrightarrow> rs_errors (fold (map_cell env ob mapping) cs s) \<noteq> []" for cs s
    by (induction cs arbitrary: s) (auto simp: note_cell_keeps)
  have "rs_errors (map_cell env ob mapping (h, raw) s) \<noteq> []" for s
    using assms(2-4) by (auto simp: map_cell_def target_def note_cell_def js_in_def jget_None_iff [THEN iffD2])
  with none keeps show False unfolding row_input_def c by simp
qed

end
