(* ===== verification/Record_Cursor.thy ===== *)
theory Record_Cursor
  imports Access_Policy
begin

text \<open>
  The cursors of \<open>packages/studio-server/src/record-pagination.ts\<close>. A token is the Base64
  text (\<open>btoa\<close>, \<open>atob\<close>) of the UTF-8 bytes of a JSON text; \<open>parse\<close> is
  \<open>JSON.parse\<close> of a \<open>TextDecoder\<close>'s text, from bytes. The scope, a SHA-256 of the
  query, is a text. An error is \<open>None\<close>: the code has one message for all of them.
\<close>

section \<open>Base64\<close>

definition base64_char :: "nat \<Rightarrow> char" where
  "base64_char n = (if n < 26 then char_of (65 + n) else if n < 52 then char_of (71 + n)
     else if n < 62 then char_of (n - 4) else if n = 62 then CHR ''+'' else CHR ''/'')"

definition base64_value :: "char \<Rightarrow> nat option" where
  "base64_value c = (let n = of_char c in
     if 65 \<le> n \<and> n \<le> 90 then Some (n - 65) else if 97 \<le> n \<and> n \<le> 122 then Some (n - 71)
     else if 48 \<le> n \<and> n \<le> 57 then Some (n + 4) else if c = CHR ''+'' then Some 62
     else if c = CHR ''/'' then Some 63 else None)"

fun btoa :: "nat list \<Rightarrow> string" where
  "btoa [] = []"
| "btoa [a] = [base64_char (a div 4), base64_char (a mod 4 * 16), CHR ''='', CHR ''='']"
| "btoa [a, b] = [base64_char (a div 4), base64_char (a mod 4 * 16 + b div 16), base64_char (b mod 16 * 4), CHR ''='']"
| "btoa (a # b # c # bs) = base64_char (a div 4) # base64_char (a mod 4 * 16 + b div 16)
     # base64_char (b mod 16 * 4 + c div 64) # base64_char (c mod 64) # btoa bs"

text \<open>\<open>atob\<close> drops white space, at most two equals signs of a text whose length four divides,
  and the bits that fill no byte.\<close>

fun sextets_bytes :: "nat list \<Rightarrow> nat list option" where
  "sextets_bytes [] = Some []"
| "sextets_bytes [w] = None"
| "sextets_bytes [w, x] = Some [w * 4 + x div 16]"
| "sextets_bytes [w, x, y] = Some [w * 4 + x div 16, x mod 16 * 16 + y div 4]"
| "sextets_bytes (w # x # y # z # ss) =
     map_option (\<lambda>bs. (w * 4 + x div 16) # (x mod 16 * 16 + y div 4) # (y mod 4 * 64 + z) # bs) (sextets_bytes ss)"

definition base64_space :: "char \<Rightarrow> bool" where
  "base64_space c \<longleftrightarrow> c \<in> {CHR 0x09, CHR 0x0A, CHR 0x0C, CHR 0x0D, CHR '' ''}"

definition drop_equals :: "string \<Rightarrow> string" where
  "drop_equals s = (if length s mod 4 \<noteq> 0 then s
     else if s \<noteq> [] \<and> last s = CHR ''='' then
       (if butlast s \<noteq> [] \<and> last (butlast s) = CHR ''='' then butlast (butlast s) else butlast s)
     else s)"

definition atob :: "string \<Rightarrow> nat list option" where
  "atob s = (case traverse base64_value (drop_equals (filter (\<lambda>c. \<not> base64_space c) s)) of
     None \<Rightarrow> None | Some ss \<Rightarrow> sextets_bytes ss)"

lemma base64_char_value: "n < 64 \<Longrightarrow> base64_value (base64_char n) = Some n"
  by (auto simp: base64_value_def base64_char_def Let_def)

lemma base64_char_plain: "n < 64 \<Longrightarrow> base64_char n \<noteq> CHR ''='' \<and> \<not> base64_space (base64_char n)"
proof (rule ccontr)
  assume n: "n < 64" and "\<not> (base64_char n \<noteq> CHR ''='' \<and> \<not> base64_space (base64_char n))"
  then have "base64_char n \<in> {CHR ''='', CHR 0x09, CHR 0x0A, CHR 0x0C, CHR 0x0D, CHR '' ''}" by (auto simp: base64_space_def)
  then have "base64_value (base64_char n) = None" by (auto simp: base64_value_def)
  with base64_char_value [OF n] show False by simp
qed


text \<open>What \<open>btoa\<close> writes before the equals signs, and how many of these it adds.\<close>

fun sextets :: "nat list \<Rightarrow> nat list" where
  "sextets [] = []"
| "sextets [a] = [a div 4, a mod 4 * 16]"
| "sextets [a, b] = [a div 4, a mod 4 * 16 + b div 16, b mod 16 * 4]"
| "sextets (a # b # c # bs) = a div 4 # (a mod 4 * 16 + b div 16) # (b mod 16 * 4 + c div 64) # c mod 64 # sextets bs"

definition padding :: "nat list \<Rightarrow> string" where
  "padding bs = (if length bs mod 3 = 1 then ''=='' else if length bs mod 3 = 2 then ''='' else [])"

lemma padding_simps: "padding [] = []" "padding [a] = ''==''" "padding [a, b] = ''=''" "padding (a # b # c # bs) = padding bs"
proof -
  have "Suc (Suc (Suc n)) mod 3 = n mod 3" for n by presburger
  then show "padding (a # b # c # bs) = padding bs" by (simp only: padding_def list.size add_0_right add_Suc_right)
qed (simp_all add: padding_def)

lemma btoa_sextets: "btoa bs = map base64_char (sextets bs) @ padding bs"
  by (induction bs rule: btoa.induct) (simp_all add: padding_simps)

lemma length_btoa: "length (btoa bs) mod 4 = 0"
  by (induction bs rule: btoa.induct) simp_all

lemma packed:
  fixes m n q :: nat
  assumes "q < n"
  shows "(m * n + q) div n = m" "(m * n + q) mod n = q"
  using assms by simp_all

lemma byte_parts:
  fixes a b :: nat
  assumes "a < 256"
  shows "a div 4 < 64" "a div 16 < 16" "a div 64 < 4" "b mod 4 * 16 + a div 16 < 64" "b mod 16 * 4 + a div 64 < 64"
    "b mod 4 * 16 < 64" "b mod 16 * 4 < 64" "b mod 64 < 64"
proof -
  show "a div 4 < 64" "a div 16 < 16" "a div 64 < 4" using assms by simp_all
  moreover have "b mod 4 < 4" "b mod 16 < 16" by simp_all
  ultimately show "b mod 4 * 16 + a div 16 < 64" "b mod 16 * 4 + a div 64 < 64" "b mod 4 * 16 < 64" "b mod 16 * 4 < 64"
    by linarith+
qed simp

lemma sextets_small: "\<forall>b \<in> set bs. b < 256 \<Longrightarrow> \<forall>n \<in> set (sextets bs). n < 64"
  by (induction bs rule: sextets.induct) (simp_all add: byte_parts del: div_less)

lemma sextets_bytes: "\<forall>b \<in> set bs. b < 256 \<Longrightarrow> sextets_bytes (sextets bs) = Some bs"
proof (induction bs rule: sextets.induct)
  case (2 a)
  then show ?case by simp
next
  case (3 a b)
  then show ?case by (simp add: packed byte_parts)
next
  case (4 a b c bs)
  then have "b < 256" "c < 256" by simp_all
  then have "b div 16 < 16" "c div 64 < 4" by (simp_all only: byte_parts)
  with 4 show ?case by (simp add: packed)
qed simp

lemma drop_equals_padding:
  assumes "length (s @ padding bs) mod 4 = 0" "CHR ''='' \<notin> set s"
  shows "drop_equals (s @ padding bs) = s"
proof -
  have "s \<noteq> [] \<Longrightarrow> last s \<noteq> CHR ''=''" using assms(2) by (metis last_in_set)
  moreover have "padding bs \<in> {[], ''='', ''==''}" by (simp add: padding_def)
  ultimately show ?thesis using assms(1) by (auto simp: drop_equals_def butlast_append)
qed

lemma atob_btoa:
  assumes "\<forall>b \<in> set bs. b < 256"
  shows "atob (btoa bs) = Some bs"
proof -
  have small: "\<forall>n \<in> set (sextets bs). n < 64" by (rule sextets_small [OF assms])
  have pad: "\<forall>c \<in> set (padding bs). \<not> base64_space c" by (simp add: padding_def base64_space_def)
  have plain: "CHR ''='' \<notin> set (map base64_char (sextets bs))"
  proof
    assume "CHR ''='' \<in> set (map base64_char (sextets bs))"
    then obtain n where "n \<in> set (sextets bs)" "base64_char n = CHR ''=''" by auto
    with small base64_char_plain show False by blast
  qed
  have "filter (\<lambda>c. \<not> base64_space c) (btoa bs) = btoa bs"
    using small pad by (auto simp: btoa_sextets base64_char_plain intro!: filter_True)
  moreover have "drop_equals (btoa bs) = map base64_char (sextets bs)"
    using length_btoa [of bs] plain unfolding btoa_sextets by (intro drop_equals_padding)
  moreover have "traverse base64_value (map base64_char (sextets bs)) = Some (sextets bs)"
    using small by (simp add: traverse_Some_iff base64_char_value)
  ultimately show ?thesis by (simp add: atob_def sextets_bytes [OF assms])
qed

section \<open>Cursors\<close>

datatype cursor_value =
    CvText string
  | CvNumber rat
  | CvNull
  | CvParts nat "rat + string" string

record record_cursor =
  rc_value :: cursor_value
  rc_id :: string

definition validCursorText :: "string \<Rightarrow> bool" where
  "validCursorText s \<longleftrightarrow> length s \<le> 500 \<and> CHR 0x00 \<notin> set s"

text \<open>\<open>/^-?\d+(?:\.\d+)?$/\<close>\<close>

definition is_digit_char :: "char \<Rightarrow> bool" where
  "is_digit_char c \<longleftrightarrow> (let n = of_char c :: nat in 48 \<le> n \<and> n \<le> 57)"

definition decimal_text :: "string \<Rightarrow> bool" where
  "decimal_text s =
     (let t = (if s \<noteq> [] \<and> hd s = CHR ''-'' then tl s else s);
          whole = takeWhile is_digit_char t; rest = dropWhile is_digit_char t in
      whole \<noteq> [] \<and> (rest = [] \<or> hd rest = CHR ''.'' \<and> tl rest \<noteq> [] \<and> list_all is_digit_char (tl rest)))"

definition validCursorNumber :: "jv \<Rightarrow> (rat + string) option" where
  "validCursorNumber v = (case v of
     JNum (Fin q) \<Rightarrow> if q \<noteq> of_int \<lfloor>q\<rfloor> \<or> \<bar>q\<bar> < 2 ^ 53 then Some (Inl q) else None
   | JStr s \<Rightarrow> if length s \<le> 3000 \<and> decimal_text s then Some (Inr s) else None
   | _ \<Rightarrow> None)"

definition cursor_number :: "rat + string \<Rightarrow> jv" where
  "cursor_number x = (case x of Inl q \<Rightarrow> JNum (Fin q) | Inr s \<Rightarrow> JStr s)"

definition cursor_jv :: "cursor_value \<Rightarrow> jv" where
  "cursor_jv v = (case v of
     CvText s \<Rightarrow> JStr s
   | CvNumber q \<Rightarrow> JNum (Fin q)
   | CvNull \<Rightarrow> JNull
   | CvParts r n t \<Rightarrow> JObj [(''rank'', JInt (int r)), (''number'', cursor_number n), (''text'', JStr t)])"

definition token_jv :: "string \<Rightarrow> cursor_value \<Rightarrow> string \<Rightarrow> jv" where
  "token_jv scope v i = JObj [(''scope'', JStr scope), (''value'', cursor_jv v), (''id'', JStr i)]"

text \<open>\<open>JSON.stringify\<close> gives a text for every value of this shape.\<close>

definition token_bytes :: "string \<Rightarrow> cursor_value \<Rightarrow> string \<Rightarrow> nat list" where
  "token_bytes scope v i = (case json_string (token_jv scope v i) of None \<Rightarrow> [] | Some t \<Rightarrow> utf8 t)"

definition encodeRecordCursor :: "string \<Rightarrow> cursor_value \<Rightarrow> string \<Rightarrow> string" where
  "encodeRecordCursor scope v i = btoa (token_bytes scope v i)"

text \<open>The members of the object are three, so their sorted names are the ones asked for.\<close>

definition cursor_parts :: "jv jmap \<Rightarrow> cursor_value option" where
  "cursor_parts m =
     (if length m = 3 \<and> list_all (\<lambda>k. k \<in> set (jkeys m)) [''number'', ''rank'', ''text'']
      then (case (find (\<lambda>r. strict_eq (read_prop m ''rank'') (JInt (int r))) [0, 1, 2],
                  validCursorNumber (read_prop m ''number''), read_prop m ''text'') of
          (Some r, Some n, JStr t) \<Rightarrow> if validCursorText t then Some (CvParts r n t) else None
        | _ \<Rightarrow> None)
      else None)"

definition read_cursor_value :: "jv \<Rightarrow> cursor_value option" where
  "read_cursor_value v = (case v of
     JStr s \<Rightarrow> if validCursorText s then Some (CvText s) else None
   | JNum (Fin q) \<Rightarrow> Some (CvNumber q)
   | JNull \<Rightarrow> Some CvNull
   | JObj m \<Rightarrow> cursor_parts m
   | _ \<Rightarrow> None)"

definition decodeRecordCursor :: "(nat list \<Rightarrow> jv option) \<Rightarrow> string \<Rightarrow> string \<Rightarrow> record_cursor option" where
  "decodeRecordCursor parse token scope =
     (if 4096 < length token then None
      else (case atob token of
          None \<Rightarrow> None
        | Some bytes \<Rightarrow> (case parse bytes of
            Some (JObj m) \<Rightarrow>
              if \<not> strict_eq (read_prop m ''scope'') (JStr scope) then None
              else (case (read_cursor_value (read_prop m ''value''), read_prop m ''id'') of
                  (Some v, JStr i) \<Rightarrow> if length i \<le> 500 then Some \<lparr>rc_value = v, rc_id = i\<rparr> else None
                | _ \<Rightarrow> None)
          | _ \<Rightarrow> None)))"

section \<open>A token is read back\<close>

definition valid_cursor_value :: "cursor_value \<Rightarrow> bool" where
  "valid_cursor_value v \<longleftrightarrow> (case v of
     CvText s \<Rightarrow> validCursorText s
   | CvParts r n t \<Rightarrow> r \<le> 2 \<and> validCursorNumber (cursor_number n) \<noteq> None \<and> validCursorText t
   | _ \<Rightarrow> True)"

lemma read_cursor_jv: "valid_cursor_value v \<Longrightarrow> read_cursor_value (cursor_jv v) = Some v"
proof (cases v)
  case (CvParts r n t)
  assume "valid_cursor_value v"
  with CvParts have v: "r \<le> 2" "validCursorNumber (cursor_number n) \<noteq> None" "validCursorText t"
    by (simp_all add: valid_cursor_value_def)
  have n: "validCursorNumber (cursor_number n) = Some n"
    using v(2) by (cases n) (auto simp: validCursorNumber_def cursor_number_def split: if_splits)
  have r: "find (\<lambda>k. strict_eq (JInt (int r)) (JInt (int k))) [0, 1, 2] = Some r"
    using v(1) by (auto simp: le_Suc_eq numeral_eq_Suc)
  show ?thesis using n r v(3) by (simp add: CvParts read_cursor_value_def cursor_jv_def cursor_parts_def)
qed (simp_all add: valid_cursor_value_def read_cursor_value_def cursor_jv_def)

lemma utf8_bytes: "\<forall>b \<in> set (utf8 s). b < 256"
proof -
  have "192 + of_char c div 64 < (256 :: nat)" "128 + of_char c mod 64 < (256 :: nat)" for c :: char
    using byte_parts(3) [OF nat_of_char_less_256, of c] mod_less_divisor [of 64 "of_char c :: nat"] by linarith+
  then show ?thesis using nat_of_char_less_256 by (auto simp: utf8_def Let_def)
qed

lemma token_bytes_small: "\<forall>b \<in> set (token_bytes scope v i). b < 256"
  by (cases "json_string (token_jv scope v i)") (simp_all add: token_bytes_def utf8_bytes)

lemma decode_encoded:
  assumes "valid_cursor_value v" "length i \<le> 500" "length (encodeRecordCursor scope v i) \<le> 4096"
    and "parse (token_bytes scope v i) = Some (token_jv scope v i)"
  shows "decodeRecordCursor parse (encodeRecordCursor scope v i) scope = Some \<lparr>rc_value = v, rc_id = i\<rparr>"
    and "scope' \<noteq> scope \<Longrightarrow> decodeRecordCursor parse (encodeRecordCursor scope v i) scope' = None"
  using assms read_cursor_jv [OF assms(1)] atob_btoa [OF token_bytes_small]
  by (simp_all add: decodeRecordCursor_def encodeRecordCursor_def token_jv_def)

end
