(* ===== verification/Record_Order.thy ===== *)
theory Record_Order
  imports Access_Query "HOL-Library.Multiset"
begin

text \<open>
  \<open>ORDER BY\<close>: the order of SQL values and of keys made of several, the sorting of rows by an
  order (\<open>row_order\<close>), and what \<open>LIMIT\<close> makes of sorted parts that are put together.
\<close>

section \<open>Texts\<close>

text \<open>The bytes of texts are ordered like a dictionary.\<close>

lemma compare_bytes_swap: "compare_bytes a b = - compare_bytes b a"
  by (induction a b rule: compare_bytes.induct) simp_all

lemma compare_bytes_zero: "compare_bytes a b = 0 \<longleftrightarrow> a = b"
  by (induction a b rule: compare_bytes.induct) auto

lemma compare_bytes_trans: "compare_bytes a b < 0 \<Longrightarrow> compare_bytes b c < 0 \<Longrightarrow> compare_bytes a c < 0"
proof (induction a arbitrary: b c)
  case Nil
  then show ?case by (cases b; cases c) auto
next
  case (Cons x xs)
  then show ?case by (cases b; cases c) (auto split: if_splits)
qed

lemma utf8_Cons: "utf8 (c # cs) = (let n = of_char c in if n < 128 then [n] else [192 + n div 64, 128 + n mod 64]) @ utf8 cs"
  by (simp add: utf8_def)

lemma utf8_inject: "utf8 s = utf8 t \<Longrightarrow> s = t"
proof (induction s arbitrary: t)
  case Nil
  then show ?case by (cases t) (auto simp: utf8_def Let_def split: if_splits)
next
  case (Cons c s)
  then obtain d u where t: "t = d # u" by (cases t) (auto simp: utf8_def Let_def split: if_splits)
  have eq: "(of_char c :: nat) = of_char d \<and> utf8 s = utf8 u"
  proof (cases "of_char c < (128 :: nat)")
    case True
    with Cons.prems show ?thesis by (auto simp: t utf8_Cons Let_def split: if_splits)
  next
    case False
    with Cons.prems have "of_char c div 64 = (of_char d div 64 :: nat)" "of_char c mod 64 = (of_char d mod 64 :: nat)"
      "utf8 s = utf8 u"
      by (auto simp: t utf8_Cons Let_def split: if_splits)
    then show ?thesis by (metis div_mult_mod_eq)
  qed
  with Cons.IH show ?case by (auto simp: t)
qed

definition text_lt :: "string \<Rightarrow> string \<Rightarrow> bool" where
  "text_lt s t \<longleftrightarrow> compare_bytes (utf8 s) (utf8 t) < 0"

lemma text_lt_irrefl: "\<not> text_lt s s"
  using compare_bytes_zero [of "utf8 s" "utf8 s"] by (simp add: text_lt_def)

lemma text_lt_trans: "text_lt s t \<Longrightarrow> text_lt t u \<Longrightarrow> text_lt s u"
  unfolding text_lt_def by (rule compare_bytes_trans)

lemma text_lt_total: "text_lt s t \<or> s = t \<or> text_lt t s"
  using compare_bytes_swap [of "utf8 s" "utf8 t"] compare_bytes_zero [of "utf8 s" "utf8 t"] utf8_inject [of s t]
  unfolding text_lt_def by linarith

section \<open>Values and keys\<close>

text \<open>Nulls come first.\<close>

definition sql_lt :: "sqlv \<Rightarrow> sqlv \<Rightarrow> bool" where
  "sql_lt a b \<longleftrightarrow> (if a = QNull then b \<noteq> QNull else case sql_order a b of None \<Rightarrow> False | Some c \<Rightarrow> c < 0)"

fun keys_lt :: "sqlv list \<Rightarrow> sqlv list \<Rightarrow> bool" where
  "keys_lt (x # xs) (y # ys) = (sql_lt x y \<or> x = y \<and> keys_lt xs ys)"
| "keys_lt [] (y # ys) = True"
| "keys_lt xs [] = False"

text \<open>A strict order in which any two things compare.\<close>

locale strict_order =
  fixes lt :: "'a \<Rightarrow> 'a \<Rightarrow> bool"
  assumes lt_irrefl: "\<not> lt a a"
    and lt_trans: "lt a b \<Longrightarrow> lt b c \<Longrightarrow> lt a c"
    and lt_total: "lt a b \<or> a = b \<or> lt b a"
begin

lemma lt_asym: "lt a b \<Longrightarrow> \<not> lt b a"
  using lt_trans lt_irrefl by blast

text \<open>Two things are not both before the other; the order read from the other end is one too.\<close>

lemma lt_flip: "strict_order (\<lambda>a b. lt b a)"
  by unfold_locales (use lt_irrefl lt_trans lt_total in blast)+

end

definition directed :: "bool \<Rightarrow> ('a \<Rightarrow> 'a \<Rightarrow> bool) \<Rightarrow> 'a \<Rightarrow> 'a \<Rightarrow> bool" where
  "directed asc lt a b \<longleftrightarrow> (if asc then lt a b else lt b a)"

lemma directed_simps [simp]: "directed True lt = lt" "directed False lt = (\<lambda>a b. lt b a)"
  by (auto simp: directed_def fun_eq_iff)

interpretation texts: strict_order text_lt
  by unfold_locales (use text_lt_irrefl text_lt_trans text_lt_total in blast)+

lemma sql_lt_simps [simp]:
  "sql_lt QNull b \<longleftrightarrow> b \<noteq> QNull" "\<not> sql_lt a QNull"
  "sql_lt (QNum x) (QNum y) \<longleftrightarrow> x < y" "sql_lt (QNum x) (QText t)" "\<not> sql_lt (QText s) (QNum y)"
  "sql_lt (QText s) (QText t) \<longleftrightarrow> text_lt s t"
  by (auto simp: sql_lt_def text_lt_def) (cases a; simp)

interpretation sql: strict_order sql_lt
proof
  show "\<not> sql_lt a a" for a by (cases a) (simp_all add: texts.lt_irrefl)
  show "sql_lt a b \<Longrightarrow> sql_lt b c \<Longrightarrow> sql_lt a c" for a b c
    by (cases a; cases b; cases c) (auto dest: texts.lt_trans)
  show "sql_lt a b \<or> a = b \<or> sql_lt b a" for a b
    using texts.lt_total by (cases a; cases b) auto
qed

interpretation keys: strict_order keys_lt
proof
  show "\<not> keys_lt a a" for a by (induction a) (simp_all add: sql.lt_irrefl)
  show "keys_lt a b \<Longrightarrow> keys_lt b c \<Longrightarrow> keys_lt a c" for a b c
  proof (induction a b arbitrary: c rule: keys_lt.induct)
    case (1 x xs y ys)
    then show ?case by (cases c) (auto dest: sql.lt_trans)
  next
    case (2 y ys)
    then show ?case by (cases c) auto
  qed auto
  show "keys_lt a b \<or> a = b \<or> keys_lt b a" for a b
    by (induction a b rule: keys_lt.induct) (use sql.lt_total in auto, metis keys_lt.simps(2) list.exhaust)
qed

section \<open>Sorting\<close>

fun insert_row :: "('r \<Rightarrow> 'r \<Rightarrow> bool) \<Rightarrow> 'r \<Rightarrow> 'r list \<Rightarrow> 'r list" where
  "insert_row le x [] = [x]"
| "insert_row le x (y # ys) = (if le x y then x # y # ys else y # insert_row le x ys)"

definition order_by :: "('r \<Rightarrow> 'r \<Rightarrow> bool) \<Rightarrow> 'r list \<Rightarrow> 'r list" where
  "order_by le xs = foldr (insert_row le) xs []"

lemma order_by_simps [simp]: "order_by le [] = []" "order_by le (x # xs) = insert_row le x (order_by le xs)"
  by (simp_all add: order_by_def)

lemma mset_insert_row [simp]: "mset (insert_row le x ys) = add_mset x (mset ys)"
  by (induction ys) auto

lemma mset_order_by [simp]: "mset (order_by le xs) = mset xs"
  by (induction xs) auto

lemma set_order_by [simp]: "set (order_by le xs) = set xs"
  by (metis mset_order_by set_mset_mset)

lemma length_order_by [simp]: "length (order_by le xs) = length xs"
  by (metis mset_order_by size_mset)

locale row_order =
  fixes le :: "'r \<Rightarrow> 'r \<Rightarrow> bool"
  assumes le_total: "le a b \<or> le b a"
    and le_trans: "le a b \<Longrightarrow> le b c \<Longrightarrow> le a c"
begin

lemma sorted_insert: "sorted_wrt le ys \<Longrightarrow> sorted_wrt le (insert_row le x ys)"
proof (induction ys)
  case (Cons y ys)
  have members: "set (insert_row le x ys) = insert x (set ys)" by (metis mset_insert_row set_mset_add_mset_insert set_mset_mset)
  show ?case
  proof (cases "le x y")
    case True
    with Cons.prems le_trans show ?thesis by auto
  next
    case False
    then have "le y x" using le_total by blast
    with Cons False members show ?thesis by auto
  qed
qed simp

lemma sorted_order_by: "sorted_wrt le (order_by le xs)"
  by (induction xs) (simp_all add: sorted_insert)

text \<open>Where rows that are level are the same row, there is one way to sort.\<close>

lemma sorted_unique:
  assumes "\<And>a b. a \<in> set xs \<Longrightarrow> b \<in> set xs \<Longrightarrow> le a b \<Longrightarrow> le b a \<Longrightarrow> a = b"
  shows "sorted_wrt le xs \<Longrightarrow> sorted_wrt le ys \<Longrightarrow> mset xs = mset ys \<Longrightarrow> xs = ys"
  using assms
proof (induction xs arbitrary: ys)
  case (Cons x xs)
  obtain y zs where ys: "ys = y # zs" using Cons.prems(3) by (cases ys) auto
  have same: "set (x # xs) = set (y # zs)" using Cons.prems(3) ys by (metis set_mset_mset)
  have "x = y"
  proof (cases "x = y")
    case False
    then have "x \<in> set zs" "y \<in> set xs" using same by auto
    then have "le x y" "le y x" using Cons.prems(1,2) ys by auto
    moreover have "y \<in> set (x # xs)" using same by simp
    ultimately show ?thesis using Cons.prems(4) [of x y] by simp
  qed simp
  moreover have "xs = zs" using Cons.prems ys \<open>x = y\<close> by (intro Cons.IH) auto
  ultimately show ?case using ys by simp
qed simp

lemma order_unique:
  assumes "\<And>a b. a \<in> set xs \<Longrightarrow> b \<in> set xs \<Longrightarrow> le a b \<Longrightarrow> le b a \<Longrightarrow> a = b"
    and "sorted_wrt le xs" "mset xs = mset ys"
  shows "order_by le ys = xs"
  using sorted_unique [of xs "order_by le ys"] assms sorted_order_by by fastforce

lemma order_sorted: "sorted_wrt le xs \<Longrightarrow> order_by le xs = xs"
proof (induction xs)
  case (Cons x xs)
  then have "order_by le xs = xs" by simp
  with Cons.prems show ?case by (cases xs) simp_all
qed simp

lemma order_filter:
  assumes "\<And>a b. a \<in> set xs \<Longrightarrow> b \<in> set xs \<Longrightarrow> le a b \<Longrightarrow> le b a \<Longrightarrow> a = b"
  shows "order_by le (filter P xs) = filter P (order_by le xs)"
  using assms by (intro order_unique) (auto intro: sorted_wrt_filter sorted_order_by simp: mset_filter)

lemma order_parts:
  assumes "\<And>a b. a \<in> set xs \<Longrightarrow> b \<in> set xs \<Longrightarrow> le a b \<Longrightarrow> le b a \<Longrightarrow> a = b"
    and "\<And>a b. a \<in> set xs \<Longrightarrow> b \<in> set xs \<Longrightarrow> P a \<Longrightarrow> Q b \<Longrightarrow> le a b" "\<And>a. a \<in> set xs \<Longrightarrow> \<not> (P a \<and> Q a)"
  shows "order_by le (filter (\<lambda>a. P a \<or> Q a) xs) = order_by le (filter P xs) @ order_by le (filter Q xs)"
proof (rule order_unique)
  have "mset (filter P xs) + mset (filter Q xs) = mset (filter (\<lambda>a. P a \<or> Q a) xs)"
    using assms(3) by (induction xs) auto
  then show "mset (order_by le (filter P xs) @ order_by le (filter Q xs)) = mset (filter (\<lambda>a. P a \<or> Q a) xs)" by simp
  show "sorted_wrt le (order_by le (filter P xs) @ order_by le (filter Q xs))"
    using assms(2) by (auto simp: sorted_wrt_append sorted_order_by)
qed (use assms(1) in auto)

text \<open>Classes of rows, each before the next.\<close>

lemma order_classes:
  assumes "\<And>a b. a \<in> set xs \<Longrightarrow> b \<in> set xs \<Longrightarrow> le a b \<Longrightarrow> le b a \<Longrightarrow> a = b"
    and "sorted_wrt (\<lambda>P Q. \<forall>a \<in> set xs. \<forall>b \<in> set xs. P a \<longrightarrow> Q b \<longrightarrow> le a b \<and> a \<noteq> b) Ps"
  shows "concat (map (\<lambda>P. order_by le (filter P xs)) Ps) = order_by le (filter (\<lambda>a. list_ex (\<lambda>P. P a) Ps) xs)"
  using assms(2)
proof (induction Ps)
  case (Cons P Ps)
  have before: "le a b \<and> a \<noteq> b" if "a \<in> set xs" "b \<in> set xs" "P a" "list_ex (\<lambda>P. P b) Ps" for a b
    using Cons.prems that by (auto simp: list_ex_iff)
  have "order_by le (filter (\<lambda>a. P a \<or> list_ex (\<lambda>P. P a) Ps) xs) =
      order_by le (filter P xs) @ order_by le (filter (\<lambda>a. list_ex (\<lambda>P. P a) Ps) xs)"
    using before assms(1) by (intro order_parts) blast+
  with Cons show ?case by simp
qed simp

text \<open>The first rows of the first rows of each part.\<close>

lemma take_concat_take: "take n (concat (map (take n) xss)) = take n (concat xss)"
proof (induction xss)
  case (Cons xs xss)
  have "take (n - length xs) (concat (map (take n) xss)) = take (n - length xs) (concat xss)"
    using Cons by (metis diff_le_self min.absorb_iff2 min.commute take_take)
  moreover have "n - min (length xs) n = n - length xs" by simp
  ultimately show ?case by simp
qed simp

lemma sorted_concat_take: "sorted_wrt le (concat xss) \<Longrightarrow> sorted_wrt le (concat (map (take n) xss))"
proof (induction xss)
  case (Cons xs xss)
  have "set (concat (map (take n) xss)) \<subseteq> set (concat xss)" by (auto dest: in_set_takeD)
  with Cons show ?case by (auto simp: sorted_wrt_append sorted_wrt_take dest!: in_set_takeD)
qed simp

lemma limit_concat:
  assumes "sorted_wrt le (concat xss)"
  shows "take n (order_by le (concat (map (take n) xss))) = take n (concat xss)"
  by (simp only: order_sorted [OF sorted_concat_take [OF assms]] take_concat_take)

lemma limit_classes:
  assumes "\<And>a b. a \<in> set xs \<Longrightarrow> b \<in> set xs \<Longrightarrow> le a b \<Longrightarrow> le b a \<Longrightarrow> a = b"
    and "sorted_wrt (\<lambda>P Q. \<forall>a \<in> set xs. \<forall>b \<in> set xs. P a \<longrightarrow> Q b \<longrightarrow> le a b \<and> a \<noteq> b) Ps"
  shows "take n (order_by le (concat (map (\<lambda>P. take n (order_by le (filter P xs))) Ps))) =
    take n (filter (\<lambda>a. list_ex (\<lambda>P. P a) Ps) (order_by le xs))"
proof -
  let ?xss = "map (\<lambda>P. order_by le (filter P xs)) Ps"
  have "map (\<lambda>P. take n (order_by le (filter P xs))) Ps = map (take n) ?xss" by simp
  moreover have whole: "concat ?xss = order_by le (filter (\<lambda>a. list_ex (\<lambda>P. P a) Ps) xs)"
    by (rule order_classes [OF assms])
  moreover have "sorted_wrt le (concat ?xss)" unfolding whole by (rule sorted_order_by)
  ultimately show ?thesis
    by (simp only: limit_concat order_filter [OF assms(1)])
qed

end

text \<open>Rows that have the same order are sorted the same way.\<close>

lemma order_by_cong:
  assumes "\<And>a b. a \<in> set xs \<Longrightarrow> b \<in> set xs \<Longrightarrow> le a b = le' a b"
  shows "order_by le xs = order_by le' xs"
proof -
  have "insert_row le x ys = insert_row le' x ys" if "x \<in> set xs" "set ys \<subseteq> set xs" for x ys
    using that assms by (induction ys) auto
  then have "set zs \<subseteq> set xs \<Longrightarrow> order_by le zs = order_by le' zs" for zs
    by (induction zs) auto
  then show ?thesis by blast
qed

section \<open>Rows by key and id\<close>

definition row_le :: "bool \<Rightarrow> ('r \<Rightarrow> sqlv list) \<Rightarrow> ('r \<Rightarrow> string) \<Rightarrow> 'r \<Rightarrow> 'r \<Rightarrow> bool" where
  "row_le asc k i a b \<longleftrightarrow> directed asc keys_lt (k a) (k b) \<or> k a = k b \<and> \<not> text_lt (i b) (i a)"

interpretation ends: strict_order "directed asc keys_lt" for asc
  by (cases asc) (simp_all add: keys.strict_order_axioms keys.lt_flip)

lemma ids_trans: "\<not> text_lt b a \<Longrightarrow> \<not> text_lt c b \<Longrightarrow> \<not> text_lt c a"
  using texts.lt_total texts.lt_trans by metis

interpretation rows: row_order "row_le asc k i" for asc k i
proof
  show "row_le asc k i a b \<or> row_le asc k i b a" for a b
    using ends.lt_total [of asc "k a" "k b"] texts.lt_asym [of "i a" "i b"] by (auto simp: row_le_def)
  show "row_le asc k i a b \<Longrightarrow> row_le asc k i b c \<Longrightarrow> row_le asc k i a c" for a b c
    using ends.lt_trans [of asc "k a" "k b" "k c"] ids_trans [of "i b" "i a" "i c"] unfolding row_le_def by metis
qed

lemma row_le_level: "row_le asc k i a b \<Longrightarrow> row_le asc k i b a \<Longrightarrow> k a = k b \<and> i a = i b"
  using texts.lt_total [of "i a" "i b"] ends.lt_asym [of asc "k a" "k b"] ends.lt_irrefl [of asc "k b"]
  unfolding row_le_def by metis

end
