(* ===== verification/Record_Pages.thy ===== *)
theory Record_Pages
  imports Record_Cursor Record_Order
begin

text \<open>
  \<open>buildRecordPageSelection\<close> of \<open>packages/studio-server/src/record-page-query.ts\<close>: the
  statement that selects the ids of a page, after a cursor or at an offset. The statement is a
  tree that prints to the text the code concatenates (\<open>page_text\<close>), with its bindings in the
  order of the placeholders; \<open>page_rows\<close> is what the database makes of it. \<open>asc\<close> is the
  order, \<open>parts\<close> says that the sort key has parts (Postgres), \<open>byId\<close> that the sort is the
  id.
\<close>

section \<open>Statements\<close>

datatype page_test =
    IdBeyond bool
  | KeyNullAfter
  | KeyNotNull
  | KeyNull
  | KeyTied
  | KeyBeyond bool
  | PartsTied
  | PartsBeyond bool

datatype page_order = OrderId bool | OrderKey bool | OrderParts bool

datatype page_sql =
    PageOffset page_order
  | PageId bool
  | PageMerge "(page_test \<times> page_order) list" page_order

record selection =
  ps_sql :: page_sql
  ps_bindings :: "scalar list"

definition bind_number :: "rat + string \<Rightarrow> scalar" where
  "bind_number n = (case n of Inl q \<Rightarrow> ScNum q | Inr s \<Rightarrow> ScStr s)"

definition bind_int :: "nat \<Rightarrow> scalar" where
  "bind_int n = ScNum (of_nat n)"

text \<open>The cursors that are a text or a number.\<close>

definition bind_value :: "cursor_value \<Rightarrow> scalar" where
  "bind_value v = (case v of CvText s \<Rightarrow> ScStr s | CvNumber q \<Rightarrow> ScNum q | _ \<Rightarrow> ScNull)"

definition buildRecordPageSelection :: "bool \<Rightarrow> bool \<Rightarrow> bool \<Rightarrow> scalar list \<Rightarrow> nat \<Rightarrow> nat \<Rightarrow> record_cursor option \<Rightarrow> selection" where
  "buildRecordPageSelection asc parts byId args perPage offset cursor =
     (let limit = bind_int (perPage + 1);
          order = (if parts then OrderParts asc else OrderKey asc) in
      case cursor of
        None \<Rightarrow> \<lparr>ps_sql = PageOffset order, ps_bindings = args @ [limit, bind_int offset]\<rparr>
      | Some c \<Rightarrow>
          let i = ScStr (rc_id c) in
          if byId then \<lparr>ps_sql = PageId asc, ps_bindings = args @ [i, limit]\<rparr>
          else (case (parts, rc_value c) of
              (True, CvParts r n t) \<Rightarrow>
                let key = [bind_int r, bind_number n, ScStr t] in
                \<lparr>ps_sql = PageMerge [(PartsTied, OrderId True), (PartsBeyond asc, OrderParts asc)] (OrderParts asc),
                 ps_bindings = args @ key @ [i, limit] @ args @ key @ [limit, limit]\<rparr>
            | (_, CvNull) \<Rightarrow>
                if \<not> asc then
                  \<lparr>ps_sql = PageMerge [(KeyNullAfter, OrderId True)] (OrderKey asc),
                   ps_bindings = args @ [i, limit, limit]\<rparr>
                else
                  \<lparr>ps_sql = PageMerge [(KeyNullAfter, OrderId True), (KeyNotNull, order)] (OrderKey asc),
                   ps_bindings = args @ [i, limit] @ args @ [limit, limit]\<rparr>
            | (_, v) \<Rightarrow>
                if asc then
                  \<lparr>ps_sql = PageMerge [(KeyTied, OrderId True), (KeyBeyond asc, order)] (OrderKey asc),
                   ps_bindings = args @ [bind_value v, i, limit] @ args @ [bind_value v, limit, limit]\<rparr>
                else
                  \<lparr>ps_sql = PageMerge [(KeyTied, OrderId True), (KeyBeyond asc, order), (KeyNull, OrderId True)] (OrderKey asc),
                   ps_bindings = args @ [bind_value v, i, limit] @ args @ [bind_value v, limit] @ args @ [limit, limit]\<rparr>))"

section \<open>Their text\<close>

record page_names =
  pn_source :: string
  pn_where :: string
  pn_sort :: string
  pn_parts :: "string list"
  pn_equal :: string

definition dir_text :: "bool \<Rightarrow> string" where
  "dir_text asc = (if asc then ''ASC'' else ''DESC'')"

definition beyond_text :: "bool \<Rightarrow> string" where
  "beyond_text asc = (if asc then ''>'' else ''<'')"

definition parts_row :: "page_names \<Rightarrow> string" where
  "parts_row s = ''('' @ join_with '','' (pn_parts s) @ '')''"

fun test_text :: "page_names \<Rightarrow> page_test \<Rightarrow> string" where
  "test_text s (IdBeyond asc) = ''id'' @ beyond_text asc @ ''?''"
| "test_text s KeyNullAfter = pn_sort s @ '' IS NULL AND id>?''"
| "test_text s KeyNotNull = pn_sort s @ '' IS NOT NULL''"
| "test_text s KeyNull = pn_sort s @ '' IS NULL''"
| "test_text s KeyTied = pn_sort s @ '' '' @ pn_equal s @ '' ? AND id>?''"
| "test_text s (KeyBeyond asc) = pn_sort s @ beyond_text asc @ ''?''"
| "test_text s PartsTied = parts_row s @ ''=(?,?,?) AND id>?''"
| "test_text s (PartsBeyond asc) = parts_row s @ beyond_text asc @ ''(?,?,?)''"

fun order_text :: "page_names \<Rightarrow> page_order \<Rightarrow> string" where
  "order_text s (OrderId asc) = ''id '' @ dir_text asc"
| "order_text s (OrderKey asc) = pn_sort s @ '' '' @ dir_text asc @ '',id ASC''"
| "order_text s (OrderParts asc) = join_with '','' (map (\<lambda>p. p @ '' '' @ dir_text asc) (pn_parts s)) @ '',id ASC''"

definition projected_parts :: "page_names \<Rightarrow> string" where
  "projected_parts s = join_with '','' (map (\<lambda>(n, p). p @ '' AS cursor_part_'' @ dec_digits (int n)) (enumerate 0 (pn_parts s)))"

definition branch_text :: "page_names \<Rightarrow> string \<Rightarrow> page_test \<times> page_order \<Rightarrow> string" where
  "branch_text s columns b = ''SELECT '' @ columns @ '' FROM '' @ pn_source s @ '' WHERE '' @ pn_where s @ '' AND '' @
     test_text s (fst b) @ '' ORDER BY '' @ order_text s (snd b) @ '' LIMIT ?''"

text \<open>The branches of a key with parts stand as they are; the others are named.\<close>

fun page_text :: "page_names \<Rightarrow> page_sql \<Rightarrow> string" where
  "page_text s (PageOffset order) = ''SELECT id FROM '' @ pn_source s @ '' WHERE '' @ pn_where s @ '' ORDER BY '' @
     order_text s order @ '' LIMIT ? OFFSET ?''"
| "page_text s (PageId asc) = branch_text s ''id'' (IdBeyond asc, OrderId asc)"
| "page_text s (PageMerge bs (OrderParts asc)) = ''SELECT id FROM ('' @
     join_with '' UNION ALL '' (map (\<lambda>b. ''('' @ branch_text s (''id,'' @ projected_parts s) b @ '')'') bs) @ '') positions ORDER BY '' @
     join_with '','' (map (\<lambda>n. ''cursor_part_'' @ dec_digits (int n) @ '' '' @ dir_text asc) [0..<length (pn_parts s)]) @ '',id ASC LIMIT ?''"
| "page_text s (PageMerge bs (OrderKey asc)) = ''SELECT id FROM ('' @
     join_with '' UNION ALL '' (map (\<lambda>(n, b). ''SELECT * FROM ('' @ branch_text s (''id,'' @ pn_sort s @ '' AS cursor_sort'') b @
       '') page_'' @ dec_digits (int n)) (enumerate 0 bs)) @ '') positions ORDER BY cursor_sort '' @ dir_text asc @ '',id ASC LIMIT ?''"
| "page_text s (PageMerge bs (OrderId asc)) = []"

section \<open>Their rows\<close>

text \<open>A table: its rows, their ids and keys, the condition with the number of its placeholders,
  and how the database reads a decimal text that is compared with a number.\<close>

record 'r page_table =
  pt_rows :: "'r list"
  pt_id :: "'r \<Rightarrow> string"
  pt_key :: "'r \<Rightarrow> sqlv"
  pt_parts :: "'r \<Rightarrow> sqlv list"
  pt_arity :: nat
  pt_where :: "'r \<Rightarrow> sqlv list \<Rightarrow> bool option"
  pt_number :: "string \<Rightarrow> rat"

definition read_number :: "'r page_table \<Rightarrow> sqlv \<Rightarrow> sqlv" where
  "read_number T v = (case v of QText s \<Rightarrow> QNum (pt_number T s) | _ \<Rightarrow> v)"

text \<open>Rows of values compare from left to right.\<close>

fun row_order_of :: "sqlv list \<Rightarrow> sqlv list \<Rightarrow> int option" where
  "row_order_of (x # xs) (y # ys) = (case sql_order x y of None \<Rightarrow> None
     | Some c \<Rightarrow> if c \<noteq> 0 then Some c else row_order_of xs ys)"
| "row_order_of _ _ = Some 0"

definition beyond :: "bool \<Rightarrow> sqlv \<Rightarrow> sqlv \<Rightarrow> bool option" where
  "beyond asc a b = sql_compare (if asc then SGt else SLt) a b"

fun test_arity :: "page_test \<Rightarrow> nat" where
  "test_arity (IdBeyond _) = 1"
| "test_arity KeyNullAfter = 1"
| "test_arity KeyNotNull = 0"
| "test_arity KeyNull = 0"
| "test_arity KeyTied = 2"
| "test_arity (KeyBeyond _) = 1"
| "test_arity PartsTied = 4"
| "test_arity (PartsBeyond _) = 3"

fun test_eval :: "'r page_table \<Rightarrow> 'r \<Rightarrow> page_test \<Rightarrow> sqlv list \<Rightarrow> bool option" where
  "test_eval T r (IdBeyond asc) [i] = beyond asc (QText (pt_id T r)) i"
| "test_eval T r KeyNullAfter [i] = and3 (Some (pt_key T r = QNull)) (beyond True (QText (pt_id T r)) i)"
| "test_eval T r KeyNotNull [] = Some (pt_key T r \<noteq> QNull)"
| "test_eval T r KeyNull [] = Some (pt_key T r = QNull)"
| "test_eval T r KeyTied [v, i] = and3 (sql_compare SIs (pt_key T r) v) (beyond True (QText (pt_id T r)) i)"
| "test_eval T r (KeyBeyond asc) [v] = beyond asc (pt_key T r) v"
| "test_eval T r PartsTied [k, n, t, i] =
     and3 (map_option (\<lambda>c. c = 0) (row_order_of (pt_parts T r) [k, read_number T n, t])) (beyond True (QText (pt_id T r)) i)"
| "test_eval T r (PartsBeyond asc) [k, n, t] =
     map_option (\<lambda>c. if asc then 0 < c else c < 0) (row_order_of (pt_parts T r) [k, read_number T n, t])"
| "test_eval T r _ _ = None"

fun order_keys :: "'r page_table \<Rightarrow> page_order \<Rightarrow> 'r \<Rightarrow> sqlv list" where
  "order_keys T (OrderId asc) r = [QText (pt_id T r)]"
| "order_keys T (OrderKey asc) r = [pt_key T r]"
| "order_keys T (OrderParts asc) r = pt_parts T r"

fun order_asc :: "page_order \<Rightarrow> bool" where
  "order_asc (OrderId asc) = asc" | "order_asc (OrderKey asc) = asc" | "order_asc (OrderParts asc) = asc"

definition page_le :: "'r page_table \<Rightarrow> page_order \<Rightarrow> 'r \<Rightarrow> 'r \<Rightarrow> bool" where
  "page_le T order = row_le (order_asc order) (order_keys T order) (pt_id T)"

definition int_of_binding :: "sqlv list \<Rightarrow> nat" where
  "int_of_binding bs = (case bs of QNum q # _ \<Rightarrow> nat \<lfloor>q\<rfloor> | _ \<Rightarrow> 0)"

definition where_rows :: "'r page_table \<Rightarrow> sqlv list \<Rightarrow> 'r list" where
  "where_rows T bs = filter (\<lambda>r. pt_where T r (take (pt_arity T) bs) = Some True) (pt_rows T)"

text \<open>A branch with its bindings: those of the condition, those of the test, the limit.\<close>

definition branch_rows :: "'r page_table \<Rightarrow> page_test \<times> page_order \<Rightarrow> sqlv list \<Rightarrow> 'r list \<times> sqlv list" where
  "branch_rows T b bs =
     (let w = take (pt_arity T) bs; bs = drop (pt_arity T) bs;
          t = take (test_arity (fst b)) bs; bs = drop (test_arity (fst b)) bs in
      (take (int_of_binding bs)
         (order_by (page_le T (snd b)) (filter (\<lambda>r. and3 (pt_where T r w) (test_eval T r (fst b) t) = Some True) (pt_rows T))),
       drop 1 bs))"

fun page_rows :: "'r page_table \<Rightarrow> page_sql \<Rightarrow> sqlv list \<Rightarrow> 'r list" where
  "page_rows T (PageOffset order) bs =
     (let rest = drop (pt_arity T) bs in
      take (int_of_binding rest) (drop (int_of_binding (drop 1 rest)) (order_by (page_le T order) (where_rows T bs))))"
| "page_rows T (PageId asc) bs = fst (branch_rows T (IdBeyond asc, OrderId asc) bs)"
| "page_rows T (PageMerge branches order) bs =
     (let (rs, rest) = thread (branch_rows T) branches bs in
      take (int_of_binding rest) (order_by (page_le T order) (concat rs)))"

definition selected_rows :: "'r page_table \<Rightarrow> selection \<Rightarrow> 'r list" where
  "selected_rows T sel = page_rows T (ps_sql sel) (map bound (ps_bindings sel))"

end
