(* ===== verification/Record_Walk.thy ===== *)
theory Record_Walk
  imports Record_Pages
begin

text \<open>
  What a page holds: the rows that come right after the cursor in the order of the list, whichever
  of the statements is built.
\<close>

section \<open>Rows after a cursor\<close>

definition after_row :: "'r page_table \<Rightarrow> page_order \<Rightarrow> sqlv list \<Rightarrow> string \<Rightarrow> 'r \<Rightarrow> bool" where
  "after_row T order ks i r \<longleftrightarrow> directed (order_asc order) keys_lt ks (order_keys T order r) \<or>
     ks = order_keys T order r \<and> text_lt i (pt_id T r)"

text \<open>The order of the list that a request asks for.\<close>

definition list_order :: "bool \<Rightarrow> bool \<Rightarrow> bool \<Rightarrow> page_order" where
  "list_order asc parts byId = (if byId then OrderId asc else if parts then OrderParts asc else OrderKey asc)"

definition cursor_keys :: "'r page_table \<Rightarrow> bool \<Rightarrow> record_cursor \<Rightarrow> sqlv list" where
  "cursor_keys T byId c = (if byId then [QText (rc_id c)]
     else (case rc_value c of
         CvParts r n t \<Rightarrow> [QNum (of_nat r), read_number T (bound (bind_number n)), QText t]
       | v \<Rightarrow> [bound (bind_value v)]))"

text \<open>The kind of the cursor fits the sort, and rows have the three parts that are asked for.\<close>

definition cursor_fits :: "bool \<Rightarrow> bool \<Rightarrow> record_cursor \<Rightarrow> bool" where
  "cursor_fits parts byId c \<longleftrightarrow> byId \<or> (parts \<longleftrightarrow> (\<exists>r n t. rc_value c = CvParts r n t))"

definition parts_ok :: "'r page_table \<Rightarrow> bool" where
  "parts_ok T \<longleftrightarrow> (\<forall>r \<in> set (pt_rows T). \<exists>k n t. pt_parts T r = [QNum k, QNum n, QText t])"

definition ids_unique :: "'r page_table \<Rightarrow> sqlv list \<Rightarrow> bool" where
  "ids_unique T w \<longleftrightarrow> inj_on (pt_id T) (set (where_rows T w))"

lemma where_rows_mem: "r \<in> set (where_rows T bs) \<Longrightarrow> r \<in> set (pt_rows T)"
  by (simp add: where_rows_def)

lemma page_le_level:
  assumes "ids_unique T w" "a \<in> set (where_rows T w)" "b \<in> set (where_rows T w)" "page_le T order a b" "page_le T order b a"
  shows "a = b"
proof -
  have "pt_id T a = pt_id T b" using row_le_level [OF assms(4,5) [unfolded page_le_def]] ..
  with assms(1-3) show ?thesis by (auto simp: ids_unique_def inj_on_def)
qed

lemma page_le_keys: "directed (order_asc order) keys_lt (order_keys T order a) (order_keys T order b) \<Longrightarrow> page_le T order a b"
  by (simp add: page_le_def row_le_def)

lemma page_le_tied:
  assumes "order_keys T order a = order_keys T order b"
  shows "page_le T (OrderId True) a b \<longleftrightarrow> page_le T order a b"
proof -
  have "page_le T order a b \<longleftrightarrow> \<not> text_lt (pt_id T b) (pt_id T a)"
    unfolding page_le_def row_le_def assms using ends.lt_irrefl by metis
  moreover have "page_le T (OrderId True) a b \<longleftrightarrow> text_lt (pt_id T a) (pt_id T b) \<or> pt_id T a = pt_id T b \<and> \<not> text_lt (pt_id T b) (pt_id T a)"
    by (simp add: page_le_def row_le_def)
  ultimately show ?thesis
    using texts.lt_total [of "pt_id T a" "pt_id T b"] texts.lt_asym [of "pt_id T a" "pt_id T b"] by metis
qed

section \<open>A branch\<close>

lemma int_of_limit [simp]: "int_of_binding (QNum (of_nat n) # bs) = n"
  by (simp add: int_of_binding_def)

lemma branch_eval:
  assumes "length w = pt_arity T" "length ts = test_arity t"
  shows "branch_rows T (t, order) (w @ ts @ QNum (of_nat n) # rest) =
    (take n (order_by (page_le T order) (filter (\<lambda>r. test_eval T r t ts = Some True) (where_rows T w))), rest)"
proof -
  have "filter (\<lambda>r. test_eval T r t ts = Some True) (filter (\<lambda>r. pt_where T r w = Some True) (pt_rows T)) =
      filter (\<lambda>r. pt_where T r w = Some True \<and> test_eval T r t ts = Some True) (pt_rows T)"
    by simp
  with assms show ?thesis by (simp add: branch_rows_def where_rows_def Let_def)
qed

lemma tied_branch:
  assumes "\<And>r. r \<in> set xs \<Longrightarrow> P r \<Longrightarrow> order_keys T order r = ks"
  shows "order_by (page_le T (OrderId True)) (filter P xs) = order_by (page_le T order) (filter P xs)"
  using assms by (intro order_by_cong page_le_tied) simp

section \<open>What the tests say\<close>

lemma beyond_text: "beyond asc (QText s) (QText t) = Some True \<longleftrightarrow> directed asc text_lt t s"
  using compare_bytes_swap [of "utf8 s" "utf8 t"] by (auto simp: beyond_def text_lt_def)

lemma beyond_key:
  assumes "v \<noteq> QNull"
  shows "beyond asc a v = Some True \<longleftrightarrow> a \<noteq> QNull \<and> directed asc sql_lt v a"
proof -
  have "directed asc sql_lt (QText s) (QText t) \<longleftrightarrow> directed asc text_lt s t" for s t by (cases asc) simp_all
  then show ?thesis
    using assms beyond_text [of asc] by (cases a; cases v) (auto simp: beyond_def)
qed

lemma keys_one: "directed asc keys_lt [x] [y] \<longleftrightarrow> directed asc sql_lt x y"
  by (cases asc) simp_all

section \<open>The branches together\<close>

definition passes :: "'r page_table \<Rightarrow> page_test \<Rightarrow> sqlv list \<Rightarrow> 'r \<Rightarrow> bool" where
  "passes T t ts r \<longleftrightarrow> test_eval T r t ts = Some True"

type_synonym bound_branch = "page_test \<times> page_order \<times> sqlv list"

definition branch_bindings :: "sqlv list \<Rightarrow> sqlv \<Rightarrow> bound_branch \<Rightarrow> sqlv list" where
  "branch_bindings w n b = w @ snd (snd b) @ [n]"

lemma thread_branches:
  assumes "length w = pt_arity T" "list_all (\<lambda>b. length (snd (snd b)) = test_arity (fst b)) bl"
  shows "thread (branch_rows T) (map (\<lambda>b. (fst b, fst (snd b))) bl)
      (concat (map (branch_bindings w (QNum (of_nat n))) bl) @ rest) =
    (map (\<lambda>b. take n (order_by (page_le T (fst (snd b))) (filter (passes T (fst b) (snd (snd b))) (where_rows T w)))) bl, rest)"
  using assms(2)
proof (induction bl)
  case (Cons b bl)
  have "branch_rows T (fst b, fst (snd b)) (branch_bindings w (QNum (of_nat n)) b @ more) =
      (take n (order_by (page_le T (fst (snd b))) (filter (passes T (fst b) (snd (snd b))) (where_rows T w))), more)" for more
    using branch_eval [OF assms(1), of "snd (snd b)" "fst b"] Cons.prems
    by (simp add: branch_bindings_def passes_def [abs_def])
  with Cons show ?case by simp
qed simp

lemma page_merge:
  assumes ids: "ids_unique T w" and w: "length w = pt_arity T"
    and arity: "list_all (\<lambda>b. length (snd (snd b)) = test_arity (fst b)) bl"
    and same: "list_all (\<lambda>b. fst (snd b) = order \<or> fst (snd b) = OrderId True \<and>
      (\<forall>r \<in> set (where_rows T w). passes T (fst b) (snd (snd b)) r \<longrightarrow> order_keys T order r = ks b)) bl"
    and before: "sorted_wrt (\<lambda>P Q. \<forall>a \<in> set (where_rows T w). \<forall>b \<in> set (where_rows T w). P a \<longrightarrow> Q b \<longrightarrow> page_le T order a b \<and> a \<noteq> b)
      (map (\<lambda>b. passes T (fst b) (snd (snd b))) bl)"
  shows "page_rows T (PageMerge (map (\<lambda>b. (fst b, fst (snd b))) bl) order)
      (concat (map (branch_bindings w (QNum (of_nat n))) bl) @ [QNum (of_nat n)]) =
    take n (filter (\<lambda>r. list_ex (\<lambda>b. passes T (fst b) (snd (snd b)) r) bl) (order_by (page_le T order) (where_rows T w)))"
proof -
  let ?xs = "where_rows T w" and ?Ps = "map (\<lambda>b. passes T (fst b) (snd (snd b))) bl"
  have one: "order_by (page_le T (fst (snd b))) (filter (passes T (fst b) (snd (snd b))) ?xs) =
      order_by (page_le T order) (filter (passes T (fst b) (snd (snd b))) ?xs)" if "b \<in> set bl" for b
    using same that tied_branch [of ?xs "passes T (fst b) (snd (snd b))" T order "ks b"] by (auto simp: list_all_iff)
  have level: "a = b" if "a \<in> set ?xs" "b \<in> set ?xs" "page_le T order a b" "page_le T order b a" for a b
    using page_le_level [OF ids] that by blast
  have "page_rows T (PageMerge (map (\<lambda>b. (fst b, fst (snd b))) bl) order)
      (concat (map (branch_bindings w (QNum (of_nat n))) bl) @ [QNum (of_nat n)]) =
    take n (order_by (page_le T order) (concat (map (\<lambda>P. take n (order_by (page_le T order) (filter P ?xs))) ?Ps)))"
    using one by (simp add: thread_branches [OF w arity] o_def cong: map_cong)
  also have "\<dots> = take n (filter (\<lambda>a. list_ex (\<lambda>P. P a) ?Ps) (order_by (page_le T order) ?xs))"
    unfolding page_le_def
    by (rule rows.limit_classes) (use level before in \<open>auto simp: page_le_def\<close>)
  finally show ?thesis by (simp add: list_ex_iff)
qed

section \<open>The page\<close>

lemma bound_simps [simp]:
  "bound (bind_int n) = QNum (of_nat n)" "bound (ScStr s) = QText s" "bound (bind_number x) \<noteq> QNull"
  "bound (bind_value CvNull) = QNull"
  by (simp_all add: bound_def bind_int_def bind_number_def bind_value_def split: sum.split)

lemma int_of_limit_Suc [simp]: "int_of_binding (QNum (1 + of_nat n) # bs) = Suc n"
  using int_of_limit [of "Suc n" bs] by simp

lemma keys_null: "directed asc keys_lt [QNull] [y] \<longleftrightarrow> asc \<and> y \<noteq> QNull"
  by (cases asc) simp_all

lemma row_order_parts:
  "row_order_of [QNum a, QNum b, QText s] [QNum c, QNum d, QText t] = Some 0 \<longleftrightarrow>
     [QNum a, QNum b, QText s] = [QNum c, QNum d, QText t]"
  "(\<exists>z. row_order_of [QNum a, QNum b, QText s] [QNum c, QNum d, QText t] = Some z \<and> (if asc then 0 < z else z < 0)) \<longleftrightarrow>
     directed asc keys_lt [QNum c, QNum d, QText t] [QNum a, QNum b, QText s]"
proof -
  have z: "compare_bytes (utf8 s) (utf8 t) = 0 \<longleftrightarrow> s = t" using compare_bytes_zero utf8_inject by metis
  then show "row_order_of [QNum a, QNum b, QText s] [QNum c, QNum d, QText t] = Some 0 \<longleftrightarrow>
     [QNum a, QNum b, QText s] = [QNum c, QNum d, QText t]"
    by auto
  have "text_lt s t \<longleftrightarrow> compare_bytes (utf8 s) (utf8 t) < 0" "text_lt t s \<longleftrightarrow> 0 < compare_bytes (utf8 s) (utf8 t)"
    using compare_bytes_swap [of "utf8 t" "utf8 s"] by (simp_all add: text_lt_def)
  with z show "(\<exists>z. row_order_of [QNum a, QNum b, QText s] [QNum c, QNum d, QText t] = Some z \<and> (if asc then 0 < z else z < 0)) \<longleftrightarrow>
     directed asc keys_lt [QNum c, QNum d, QText t] [QNum a, QNum b, QText s]"
    by (cases asc) auto
qed

lemma passes_simps:
  "passes T (IdBeyond asc) [QText i] r \<longleftrightarrow> directed asc text_lt i (pt_id T r)"
  "passes T KeyNullAfter [QText i] r \<longleftrightarrow> pt_key T r = QNull \<and> text_lt i (pt_id T r)"
  "passes T KeyNotNull [] r \<longleftrightarrow> pt_key T r \<noteq> QNull"
  "passes T KeyNull [] r \<longleftrightarrow> pt_key T r = QNull"
  "passes T KeyTied [v, QText i] r \<longleftrightarrow> pt_key T r = v \<and> text_lt i (pt_id T r)"
  "v \<noteq> QNull \<Longrightarrow> passes T (KeyBeyond asc) [v] r \<longleftrightarrow> pt_key T r \<noteq> QNull \<and> directed asc sql_lt v (pt_key T r)"
  by (simp_all add: passes_def beyond_text beyond_key)

lemma read_number_num:
  assumes "v \<noteq> QNull"
  obtains q where "read_number T v = QNum q"
  using assms by (cases v) (auto simp: read_number_def)

lemma passes_parts:
  assumes "pt_parts T r = [QNum k, QNum m, QText s]" "v \<noteq> QNull"
  shows "passes T PartsTied [QNum c, v, QText t, QText i] r \<longleftrightarrow>
      pt_parts T r = [QNum c, read_number T v, QText t] \<and> text_lt i (pt_id T r)"
    and "passes T (PartsBeyond asc) [QNum c, v, QText t] r \<longleftrightarrow>
      directed asc keys_lt [QNum c, read_number T v, QText t] (pt_parts T r)"
proof -
  obtain q where q: "read_number T v = QNum q" using read_number_num [OF assms(2)] .
  show "passes T PartsTied [QNum c, v, QText t, QText i] r \<longleftrightarrow>
      pt_parts T r = [QNum c, read_number T v, QText t] \<and> text_lt i (pt_id T r)"
    unfolding passes_def test_eval.simps q assms(1) and3_true beyond_text directed_simps map_option_eq_Some
    using row_order_parts(1) [of k m s c q t] by auto
  show "passes T (PartsBeyond asc) [QNum c, v, QText t] r \<longleftrightarrow>
      directed asc keys_lt [QNum c, read_number T v, QText t] (pt_parts T r)"
    unfolding passes_def test_eval.simps q assms(1) map_option_eq_Some
    using row_order_parts(2) [of k m s c q t asc] by auto
qed

text \<open>What is right of a key is another row than what is level with it.\<close>

lemma other_key: "directed asc keys_lt (f a) (f b) \<Longrightarrow> a \<noteq> b"
  using ends.lt_irrefl by metis

lemma page_id:
  assumes "ids_unique T w" "length w = pt_arity T"
  shows "page_rows T (PageId asc) (w @ [QText i, QNum (of_nat n)]) =
    take n (filter (after_row T (OrderId asc) [QText i] i) (order_by (page_le T (OrderId asc)) (where_rows T w)))"
proof -
  have "after_row T (OrderId asc) [QText i] i r \<longleftrightarrow> passes T (IdBeyond asc) [QText i] r" for r
    using texts.lt_irrefl [of i] by (cases asc) (auto simp: after_row_def passes_simps)
  then have after: "after_row T (OrderId asc) [QText i] i = passes T (IdBeyond asc) [QText i]" by blast
  have level: "a = b" if "a \<in> set (where_rows T w)" "b \<in> set (where_rows T w)"
    "page_le T (OrderId asc) a b" "page_le T (OrderId asc) b a" for a b
    using page_le_level [OF assms(1)] that by blast
  have "order_by (page_le T (OrderId asc)) (filter (passes T (IdBeyond asc) [QText i]) (where_rows T w)) =
      filter (passes T (IdBeyond asc) [QText i]) (order_by (page_le T (OrderId asc)) (where_rows T w))"
    unfolding page_le_def by (rule rows.order_filter) (use level in \<open>auto simp: page_le_def\<close>)
  then show ?thesis
    using branch_eval [OF assms(2), of "[QText i]" "IdBeyond asc" "OrderId asc" n "[]"]
    by (simp add: after passes_def [abs_def])
qed

lemma page_classes:
  assumes "ids_unique T w" "length w = pt_arity T"
    and "list_all (\<lambda>b. length (snd (snd b)) = test_arity (fst b)) bl"
    and "list_all (\<lambda>b. fst (snd b) = order \<or> fst (snd b) = OrderId True \<and>
      (\<forall>r \<in> set (where_rows T w). passes T (fst b) (snd (snd b)) r \<longrightarrow> order_keys T order r = ks b)) bl"
    and "sorted_wrt (\<lambda>P Q. \<forall>a \<in> set (where_rows T w). \<forall>b \<in> set (where_rows T w). P a \<longrightarrow> Q b \<longrightarrow>
      directed (order_asc order) keys_lt (order_keys T order a) (order_keys T order b)) (map (\<lambda>b. passes T (fst b) (snd (snd b))) bl)"
    and "\<And>r. r \<in> set (where_rows T w) \<Longrightarrow> list_ex (\<lambda>b. passes T (fst b) (snd (snd b)) r) bl \<longleftrightarrow> after_row T order c i r"
    and "branches = map (\<lambda>b. (fst b, fst (snd b))) bl"
    and "bs = concat (map (branch_bindings w (QNum (of_nat n))) bl) @ [QNum (of_nat n)]"
  shows "page_rows T (PageMerge branches order) bs =
    take n (filter (after_row T order c i) (order_by (page_le T order) (where_rows T w)))"
proof -
  have "sorted_wrt (\<lambda>P Q. \<forall>a \<in> set (where_rows T w). \<forall>b \<in> set (where_rows T w). P a \<longrightarrow> Q b \<longrightarrow> page_le T order a b \<and> a \<noteq> b)
      (map (\<lambda>b. passes T (fst b) (snd (snd b))) bl)"
    by (rule sorted_wrt_mono_rel [OF _ assms(5)]) (metis page_le_keys other_key)
  from page_merge [OF assms(1-4) this]
  have "page_rows T (PageMerge (map (\<lambda>b. (fst b, fst (snd b))) bl) order)
      (concat (map (branch_bindings w (QNum (of_nat n))) bl) @ [QNum (of_nat n)]) =
    take n (filter (\<lambda>r. list_ex (\<lambda>b. passes T (fst b) (snd (snd b)) r) bl) (order_by (page_le T order) (where_rows T w)))" .
  also have "filter (\<lambda>r. list_ex (\<lambda>b. passes T (fst b) (snd (snd b)) r) bl) (order_by (page_le T order) (where_rows T w)) =
      filter (after_row T order c i) (order_by (page_le T order) (where_rows T w))"
    using assms(6) by (intro filter_cong) simp_all
  finally show ?thesis unfolding assms(7,8) .
qed

lemmas branch_simps = branch_bindings_def passes_simps keys_one keys_null after_row_def order_asc.simps order_keys.simps

lemma page_null:
  assumes "ids_unique T w" "length w = pt_arity T"
  shows "page_rows T (PageMerge [(KeyNullAfter, OrderId True), (KeyNotNull, OrderKey True)] (OrderKey True))
      (w @ [QText i, QNum (of_nat n)] @ w @ [QNum (of_nat n), QNum (of_nat n)]) =
    take n (filter (after_row T (OrderKey True) [QNull] i) (order_by (page_le T (OrderKey True)) (where_rows T w)))"
    and "page_rows T (PageMerge [(KeyNullAfter, OrderId True)] (OrderKey False)) (w @ [QText i, QNum (of_nat n), QNum (of_nat n)]) =
    take n (filter (after_row T (OrderKey False) [QNull] i) (order_by (page_le T (OrderKey False)) (where_rows T w)))"
proof -
  show "page_rows T (PageMerge [(KeyNullAfter, OrderId True), (KeyNotNull, OrderKey True)] (OrderKey True))
      (w @ [QText i, QNum (of_nat n)] @ w @ [QNum (of_nat n), QNum (of_nat n)]) =
    take n (filter (after_row T (OrderKey True) [QNull] i) (order_by (page_le T (OrderKey True)) (where_rows T w)))"
    by (rule page_classes [OF assms, of "[(KeyNullAfter, OrderId True, [QText i]), (KeyNotNull, OrderKey True, [])]" _ "\<lambda>_. [QNull]"])
      (auto simp: branch_simps)
  show "page_rows T (PageMerge [(KeyNullAfter, OrderId True)] (OrderKey False)) (w @ [QText i, QNum (of_nat n), QNum (of_nat n)]) =
    take n (filter (after_row T (OrderKey False) [QNull] i) (order_by (page_le T (OrderKey False)) (where_rows T w)))"
    by (rule page_classes [OF assms, of "[(KeyNullAfter, OrderId True, [QText i])]" _ "\<lambda>_. [QNull]"]) (auto simp: branch_simps)
qed

lemma page_value:
  assumes "ids_unique T w" "length w = pt_arity T" "v \<noteq> QNull"
  shows "page_rows T (PageMerge [(KeyTied, OrderId True), (KeyBeyond True, OrderKey True)] (OrderKey True))
      (w @ [v, QText i, QNum (of_nat n)] @ w @ [v, QNum (of_nat n), QNum (of_nat n)]) =
    take n (filter (after_row T (OrderKey True) [v] i) (order_by (page_le T (OrderKey True)) (where_rows T w)))"
    and "page_rows T (PageMerge [(KeyTied, OrderId True), (KeyBeyond False, OrderKey False), (KeyNull, OrderId True)] (OrderKey False))
      (w @ [v, QText i, QNum (of_nat n)] @ w @ [v, QNum (of_nat n)] @ w @ [QNum (of_nat n), QNum (of_nat n)]) =
    take n (filter (after_row T (OrderKey False) [v] i) (order_by (page_le T (OrderKey False)) (where_rows T w)))"
proof -
  have low: "sql_lt QNull v" using assms(3) by simp
  show "page_rows T (PageMerge [(KeyTied, OrderId True), (KeyBeyond True, OrderKey True)] (OrderKey True))
      (w @ [v, QText i, QNum (of_nat n)] @ w @ [v, QNum (of_nat n), QNum (of_nat n)]) =
    take n (filter (after_row T (OrderKey True) [v] i) (order_by (page_le T (OrderKey True)) (where_rows T w)))"
    using assms(3)
    by (intro page_classes [OF assms(1,2), of "[(KeyTied, OrderId True, [v, QText i]), (KeyBeyond True, OrderKey True, [v])]" _ "\<lambda>_. [v]"])
      (auto simp: branch_simps)
  show "page_rows T (PageMerge [(KeyTied, OrderId True), (KeyBeyond False, OrderKey False), (KeyNull, OrderId True)] (OrderKey False))
      (w @ [v, QText i, QNum (of_nat n)] @ w @ [v, QNum (of_nat n)] @ w @ [QNum (of_nat n), QNum (of_nat n)]) =
    take n (filter (after_row T (OrderKey False) [v] i) (order_by (page_le T (OrderKey False)) (where_rows T w)))"
    using assms(3) low
    by (intro page_classes [OF assms(1,2), of "[(KeyTied, OrderId True, [v, QText i]), (KeyBeyond False, OrderKey False, [v]), (KeyNull, OrderId True, [])]"
        _ "\<lambda>b. if fst b = KeyNull then [QNull] else [v]"])
      (auto simp: branch_simps)
qed

lemma page_parts:
  assumes "ids_unique T w" "length w = pt_arity T" "parts_ok T" "v \<noteq> QNull"
  shows "page_rows T (PageMerge [(PartsTied, OrderId True), (PartsBeyond asc, OrderParts asc)] (OrderParts asc))
      (w @ [QNum c, v, QText t, QText i, QNum (of_nat n)] @ w @ [QNum c, v, QText t, QNum (of_nat n), QNum (of_nat n)]) =
    take n (filter (after_row T (OrderParts asc) [QNum c, read_number T v, QText t] i)
      (order_by (page_le T (OrderParts asc)) (where_rows T w)))"
proof -
  let ?ks = "[QNum c, read_number T v, QText t]"
  have tied: "passes T PartsTied [QNum c, v, QText t, QText i] r \<longleftrightarrow> pt_parts T r = ?ks \<and> text_lt i (pt_id T r)"
    and beyond: "passes T (PartsBeyond asc) [QNum c, v, QText t] r \<longleftrightarrow> directed asc keys_lt ?ks (pt_parts T r)"
    if mem: "r \<in> set (where_rows T w)" for r
  proof -
    obtain k m s where "pt_parts T r = [QNum k, QNum m, QText s]"
      using assms(3) where_rows_mem [OF mem] unfolding parts_ok_def by blast
    from passes_parts [OF this assms(4)]
    show "passes T PartsTied [QNum c, v, QText t, QText i] r \<longleftrightarrow> pt_parts T r = ?ks \<and> text_lt i (pt_id T r)"
      "passes T (PartsBeyond asc) [QNum c, v, QText t] r \<longleftrightarrow> directed asc keys_lt ?ks (pt_parts T r)" .
  qed
  show ?thesis
    by (rule page_classes [OF assms(1,2), of "[(PartsTied, OrderId True, [QNum c, v, QText t, QText i]), (PartsBeyond asc, OrderParts asc, [QNum c, v, QText t])]"
        _ "\<lambda>_. ?ks"])
      (auto simp: tied beyond branch_bindings_def after_row_def)
qed

lemma page_after:
  assumes "ids_unique T (map bound args)" "length args = pt_arity T" "cursor_fits parts byId c" "parts \<Longrightarrow> parts_ok T"
  shows "selected_rows T (buildRecordPageSelection asc parts byId args n off (Some c)) =
    take (n + 1) (filter (after_row T (list_order asc parts byId) (cursor_keys T byId c) (rc_id c))
      (order_by (page_le T (list_order asc parts byId)) (where_rows T (map bound args))))"
proof -
  let ?w = "map bound args"
  have w: "length ?w = pt_arity T" using assms(2) by simp
  note build = selected_rows_def buildRecordPageSelection_def Let_def list_order_def cursor_keys_def
  consider (id) byId | (parts) r m t where "\<not> byId" "parts" "rc_value c = CvParts r m t"
    | (null) "\<not> byId" "\<not> parts" "rc_value c = CvNull"
    | (other) "\<not> byId" "\<not> parts" "bound (bind_value (rc_value c)) \<noteq> QNull"
        "rc_value c \<noteq> CvNull" "\<And>r m t. rc_value c \<noteq> CvParts r m t"
    using assms(3) by (cases "rc_value c") (auto simp: cursor_fits_def bind_value_def bound_def)
  then show ?thesis
  proof cases
    case id
    with page_id [OF assms(1) w, of asc "rc_id c" "n + 1"] show ?thesis by (simp add: build)
  next
    case parts
    with page_parts [OF assms(1) w assms(4), of "bound (bind_number m)" asc "of_nat r" t "rc_id c" "n + 1"]
    show ?thesis by (simp add: build del: page_rows.simps)
  next
    case null
    with page_null [OF assms(1) w, of "rc_id c" "n + 1"] show ?thesis by (cases asc) (simp_all add: build del: page_rows.simps)
  next
    case other
    note pages = page_value [OF assms(1) w other(3), of "rc_id c" "n + 1"]
    show ?thesis
    proof (cases "rc_value c")
      case (CvParts r m t)
      with other(5) show ?thesis by blast
    qed (use pages other(1,2,4) in \<open>cases asc; simp add: build del: page_rows.simps\<close>)+
  qed
qed

lemma page_first:
  assumes "length args = pt_arity T"
  shows "selected_rows T (buildRecordPageSelection asc parts byId args n off None) =
    take (n + 1) (drop off (order_by (page_le T (list_order asc parts False)) (where_rows T (map bound args))))"
proof -
  have "where_rows T (map bound args @ bs) = where_rows T (map bound args)" for bs
    using assms by (simp add: where_rows_def)
  with assms show ?thesis
    by (simp add: selected_rows_def buildRecordPageSelection_def Let_def list_order_def)
qed

end
