(* ===== verification/Record_List.thy ===== *)
theory Record_List
  imports Record_Walk Access_Select
begin

text \<open>
  The list of the records of a collection: the handler of \<open>GET /api/records/:object\<close> in
  \<open>packages/studio-server/src/index.ts\<close> on SQLite, with \<open>indexedRecordSort\<close> of
  \<open>record-performance.ts\<close>. The collection is given with the indexes of its configuration. The
  total is counted: that the maintained counts and the cached pages agree with the table is not part
  of the model. The hash of the scope, \<open>JSON.parse\<close>, \<open>Number\<close> of a text and the database's
  text functions are the outside (\<open>list_env\<close>).
\<close>

record perf_index =
  pi_fields :: "string list"
  pi_asc :: bool

record list_env =
  le_parse :: "string \<Rightarrow> jv option"
  le_decode :: "nat list \<Rightarrow> jv option"
  le_number :: "string \<Rightarrow> jnum"
  le_scope :: "string \<times> string \<times> where_part list \<times> scalar list \<times> string \<times> bool \<times> nat \<Rightarrow> string"
  le_sqlite :: sqlite

record list_page =
  lp_rows :: "jv jmap list"
  lp_total :: nat
  lp_page :: "nat option"
  lp_perPage :: nat
  lp_next :: "string option"

section \<open>Sorting\<close>

definition row_columns :: "string list" where
  "row_columns = [''created_at'', ''updated_at'', ''id'']"

text \<open>The value of \<open>sortSql\<close>: a column, or a field of the data.\<close>

definition sort_value :: "string \<Rightarrow> placed_row \<Rightarrow> sqlv" where
  "sort_value sortBy r =
     (if sortBy = ''created_at'' then QText (sr_created_at (pr_row r))
      else if sortBy = ''updated_at'' then QText (sr_updated_at (pr_row r))
      else if sortBy = ''id'' then QText (sr_id (pr_row r))
      else field_sql r sortBy)"

definition exactEqualityFields :: "list_env \<Rightarrow> query_object \<Rightarrow> query_params \<Rightarrow> string list" where
  "exactEqualityFields env ob ps =
     (if param ps ''emptyStage'' = ''true'' then []
      else (let staged = (if param ps ''stage'' \<noteq> [] \<and> config_has ob (qo_pipeline ob) then [qo_pipeline ob] else []) in
        if param ps ''filters'' = [] then staged
        else (case le_parse env (param ps ''filters'') of
            None \<Rightarrow> staged
          | Some raw \<Rightarrow> (case parse_filters raw of
              None \<Rightarrow> staged
            | Some fs \<Rightarrow>
                if \<not> qf_all fs \<and> length (qf_conditions fs) \<noteq> 1 then staged
                else staged @ map qc_field (filter (\<lambda>c. qc_op c = FoEq \<and> config_has ob (qc_field c)) (qf_conditions fs))))))"

definition indexedRecordSort :: "list_env \<Rightarrow> query_object \<Rightarrow> perf_index list \<Rightarrow> string \<Rightarrow> bool \<Rightarrow> query_params \<Rightarrow> perf_index option" where
  "indexedRecordSort env ob indexes sortBy asc ps =
     (if param ps ''trash'' = ''true'' \<or> param ps ''q'' \<noteq> [] then None
      else find (\<lambda>ix. pi_asc ix = asc \<and> pi_fields ix \<noteq> [] \<and> last (pi_fields ix) = sortBy \<and>
        list_all (\<lambda>f. f \<in> set (exactEqualityFields env ob ps)) (butlast (pi_fields ix))) indexes)"

definition cursor_supported :: "list_env \<Rightarrow> query_object \<Rightarrow> perf_index list \<Rightarrow> string \<Rightarrow> bool \<Rightarrow> query_params \<Rightarrow> bool" where
  "cursor_supported env ob indexes sortBy asc ps \<longleftrightarrow>
     sortBy \<in> set row_columns \<or> indexedRecordSort env ob indexes sortBy asc ps \<noteq> None"

section \<open>Page numbers\<close>

definition param_number :: "list_env \<Rightarrow> query_params \<Rightarrow> string \<Rightarrow> jnum" where
  "param_number env ps k = (case jget ps k of None \<Rightarrow> NaN | Some s \<Rightarrow> le_number env s)"

text \<open>\<open>Math.max(1, Math.floor(n || 1))\<close>; \<open>None\<close> is infinity, which is no offset.\<close>

definition page_number :: "jnum \<Rightarrow> nat option" where
  "page_number n = (case n of
     Fin q \<Rightarrow> Some (if q = 0 then 1 else nat (max 1 \<lfloor>q\<rfloor>))
   | PInf \<Rightarrow> None
   | _ \<Rightarrow> Some 1)"

definition page_size :: "jnum \<Rightarrow> nat" where
  "page_size n = (case n of
     Fin q \<Rightarrow> if q = 0 then 25 else nat (min 200 (max 1 \<lfloor>q\<rfloor>))
   | PInf \<Rightarrow> 200 | NInf \<Rightarrow> 1 | NaN \<Rightarrow> 25)"

section \<open>The page\<close>

definition record_table :: "sqlite \<Rightarrow> placed_row list \<Rightarrow> where_part list \<Rightarrow> nat \<Rightarrow> string \<Rightarrow> placed_row page_table" where
  "record_table sl rows parts n sortBy = \<lparr>pt_rows = rows, pt_id = sr_id \<circ> pr_row, pt_key = sort_value sortBy, pt_parts = (\<lambda>_. []),
     pt_arity = n, pt_where = (\<lambda>r bs. fst (all3 (thread (eval_part sl r) parts bs))), pt_number = (\<lambda>_. 0)\<rparr>"

text \<open>The selected ids are joined with the records of the tenant and ordered again.\<close>

definition joined_rows :: "placed_row page_table \<Rightarrow> string \<Rightarrow> bool \<Rightarrow> placed_row list \<Rightarrow> placed_row list" where
  "joined_rows T tenant asc sel = order_by (page_le T (OrderKey asc))
     (concat (map (\<lambda>s. filter (\<lambda>r. pr_tenant r = tenant \<and> pt_id T r = pt_id T s) (pt_rows T)) sel))"

definition sql_cursor :: "sqlv \<Rightarrow> cursor_value" where
  "sql_cursor v = (case v of QNull \<Rightarrow> CvNull | QNum q \<Rightarrow> CvNumber q | QText s \<Rightarrow> CvText s)"

definition cursorValueSupported :: "cursor_value \<Rightarrow> bool" where
  "cursorValueSupported v = (case v of
     CvText s \<Rightarrow> length s \<le> 500
   | CvParts r n t \<Rightarrow> r \<le> 2 \<and> validCursorNumber (cursor_number n) \<noteq> None \<and> length t \<le> 500
   | _ \<Rightarrow> True)"

definition next_cursor :: "bool \<Rightarrow> string \<Rightarrow> placed_row page_table \<Rightarrow> nat \<Rightarrow> placed_row list \<Rightarrow> string option" where
  "next_cursor supported scope T perPage results =
     (let rows = take perPage results in
      if rows = [] then None
      else (let v = sql_cursor (pt_key T (last rows)) in
        if supported \<and> cursorValueSupported v \<and> perPage < length results
        then Some (encodeRecordCursor scope v (pt_id T (last rows))) else None))"

definition cursor_refused :: query_error where
  "cursor_refused = HttpError (''El cursor no corresponde a esta consulta. Recarga la lista.'', 422)"

text \<open>The cursor of a request: none, one that fits a sort without parts, or an error.\<close>

definition request_cursor :: "list_env \<Rightarrow> bool \<Rightarrow> string \<Rightarrow> query_params \<Rightarrow> query_error + record_cursor option" where
  "request_cursor env supported scope ps =
     (if param ps ''cursor'' = [] then Inr None
      else if \<not> supported then Inl (HttpError (''Este orden no admite cursores.'', 422))
      else (case decodeRecordCursor (le_decode env) (param ps ''cursor'') scope of
          None \<Rightarrow> Inl cursor_refused
        | Some c \<Rightarrow> (case rc_value c of CvParts _ _ _ \<Rightarrow> Inl cursor_refused | _ \<Rightarrow> Inr (Some c))))"

definition sort_of :: "query_params \<Rightarrow> string" where
  "sort_of ps = (case jget ps ''sort'' of None \<Rightarrow> ''updated_at'' | Some s \<Rightarrow> s)"

definition ascending :: "query_params \<Rightarrow> bool" where
  "ascending ps \<longleftrightarrow> jget ps ''order'' = Some ''ASC''"

definition listRecords :: "list_env \<Rightarrow> placed_row list \<Rightarrow> string \<Rightarrow> access_policy option \<Rightarrow> query_object \<Rightarrow> perf_index list
    \<Rightarrow> query_params \<Rightarrow> query_error + list_page" where
  "listRecords env rows tenant policy ob indexes ps =
     (let ob = ob\<lparr>qo_indexed := indexes \<noteq> []\<rparr>;
          perPage = page_size (param_number env ps ''perPage'');
          sortBy = sort_of ps; asc = ascending ps in
      if sortBy \<notin> set row_columns \<and> \<not> config_has ob sortBy
      then Inl (HttpError ((''Campo de orden inv'' @ [CHR 0xE1] @ ''lido.''), 400))
      else (case buildWhere (le_parse env) ob tenant ps policy of
          Inl e \<Rightarrow> Inl e
        | Inr (parts, args) \<Rightarrow>
            let supported = cursor_supported env ob indexes sortBy asc ps;
                scope = le_scope env (tenant, qo_name ob, parts, args, sortBy, asc, perPage);
                T = record_table (le_sqlite env) rows parts (length args) sortBy in
            (case request_cursor env supported scope ps of
                Inl e \<Rightarrow> Inl e
              | Inr cursor \<Rightarrow>
                  let page = page_number (param_number env ps ''page'') in
                  if page = None \<and> cursor = None then Inl TypeErr
                  else (let offset = (case page of None \<Rightarrow> 0 | Some n \<Rightarrow> (n - 1) * perPage);
                      sel = selected_rows T (buildRecordPageSelection asc False (sortBy = ''id'') args perPage offset cursor);
                      results = joined_rows T tenant asc sel in
                    Inr \<lparr>lp_rows = map (parseRecord \<circ> pr_row) (take perPage results),
                      lp_total = length (where_rows T (map bound args)), lp_page = page, lp_perPage = perPage,
                      lp_next = next_cursor supported scope T perPage results\<rparr>))))"

section \<open>Following the cursors\<close>

text \<open>The requests of a client that asks for the next page until there is none.\<close>

fun follow_pages :: "nat \<Rightarrow> (string option \<Rightarrow> query_error + list_page) \<Rightarrow> string option \<Rightarrow> jv jmap list option" where
  "follow_pages 0 request cur = None"
| "follow_pages (Suc n) request cur = (case request cur of
     Inl e \<Rightarrow> None
   | Inr p \<Rightarrow> (case lp_next p of
       None \<Rightarrow> Some (lp_rows p)
     | Some t \<Rightarrow> map_option (\<lambda>rest. lp_rows p @ rest) (follow_pages n request (Some t))))"

definition with_cursor :: "query_params \<Rightarrow> string option \<Rightarrow> query_params" where
  "with_cursor ps cur = (case cur of None \<Rightarrow> ps | Some t \<Rightarrow> jset ps ''cursor'' t)"

end
