(* ===== verification/Record_Follow.thy ===== *)
theory Record_Follow
  imports Record_List
begin

text \<open>
  Following the cursors of a list: the condition of the query does not depend on the cursor, the
  tokens are read back, and the pages are the pieces of one sorted list.
\<close>

section \<open>The condition does not look at the cursor\<close>

definition same_query :: "query_params \<Rightarrow> query_params \<Rightarrow> bool" where
  "same_query ps qs \<longleftrightarrow> (\<forall>k. k \<noteq> ''cursor'' \<longrightarrow> jget ps k = jget qs k)"

lemma same_query_jset: "same_query ps qs \<Longrightarrow> same_query (jset ps k v) (jset qs k v)"
  by (simp add: same_query_def jget_jset)

lemma same_query_param: "same_query ps qs \<Longrightarrow> k \<noteq> ''cursor'' \<Longrightarrow> param ps k = param qs k"
  by (simp add: same_query_def param_def)

lemma same_query_simps:
  assumes "same_query ps qs"
  shows "search_names ps = search_names qs" "queried_fields parse ps p = queried_fields parse qs p"
    "resolveSearchFields ob ps = resolveSearchFields ob qs" "search_segment ob t ps = search_segment ob t qs"
    "stage_segment ob ps = stage_segment ob qs" "filter_segment parse ob ps = filter_segment parse ob qs"
    "base_segment ob t ps = base_segment ob t qs"
proof -
  have p: "k \<noteq> ''cursor'' \<Longrightarrow> param ps k = param qs k" for k using same_query_param [OF assms] .
  show n: "search_names ps = search_names qs" using assms by (simp add: search_names_def same_query_def)
  show "queried_fields parse ps p = queried_fields parse qs p" by (simp add: queried_fields_def n p Let_def)
  show r: "resolveSearchFields ob ps = resolveSearchFields ob qs" by (simp add: resolveSearchFields_def p)
  show "search_segment ob t ps = search_segment ob t qs" by (simp add: search_segment_def r p)
  show "stage_segment ob ps = stage_segment ob qs" "filter_segment parse ob ps = filter_segment parse ob qs"
    "base_segment ob t ps = base_segment ob t qs"
    by (simp_all add: stage_segment_def filter_segment_def base_segment_def p Let_def)
qed

lemma same_query_check:
  assumes "same_query ps qs"
  shows "check_query parse pol ob ps = Inl e \<longleftrightarrow> check_query parse pol ob qs = Inl e"
    and "check_query parse pol ob ps = Inr ps' \<Longrightarrow> \<exists>qs'. check_query parse pol ob qs = Inr qs' \<and> same_query ps' qs'"
proof -
  have p: "k \<noteq> ''cursor'' \<Longrightarrow> param ps k = param qs k" for k using same_query_param [OF assms] .
  show "check_query parse pol ob ps = Inl e \<longleftrightarrow> check_query parse pol ob qs = Inl e"
    by (auto simp: check_query_def requireQueryAccess_def same_query_simps [OF assms] p Let_def split: option.splits sum.splits)
  show "check_query parse pol ob ps = Inr ps' \<Longrightarrow> \<exists>qs'. check_query parse pol ob qs = Inr qs' \<and> same_query ps' qs'"
    using assms same_query_jset [OF assms]
    by (auto simp: check_query_def requireQueryAccess_def same_query_simps [OF assms] p Let_def split: option.splits sum.splits if_splits)
qed

lemma same_query_where:
  assumes "same_query ps qs"
  shows "buildWhere parse ob t ps pol = buildWhere parse ob t qs pol"
proof (cases "check_query parse pol ob ps")
  case (Inl e)
  with same_query_check(1) [OF assms] have "check_query parse pol ob qs = Inl e" by blast
  with Inl show ?thesis by (simp add: buildWhere_def)
next
  case (Inr ps')
  then obtain qs' where q: "check_query parse pol ob qs = Inr qs'" "same_query ps' qs'"
    using same_query_check(2) [OF assms] by blast
  show ?thesis unfolding buildWhere_def Inr q(1) sum.case same_query_simps [OF q(2)] ..
qed

lemma same_query_cursor: "same_query (with_cursor ps cur) ps"
  by (cases cur) (simp_all add: same_query_def with_cursor_def jget_jset)

lemma same_query_list:
  assumes "same_query ps qs"
  shows "sort_of ps = sort_of qs" "ascending ps = ascending qs" "param_number env ps ''page'' = param_number env qs ''page''"
    "param_number env ps ''perPage'' = param_number env qs ''perPage''"
    "cursor_supported env ob ix s asc ps = cursor_supported env ob ix s asc qs"
proof -
  have p: "k \<noteq> ''cursor'' \<Longrightarrow> param ps k = param qs k" for k using same_query_param [OF assms] .
  have g: "k \<noteq> ''cursor'' \<Longrightarrow> jget ps k = jget qs k" for k using assms by (simp add: same_query_def)
  show "sort_of ps = sort_of qs" "ascending ps = ascending qs" "param_number env ps ''page'' = param_number env qs ''page''"
    "param_number env ps ''perPage'' = param_number env qs ''perPage''"
    by (simp_all add: sort_of_def ascending_def param_number_def g)
  have "exactEqualityFields env ob ps = exactEqualityFields env ob qs" by (simp add: exactEqualityFields_def p)
  then show "cursor_supported env ob ix s asc ps = cursor_supported env ob ix s asc qs"
    by (simp add: cursor_supported_def indexedRecordSort_def p)
qed

section \<open>The selected rows belong to the tenant\<close>

lemma where_starts:
  assumes "buildWhere parse ob t ps pol = Inr (parts, args)"
  obtains qs more margs where "parts = fst (base_segment ob t qs) @ more" "args = snd (base_segment ob t qs) @ margs"
  using assms by (auto simp: buildWhere_def split: sum.splits)

lemma selected_tenant:
  assumes "buildWhere parse ob t ps pol = Inr (parts, args)" "selects sl r parts args"
  shows "pr_tenant r = t \<and> pr_object r = qo_name ob"
proof -
  obtain qs more margs where s: "parts = fst (base_segment ob t qs) @ more" "args = snd (base_segment ob t qs) @ margs"
    using where_starts [OF assms(1)] .
  from selects_prefix [of sl r "fst (base_segment ob t qs)" "snd (base_segment ob t qs)", unfolded prod.collapse, OF splits_base]
  show ?thesis using assms(2) unfolding s by blast
qed

lemma table_where: "where_rows (record_table sl rows parts (length args) s) (map bound args) = filter (\<lambda>r. selects sl r parts args) rows"
  by (simp add: where_rows_def record_table_def selects_def)

section \<open>The pages\<close>

lemma filter_key_unique: "distinct (map f xs) \<Longrightarrow> s \<in> set xs \<Longrightarrow> filter (\<lambda>r. f r = f s) xs = [s]"
  by (induction xs) (auto simp: filter_empty_conv image_iff)

text \<open>What lies after a row of a sorted list is the rest of it.\<close>

lemma after_row_le: "after_row T order (order_keys T order x) (pt_id T x) r \<longleftrightarrow> \<not> page_le T order r x"
  using ends.lt_total [of "order_asc order" "order_keys T order x" "order_keys T order r"]
    ends.lt_asym [of "order_asc order" "order_keys T order x" "order_keys T order r"]
    ends.lt_irrefl [of "order_asc order" "order_keys T order x"]
  unfolding after_row_def page_le_def row_le_def by metis

lemma rest_after:
  assumes "ids_unique T w" "order_by (page_le T order) (where_rows T w) = pre @ x # rest" "distinct (where_rows T w)"
  shows "filter (after_row T order (order_keys T order x) (pt_id T x)) (pre @ x # rest) = rest"
proof -
  have sorted: "sorted_wrt (page_le T order) (pre @ x # rest)"
    unfolding assms(2) [symmetric] page_le_def by (rule rows.sorted_order_by)
  have members: "set (pre @ x # rest) = set (where_rows T w)" unfolding assms(2) [symmetric] by simp
  have "distinct (pre @ x # rest)" using assms(3) unfolding assms(2) [symmetric] by (metis mset_order_by mset_eq_imp_distinct_iff)
  then have others: "r \<noteq> x" if "r \<in> set rest" for r using that by auto
  have self: "page_le T order x x" unfolding page_le_def using rows.le_total [of _ _ _ x x] by simp
  have "filter (\<lambda>r. \<not> page_le T order r x) (pre @ [x]) = []"
    using sorted self by (auto simp: filter_empty_conv sorted_wrt_append)
  moreover have "filter (\<lambda>r. \<not> page_le T order r x) rest = rest"
  proof (rule filter_True, rule ballI, rule notI)
    fix r
    assume r: "r \<in> set rest" "page_le T order r x"
    have "page_le T order x r" using sorted r(1) by (auto simp: sorted_wrt_append)
    moreover have "r \<in> set (where_rows T w)" "x \<in> set (where_rows T w)" using r(1) members by auto
    ultimately show False using page_le_level [OF assms(1)] r others by blast
  qed
  ultimately show ?thesis using self unfolding after_row_le by simp
qed

text \<open>The join gives every selected row back.\<close>

lemma joined_same:
  assumes "distinct (map (\<lambda>r. (pr_tenant r, pt_id T r)) (pt_rows T))" "set sel \<subseteq> set (pt_rows T)"
    and "\<And>r. r \<in> set sel \<Longrightarrow> pr_tenant r = tenant" "sorted_wrt (page_le T (OrderKey asc)) sel"
  shows "joined_rows T tenant asc sel = sel"
proof -
  have one: "filter (\<lambda>r. pr_tenant r = tenant \<and> pt_id T r = pt_id T s) (pt_rows T) = [s]" if "s \<in> set sel" for s
    using filter_key_unique [OF assms(1), of s] assms(2,3) that by auto
  have "concat (map (\<lambda>s. filter (\<lambda>r. pr_tenant r = tenant \<and> pt_id T r = pt_id T s) (pt_rows T)) sel) = sel"
    using one by (induction sel) simp_all
  moreover have "order_by (page_le T (OrderKey asc)) sel = sel"
    using assms(4) unfolding page_le_def by (rule rows.order_sorted)
  ultimately show ?thesis by (simp add: joined_rows_def)
qed

text \<open>A cursor that is made from the value of a row.\<close>

lemma cursor_of_row:
  assumes "v = sql_cursor x"
  shows "bound (bind_value v) = x" "\<not> (\<exists>r n t. v = CvParts r n t)"
  using assms by (cases x; simp add: sql_cursor_def bind_value_def bound_def)+

text \<open>Following requests whose pages are the pieces of one list.\<close>

lemma follow_pieces:
  assumes pages: "\<And>cur pre rest. pre @ rest = xs \<Longrightarrow> position cur pre \<Longrightarrow> \<exists>p. request cur = Inr p \<and>
      lp_rows p = map f (take n rest) \<and>
      (if n < length rest then \<exists>t. lp_next p = Some t \<and> position (Some t) (pre @ take n rest) else lp_next p = None)"
    and "0 < n" "pre @ rest = xs" "position cur pre" "length rest < k"
  shows "follow_pages k request cur = Some (map f rest)"
  using assms(3-5)
proof (induction k arbitrary: cur pre rest)
  case (Suc k)
  obtain p where p: "request cur = Inr p" "lp_rows p = map f (take n rest)"
    "if n < length rest then \<exists>t. lp_next p = Some t \<and> position (Some t) (pre @ take n rest) else lp_next p = None"
    using pages [OF Suc.prems(1,2)] by blast
  show ?case
  proof (cases "n < length rest")
    case True
    then obtain t where t: "lp_next p = Some t" "position (Some t) (pre @ take n rest)" using p(3) by auto
    have "follow_pages k request (Some t) = Some (map f (drop n rest))"
      using Suc.prems(1,3) assms(2) True t(2) by (intro Suc.IH [of "pre @ take n rest"]) auto
    with p t(1) show ?thesis by (simp flip: map_append)
  qed (use p in simp)
qed simp

section \<open>One request\<close>

lemma table_simps [simp]:
  "pt_rows (record_table sl rows parts n s) = rows" "pt_id (record_table sl rows parts n s) = sr_id \<circ> pr_row"
  "pt_key (record_table sl rows parts n s) = sort_value s" "pt_arity (record_table sl rows parts n s) = n"
  by (simp_all add: record_table_def)

text \<open>A list that is sorted by the id is sorted by its key.\<close>

lemma id_order:
  assumes "s = ''id''"
  shows "order_keys (record_table sl rows parts n s) (OrderId asc) = order_keys (record_table sl rows parts n s) (OrderKey asc)"
    "page_le (record_table sl rows parts n s) (OrderId asc) = page_le (record_table sl rows parts n s) (OrderKey asc)"
proof -
  show k: "order_keys (record_table sl rows parts n s) (OrderId asc) = order_keys (record_table sl rows parts n s) (OrderKey asc)"
    using assms by (simp add: fun_eq_iff sort_value_def)
  show "page_le (record_table sl rows parts n s) (OrderId asc) = page_le (record_table sl rows parts n s) (OrderKey asc)"
    by (simp only: page_le_def k order_asc.simps)
qed

lemma cursor_page:
  assumes T: "T = record_table sl rows parts (length args) s" and ids: "ids_unique T (map bound args)"
  shows "selected_rows T (buildRecordPageSelection asc False (s = ''id'') args n off
      (Some \<lparr>rc_value = sql_cursor (pt_key T x), rc_id = pt_id T x\<rparr>)) =
    take (n + 1) (filter (after_row T (OrderKey asc) (order_keys T (OrderKey asc) x) (pt_id T x))
      (order_by (page_le T (OrderKey asc)) (where_rows T (map bound args))))"
proof -
  let ?c = "\<lparr>rc_value = sql_cursor (pt_key T x), rc_id = pt_id T x\<rparr>"
  have fits: "cursor_fits False (s = ''id'') ?c" using cursor_of_row [OF refl] by (simp add: cursor_fits_def)
  have keys: "cursor_keys T (s = ''id'') ?c = order_keys T (OrderKey asc) x"
    by (cases "pt_key T x"; cases "s = ''id''")
      (auto simp: cursor_keys_def T sql_cursor_def bind_value_def bound_def sort_value_def)
  have order: "after_row T (list_order asc False (s = ''id'')) = after_row T (OrderKey asc)"
    "page_le T (list_order asc False (s = ''id'')) = page_le T (OrderKey asc)"
    using id_order [of s] by (auto simp: list_order_def T after_row_def [abs_def])
  have "length args = pt_arity T" by (simp add: T)
  from page_after [OF ids this fits, of asc n off] show ?thesis unfolding keys order by simp
qed

lemma first_page:
  assumes "T = record_table sl rows parts (length args) s"
  shows "selected_rows T (buildRecordPageSelection asc False byId args n off None) =
    take (n + 1) (drop off (order_by (page_le T (OrderKey asc)) (where_rows T (map bound args))))"
  using page_first [of args T asc False byId n off] by (simp add: assms list_order_def)

text \<open>The tokens of the rows of a list are read back.\<close>

definition token_read :: "list_env \<Rightarrow> string \<Rightarrow> cursor_value \<Rightarrow> string \<Rightarrow> bool" where
  "token_read env scope v i \<longleftrightarrow> valid_cursor_value v \<and> length i \<le> 500 \<and> length (encodeRecordCursor scope v i) \<le> 4096 \<and>
     le_decode env (token_bytes scope v i) = Some (token_jv scope v i)"

lemma token_not_empty: "v = sql_cursor x \<Longrightarrow> encodeRecordCursor scope v i \<noteq> []"
proof -
  assume v: "v = sql_cursor x"
  have "token_bytes scope v i \<noteq> []"
    by (cases x) (auto simp: v token_bytes_def token_jv_def cursor_jv_def sql_cursor_def json_string_def utf8_def Let_def
        split: option.split)
  then show ?thesis unfolding encodeRecordCursor_def
    by (cases "token_bytes scope v i" rule: btoa.cases) auto
qed

section \<open>All pages\<close>

lemma page_size_pos: "0 < page_size n"
  by (cases n) (auto simp: page_size_def)

lemma sort_supported: "valid_cursor_value (sql_cursor v) \<Longrightarrow> cursorValueSupported (sql_cursor v)"
  by (cases v) (simp_all add: valid_cursor_value_def sql_cursor_def cursorValueSupported_def validCursorText_def)

text \<open>Where a client is: at the start, or behind the last of the rows it has.\<close>

definition at_position :: "string \<Rightarrow> placed_row page_table \<Rightarrow> string option \<Rightarrow> placed_row list \<Rightarrow> bool" where
  "at_position scope T cur pre \<longleftrightarrow> (case cur of
     None \<Rightarrow> pre = []
   | Some t \<Rightarrow> pre \<noteq> [] \<and> t = encodeRecordCursor scope (sql_cursor (pt_key T (last pre))) (pt_id T (last pre)))"

lemma position_page:
  assumes T: "T = record_table sl rows parts (length args) s" and ids: "ids_unique T (map bound args)"
    and dist: "distinct (where_rows T (map bound args))"
    and xs: "order_by (page_le T (OrderKey asc)) (where_rows T (map bound args)) = pre @ rest"
    and cur: "c = (if pre = [] then None else Some \<lparr>rc_value = sql_cursor (pt_key T (last pre)), rc_id = pt_id T (last pre)\<rparr>)"
  shows "selected_rows T (buildRecordPageSelection asc False (s = ''id'') args n (if pre = [] then 0 else off) c) = take (n + 1) rest"
proof (cases "pre = []")
  case True
  with first_page [OF T, of asc "s = ''id''" n 0] xs show ?thesis by (simp add: cur)
next
  case False
  then obtain pre' x where pre: "pre = pre' @ [x]" by (metis rev_exhaust)
  with xs have "order_by (page_le T (OrderKey asc)) (where_rows T (map bound args)) = pre' @ x # rest" by simp
  from rest_after [OF ids this dist] cursor_page [OF T ids, of asc n off x] this show ?thesis by (simp add: cur pre)
qed

lemma request_at_position:
  assumes "at_position scope T cur pre" "jget ps ''cursor'' = None" "pre \<noteq> [] \<longrightarrow> supported"
    and "pre \<noteq> [] \<longrightarrow> token_read env scope (sql_cursor (pt_key T (last pre))) (pt_id T (last pre))"
  shows "request_cursor env supported scope (with_cursor ps cur) =
    Inr (if pre = [] then None else Some \<lparr>rc_value = sql_cursor (pt_key T (last pre)), rc_id = pt_id T (last pre)\<rparr>)"
proof (cases cur)
  case None
  with assms(1,2) show ?thesis by (simp add: at_position_def request_cursor_def with_cursor_def param_def)
next
  case (Some t)
  let ?v = "sql_cursor (pt_key T (last pre))" and ?i = "pt_id T (last pre)"
  have pre: "pre \<noteq> []" "t = encodeRecordCursor scope ?v ?i" using assms(1) Some by (simp_all add: at_position_def)
  then have read: "decodeRecordCursor (le_decode env) t scope = Some \<lparr>rc_value = ?v, rc_id = ?i\<rparr>"
    using assms(4) by (simp add: token_read_def decode_encoded(1))
  have "t \<noteq> []" using pre(2) token_not_empty [OF refl] by simp
  then have "param (with_cursor ps cur) ''cursor'' = t" "t \<noteq> []" by (simp_all add: Some with_cursor_def param_def)
  moreover have "\<not> (\<exists>r n t. ?v = CvParts r n t)" by (rule cursor_of_row(2) [OF refl])
  ultimately show ?thesis using assms(3) pre(1) read by (cases ?v) (auto simp: request_cursor_def)
qed

text \<open>What a list needs to be read by its cursors.\<close>

definition pages_ready :: "list_env \<Rightarrow> placed_row list \<Rightarrow> string \<Rightarrow> access_policy option \<Rightarrow> query_object \<Rightarrow> perf_index list
    \<Rightarrow> query_params \<Rightarrow> where_part list \<Rightarrow> scalar list \<Rightarrow> bool" where
  "pages_ready env rows tenant pol ob ix ps parts args \<longleftrightarrow>
     distinct (map (\<lambda>r. (pr_tenant r, sr_id (pr_row r))) rows) \<and>
     buildWhere (le_parse env) (ob\<lparr>qo_indexed := ix \<noteq> []\<rparr>) tenant ps pol = Inr (parts, args) \<and>
     (sort_of ps \<in> set row_columns \<or> config_has ob (sort_of ps)) \<and>
     cursor_supported env (ob\<lparr>qo_indexed := ix \<noteq> []\<rparr>) ix (sort_of ps) (ascending ps) ps \<and>
     jget ps ''cursor'' = None \<and> page_number (param_number env ps ''page'') = Some 1 \<and>
     (\<forall>r \<in> set rows. selects (le_sqlite env) r parts args \<longrightarrow>
        token_read env (le_scope env (tenant, qo_name ob, parts, args, sort_of ps, ascending ps, page_size (param_number env ps ''perPage'')))
          (sql_cursor (sort_value (sort_of ps) r)) (sr_id (pr_row r)))"

definition record_le :: "string \<Rightarrow> bool \<Rightarrow> placed_row \<Rightarrow> placed_row \<Rightarrow> bool" where
  "record_le sortBy asc = row_le asc (\<lambda>r. [sort_value sortBy r]) (sr_id \<circ> pr_row)"

lemma config_has_indexed [simp]: "config_has (ob\<lparr>qo_indexed := b\<rparr>) f = config_has ob f"
  by (simp add: config_has_def)

lemma page_le_record: "page_le (record_table sl rows parts n s) (OrderKey asc) = record_le s asc"
  by (simp add: page_le_def record_le_def fun_eq_iff row_le_def)

lemma list_request:
  assumes ready: "pages_ready env rows tenant pol ob ix ps parts args"
    and xs: "order_by (record_le (sort_of ps) (ascending ps)) (filter (\<lambda>r. selects (le_sqlite env) r parts args) rows) = pre @ rest"
    and T: "T = record_table (le_sqlite env) rows parts (length args) (sort_of ps)"
    and scope: "scope = le_scope env (tenant, qo_name ob, parts, args, sort_of ps, ascending ps, n)"
    and n: "n = page_size (param_number env ps ''perPage'')" and pos: "at_position scope T cur pre"
  shows "\<exists>p. listRecords env rows tenant pol ob ix (with_cursor ps cur) = Inr p \<and>
    lp_rows p = map (parseRecord \<circ> pr_row) (take n rest) \<and> lp_total p = length pre + length rest \<and>
    (if n < length rest then \<exists>t. lp_next p = Some t \<and> at_position scope T (Some t) (pre @ take n rest) else lp_next p = None)"
proof -
  let ?ob = "ob\<lparr>qo_indexed := ix \<noteq> []\<rparr>" and ?asc = "ascending ps"
  note r = ready [unfolded pages_ready_def]
  have where_eq: "where_rows T (map bound args) = filter (\<lambda>r. selects (le_sqlite env) r parts args) rows"
    unfolding T by (rule table_where)
  have sorted: "order_by (page_le T (OrderKey ?asc)) (where_rows T (map bound args)) = pre @ rest"
    unfolding where_eq unfolding T page_le_record by (rule xs)
  have members: "set (pre @ rest) = {r \<in> set rows. selects (le_sqlite env) r parts args}"
    unfolding xs [symmetric] by auto
  have tenant: "pr_tenant r = tenant" if "r \<in> set (pre @ rest)" for r
    using selected_tenant [of "le_parse env" ?ob tenant ps pol parts args] r that members by blast
  have keys: "distinct (map (\<lambda>r. (pr_tenant r, pt_id T r)) rows)" using r by (simp add: T)
  then have dist: "distinct (where_rows T (map bound args))" unfolding where_eq by (simp add: distinct_map)
  have ids: "ids_unique T (map bound args)"
    unfolding ids_unique_def
  proof (rule inj_onI)
    fix a b
    assume ab: "a \<in> set (where_rows T (map bound args))" "b \<in> set (where_rows T (map bound args))" "pt_id T a = pt_id T b"
    then have "pr_tenant a = tenant" "pr_tenant b = tenant" using tenant members unfolding where_eq by auto
    with ab keys show "a = b" unfolding where_eq distinct_map inj_on_def by auto
  qed
  let ?c = "if pre = [] then None else Some \<lparr>rc_value = sql_cursor (pt_key T (last pre)), rc_id = pt_id T (last pre)\<rparr>"
  have last_read: "token_read env scope (sql_cursor (pt_key T x)) (pt_id T x)" if "x \<in> set (pre @ rest)" for x
    using r that members by (auto simp: T scope n)
  have same: "same_query (with_cursor ps cur) ps" by (rule same_query_cursor)
  have request: "request_cursor env True scope (with_cursor ps cur) = Inr ?c"
    using request_at_position [OF pos] r last_read [of "last pre"] by simp
  have supported: "cursor_supported env ?ob ix (sort_of ps) ?asc (with_cursor ps cur)"
    using r same_query_list(5) [OF same] by simp
  let ?off = "(1 - 1) * n"
  have sel: "selected_rows T (buildRecordPageSelection ?asc False (sort_of ps = ''id'') args n ?off ?c) = take (n + 1) rest"
    using position_page [OF T ids dist sorted refl, of n ?off] by (cases "pre = []") simp_all
  have "sorted_wrt (page_le T (OrderKey ?asc)) (pre @ rest)"
    unfolding sorted [symmetric] page_le_def by (rule rows.sorted_order_by)
  then have joined: "joined_rows T tenant ?asc (take (n + 1) rest) = take (n + 1) rest"
    using keys tenant members
    by (intro joined_same) (auto simp: T sorted_wrt_append sorted_wrt_take dest!: in_set_takeD)
  have where_ok: "buildWhere (le_parse env) ?ob tenant ps pol = Inr (parts, args)" using r by blast
  have sort_ok': "(sort_of ps \<notin> set row_columns \<and> \<not> config_has ob (sort_of ps)) = False" using r by blast
  have page_ok: "page_number (param_number env ps ''page'') = Some 1" using r by blast
  have qo_same: "qo_name ?ob = qo_name ob" by simp
  note sel' = sel
  have length_rows: "length (where_rows T (map bound args)) = length pre + length rest"
    using arg_cong [OF sorted, of length] by simp
  have answer: "listRecords env rows tenant pol ob ix (with_cursor ps cur) =
      Inr \<lparr>lp_rows = map (parseRecord \<circ> pr_row) (take n (take (n + 1) rest)), lp_total = length pre + length rest,
        lp_page = Some 1, lp_perPage = n, lp_next = next_cursor True scope T n (take (n + 1) rest)\<rparr>"
    unfolding listRecords_def Let_def same_query_list(1-4) [OF same] same_query_where [OF same] n [symmetric]
      where_ok sum.case prod.case scope [symmetric] T [symmetric] qo_same page_ok
    by (simp only: supported request sum.case sel' joined length_rows option.case sort_ok' config_has_indexed simp_thms if_True if_False option.distinct)
  have "n \<noteq> 0" using page_size_pos [of "param_number env ps ''perPage''"] by (simp add: n)
  have "if n < length rest then \<exists>t. next_cursor True scope T n (take (n + 1) rest) = Some t \<and> at_position scope T (Some t) (pre @ take n rest)
      else next_cursor True scope T n (take (n + 1) rest) = None"
  proof (cases "n < length rest")
    case True
    then have some: "take n rest \<noteq> []" using \<open>n \<noteq> 0\<close> by auto
    then have mem: "last (take n rest) \<in> set (pre @ rest)" by (metis UnCI in_set_takeD last_in_set set_append)
    have "valid_cursor_value (sql_cursor (pt_key T (last (take n rest))))"
      using last_read [OF mem] unfolding token_read_def by blast
    then have ok: "cursorValueSupported (sql_cursor (pt_key T (last (take n rest))))" by (rule sort_supported)
    have first: "take n (take (n + 1) rest) = take n rest" by simp
    have more: "n < length (take (n + 1) rest)" using True by simp
    have tail: "last (pre @ take n rest) = last (take n rest)" "pre @ take n rest \<noteq> []" using some by simp_all
    show ?thesis
      unfolding next_cursor_def first Let_def at_position_def option.case tail(1)
      using True some ok more tail(2) by auto
  qed (simp add: next_cursor_def Let_def)
  note step = this
  have first: "take n (take (n + 1) rest) = take n rest" by simp
  show ?thesis
    by (rule exI, rule conjI [OF answer]) (use step in \<open>simp only: list_page.select_convs first simp_thms\<close>)
qed

lemma pages_listed:
  assumes ready: "pages_ready env rows tenant pol ob ix ps parts args" and more: "length rows < k"
  shows "follow_pages k (\<lambda>cur. listRecords env rows tenant pol ob ix (with_cursor ps cur)) None =
    Some (map (parseRecord \<circ> pr_row)
      (order_by (record_le (sort_of ps) (ascending ps)) (filter (\<lambda>r. selects (le_sqlite env) r parts args) rows)))"
proof -
  let ?xs = "order_by (record_le (sort_of ps) (ascending ps)) (filter (\<lambda>r. selects (le_sqlite env) r parts args) rows)"
    and ?n = "page_size (param_number env ps ''perPage'')"
  let ?T = "record_table (le_sqlite env) rows parts (length args) (sort_of ps)"
    and ?scope = "le_scope env (tenant, qo_name ob, parts, args, sort_of ps, ascending ps, ?n)"
  have "length ?xs < k" using more length_filter_le [of "\<lambda>r. selects (le_sqlite env) r parts args" rows]
    unfolding length_order_by by linarith
  moreover have "at_position ?scope ?T None []" by (simp add: at_position_def)
  ultimately show ?thesis
    by (intro follow_pieces [where n = ?n and pre = "[]" and xs = ?xs and position = "at_position ?scope ?T"])
      (use list_request [OF ready _ refl refl refl] page_size_pos in \<open>metis append_Nil\<close>)+
qed

end
