(* ===== verification/Record_Properties.thy ===== *)
theory Record_Properties
  imports Record_Follow
begin

text \<open>
  The properties of the list of records: what a page holds, that the cursors lead through the whole
  list, and that a cursor is read back.
\<close>

section \<open>A page\<close>

text \<open>C38: The statement for a cursor selects the next rows: of the rows that satisfy the condition,
  in the order of the list, the first of those that come after the cursor, one more than a page
  holds. This holds for every sort and direction, for nulls, for keys of one value and of parts,
  and whatever rows have been added or removed since the cursor was made; so no row is shown again.
  Without a cursor the rows from the offset on are selected.\<close>
theorem page_after_cursor:
  assumes "ids_unique T (map bound args)" "length args = pt_arity T" "parts \<longrightarrow> parts_ok T"
  defines "in_order \<equiv> \<lambda>order. order_by (page_le T order) (where_rows T (map bound args))"
  shows "(\<forall>c. cursor_fits parts byId c \<longrightarrow>
      selected_rows T (buildRecordPageSelection asc parts byId args n off (Some c)) =
        take (n + 1) (filter (after_row T (list_order asc parts byId) (cursor_keys T byId c) (rc_id c)) (in_order (list_order asc parts byId)))) \<and>
    selected_rows T (buildRecordPageSelection asc parts byId args n off None) =
      take (n + 1) (drop off (in_order (list_order asc parts False)))"
  unfolding in_order_def using page_after [OF assms(1,2)] page_first [OF assms(2)] assms(3) by blast

definition number_table :: "nat page_table" where
  "number_table = \<lparr>pt_rows = [3, 1, 2, 4], pt_id = (\<lambda>n. replicate n CHR ''a''), pt_key = (\<lambda>n. if n = 4 then QNull else (if n = 1 then QNum 0 else QNum 1)),
     pt_parts = (\<lambda>_. []), pt_arity = 0, pt_where = (\<lambda>_ _. Some True), pt_number = (\<lambda>_. 0)\<rparr>"

theorem page_after_cursor_witness:
  "selected_rows number_table (buildRecordPageSelection False False False [] 2 0
     (Some \<lparr>rc_value = CvNumber 1, rc_id = ''aa''\<rparr>)) = [3, 1, 4]"
proof -
  have ids: "ids_unique number_table (map bound [])"
    by (auto simp: ids_unique_def number_table_def inj_on_def where_rows_def)
  have fits: "cursor_fits False False \<lparr>rc_value = CvNumber 1, rc_id = ''aa''\<rparr>" by (simp add: cursor_fits_def)
  have "selected_rows number_table (buildRecordPageSelection False False False [] 2 0 (Some \<lparr>rc_value = CvNumber 1, rc_id = ''aa''\<rparr>)) =
      take (2 + 1) (filter (after_row number_table (OrderKey False) [QNum 1] ''aa'')
        (order_by (page_le number_table (OrderKey False)) (where_rows number_table [])))"
    using page_after_cursor [OF ids, of False False False 2 0] fits
    by (simp add: number_table_def list_order_def cursor_keys_def bind_value_def bound_def)
  also have "\<dots> = [3, 1, 4]"
    by (simp add: number_table_def where_rows_def page_le_def row_le_def after_row_def text_lt_def utf8_def numeral_eq_Suc)
  finally show ?thesis .
qed

section \<open>All pages\<close>

text \<open>C39: On a table that stays as it is, a client that asks for the first page and then follows the cursors until there is none
  gets, after at most one request for each record, every record of the collection that the request
  selects and the policy lets it read, each once, in the order asked for.\<close>
theorem pages_complete:
  assumes "pages_ready env rows tenant pol ob ix ps parts args"
  shows "\<exists>listed. follow_pages (Suc (length rows)) (\<lambda>cur. listRecords env rows tenant pol ob ix (with_cursor ps cur)) None =
      Some (map (parseRecord \<circ> pr_row) listed) \<and>
    sorted_wrt (record_le (sort_of ps) (ascending ps)) listed \<and> distinct listed \<and>
    set listed = {r \<in> set rows. selects (le_sqlite env) r parts args} \<and>
    (\<forall>r \<in> set listed. pr_tenant r = tenant \<and> pr_object r = qo_name ob \<and>
      (\<forall>p. pol = Some p \<longrightarrow> readable_row p ob (pr_row r) \<longrightarrow> read_allowed p ob (pr_row r)))"
proof (intro exI conjI)
  let ?ob = "ob\<lparr>qo_indexed := ix \<noteq> []\<rparr>"
  let ?xs = "order_by (record_le (sort_of ps) (ascending ps)) (filter (\<lambda>r. selects (le_sqlite env) r parts args) rows)"
  show "follow_pages (Suc (length rows)) (\<lambda>cur. listRecords env rows tenant pol ob ix (with_cursor ps cur)) None =
      Some (map (parseRecord \<circ> pr_row) ?xs)"
    by (rule pages_listed [OF assms]) simp
  show "sorted_wrt (record_le (sort_of ps) (ascending ps)) ?xs"
    unfolding record_le_def by (rule rows.sorted_order_by)
  have "distinct rows" using assms by (simp add: pages_ready_def distinct_map)
  then show "distinct ?xs" by (metis distinct_filter mset_order_by mset_eq_imp_distinct_iff)
  show members: "set ?xs = {r \<in> set rows. selects (le_sqlite env) r parts args}" by auto
  have built: "buildWhere (le_parse env) ?ob tenant ps pol = Inr (parts, args)" using assms by (simp add: pages_ready_def)
  show "\<forall>r \<in> set ?xs. pr_tenant r = tenant \<and> pr_object r = qo_name ob \<and>
      (\<forall>p. pol = Some p \<longrightarrow> readable_row p ob (pr_row r) \<longrightarrow> read_allowed p ob (pr_row r))"
  proof (intro ballI conjI allI impI)
    fix r
    assume "r \<in> set ?xs"
    then have sel: "selects (le_sqlite env) r parts args" using members by blast
    from selected_tenant [OF built this] show "pr_tenant r = tenant" "pr_object r = qo_name ob" by simp_all
    fix p
    assume "pol = Some p" "readable_row p ob (pr_row r)"
    then show "read_allowed p ob (pr_row r)"
      using selected_allowed [OF built [unfolded \<open>pol = Some p\<close>], of r] sel by (simp add: readable_row_def read_allowed_def)
  qed
qed

definition sample_record :: "string \<Rightarrow> string \<Rightarrow> placed_row" where
  "sample_record i time = \<lparr>pr_tenant = ''t'', pr_object = ''deals'', pr_row = \<lparr>sr_id = i, sr_data = [], sr_created_at = time,
     sr_updated_at = time, sr_version = 1, sr_deleted_at = None, sr_created_by = None\<rparr>\<rparr>"

definition sample_deals :: query_object where
  "sample_deals = \<lparr>qo_name = ''deals'', qo_fields = [], qo_pipeline = ''stage'', qo_indexed = False\<rparr>"

definition sample_list :: list_env where
  "sample_list = \<lparr>le_parse = (\<lambda>_. None),
     le_decode = (\<lambda>bs. if bs = token_bytes ''s'' (CvText ''2'') ''x'' then Some (token_jv ''s'' (CvText ''2'') ''x'')
       else if bs = token_bytes ''s'' (CvText ''1'') ''y'' then Some (token_jv ''s'' (CvText ''1'') ''y'') else None),
     le_number = (\<lambda>_. Fin 1), le_scope = (\<lambda>_. ''s''), le_sqlite = \<lparr>sl_number_text = (\<lambda>_. []), sl_candidate = (\<lambda>_ _. True)\<rparr>\<rparr>"

definition sample_table :: "placed_row list" where
  "sample_table = [sample_record ''y'' ''1'', sample_record ''x'' ''2'']"

lemmas token_eval = encodeRecordCursor_def token_bytes_def token_jv_def cursor_jv_def json_string_def json_quote_def units_def
  esc_unit_def surrogate_def hi_surrogate_def utf8_def

lemma sample_tokens:
  "token_bytes ''s'' (CvText ''1'') ''y'' \<noteq> token_bytes ''s'' (CvText ''2'') ''x''"
  "length (encodeRecordCursor ''s'' (CvText ''1'') ''y'') \<le> 4096" "length (encodeRecordCursor ''s'' (CvText ''2'') ''x'') \<le> 4096"
  by (simp_all add: token_eval)

theorem pages_complete_witness:
  "\<exists>listed. follow_pages 3 (\<lambda>cur. listRecords sample_list sample_table ''t'' None sample_deals [] (with_cursor [(''perPage'', ''1'')] cur)) None =
     Some (map (parseRecord \<circ> pr_row) listed) \<and> set listed = set sample_table \<and> distinct listed"
proof -
  let ?ps = "[(''perPage'', ''1'')]"
  have built: "buildWhere (le_parse sample_list) (sample_deals\<lparr>qo_indexed := False\<rparr>) ''t'' ?ps None = Inr ([WhereBase False], [ScStr ''t'', ScStr ''deals''])"
    by (simp add: buildWhere_def check_query_def access_segment_def filter_segment_def base_segment_def search_segment_def
        stage_segment_def sample_deals_def param_def)
  have all: "selects sl r [WhereBase False] [ScStr ''t'', ScStr ''deals'']" if "r \<in> set sample_table" for sl r
    using that by (auto simp: selects_def all3_def sample_table_def sample_record_def bound_def)
  have "pages_ready sample_list sample_table ''t'' None sample_deals [] ?ps [WhereBase False] [ScStr ''t'', ScStr ''deals'']"
    using built sample_tokens
    by (auto simp: pages_ready_def sample_table_def sample_record_def sort_of_def row_columns_def cursor_supported_def
        param_number_def page_number_def token_read_def sample_list_def sort_value_def sql_cursor_def valid_cursor_value_def
        validCursorText_def)
  from pages_complete [OF this] show ?thesis
    using all by (auto simp: sample_table_def numeral_eq_Suc)
qed

section \<open>Cursors\<close>

text \<open>C40: A cursor is read back from its token under the scope it was made for, and under no other;
  \<open>atob\<close> undoes \<open>btoa\<close>. A sort key with a NUL, which the list hands out as a cursor, is refused
  when it comes back.\<close>
theorem cursor_roundtrip:
  assumes "parse (token_bytes scope v i) = Some (token_jv scope v i)" "length i \<le> 500" "length (encodeRecordCursor scope v i) \<le> 4096"
  shows "(valid_cursor_value v \<longrightarrow> decodeRecordCursor parse (encodeRecordCursor scope v i) scope = Some \<lparr>rc_value = v, rc_id = i\<rparr>) \<and>
    (\<forall>scope'. scope' \<noteq> scope \<longrightarrow> decodeRecordCursor parse (encodeRecordCursor scope v i) scope' = None) \<and>
    atob (encodeRecordCursor scope v i) = Some (token_bytes scope v i) \<and>
    (\<forall>s. v = CvText s \<and> CHR 0x00 \<in> set s \<and> length s \<le> 500 \<longrightarrow>
      cursorValueSupported v \<and> decodeRecordCursor parse (encodeRecordCursor scope v i) scope = None)"
proof (intro conjI allI impI)
  show bytes: "atob (encodeRecordCursor scope v i) = Some (token_bytes scope v i)"
    unfolding encodeRecordCursor_def by (rule atob_btoa [OF token_bytes_small])
  show "decodeRecordCursor parse (encodeRecordCursor scope v i) scope' = None" if "scope' \<noteq> scope" for scope'
    using assms bytes that by (auto simp: decodeRecordCursor_def token_jv_def)
  fix s
  assume s: "v = CvText s \<and> CHR 0x00 \<in> set s \<and> length s \<le> 500"
  then show "cursorValueSupported v" by (simp add: cursorValueSupported_def)
  show "decodeRecordCursor parse (encodeRecordCursor scope v i) scope = None"
    using assms bytes s
    by (auto simp: decodeRecordCursor_def token_jv_def cursor_jv_def read_cursor_value_def validCursorText_def)
qed (use decode_encoded(1) assms in blast)

theorem cursor_roundtrip_witness:
  "\<exists>parse. decodeRecordCursor parse (encodeRecordCursor ''s'' (CvText ''k'') ''i'') ''s'' = Some \<lparr>rc_value = CvText ''k'', rc_id = ''i''\<rparr>"
proof -
  let ?parse = "\<lambda>bs. if bs = token_bytes ''s'' (CvText ''k'') ''i'' then Some (token_jv ''s'' (CvText ''k'') ''i'') else None"
  have len: "length (encodeRecordCursor ''s'' (CvText ''k'') ''i'') \<le> 4096"
    by (simp add: encodeRecordCursor_def token_bytes_def token_jv_def cursor_jv_def json_string_def json_quote_def units_def
        esc_unit_def surrogate_def hi_surrogate_def utf8_def)
  have "valid_cursor_value (CvText ''k'')" by (simp add: valid_cursor_value_def validCursorText_def)
  then show ?thesis using cursor_roundtrip [of ?parse "''s''" "CvText ''k''" "''i''"] len by auto
qed

end
