(* ===== verification/Spec2Isabelle.thy ===== *)
theory Spec2Isabelle
  imports Policy_Properties Native_Properties Access_Properties Studio_Properties Studio_Guarantees Record_Properties
begin

text \<open>
  \<^bold>\<open>A verification library for savia.\<close> All paths are under \<open>src/\<close>.

  \<^bold>\<open>The program.\<close> savia is a business suite of several services. Three parts of it carry its
  own core logic and are modelled here.

  \<^item> The flow engine (\<open>apps/flows/packages/runtime\<close>, with \<open>types\<close> and \<open>utils\<close>) runs a graph
    of nodes: a workflow is validated and indexed, a scheduler starts every node whose inputs have
    settled, an executor collects and converts the inputs, calls the node and bounds what it
    returns, and the runtime admits, saves, bills and releases the run. A quota ledger
    (\<open>apps/flows/api/src/services/execution-policy.ts\<close>) admits runs and counts their steps for
    all workers.
  \<^item> The native workflows (\<open>apps/flows/packages/native\<close>, \<open>packages/studio-shared/src/workflows.ts\<close>)
    are step lists kept in tables: workers claim an execution with a lease, take one step per
    transaction and write its result in the same transaction.
  \<^item> The studio (\<open>packages/studio-server\<close>, \<open>packages/studio-shared\<close>) keeps collections of
    records: access policies become conditions of queries, lists are paged by cursors, records
    get defaults and computed fields and are checked field by field, tables are read from and
    written to CSV and imported row by row.

  The engine calls the ledger through the policy it is given (\<open>Policy_Run\<close>); the worker of the
  native workflows calls the same ledger, reads and writes records through the record services
  and shares their tables with the studio; the list of records uses the condition that the access
  policy is compiled to.

  \<^bold>\<open>Shared theories.\<close> \<open>Js_Prelude\<close>: maps, sets and lists as JavaScript keeps them (an object is
  an association list in insertion order), with the lemma collection \<open>jmap_simps\<close>. \<open>Js_Number\<close>:
  binary64 numbers as rationals with rounding, and their texts. \<open>Js_Value\<close>: values as trees and
  \<open>JSON.stringify\<close>.

  \<^bold>\<open>Flow engine.\<close> \<open>Flow_Types\<close> has the records of \<open>workflow.ts\<close> and \<open>execution-types.ts\<close>.
  One theory for each file of the runtime: \<open>Flow_Limits\<close> (\<open>resource-limits.ts\<close>), \<open>Flow_Graph\<close>
  (\<open>execution-graph.ts\<close>), \<open>Flow_Validate\<close> (\<open>validate-workflow.ts\<close>), \<open>Flow_State\<close>
  (\<open>execution-state.ts\<close>), \<open>Flow_Report\<close> (\<open>execution-report.ts\<close>), \<open>Flow_Scheduler\<close>
  (\<open>dataflow-scheduler.ts\<close>: the events between two awaits are the steps of a state machine),
  \<open>Flow_Mapper\<close> (\<open>parameter-mapper.ts\<close>), \<open>Flow_Registry\<close> (the registries and the rehearsal),
  \<open>Flow_Executor\<close> (\<open>node-executor.ts\<close>), \<open>Flow_Runtime\<close> (\<open>base-runtime.ts\<close> and the two
  runtimes). Calls to the host are kept as a list of events in their order. \<open>Flow_Run\<close> puts a
  run together; \<open>Flow_Properties\<close> and \<open>Flow_Guarantees\<close> state the properties and
  \<open>Flow_Samples\<close> has their inputs.

  \<^bold>\<open>Quota ledger.\<close> \<open>Execution_Policy\<close>: every SQL statement is one atomic function on the tables,
  and between two statements of one worker any other may run. \<open>Policy_Ledger\<close>: the bounds for
  every interleaving, and \<open>service_run\<close>, the statements that a call of the service is made of. \<open>Policy_Run\<close>: the contract between run and policy, and that the ledger
  satisfies it. \<open>Policy_Properties\<close>.

  \<^bold>\<open>Native workflows.\<close> \<open>Native_Workflow\<close> and \<open>Native_Values\<close> (definitions, their checks and
  what a step evaluates), \<open>Native_Cause\<close> (\<open>flow-causation.ts\<close>), \<open>Native_Store\<close> (rows and
  statements), \<open>Native_Webhook\<close>, \<open>Native_Runtime\<close> and \<open>Native_Worker\<close> (one turn of the worker),
  \<open>Native_Repository\<close>. \<open>Native_Graph\<close>: what the walk over a definition computes.
  \<open>Native_Reach\<close>: the step relation of all transactions and its invariant. \<open>Native_Steps\<close>: the
  functions take only these steps. \<open>Native_Outcome\<close> (what a turn comes to; a set of tables that the others do not leave stands for
  their interference), \<open>Native_References\<close>, \<open>Native_Samples\<close>, \<open>Native_Properties\<close>.

  \<^bold>\<open>Access policies.\<close> \<open>Access_Policy\<close> (\<open>access-control.ts\<close>, \<open>access-evaluator.ts\<close>),
  \<open>Access_Query\<close> (\<open>access-query.ts\<close>: a policy as a condition, with the meaning SQLite gives it in
  three-valued logic), \<open>Access_Records\<close> (\<open>parseRecord\<close> and the record checks of
  \<open>access-authorization.ts\<close>), \<open>Access_Search\<close> (\<open>query.ts\<close>: the condition of a request),
  \<open>Access_Select\<close> (what it selects and what it looks at), \<open>Access_Properties\<close>. The condition of a
  policy is compared with the evaluator on \<open>stored_record\<close>, the record of a row with the creator of
  its column; \<open>access_rows_exact\<close> says how the record that \<open>parseRecord\<close> makes can differ from it.

  \<^bold>\<open>Lists of records.\<close> \<open>Record_Cursor\<close> (\<open>record-pagination.ts\<close>), \<open>Record_Order\<close> (the order of
  SQL values and sorting; the locales \<open>strict_order\<close> and \<open>row_order\<close>), \<open>Record_Pages\<close>
  (\<open>record-page-query.ts\<close>: the statement, its text, its bindings and its rows), \<open>Record_Walk\<close>
  (what a page holds), \<open>Record_List\<close> (the handler of \<open>index.ts\<close>), \<open>Record_Follow\<close> (following
  the cursors), \<open>Record_Properties\<close>.

  \<^bold>\<open>Records and tables.\<close> \<open>Studio_Rules\<close> (\<open>prepareRecord\<close> of \<open>rules.ts\<close>), \<open>Studio_Csv\<close>
  (\<open>csv.ts\<close>), \<open>Studio_Properties\<close>. \<open>Studio_Validate\<close>: \<open>validateRecord\<close> of \<open>metadata.ts\<close> with
  the conditions of \<open>rules.ts\<close> and \<open>dependent-options.ts\<close>; \<open>Studio_Accept\<close>: the types of what a
  field may store, and that an accepted record keeps to them. \<open>Studio_Import\<close>: \<open>mapCsvRow\<close> and
  the handler \<open>importRows\<close> of \<open>operations.ts\<close>, which puts the reader, the check and the access
  policy together; what the services tell a row may depend on what the import created before, and
  \<open>same_answers\<close> says when a preview is not misled by that. \<open>Studio_Samples\<close>, \<open>Studio_Guarantees\<close>.

  \<^bold>\<open>Bounds and fuel.\<close> Every function returns. Where the recursion of the code is not structural
  the model carries a measure, or a fuel with a lemma that it is enough: the search for cycles has
  one for each node and edge, the analysis of skipped nodes and the walk over a native definition one
  more than there are nodes, the computed fields one more than there are fields, the bound of a
  predicate 202 (it stops at 200 nodes). The loop of the worker is bounded by the code itself. The
  client that follows cursors needs at most one request more than there are rows.

  \<^bold>\<open>What is taken from outside.\<close> Code that is not under \<open>src/\<close> is a parameter: \<open>JSON.parse\<close>,
  the parsing of dates and numbers, hashes, the object store, the transport of webhooks, the
  database's conversion of numbers to text and its search index, and the nodes themselves. SQL
  statements are given the meaning of the database's documentation, on tables that are lists of
  rows.

  \<^bold>\<open>Not modelled.\<close> Strings are lists of code units below 256, so surrogates and the byte order
  mark do not occur. Objects are trees: sharing, and the reordering of keys that look like array
  indexes, are left out; the two zeros are one. The record services of the native worker and of
  imports, and the validator of JSON schemas, are parameters about which nothing is assumed; those
  of an import answer for the row that asks and the creations called for before it. Of the
  SQL dialects only SQLite is used for conditions (the page statement is modelled for both). The
  schemas of collections and the texts of messages are not modelled: a collection is taken as its
  schema leaves it, and a message is a constructor. Nor are the maintained counts and cached pages
  of a list. User interfaces, HTTP routes, migrations, integrations with external services, the
  implementations of nodes, plugins and deployment are outside this library: they are glue to
  systems that cannot be read here, or have no state of their own.
\<close>

end
